(* ===== verification/Prelude.thy ===== *)
theory Prelude
  imports Main "HOL-Library.Word" "HOL-Library.Multiset" "HOL-Library.Signed_Division"
    "HOL-Library.AList"
begin

text \<open>
  Shared ground of the development: the result type of code that can stop at a
  \<^verbatim>\<open>PS_CHECK\<close>, a \<^verbatim>\<open>PS_LOG(FATAL)\<close> or undefined behaviour, the loop combinators the
  components use, and the parts of the C++ standard library that the sources rely on
  (\<^verbatim>\<open>std::sort\<close>, \<^verbatim>\<open>std::lower_bound\<close>, \<^verbatim>\<open>std::to_string\<close>, \<^verbatim>\<open>atoi\<close>) with their contracts.
\<close>

named_theorems res_simps \<open>rewriting of results: checks, binds and loops\<close>

section \<open>Results\<close>

text \<open>
  A failed \<^verbatim>\<open>PS_CHECK\<close> and \<^verbatim>\<open>PS_LOG(FATAL)\<close> end the process; \<^verbatim>\<open>std::vector::at\<close> throws;
  an access outside an array or through a null pointer is undefined behaviour; a call that waits
  for another thread does not return.  All five are the error side of a sum, so every such exit of
  the source is a branch of the model.
\<close>

datatype ps_error =
    CheckFailed string
  | LogFatal string
  | OutOfRange string
  | Undefined string
  | Blocked string

type_synonym 'a res = "ps_error + 'a"

definition bindR :: "'a res \<Rightarrow> ('a \<Rightarrow> 'b res) \<Rightarrow> 'b res" where
  "bindR m k = (case m of Inl e \<Rightarrow> Inl e | Inr x \<Rightarrow> k x)"

definition PS_CHECK :: "bool \<Rightarrow> string \<Rightarrow> 'a res \<Rightarrow> 'a res" where
  "PS_CHECK b s r = (if b then r else Inl (CheckFailed s))"

definition no_ub :: "bool \<Rightarrow> string \<Rightarrow> 'a res \<Rightarrow> 'a res" where
  "no_ub b s r = (if b then r else Inl (Undefined s))"

text \<open>A \<^verbatim>\<open>for\<close> loop over a container that updates a state and may stop early.\<close>

fun foldR :: "('a \<Rightarrow> 's \<Rightarrow> 's res) \<Rightarrow> 'a list \<Rightarrow> 's \<Rightarrow> 's res" where
  "foldR f [] s = Inr s"
| "foldR f (x # xs) s = bindR (f x s) (foldR f xs)"

text \<open>A loop that also rewrites the elements it visits (\<^verbatim>\<open>for (auto& x : xs)\<close>).\<close>

fun mapfoldR :: "('a \<Rightarrow> 's \<Rightarrow> ('a \<times> 's) res) \<Rightarrow> 'a list \<Rightarrow> 's \<Rightarrow> ('a list \<times> 's) res" where
  "mapfoldR f [] s = Inr ([], s)"
| "mapfoldR f (x # xs) s =
     bindR (f x s) (\<lambda>(y, s'). bindR (mapfoldR f xs s') (\<lambda>(ys, s''). Inr (y # ys, s'')))"

lemma bindR_simps [simp, res_simps]:
  "bindR (Inl e) k = Inl e"
  "bindR (Inr x) k = k x"
  by (simp_all add: bindR_def)

lemma bindR_eq_Inr [res_simps]: "bindR m k = Inr y \<longleftrightarrow> (\<exists>x. m = Inr x \<and> k x = Inr y)"
  by (cases m) auto

lemma bindR_eq_Inl [res_simps]:
  "bindR m k = Inl e \<longleftrightarrow> m = Inl e \<or> (\<exists>x. m = Inr x \<and> k x = Inl e)"
  by (cases m) auto

lemma PS_CHECK_simps [simp, res_simps]:
  "PS_CHECK True s r = r"
  "PS_CHECK False s r = Inl (CheckFailed s)"
  by (simp_all add: PS_CHECK_def)

lemma PS_CHECK_eq_Inr [res_simps]: "PS_CHECK b s r = Inr x \<longleftrightarrow> b \<and> r = Inr x"
  by (simp add: PS_CHECK_def)

lemma no_ub_simps [simp, res_simps]:
  "no_ub True s r = r"
  "no_ub False s r = Inl (Undefined s)"
  by (simp_all add: no_ub_def)

lemma no_ub_eq_Inr [res_simps]: "no_ub b s r = Inr x \<longleftrightarrow> b \<and> r = Inr x"
  by (simp add: no_ub_def)

lemma foldR_append: "foldR f (xs @ ys) s = bindR (foldR f xs s) (foldR f ys)"
proof (induction xs arbitrary: s)
  case (Cons x xs)
  then show ?case by (cases "f x s") simp_all
qed simp

text \<open>An invariant that every iteration keeps holds after the loop.\<close>

lemma foldR_invariant:
  assumes "foldR f xs s = Inr s'" and "P s"
    and "\<And>x s s'. x \<in> set xs \<Longrightarrow> P s \<Longrightarrow> f x s = Inr s' \<Longrightarrow> P s'"
  shows "P s'"
  using assms
proof (induction xs arbitrary: s)
  case (Cons x xs)
  from Cons.prems(1) obtain s1 where s1: "f x s = Inr s1" and rest: "foldR f xs s1 = Inr s'"
    by (auto simp: res_simps)
  have "P s1" by (rule Cons.prems(3) [OF _ Cons.prems(2) s1]) simp
  with rest show ?case
    by (rule Cons.IH) (rule Cons.prems(3), simp_all)
qed simp

lemma mapfoldR_length: "mapfoldR f xs s = Inr (ys, s') \<Longrightarrow> length ys = length xs"
proof (induction xs arbitrary: ys s s')
  case (Cons x xs)
  then show ?case by (auto simp: bindR_eq_Inr split: prod.splits)
qed simp

section \<open>Vectors\<close>

text \<open>\<^verbatim>\<open>v[i]\<close> on a \<^verbatim>\<open>std::vector\<close> with an \<^verbatim>\<open>int\<close> or \<^verbatim>\<open>size_t\<close> index.\<close>

definition vec_get :: "'a list \<Rightarrow> int \<Rightarrow> 'a res" where
  "vec_get xs i =
     (if 0 \<le> i \<and> nat i < length xs then Inr (xs ! nat i) else Inl (Undefined ''vector index''))"

definition vec_set :: "'a list \<Rightarrow> int \<Rightarrow> 'a \<Rightarrow> 'a list res" where
  "vec_set xs i v =
     (if 0 \<le> i \<and> nat i < length xs then Inr (xs[nat i := v]) else Inl (Undefined ''vector index''))"

lemma vec_get_int [simp]: "i < length xs \<Longrightarrow> vec_get xs (int i) = Inr (xs ! i)"
  by (simp add: vec_get_def)

lemma vec_get_eq_Inr:
  "vec_get xs i = Inr x \<longleftrightarrow> 0 \<le> i \<and> nat i < length xs \<and> x = xs ! nat i"
  by (auto simp: vec_get_def)

lemma vec_set_eq_Inr:
  "vec_set xs i v = Inr ys \<longleftrightarrow> 0 \<le> i \<and> nat i < length xs \<and> ys = xs[nat i := v]"
  by (auto simp: vec_set_def)

section \<open>Hash maps\<close>

text \<open>
  \<^verbatim>\<open>std::unordered_map\<close> as an association list with distinct keys: \<^verbatim>\<open>find\<close>, \<^verbatim>\<open>m[k] = v\<close>,
  \<^verbatim>\<open>insert\<close> (which keeps an existing entry), \<^verbatim>\<open>erase\<close> and reading through \<^verbatim>\<open>m[k]\<close>, which
  creates the entry with the value type's default.
\<close>

type_synonym ('k, 'v) umap = "('k \<times> 'v) list"

definition umap_wf :: "('k, 'v) umap \<Rightarrow> bool" where
  "umap_wf m \<longleftrightarrow> distinct (map fst m)"

definition umap_find :: "('k, 'v) umap \<Rightarrow> 'k \<Rightarrow> 'v option" where
  "umap_find m k = map_of m k"

definition umap_set :: "'k \<Rightarrow> 'v \<Rightarrow> ('k, 'v) umap \<Rightarrow> ('k, 'v) umap" where
  "umap_set k v m = AList.update k v m"

definition umap_insert :: "'k \<Rightarrow> 'v \<Rightarrow> ('k, 'v) umap \<Rightarrow> ('k, 'v) umap" where
  "umap_insert k v m = (case umap_find m k of None \<Rightarrow> umap_set k v m | Some _ \<Rightarrow> m)"

definition umap_erase :: "'k \<Rightarrow> ('k, 'v) umap \<Rightarrow> ('k, 'v) umap" where
  "umap_erase k m = AList.delete k m"

definition umap_index :: "'v \<Rightarrow> ('k, 'v) umap \<Rightarrow> 'k \<Rightarrow> 'v" where
  "umap_index d m k = (case umap_find m k of None \<Rightarrow> d | Some v \<Rightarrow> v)"

lemma umap_find_Nil [simp]: "umap_find [] k = None"
  by (simp add: umap_find_def)

lemma umap_find_set [simp]: "umap_find (umap_set k v m) j = (if j = k then Some v else umap_find m j)"
  by (simp add: umap_find_def umap_set_def update_conv')

lemma umap_find_erase [simp]: "umap_find (umap_erase k m) j = (if j = k then None else umap_find m j)"
  by (simp add: umap_find_def umap_erase_def delete_conv')

lemma umap_find_insert:
  "umap_find (umap_insert k v m) j = (if j = k \<and> umap_find m k = None then Some v else umap_find m j)"
  by (simp add: umap_insert_def split: option.split)

lemma umap_wf_Nil [simp]: "umap_wf []"
  by (simp add: umap_wf_def)

lemma umap_wf_set [simp]: "umap_wf m \<Longrightarrow> umap_wf (umap_set k v m)"
  by (simp add: umap_wf_def umap_set_def distinct_update)

lemma umap_wf_erase [simp]: "umap_wf m \<Longrightarrow> umap_wf (umap_erase k m)"
  by (simp add: umap_wf_def umap_erase_def distinct_delete)

lemma umap_wf_insert [simp]: "umap_wf m \<Longrightarrow> umap_wf (umap_insert k v m)"
  by (simp add: umap_insert_def split: option.split)

lemma umap_index_set [simp]:
  "umap_index d (umap_set k v m) j = (if j = k then v else umap_index d m j)"
  by (simp add: umap_index_def)

lemma umap_index_erase [simp]:
  "umap_index d (umap_erase k m) j = (if j = k then d else umap_index d m j)"
  by (simp add: umap_index_def)

lemma umap_find_Some_in: "umap_find m k = Some v \<Longrightarrow> (k, v) \<in> set m"
  by (simp add: umap_find_def map_of_SomeD)

section \<open>Library algorithms\<close>

unbundle bit_operations_syntax

text \<open>
  \<^verbatim>\<open>std::sort(first, last, lt)\<close>: the elements rearranged so that no later element is less
  than an earlier one.  The standard leaves the order of equivalent elements open; the
  model keeps their original order.
\<close>

fun sort_insert :: "('a \<Rightarrow> 'a \<Rightarrow> bool) \<Rightarrow> 'a \<Rightarrow> 'a list \<Rightarrow> 'a list" where
  "sort_insert lt x [] = [x]"
| "sort_insert lt x (y # ys) = (if lt y x then y # sort_insert lt x ys else x # y # ys)"

fun std_sort :: "('a \<Rightarrow> 'a \<Rightarrow> bool) \<Rightarrow> 'a list \<Rightarrow> 'a list" where
  "std_sort lt [] = []"
| "std_sort lt (x # xs) = sort_insert lt x (std_sort lt xs)"

text \<open>The \<^verbatim>\<open>Compare\<close> requirement of the standard (a strict weak ordering).\<close>

definition strict_weak_order :: "('a \<Rightarrow> 'a \<Rightarrow> bool) \<Rightarrow> bool" where
  "strict_weak_order lt \<longleftrightarrow>
     (\<forall>a b. lt a b \<longrightarrow> \<not> lt b a) \<and> (\<forall>a b c. \<not> lt b a \<longrightarrow> \<not> lt c b \<longrightarrow> \<not> lt c a)"

text \<open>\<^verbatim>\<open>std::lower_bound\<close>: the halving loop over \<^verbatim>\<open>[first, first + len)\<close>.\<close>

function lower_bound_loop :: "'a::linorder list \<Rightarrow> 'a \<Rightarrow> nat \<Rightarrow> nat \<Rightarrow> nat" where
  "lower_bound_loop xs v first len =
     (if len = 0 then first
      else if xs ! (first + len div 2) < v
        then lower_bound_loop xs v (first + len div 2 + 1) (len - len div 2 - 1)
        else lower_bound_loop xs v first (len div 2))"
  by pat_completeness auto
termination
  by (relation "measure (\<lambda>(xs, v, first, len). len)") auto

declare lower_bound_loop.simps [simp del]

definition lower_bound :: "'a::linorder list \<Rightarrow> 'a \<Rightarrow> nat" where
  "lower_bound xs v = lower_bound_loop xs v 0 (length xs)"

text \<open>\<^verbatim>\<open>std::to_string(int)\<close> and \<^verbatim>\<open>atoi\<close>.\<close>

definition digit_char :: "nat \<Rightarrow> char" where
  "digit_char d = char_of (48 + d)"

fun nat_digits :: "nat \<Rightarrow> string" where
  "nat_digits n = (if n < 10 then [digit_char n] else nat_digits (n div 10) @ [digit_char (n mod 10)])"

declare nat_digits.simps [simp del]

definition to_string :: "int \<Rightarrow> string" where
  "to_string i = (if i < 0 then CHR ''-'' # nat_digits (nat (- i)) else nat_digits (nat i))"

definition isspace :: "char \<Rightarrow> bool" where
  "isspace c \<longleftrightarrow> of_char c = (32::nat) \<or> (9 \<le> (of_char c :: nat) \<and> of_char c \<le> (13::nat))"

definition isdigit :: "char \<Rightarrow> bool" where
  "isdigit c \<longleftrightarrow> 48 \<le> (of_char c :: nat) \<and> of_char c \<le> (57::nat)"

definition digits_val :: "string \<Rightarrow> int" where
  "digits_val s = foldl (\<lambda>a c. a * 10 + (of_char c - 48)) 0 (takeWhile isdigit s)"

definition atoi :: "string \<Rightarrow> int" where
  "atoi s = (case dropWhile isspace s of
       [] \<Rightarrow> 0
     | c # r \<Rightarrow> if c = CHR ''-'' then - digits_val r
                else if c = CHR ''+'' then digits_val r else digits_val (c # r))"

text \<open>\<^verbatim>\<open>std::string::compare\<close>: the sign of the first difference, then of the lengths.\<close>

fun str_compare :: "string \<Rightarrow> string \<Rightarrow> int" where
  "str_compare [] [] = 0"
| "str_compare [] (y # ys) = -1"
| "str_compare (x # xs) [] = 1"
| "str_compare (x # xs) (y # ys) = (if x = y then str_compare xs ys else of_char x - of_char y)"

text \<open>The range of the C type \<^verbatim>\<open>int\<close>.\<close>

definition int32 :: "int \<Rightarrow> bool" where
  "int32 x \<longleftrightarrow> - (2 ^ 31) \<le> x \<and> x < 2 ^ 31"

text \<open>Conversion of a wider value to \<^verbatim>\<open>int\<close>: the low 32 bits, read as two's complement.\<close>

definition to_int32 :: "int \<Rightarrow> int" where
  "to_int32 x = signed_take_bit 31 x"

subsection \<open>Contracts\<close>

lemma to_int32_id [simp]: "int32 x \<Longrightarrow> to_int32 x = x"
  by (simp add: to_int32_def int32_def signed_take_bit_int_eq_self)

lemma int32_to_int32 [simp]: "int32 (to_int32 x)"
  using signed_take_bit_int_greater_eq_minus_exp [of 31 x] signed_take_bit_int_less_exp [of 31 x]
  by (simp add: to_int32_def int32_def)

lemma mset_sort_insert [simp]: "mset (sort_insert lt x xs) = add_mset x (mset xs)"
  by (induction xs) auto

lemma mset_std_sort [simp]: "mset (std_sort lt xs) = mset xs"
  by (induction xs) auto

lemma set_std_sort [simp]: "set (std_sort lt xs) = set xs"
  by (metis mset_std_sort set_mset_mset)

lemma length_std_sort [simp]: "length (std_sort lt xs) = length xs"
  by (metis mset_std_sort size_mset)

lemma distinct_map_std_sort [simp]: "distinct (map f (std_sort lt xs)) = distinct (map f xs)"
  by (rule mset_eq_imp_distinct_iff) simp

lemma sorted_sort_insert:
  assumes "strict_weak_order lt" and "sorted_wrt (\<lambda>a b. \<not> lt b a) xs"
  shows "sorted_wrt (\<lambda>a b. \<not> lt b a) (sort_insert lt x xs)"
  using assms(2)
proof (induction xs)
  case (Cons y ys)
  have set_ins: "set (sort_insert lt x ys) = insert x (set ys)"
    by (metis mset_sort_insert set_mset_add_mset_insert set_mset_mset)
  show ?case
  proof (cases "lt y x")
    case True
    then have "\<not> lt x y" using assms(1) unfolding strict_weak_order_def by blast
    with True Cons set_ins show ?thesis by auto
  next
    case False
    have "\<not> lt z x" if "z \<in> set ys" for z
    proof -
      from Cons.prems that have "\<not> lt z y" by simp
      with False assms(1) show ?thesis unfolding strict_weak_order_def by blast
    qed
    with False Cons.prems show ?thesis by simp
  qed
qed simp

lemma sorted_std_sort:
  "strict_weak_order lt \<Longrightarrow> sorted_wrt (\<lambda>a b. \<not> lt b a) (std_sort lt xs)"
  by (induction xs) (auto intro: sorted_sort_insert)

lemma lower_bound_loop_split:
  assumes "sorted xs" and "first + len \<le> length xs"
    and "\<forall>i < first. xs ! i < v" and "\<forall>i. first + len \<le> i \<and> i < length xs \<longrightarrow> \<not> xs ! i < v"
  shows "lower_bound_loop xs v first len \<le> length xs \<and>
         (\<forall>i < lower_bound_loop xs v first len. xs ! i < v) \<and>
         (\<forall>i. lower_bound_loop xs v first len \<le> i \<and> i < length xs \<longrightarrow> \<not> xs ! i < v)"
  using assms
proof (induction xs v first len rule: lower_bound_loop.induct)
  case (1 xs v first len)
  let ?m = "first + len div 2"
  consider "len = 0" | "len \<noteq> 0" "xs ! ?m < v" | "len \<noteq> 0" "\<not> xs ! ?m < v" by blast
  then show ?case
  proof cases
    case 1
    with "1.prems" show ?thesis by (simp add: lower_bound_loop.simps [of xs v first 0])
  next
    case 2
    let ?first = "first + len div 2 + 1" and ?len = "len - len div 2 - 1"
    have eq: "lower_bound_loop xs v first len = lower_bound_loop xs v ?first ?len"
      using 2 by (simp add: lower_bound_loop.simps [of xs v first len])
    have end_eq: "?first + ?len = first + len" using 2(1) by auto
    have below: "\<forall>i < ?first. xs ! i < v"
    proof (intro allI impI)
      fix i assume "i < ?first"
      then have "xs ! i \<le> xs ! ?m"
        using "1.prems"(1,2) 2(1) by (intro sorted_nth_mono) auto
      with 2(2) show "xs ! i < v" by simp
    qed
    show ?thesis unfolding eq
      by (rule "1.IH"(1) [OF 2 "1.prems"(1) _ below])
        (use "1.prems"(2,4) end_eq in simp_all)
  next
    case 3
    have eq: "lower_bound_loop xs v first len = lower_bound_loop xs v first (len div 2)"
      using 3 by (simp add: lower_bound_loop.simps [of xs v first len])
    have above: "\<forall>i. ?m \<le> i \<and> i < length xs \<longrightarrow> \<not> xs ! i < v"
    proof (intro allI impI)
      fix i assume i: "?m \<le> i \<and> i < length xs"
      then have "xs ! ?m \<le> xs ! i" using "1.prems"(1) by (intro sorted_nth_mono) auto
      with 3(2) show "\<not> xs ! i < v" by simp
    qed
    show ?thesis unfolding eq
      by (rule "1.IH"(2) [OF 3 "1.prems"(1) _ "1.prems"(3) above]) (use "1.prems"(2) in simp)
  qed
qed

lemma length_takeWhile_split:
  assumes "r \<le> length xs" and "\<forall>i < r. P (xs ! i)" and "\<forall>i. r \<le> i \<and> i < length xs \<longrightarrow> \<not> P (xs ! i)"
  shows "length (takeWhile P xs) = r"
proof (rule antisym)
  show "length (takeWhile P xs) \<le> r"
  proof (rule ccontr)
    assume "\<not> length (takeWhile P xs) \<le> r"
    then have "r < length (takeWhile P xs)" by simp
    then have "P (takeWhile P xs ! r)" using nth_mem set_takeWhileD by fast
    with \<open>r < length (takeWhile P xs)\<close> have "P (xs ! r)" by (simp add: takeWhile_nth)
    moreover have "r < length xs"
      using \<open>r < length (takeWhile P xs)\<close> length_takeWhile_le [of P xs] by simp
    ultimately show False using assms(3) by blast
  qed
  show "r \<le> length (takeWhile P xs)"
    by (rule ccontr) (use assms(1,2) nth_length_takeWhile [of P xs] in auto)
qed

text \<open>The halving loop finds the first position that is not below the key.\<close>

lemma lower_bound_eq_takeWhile:
  assumes "sorted xs"
  shows "lower_bound xs v = length (takeWhile (\<lambda>x. x < v) xs)"
proof -
  have "lower_bound xs v \<le> length xs \<and> (\<forall>i < lower_bound xs v. xs ! i < v) \<and>
        (\<forall>i. lower_bound xs v \<le> i \<and> i < length xs \<longrightarrow> \<not> xs ! i < v)"
    unfolding lower_bound_def by (rule lower_bound_loop_split [OF assms]) auto
  then show ?thesis
    by (intro length_takeWhile_split [symmetric]) blast+
qed

lemma lower_bound_le [simp]: "sorted xs \<Longrightarrow> lower_bound xs v \<le> length xs"
  by (simp add: lower_bound_eq_takeWhile length_takeWhile_le)

lemma str_compare_refl [simp]: "str_compare s s = 0"
  by (induction s) auto

lemma str_compare_eq_0: "str_compare a b = 0 \<longleftrightarrow> a = b"
  by (induction a b rule: str_compare.induct) (auto simp: of_char_eq_iff)

lemma str_compare_flip: "0 < str_compare a b \<longleftrightarrow> str_compare b a < 0"
  by (induction a b rule: str_compare.induct) auto

lemma str_compare_trans: "0 \<le> str_compare a b \<Longrightarrow> 0 \<le> str_compare b c \<Longrightarrow> 0 \<le> str_compare a c"
proof (induction a b arbitrary: c rule: str_compare.induct)
  case (3 x xs)
  then show ?case by (cases c) auto
next
  case (4 x xs y ys)
  then show ?case by (cases c) (auto split: if_splits)
qed auto

end
