(* ===== verification/Env.thy ===== *)
theory Env
  imports Prelude
begin

text \<open>
  \<^verbatim>\<open>include/ps/internal/env.h\<close> and the environment-driven helpers of \<^verbatim>\<open>utils.h\<close>: the
  key-value overlay over the process environment, integer and string lookups with
  defaults, and the CPU core that \<^verbatim>\<open>BindCpuCore\<close> pins a thread to.
\<close>

record environment =
  env_kvs :: "(string, string) umap"
  env_sys :: "string \<Rightarrow> string option"

definition env_Init :: "(string, string) umap \<Rightarrow> environment \<Rightarrow> environment" where
  "env_Init envs e = e\<lparr>env_kvs := envs\<rparr>"

definition env_find :: "environment \<Rightarrow> string \<Rightarrow> string option" where
  "env_find e k = (if umap_find (env_kvs e) k = None then env_sys e k else umap_find (env_kvs e) k)"

definition env_set :: "string \<Rightarrow> string \<Rightarrow> environment \<Rightarrow> environment" where
  "env_set k v e = e\<lparr>env_kvs := umap_set k v (env_kvs e)\<rparr>"

text \<open>The integer overload returns the value written to \<^verbatim>\<open>*val\<close> and the status code.\<close>

definition env_find_int :: "environment \<Rightarrow> string \<Rightarrow> int \<Rightarrow> int \<times> int" where
  "env_find_int e k default_val =
     (let val_str = (if umap_find (env_kvs e) k = None then env_sys e k else umap_find (env_kvs e) k)
      in case val_str of None \<Rightarrow> (default_val, -1) | Some s \<Rightarrow> (atoi s, 0))"

definition env_find_string :: "environment \<Rightarrow> string \<Rightarrow> string \<Rightarrow> string" where
  "env_find_string e k default_value =
     (case umap_find (env_kvs e) k of
        Some v \<Rightarrow> v
      | None \<Rightarrow> (case env_sys e k of None \<Rightarrow> default_value | Some v \<Rightarrow> v))"

definition GetEnv :: "environment \<Rightarrow> string \<Rightarrow> int \<Rightarrow> int" where
  "GetEnv e k default_val = (case env_find e k of None \<Rightarrow> default_val | Some v \<Rightarrow> atoi v)"

definition GetEnv_str :: "environment \<Rightarrow> string \<Rightarrow> string \<Rightarrow> string" where
  "GetEnv_str e k default_val = (case env_find e k of None \<Rightarrow> default_val | Some v \<Rightarrow> v)"

text \<open>
  The core index that \<^verbatim>\<open>BindCpuCore\<close> computes from the GPU number, the thread's offset and
  the machine layout, and the list of cores put into the affinity mask (\<open>None\<close>: the
  thread is left unbound).
\<close>

definition cpu_core_of :: "int \<Rightarrow> int \<Rightarrow> int \<Rightarrow> int \<Rightarrow> int \<Rightarrow> int" where
  "cpu_core_of gpu offset cores_per_gpu cores_per_socket start_offset =
     (let offset = (if offset \<ge> cores_per_gpu then cores_per_gpu - 1 else offset);
          basic_core_id = gpu * cores_per_gpu + start_offset + offset
      in if gpu < 2 then basic_core_id
         else if gpu < 4 then basic_core_id + cores_per_socket sdiv 2 - cores_per_gpu * 2
         else if gpu < 6 then basic_core_id + cores_per_socket - cores_per_gpu * 4
         else basic_core_id + cores_per_socket sdiv 2 * 3 - cores_per_gpu * 6)"

definition BindCpuCore :: "environment \<Rightarrow> int \<Rightarrow> int \<Rightarrow> int list option" where
  "BindCpuCore e offset core_count =
     (let gpu = fst (env_find_int e ''STEPMESH_GPU'' (-1));
          bind_enable = fst (env_find_int e ''STEPMESH_BIND_CPU_CORE'' 0)
      in if gpu \<le> -1 \<or> bind_enable = 0 then None
         else let cores_per_socket = fst (env_find_int e ''STEPMESH_CPU_CORES_PER_SOCKET'' 48);
                  cores_per_gpu = fst (env_find_int e ''STEPMESH_CPU_CORES_PER_GPU'' 5);
                  start_offset = fst (env_find_int e ''STEPMESH_CPU_START_OFFSET'' 10);
                  cpu_core = cpu_core_of gpu offset cores_per_gpu cores_per_socket start_offset
              in Some (map (\<lambda>i. cpu_core + int i) [0..<nat core_count]))"

section \<open>Facts\<close>

lemma env_find_set [simp]: "env_find (env_set k v e) j = (if j = k then Some v else env_find e j)"
  by (simp add: env_find_def env_set_def)

lemma env_find_int_eq: "fst (env_find_int e k d) = GetEnv e k d"
  by (simp add: env_find_int_def GetEnv_def env_find_def split: option.split)

lemma env_find_string_eq: "env_find_string e k d = GetEnv_str e k d"
  by (simp add: env_find_string_def GetEnv_str_def env_find_def split: option.split)

lemma sdiv_2_nonneg: "0 \<le> (a::int) \<Longrightarrow> a sdiv 2 = a div 2"
  by (simp add: signed_divide_int_def sgn_if)

lemma cpu_core_of_inj:
  assumes "0 \<le> g1" "g1 < 8" "0 \<le> g2" "g2 < 8"
    and "0 \<le> o1" "o1 < cpg" "0 \<le> o2" "o2 < cpg"
    and layout: "2 * cpg \<le> cps div 2" "even cps"
    and same: "cpu_core_of g1 o1 cpg cps start = cpu_core_of g2 o2 cpg cps start"
  shows "g1 = g2 \<and> o1 = o2"
proof -
  have cps: "0 \<le> cps" using assms(5,6) layout by linarith
  obtain h where h: "cps = 2 * h" using layout(2) by blast
  have "g1 \<in> {0, 1, 2, 3, 4, 5, 6, 7}" "g2 \<in> {0, 1, 2, 3, 4, 5, 6, 7}" using assms(1-4) by auto
  then show ?thesis
    using same assms(5-8) layout(1) cps h
    by (auto simp: cpu_core_of_def Let_def sdiv_2_nonneg)
qed

text \<open>
  Two threads with different offsets, or of different GPUs, are never pinned to the
  same core: on a machine whose half socket holds the cores of two GPUs, the mapping of
  (GPU, offset) to a core is injective for the eight GPUs the layout covers.
\<close>

theorem BindCpuCore_injective:
  assumes "0 \<le> g1" "g1 < 8" "0 \<le> g2" "g2 < 8"
    and "0 \<le> o1" "o1 < cpg" "0 \<le> o2" "o2 < cpg"
    and "2 * cpg \<le> cps div 2" "even cps"
    and "(g1, o1) \<noteq> (g2, o2)"
  shows "cpu_core_of g1 o1 cpg cps start \<noteq> cpu_core_of g2 o2 cpg cps start"
  using assms cpu_core_of_inj [of g1 g2 o1 cpg o2 cps start] by blast

text \<open>With the defaults (5 cores per GPU, 48 per socket, first core 10): GPU 3 and GPU 4.\<close>

theorem BindCpuCore_injective_witness:
  "cpu_core_of 3 4 5 48 10 = 43 \<and> cpu_core_of 4 0 5 48 10 = 58 \<and>
   cpu_core_of 3 4 5 48 10 \<noteq> cpu_core_of 4 0 5 48 10"
proof (intro conjI)
  show "cpu_core_of 3 4 5 48 10 \<noteq> cpu_core_of 4 0 5 48 10"
    by (rule BindCpuCore_injective) simp_all
qed (simp_all add: cpu_core_of_def Let_def sdiv_2_nonneg)

end
