(* ===== verification/Bytes.thy ===== *)
theory Bytes
  imports Prelude
begin

text \<open>
  Objects as bytes.  The transports ship C structs and \<^verbatim>\<open>SArray\<close> payloads by copying their
  memory, so the wire format is the little-endian x86-64 object representation.  Each
  scalar type has an encoder and a decoder; the locale \<open>fixed_codec\<close> states what the
  layers above rely on (a constant width and the round trip), and arrays of such objects
  (\<^verbatim>\<open>reinterpret_cast\<close> of a payload) are read back element by element.
\<close>

type_synonym byte = "8 word"

section \<open>Little-endian integers\<close>

fun le_bytes :: "nat \<Rightarrow> int \<Rightarrow> byte list" where
  "le_bytes 0 x = []"
| "le_bytes (Suc n) x = word_of_int x # le_bytes n (x div 256)"

fun le_int :: "byte list \<Rightarrow> int" where
  "le_int [] = 0"
| "le_int (b # bs) = uint b + 256 * le_int bs"

definition u64_bytes :: "64 word \<Rightarrow> byte list" where
  "u64_bytes x = le_bytes 8 (uint x)"

definition u64_of :: "byte list \<Rightarrow> 64 word" where
  "u64_of bs = word_of_int (le_int bs)"

definition i32_bytes :: "int \<Rightarrow> byte list" where
  "i32_bytes x = le_bytes 4 x"

definition i32_of :: "byte list \<Rightarrow> int" where
  "i32_of bs = (if le_int bs < 2 ^ 31 then le_int bs else le_int bs - 2 ^ 32)"

definition i64_bytes :: "int \<Rightarrow> byte list" where
  "i64_bytes x = le_bytes 8 x"

definition i64_of :: "byte list \<Rightarrow> int" where
  "i64_of bs = (if le_int bs < 2 ^ 63 then le_int bs else le_int bs - 2 ^ 64)"

definition int64 :: "int \<Rightarrow> bool" where
  "int64 x \<longleftrightarrow> - (2 ^ 63) \<le> x \<and> x < 2 ^ 63"

definition bool_bytes :: "bool \<Rightarrow> byte list" where
  "bool_bytes b = [if b then 1 else 0]"

definition bool_of :: "byte list \<Rightarrow> bool" where
  "bool_of bs \<longleftrightarrow> hd bs \<noteq> 0"

definition char_byte :: "char \<Rightarrow> byte" where
  "char_byte c = of_nat (of_char c)"

definition byte_char :: "byte \<Rightarrow> char" where
  "byte_char b = char_of (unat b)"

definition byte_bytes :: "byte \<Rightarrow> byte list" where
  "byte_bytes b = [b]"

section \<open>Arrays of fixed-width objects\<close>

definition enc_array :: "('a \<Rightarrow> byte list) \<Rightarrow> 'a list \<Rightarrow> byte list" where
  "enc_array enc xs = concat (map enc xs)"

text \<open>Read \<open>n\<close> objects of \<open>w\<close> bytes from the start of a buffer.\<close>

fun dec_array :: "(byte list \<Rightarrow> 'a) \<Rightarrow> nat \<Rightarrow> nat \<Rightarrow> byte list \<Rightarrow> 'a list" where
  "dec_array dec w 0 bs = []"
| "dec_array dec w (Suc n) bs = dec (take w bs) # dec_array dec w n (drop w bs)"

lemma length_dec_array [simp]: "length (dec_array dec w n bs) = n"
  by (induction n arbitrary: bs) auto

locale fixed_codec =
  fixes enc :: "'a \<Rightarrow> byte list" and dec :: "byte list \<Rightarrow> 'a" and w :: nat and ok :: "'a \<Rightarrow> bool"
  assumes length_enc [simp]: "length (enc x) = w"
    and dec_enc [simp]: "ok x \<Longrightarrow> dec (enc x) = x"
begin

lemma take_enc [simp]: "take w (enc x @ r) = enc x"
  by simp

lemma drop_enc [simp]: "drop w (enc x @ r) = r"
  by simp

lemma enc_inj: "ok x \<Longrightarrow> ok y \<Longrightarrow> enc x = enc y \<Longrightarrow> x = y"
  by (metis dec_enc)

lemma length_enc_array [simp]: "length (enc_array enc xs) = w * length xs"
  by (induction xs) (auto simp: enc_array_def)

lemma dec_enc_array:
  "list_all ok xs \<Longrightarrow> dec_array dec w (length xs) (enc_array enc xs @ r) = xs"
  by (induction xs) (auto simp: enc_array_def)

lemma dec_enc_array_exact:
  "list_all ok xs \<Longrightarrow> n = length xs \<Longrightarrow> dec_array dec w n (enc_array enc xs) = xs"
  using dec_enc_array [of xs "[]"] by simp

lemma take_enc_array [simp]: "n = w * length xs \<Longrightarrow> take n (enc_array enc xs @ r) = enc_array enc xs"
  by simp

lemma drop_enc_array [simp]: "n = w * length xs \<Longrightarrow> drop n (enc_array enc xs @ r) = r"
  by simp

end

section \<open>The scalar types are codecs\<close>

lemma length_le_bytes [simp]: "length (le_bytes n x) = n"
  by (induction n arbitrary: x) auto

lemma le_int_le_bytes: "le_int (le_bytes n x) = x mod 256 ^ n"
proof (induction n arbitrary: x)
  case (Suc n)
  have "x mod (256 * 256 ^ n) = x mod 256 + 256 * (x div 256 mod 256 ^ n)"
    by (simp add: zmod_zmult2_eq)
  with Suc show ?case by (simp add: uint_word_of_int)
qed simp

lemma le_int_nonneg: "0 \<le> le_int bs"
  by (induction bs) auto

lemma u64_round: "u64_of (u64_bytes x) = x"
proof -
  have "uint x < 256 ^ 8" using uint_lt2p [of x] by simp
  then have "uint x mod 256 ^ 8 = uint x" by simp
  then show ?thesis by (simp add: u64_of_def u64_bytes_def le_int_le_bytes)
qed

lemma signed_round:
  fixes x :: int
  assumes "- h \<le> x" and "x < h" and "m = 2 * h"
  shows "(if x mod m < h then x mod m else x mod m - m) = x"
proof (cases "0 \<le> x")
  case True
  with assms show ?thesis by simp
next
  case False
  with assms have "x mod m = x + m"
    by (intro int_mod_pos_eq [where q = "-1"]) auto
  with assms False show ?thesis by simp
qed

lemma i32_round: "int32 x \<Longrightarrow> i32_of (i32_bytes x) = x"
  using signed_round [of 2147483648 x 4294967296]
  by (simp add: i32_of_def i32_bytes_def le_int_le_bytes int32_def split: if_splits)

lemma i64_round: "int64 x \<Longrightarrow> i64_of (i64_bytes x) = x"
  using signed_round [of 9223372036854775808 x 18446744073709551616]
  by (simp add: i64_of_def i64_bytes_def le_int_le_bytes int64_def split: if_splits)

lemma byte_char_round [simp]: "byte_char (char_byte c) = c"
  by (simp add: byte_char_def char_byte_def unat_of_nat)

lemma char_byte_eq_0 [simp]: "char_byte c = 0 \<longleftrightarrow> c = char_of (0::nat)"
proof
  assume "char_byte c = 0"
  then have "byte_char (char_byte c) = byte_char 0" by (rule arg_cong)
  then show "c = char_of (0::nat)" unfolding byte_char_round by (simp add: byte_char_def)
qed (simp add: char_byte_def)

interpretation u64: fixed_codec u64_bytes u64_of 8 "\<lambda>_. True"
  by unfold_locales (simp add: u64_bytes_def, simp add: u64_round)

interpretation i32: fixed_codec i32_bytes i32_of 4 int32
  by unfold_locales (simp add: i32_bytes_def, simp add: i32_round)

interpretation i64: fixed_codec i64_bytes i64_of 8 int64
  by unfold_locales (simp add: i64_bytes_def, simp add: i64_round)

interpretation flag: fixed_codec bool_bytes bool_of 1 "\<lambda>_. True"
  by unfold_locales (simp_all add: bool_bytes_def bool_of_def)

interpretation octet: fixed_codec byte_bytes hd 1 "\<lambda>_. True"
  by unfold_locales (simp_all add: byte_bytes_def)

end
