(* ===== verification/Message.thy ===== *)
theory Message
  imports Bytes
begin

text \<open>
  The data model of \<^verbatim>\<open>include/ps/internal/message.h\<close>, \<^verbatim>\<open>base.h\<close>, \<^verbatim>\<open>trace.h\<close> and
  \<^verbatim>\<open>multi_qp.h\<close>: node descriptions, control records, message metadata and payloads, with
  the operations the header defines on them.  Debug printers are left out.
\<close>

section \<open>Constants and enumerations\<close>

type_synonym key = "64 word"

definition kEmpty :: int where "kEmpty = 32767"
definition kScheduler :: int where "kScheduler = 1"
definition kServerGroup :: int where "kServerGroup = 2"
definition kWorkerGroup :: int where "kWorkerGroup = 4"
definition kMaxKey :: key where "kMaxKey = - 1"
definition QP_MAX_NUM :: nat where "QP_MAX_NUM = 2"

datatype DataType =
  CHAR | INT8 | INT16 | INT32 | INT64 | UINT8 | UINT16 | UINT32 | UINT64 | FLOAT | DOUBLE | OTHER

datatype DeviceType = UNK | CPU | GPU

datatype Role = SERVER | WORKER | SCHEDULER | JOINT

datatype Command =
    EMPTY | TERMINATE | ADD_NODE | BARRIER | ACK | HEARTBEAT | BOOTSTRAP
  | ADDR_REQUEST | ADDR_RESOLVED | INSTANCE_BARRIER

text \<open>
  The element types an \<^verbatim>\<open>SArray\<close> is instantiated with.  \<^verbatim>\<open>char\<close> is a type of its own in C++,
  different from \<^verbatim>\<open>int8_t\<close> (signed char) and from \<^verbatim>\<open>uint8_t\<close> (unsigned char).
\<close>

datatype cxx_type =
    Ty_char | Ty_int8 | Ty_int16 | Ty_int32 | Ty_int64
  | Ty_uint8 | Ty_uint16 | Ty_uint32 | Ty_uint64 | Ty_float | Ty_double | Ty_other

definition GetDataType :: "cxx_type \<Rightarrow> DataType" where
  "GetDataType v =
     (if v = Ty_int8 then INT8
      else if v = Ty_int16 then INT16
      else if v = Ty_int32 then INT32
      else if v = Ty_int64 then INT64
      else if v = Ty_uint8 then UINT8
      else if v = Ty_uint16 then UINT16
      else if v = Ty_uint32 then UINT32
      else if v = Ty_uint64 then UINT64
      else if v = Ty_float then FLOAT
      else if v = Ty_double then DOUBLE
      else OTHER)"

section \<open>Nodes, control records and metadata\<close>

record node =
  n_role :: Role
  n_id :: int
  n_customer_id :: int
  n_hostname :: string
  n_num_ports :: int
  n_ports :: "int list"
  n_dev_types :: "int list"
  n_dev_ids :: "int list"
  n_port :: int
  n_is_recovery :: bool
  n_endpoint_name :: "byte list"
  n_endpoint_name_len :: "64 word"
  n_aux_id :: int

record control =
  c_cmd :: Command
  c_node :: "node list"
  c_barrier_group :: int
  c_msg_sig :: "64 word"

record trace =
  t_pre_start :: "64 word"
  t_start :: "64 word"
  t_postsend :: "64 word"
  t_postrecv :: "64 word"
  t_process :: "64 word"

record meta =
  m_head :: int
  m_app_id :: int
  m_customer_id :: int
  m_timestamp :: int
  m_sender :: int
  m_recver :: int
  m_request :: bool
  m_push :: bool
  m_simple_app :: bool
  m_body :: string
  m_data_type :: "DataType list"
  m_src_dev_type :: DeviceType
  m_src_dev_id :: int
  m_dst_dev_type :: DeviceType
  m_dst_dev_id :: int
  m_control :: control
  m_data_size :: int
  m_key :: key
  m_addr :: "64 word"
  m_val_len :: int
  m_option :: int
  m_sid :: int
  m_is_tensor :: int
  m_dtype :: int
  m_shape :: "int list"
  m_tensor_ev :: "nat option"
  m_request_trace :: trace
  m_response_trace :: trace
  m_slave_qp_counter :: "64 word list"
  m_slave_qp_num :: int

text \<open>
  The bytes a message payload refers to, with the device fields of the \<^verbatim>\<open>SArray\<close> that
  holds the pointer (the zero-copy view of \<^verbatim>\<open>sarray.h\<close>, seen through its contents).
\<close>

record sarr =
  sa_bytes :: "byte list"
  sa_addr :: "64 word"
  sa_src_type :: DeviceType
  sa_src_id :: int
  sa_dst_type :: DeviceType
  sa_dst_id :: int

record message =
  msg_meta :: meta
  msg_data :: "sarr list"

definition Trace0 :: trace where
  "Trace0 = \<lparr>t_pre_start = 0, t_start = 0, t_postsend = 0, t_postrecv = 0, t_process = 0\<rparr>"

definition Control0 :: control where
  "Control0 = \<lparr>c_cmd = EMPTY, c_node = [], c_barrier_group = 0, c_msg_sig = 0\<rparr>"

definition control_empty :: "control \<Rightarrow> bool" where
  "control_empty c \<longleftrightarrow> c_cmd c = EMPTY"

definition Meta0 :: meta where
  "Meta0 = \<lparr>m_head = kEmpty, m_app_id = kEmpty, m_customer_id = kEmpty, m_timestamp = kEmpty,
     m_sender = kEmpty, m_recver = kEmpty, m_request = False, m_push = False, m_simple_app = False,
     m_body = [], m_data_type = [], m_src_dev_type = UNK, m_src_dev_id = -1, m_dst_dev_type = UNK,
     m_dst_dev_id = -1, m_control = Control0, m_data_size = 0, m_key = 0, m_addr = 0, m_val_len = 0,
     m_option = 0, m_sid = 0, m_is_tensor = 0, m_dtype = 0, m_shape = [], m_tensor_ev = None,
     m_request_trace = Trace0, m_response_trace = Trace0,
     m_slave_qp_counter = replicate QP_MAX_NUM 0, m_slave_qp_num = 0\<rparr>"

definition Message0 :: message where
  "Message0 = \<lparr>msg_meta = Meta0, msg_data = []\<rparr>"

abbreviation upd_meta :: "(meta \<Rightarrow> meta) \<Rightarrow> message \<Rightarrow> message" where
  "upd_meta f m \<equiv> m\<lparr>msg_meta := f (msg_meta m)\<rparr>"

abbreviation msg_cmd :: "message \<Rightarrow> Command" where
  "msg_cmd m \<equiv> c_cmd (m_control (msg_meta m))"

section \<open>Payloads\<close>

definition AddData :: "cxx_type \<Rightarrow> sarr \<Rightarrow> message \<Rightarrow> message res" where
  "AddData v val m =
     PS_CHECK (length (msg_data m) = length (m_data_type (msg_meta m))) ''data.size''
      (let mt = (msg_meta m)
             \<lparr>m_data_type := m_data_type (msg_meta m) @ [GetDataType v],
              m_data_size := to_int32 (m_data_size (msg_meta m) + int (length (sa_bytes val)))\<rparr>;
           data = msg_data m @ [val];
           mt' = (if length data = 2
                  then mt\<lparr>m_src_dev_type := sa_src_type val, m_src_dev_id := sa_src_id val,
                          m_dst_dev_type := sa_dst_type val, m_dst_dev_id := sa_dst_id val\<rparr>
                  else mt)
       in Inr \<lparr>msg_meta = mt', msg_data = data\<rparr>)"

text \<open>\<^verbatim>\<open>Van::IsValidPushpull\<close>: neither a control message nor a \<^verbatim>\<open>SimpleApp\<close> message.\<close>

definition IsValidPushpull :: "message \<Rightarrow> bool" where
  "IsValidPushpull m =
     (if \<not> control_empty (m_control (msg_meta m)) then False
      else if m_simple_app (msg_meta m) then False else True)"

section \<open>Tensor events\<close>

record tensor_event =
  te_recorded :: bool
  te_released :: bool

definition TensorEvent0 :: tensor_event where
  "TensorEvent0 = \<lparr>te_recorded = False, te_released = True\<rparr>"

definition te_Record :: "bool \<Rightarrow> tensor_event \<Rightarrow> tensor_event" where
  "te_Record backend_ok e = e\<lparr>te_recorded := backend_ok\<rparr>"

definition te_Sync :: "tensor_event \<Rightarrow> tensor_event" where
  "te_Sync e = e\<lparr>te_recorded := False\<rparr>"

definition te_Release :: "tensor_event \<Rightarrow> tensor_event" where
  "te_Release e = e\<lparr>te_released := True\<rparr>"

definition te_Occupy :: "tensor_event \<Rightarrow> tensor_event \<times> bool" where
  "te_Occupy e = (if te_released e then (e\<lparr>te_released := False\<rparr>, True) else (e, False))"

section \<open>Facts\<close>

text \<open>A message carries as many data types as payload arrays, and their total size.\<close>

definition data_wf :: "message \<Rightarrow> bool" where
  "data_wf m \<longleftrightarrow> length (msg_data m) = length (m_data_type (msg_meta m)) \<and>
     m_data_size (msg_meta m) = to_int32 (int (sum_list (map (length \<circ> sa_bytes) (msg_data m))))"

lemma data_wf_Message0 [simp]: "data_wf Message0"
  by (simp add: data_wf_def Message0_def Meta0_def to_int32_def)

lemma to_int32_add: "to_int32 (to_int32 a + b) = to_int32 (a + b)"
  unfolding to_int32_def by (metis signed_take_bit_add signed_take_bit_signed_take_bit min.idem)

lemma AddData_total: "data_wf m \<Longrightarrow> \<exists>m'. AddData v val m = Inr m' \<and> data_wf m'"
  by (auto simp: AddData_def data_wf_def Let_def to_int32_add)

lemma AddData_Inr:
  "AddData v val m = Inr m' \<Longrightarrow>
     msg_data m' = msg_data m @ [val] \<and>
     m_data_type (msg_meta m') = m_data_type (msg_meta m) @ [GetDataType v]"
  by (auto simp: AddData_def res_simps Let_def split: if_splits)

end
