(* ===== verification/Postoffice.thy ===== *)
theory Postoffice
  imports Message Env
begin

text \<open>
  \<^verbatim>\<open>src/postoffice.cc\<close>, \<^verbatim>\<open>include/ps/internal/postoffice.h\<close> and \<^verbatim>\<open>range.h\<close>: the registry each
  process keeps of node ids, customers, barriers, heartbeats and server key ranges.  The
  parts of \<^verbatim>\<open>Start\<close>, \<^verbatim>\<open>Finalize\<close> and \<^verbatim>\<open>DoBarrier\<close> that talk to the van are composed with it
  in the theory of the node as a whole.
\<close>

section \<open>Ranks and ids\<close>

definition WorkerRankToID :: "int \<Rightarrow> int" where
  "WorkerRankToID rank = rank * 2 + 9"

definition ServerRankToID :: "int \<Rightarrow> int" where
  "ServerRankToID rank = rank * 2 + 8"

definition IDtoRank :: "int \<Rightarrow> int" where
  "IDtoRank i = max ((i - 8) sdiv 2) 0"

record Range =
  r_begin :: "64 word"
  r_end :: "64 word"

definition range_size :: "Range \<Rightarrow> 64 word" where
  "range_size r = r_end r - r_begin r"

section \<open>State\<close>

text \<open>A customer is referred to by a pointer; here by the index of its object.\<close>

type_synonym customer_ptr = nat

datatype van_kind = MultiVan | ZMQVan | RDMAVan | FabricVan | UCXVan | TPVan

record postoffice =
  po_instance_idx :: int
  po_started :: bool
  po_init_stage :: int
  po_preferred_rank :: int
  po_is_worker :: bool
  po_is_server :: bool
  po_is_scheduler :: bool
  po_num_workers :: int
  po_num_servers :: int
  po_group_size :: int
  po_verbose :: int
  po_van_kind :: "van_kind option"
  po_customers :: "(int, (int, customer_ptr) umap) umap"
  po_node_ids :: "(int, int list) umap"
  po_server_key_ranges :: "Range list"
  po_barrier_done :: "(int, (int, bool) umap) umap"
  po_heartbeats :: "(int, int) umap"
  po_start_time :: int

definition Postoffice_new :: "int \<Rightarrow> postoffice" where
  "Postoffice_new instance_idx =
     \<lparr>po_instance_idx = instance_idx, po_started = False, po_init_stage = 0, po_preferred_rank = 0,
      po_is_worker = False, po_is_server = False, po_is_scheduler = False, po_num_workers = 0,
      po_num_servers = 0, po_group_size = 0, po_verbose = 0, po_van_kind = None, po_customers = [],
      po_node_ids = [], po_server_key_ranges = [], po_barrier_done = [], po_heartbeats = [],
      po_start_time = 0\<rparr>"

definition num_worker_instances :: "postoffice \<Rightarrow> int" where
  "num_worker_instances po = po_num_workers po * po_group_size po"

definition num_server_instances :: "postoffice \<Rightarrow> int" where
  "num_server_instances po = po_num_servers po * po_group_size po"

definition GroupWorkerRankToInstanceID :: "postoffice \<Rightarrow> int \<Rightarrow> int \<Rightarrow> int" where
  "GroupWorkerRankToInstanceID po rank instance_idx =
     (let instance_rank = rank * po_group_size po + instance_idx in WorkerRankToID instance_rank)"

definition GroupServerRankToInstanceID :: "postoffice \<Rightarrow> int \<Rightarrow> int \<Rightarrow> int" where
  "GroupServerRankToInstanceID po rank instance_idx =
     (let instance_rank = rank * po_group_size po + instance_idx in ServerRankToID instance_rank)"

definition InstanceIDtoGroupRank :: "postoffice \<Rightarrow> int \<Rightarrow> int" where
  "InstanceIDtoGroupRank po i =
     (let instance_rank = IDtoRank i; group_rank = instance_rank sdiv po_group_size po in group_rank)"

section \<open>The static instances\<close>

record po_static =
  ps_scheduler :: "postoffice option"
  ps_worker_group :: "postoffice list"
  ps_server_group :: "postoffice list"
  ps_initialized :: bool

definition Postoffice_Init :: "environment \<Rightarrow> Role \<Rightarrow> po_static \<Rightarrow> po_static res" where
  "Postoffice_Init e role st =
     (if ps_initialized st then Inr st
      else let group_size = fst (env_find_int e ''DMLC_GROUP_SIZE'' 1) in
        PS_CHECK (group_size \<ge> 1) ''group_size''
          (let st1 = (if role = SCHEDULER then st\<lparr>ps_scheduler := Some (Postoffice_new 0)\<rparr> else st);
               news = map (\<lambda>i. Postoffice_new (int i)) [0..<nat group_size];
               st2 = (if role = WORKER \<or> role = JOINT
                      then st1\<lparr>ps_worker_group := ps_worker_group st1 @ news\<rparr> else st1);
               st3 = (if role = SERVER \<or> role = JOINT
                      then st2\<lparr>ps_server_group := ps_server_group st2 @ news\<rparr> else st2)
           in Inr (st3\<lparr>ps_initialized := True\<rparr>)))"

definition vec_at :: "'a list \<Rightarrow> int \<Rightarrow> 'a res" where
  "vec_at xs i = (if 0 \<le> i \<and> nat i < length xs then Inr (xs ! nat i) else Inl (OutOfRange ''vector::at''))"

definition Postoffice_GetServer :: "po_static \<Rightarrow> int \<Rightarrow> postoffice res" where
  "Postoffice_GetServer st index =
     PS_CHECK (ps_initialized st) ''Please call ps::StartPS() first''
       (case ps_scheduler st of Some po \<Rightarrow> Inr po | None \<Rightarrow> vec_at (ps_server_group st) index)"

definition Postoffice_GetWorker :: "po_static \<Rightarrow> int \<Rightarrow> postoffice res" where
  "Postoffice_GetWorker st index =
     PS_CHECK (ps_initialized st) ''Please call ps::StartPS() first'' (vec_at (ps_worker_group st) index)"

definition Postoffice_Get :: "po_static \<Rightarrow> postoffice res" where
  "Postoffice_Get st =
     PS_CHECK (ps_initialized st) ''Please call ps::StartPS() first''
       (case ps_scheduler st of
          Some po \<Rightarrow> Inr po
        | None \<Rightarrow> if ps_server_group st \<noteq> [] then vec_at (ps_server_group st) 0
                  else vec_at (ps_worker_group st) 0)"

section \<open>Choosing the van and reading the environment\<close>

text \<open>The compile-time switches that decide which vans are built in.\<close>

record build_flags =
  use_rdma :: bool
  use_fabric :: bool
  use_ucx :: bool
  use_tp :: bool

definition Van_Create :: "build_flags \<Rightarrow> string \<Rightarrow> van_kind res" where
  "Van_Create b type =
     (if type = ''multivan'' then Inr MultiVan
      else if type = ''zmq'' \<or> type = ''0'' then Inr ZMQVan
      else if use_rdma b \<and> type = ''ibverbs'' then Inr RDMAVan
      else if use_rdma b \<and> type = ''1'' then Inr RDMAVan
      else if use_fabric b \<and> type = ''fabric'' then Inr FabricVan
      else if use_ucx b \<and> type = ''ucx'' then Inr UCXVan
      else if use_tp b \<and> type = ''tp'' then Inr TPVan
      else Inl (LogFatal ''unsupported van type''))"

definition check_notnull :: "'a option \<Rightarrow> 'a res" where
  "check_notnull x = (case x of None \<Rightarrow> Inl (CheckFailed ''not null'') | Some v \<Rightarrow> Inr v)"

definition InitEnvironment :: "build_flags \<Rightarrow> environment \<Rightarrow> postoffice \<Rightarrow> postoffice res" where
  "InitEnvironment b e po =
     (let van_type = (case env_find e ''DMLC_ENABLE_RDMA'' of
                        None \<Rightarrow> GetEnv_str e ''DMLC_PS_VAN_TYPE'' ''zmq''
                      | Some v \<Rightarrow> v);
          enable_ucx = GetEnv e ''DMLC_ENABLE_UCX'' 0;
          po1 = po\<lparr>po_group_size :=
                    (case env_find e ''DMLC_GROUP_SIZE'' of Some v \<Rightarrow> atoi v | None \<Rightarrow> 1)\<rparr>
      in bindR (Van_Create b (if enable_ucx \<noteq> 0 then ''ucx'' else van_type)) (\<lambda>vk.
         bindR (check_notnull (env_find e ''DMLC_NUM_WORKER'')) (\<lambda>nw.
         bindR (check_notnull (env_find e ''DMLC_NUM_SERVER'')) (\<lambda>ns.
         bindR (check_notnull (env_find e ''DMLC_ROLE'')) (\<lambda>role.
           Inr (po1\<lparr>po_van_kind := Some vk, po_num_workers := atoi nw, po_num_servers := atoi ns,
                    po_is_worker := (role = ''worker''), po_is_server := (role = ''server''),
                    po_is_scheduler := (role = ''scheduler''),
                    po_verbose := GetEnv e ''PS_VERBOSE'' 0\<rparr>))))))"

section \<open>Node ids\<close>

definition push_id :: "int \<Rightarrow> int \<Rightarrow> (int, int list) umap \<Rightarrow> (int, int list) umap" where
  "push_id i g m = umap_set g (umap_index [] m g @ [i]) m"

definition init_node_ids :: "postoffice \<Rightarrow> (int, int list) umap \<Rightarrow> (int, int list) umap" where
  "init_node_ids po m =
     (let add_worker = (\<lambda>i m. let j = WorkerRankToID (int i) in
            fold (push_id j) [j, kWorkerGroup, kWorkerGroup + kServerGroup, kWorkerGroup + kScheduler,
                              kWorkerGroup + kServerGroup + kScheduler] m);
          add_server = (\<lambda>i m. let j = ServerRankToID (int i) in
            fold (push_id j) [j, kServerGroup, kWorkerGroup + kServerGroup, kServerGroup + kScheduler,
                              kWorkerGroup + kServerGroup + kScheduler] m);
          m1 = fold add_worker [0..<nat (po_num_workers po * po_group_size po)] m;
          m2 = fold add_server [0..<nat (po_num_servers po * po_group_size po)] m1
      in fold (push_id kScheduler) [kScheduler, kScheduler + kServerGroup + kWorkerGroup,
               kScheduler + kWorkerGroup, kScheduler + kServerGroup] m2)"

definition GetNodeIDs :: "postoffice \<Rightarrow> int \<Rightarrow> int list res" where
  "GetNodeIDs po node_id =
     (case umap_find (po_node_ids po) node_id of
        None \<Rightarrow> Inl (CheckFailed ''node doesn't exist'')
      | Some ids \<Rightarrow> Inr ids)"

definition set_role :: "Role \<Rightarrow> postoffice \<Rightarrow> postoffice res" where
  "set_role role po =
     (case role of
        WORKER \<Rightarrow> Inr (po\<lparr>po_is_worker := True, po_is_server := False, po_is_scheduler := False\<rparr>)
      | SERVER \<Rightarrow> Inr (po\<lparr>po_is_worker := False, po_is_server := True, po_is_scheduler := False\<rparr>)
      | SCHEDULER \<Rightarrow> Inr (po\<lparr>po_is_worker := False, po_is_server := False, po_is_scheduler := True\<rparr>)
      | JOINT \<Rightarrow> Inl (CheckFailed ''Unexpected role''))"

text \<open>\<^verbatim>\<open>Postoffice::Start\<close> up to the call of \<^verbatim>\<open>van_->Start\<close>.\<close>

definition Postoffice_Start_init ::
  "build_flags \<Rightarrow> environment \<Rightarrow> Role \<Rightarrow> int \<Rightarrow> postoffice \<Rightarrow> postoffice res" where
  "Postoffice_Start_init b e role rank po =
     (let po0 = po\<lparr>po_started := True\<rparr> in
      PS_CHECK (rank \<ge> -1) ''rank''
       (let po1 = po0\<lparr>po_preferred_rank := rank\<rparr> in
        if po_init_stage po1 = 0 then
          bindR (InitEnvironment b e po1) (\<lambda>po2.
          bindR (set_role role po2) (\<lambda>po3.
            Inr (po3\<lparr>po_node_ids := init_node_ids po3 (po_node_ids po3),
                     po_init_stage := po_init_stage po3 + 1\<rparr>)))
        else Inr po1))"

definition Postoffice_Start_time :: "int \<Rightarrow> postoffice \<Rightarrow> postoffice" where
  "Postoffice_Start_time now po =
     (if po_init_stage po = 1
      then po\<lparr>po_start_time := now, po_init_stage := po_init_stage po + 1\<rparr> else po)"

text \<open>The registry part of \<^verbatim>\<open>Postoffice::Finalize\<close> for customer 0.\<close>

definition Postoffice_Finalize_clear :: "postoffice \<Rightarrow> postoffice" where
  "Postoffice_Finalize_clear po =
     po\<lparr>po_num_workers := 0, po_num_servers := 0, po_init_stage := 0, po_customers := [],
        po_node_ids := [], po_barrier_done := [], po_server_key_ranges := [], po_heartbeats := []\<rparr>"

section \<open>Customers\<close>

definition AddCustomer :: "int \<Rightarrow> int \<Rightarrow> customer_ptr \<Rightarrow> postoffice \<Rightarrow> postoffice res" where
  "AddCustomer app_id customer_id customer po =
     (let in_app = umap_index [] (po_customers po) app_id in
      PS_CHECK (umap_find in_app customer_id = None) ''customer_id already exists''
       (let po1 = po\<lparr>po_customers := umap_set app_id (umap_insert customer_id customer in_app) (po_customers po)\<rparr>;
            bar = umap_index [] (po_barrier_done po1) app_id
        in Inr (po1\<lparr>po_barrier_done :=
                  umap_set app_id (umap_insert customer_id False bar) (po_barrier_done po1)\<rparr>)))"

definition RemoveCustomer :: "int \<Rightarrow> int \<Rightarrow> postoffice \<Rightarrow> postoffice" where
  "RemoveCustomer app_id customer_id po =
     (let in_app = umap_erase customer_id (umap_index [] (po_customers po) app_id);
          cs = umap_set app_id in_app (po_customers po)
      in po\<lparr>po_customers := (if in_app = [] then umap_erase app_id cs else cs)\<rparr>)"

text \<open>
  \<^verbatim>\<open>GetCustomer\<close> polls the registry once per millisecond until the application appears.
  \<open>snaps i\<close> is the registry at poll \<open>i\<close>; other threads may change it in between.
\<close>

fun GetCustomer_poll ::
  "(int, (int, customer_ptr) umap) umap list \<Rightarrow> int \<Rightarrow> int \<Rightarrow> customer_ptr option" where
  "GetCustomer_poll [] app_id customer_id = None"
| "GetCustomer_poll (m # ms) app_id customer_id =
     (case umap_find m app_id of
        Some in_app \<Rightarrow> umap_find in_app customer_id
      | None \<Rightarrow> GetCustomer_poll ms app_id customer_id)"

definition GetCustomer ::
  "(nat \<Rightarrow> (int, (int, customer_ptr) umap) umap) \<Rightarrow> int \<Rightarrow> int \<Rightarrow> int \<Rightarrow> customer_ptr option" where
  "GetCustomer snaps app_id customer_id timeout =
     GetCustomer_poll (map snaps [0..<nat (timeout * 1000 + 1)]) app_id customer_id"

section \<open>Barriers, heartbeats and key ranges\<close>

definition barrier_flag :: "postoffice \<Rightarrow> int \<Rightarrow> bool" where
  "barrier_flag po customer_id =
     umap_index False (umap_index [] (po_barrier_done po) 0) customer_id"

text \<open>
  \<^verbatim>\<open>DoBarrier\<close> up to the wait: the request for the scheduler, or nothing when the group has a
  single member.  The caller then blocks until \<open>barrier_flag\<close> holds.
\<close>

definition DoBarrier_request ::
  "bool \<Rightarrow> Role \<Rightarrow> int \<Rightarrow> int \<Rightarrow> int \<Rightarrow> bool \<Rightarrow> postoffice \<Rightarrow> (postoffice \<times> message option) res" where
  "DoBarrier_request ready role timestamp customer_id node_group instance_barrier po =
     bindR (GetNodeIDs po node_group) (\<lambda>ids.
      let node_group_size = int (length ids) in
      if instance_barrier \<and> node_group_size \<le> 1 then Inr (po, None)
      else if \<not> instance_barrier \<and> node_group_size \<le> po_group_size po then Inr (po, None)
      else PS_CHECK ready ''call Start() first''
       (PS_CHECK (role = SCHEDULER \<longrightarrow> node_group AND kScheduler \<noteq> 0) ''node_group & kScheduler''
       (PS_CHECK (role = WORKER \<longrightarrow> node_group AND kWorkerGroup \<noteq> 0) ''node_group & kWorkerGroup''
       (PS_CHECK (role = SERVER \<longrightarrow> node_group AND kServerGroup \<noteq> 0) ''node_group & kServerGroup''
        (let flags = umap_set customer_id False (umap_index [] (po_barrier_done po) 0);
             req = Message0\<lparr>msg_meta := Meta0
                \<lparr>m_recver := kScheduler, m_request := True,
                 m_control := Control0\<lparr>c_cmd := (if instance_barrier then INSTANCE_BARRIER else BARRIER),
                                       c_barrier_group := node_group\<rparr>,
                 m_app_id := 0, m_customer_id := customer_id, m_timestamp := timestamp\<rparr>\<rparr>
         in Inr (po\<lparr>po_barrier_done := umap_set 0 flags (po_barrier_done po)\<rparr>, Some req))))))"

definition Manage :: "message \<Rightarrow> postoffice \<Rightarrow> postoffice res" where
  "Manage recv po =
     (let mt = msg_meta recv; ctrl = m_control mt in
      PS_CHECK (\<not> control_empty ctrl) ''control''
       (if (c_cmd ctrl = BARRIER \<or> c_cmd ctrl = INSTANCE_BARRIER) \<and> \<not> m_request mt
        then let flags = umap_index [] (po_barrier_done po) (m_app_id mt);
                 flags' = fold (\<lambda>c m. umap_set (int c) True m) [0..<length flags] flags
             in Inr (po\<lparr>po_barrier_done := umap_set (m_app_id mt) flags' (po_barrier_done po)\<rparr>)
        else Inr po))"

definition UpdateHeartbeat :: "int \<Rightarrow> int \<Rightarrow> postoffice \<Rightarrow> postoffice" where
  "UpdateHeartbeat node_id t po = po\<lparr>po_heartbeats := umap_set node_id t (po_heartbeats po)\<rparr>"

definition GetDeadNodes :: "bool \<Rightarrow> int \<Rightarrow> int \<Rightarrow> postoffice \<Rightarrow> int list res" where
  "GetDeadNodes ready curr_time t po =
     (if \<not> ready \<or> t = 0 then Inr []
      else bindR (GetNodeIDs po (if po_is_scheduler po then kWorkerGroup + kServerGroup else kScheduler))
        (\<lambda>nodes. Inr (filter (\<lambda>r.
            (case umap_find (po_heartbeats po) r of
               None \<Rightarrow> True
             | Some seen \<Rightarrow> seen + t < curr_time) \<and> po_start_time po + t < curr_time) nodes)))"

definition GetServerKeyRanges :: "postoffice \<Rightarrow> postoffice \<times> Range list" where
  "GetServerKeyRanges po =
     (let po' = (if po_server_key_ranges po = []
        then po\<lparr>po_server_key_ranges := map (\<lambda>i.
               \<lparr>r_begin = kMaxKey div word_of_int (po_num_servers po) * of_nat i,
                r_end = kMaxKey div word_of_int (po_num_servers po) * of_nat (i + 1)\<rparr>)
               [0..<nat (po_num_servers po)]\<rparr>
        else po)
      in (po', po_server_key_ranges po'))"

section \<open>Properties: ids\<close>

lemma IDtoRank_Worker [simp]: "0 \<le> r \<Longrightarrow> IDtoRank (WorkerRankToID r) = r"
  by (simp add: IDtoRank_def WorkerRankToID_def sdiv_2_nonneg)

lemma IDtoRank_Server [simp]: "0 \<le> r \<Longrightarrow> IDtoRank (ServerRankToID r) = r"
  by (simp add: IDtoRank_def ServerRankToID_def sdiv_2_nonneg)

lemma WorkerRankToID_inj [simp]: "WorkerRankToID a = WorkerRankToID b \<longleftrightarrow> a = b"
  by (simp add: WorkerRankToID_def)

lemma ServerRankToID_inj [simp]: "ServerRankToID a = ServerRankToID b \<longleftrightarrow> a = b"
  by (simp add: ServerRankToID_def)

lemma Worker_neq_Server [simp]: "WorkerRankToID a \<noteq> ServerRankToID b"
proof
  assume "WorkerRankToID a = ServerRankToID b"
  then have "2 * (b - a) = 1" by (simp add: WorkerRankToID_def ServerRankToID_def)
  then show False by presburger
qed

lemma rank_ids_ge: "0 \<le> r \<Longrightarrow> 9 \<le> WorkerRankToID r" "0 \<le> r \<Longrightarrow> 8 \<le> ServerRankToID r"
  by (simp_all add: WorkerRankToID_def ServerRankToID_def)

lemma sdiv_nonneg: "0 \<le> (a::int) \<Longrightarrow> 0 < b \<Longrightarrow> a sdiv b = a div b"
  by (simp add: signed_divide_int_def sgn_if)

text \<open>
  The id arithmetic of instance groups is consistent: for every group rank and every
  instance offset inside the group, the instance id of a worker (server) converts back to
  the group rank it was built from, two different (rank, offset) pairs never share an id, and
  no worker id is a server id or one of the reserved group ids below 8.
\<close>

theorem group_rank_roundtrip:
  assumes "0 \<le> rank" and "0 \<le> idx" and "idx < po_group_size po"
    and "0 \<le> rank'" and "0 \<le> idx'" and "idx' < po_group_size po"
  shows "InstanceIDtoGroupRank po (GroupWorkerRankToInstanceID po rank idx) = rank \<and>
     InstanceIDtoGroupRank po (GroupServerRankToInstanceID po rank idx) = rank \<and>
     (GroupWorkerRankToInstanceID po rank idx = GroupWorkerRankToInstanceID po rank' idx'
        \<longleftrightarrow> rank = rank' \<and> idx = idx') \<and>
     (GroupServerRankToInstanceID po rank idx = GroupServerRankToInstanceID po rank' idx'
        \<longleftrightarrow> rank = rank' \<and> idx = idx') \<and>
     GroupWorkerRankToInstanceID po rank idx \<noteq> GroupServerRankToInstanceID po rank' idx' \<and>
     8 \<le> GroupWorkerRankToInstanceID po rank idx \<and> 8 \<le> GroupServerRankToInstanceID po rank idx"
proof -
  let ?g = "po_group_size po"
  have g: "0 < ?g" using assms(2,3) by linarith
  have nn: "0 \<le> rank * ?g + idx" using assms g by simp
  have div: "(rank * ?g + idx) div ?g = rank" using assms g by simp
  have inj: "rank * ?g + idx = rank' * ?g + idx' \<longleftrightarrow> rank = rank' \<and> idx = idx'"
  proof
    assume eq: "rank * ?g + idx = rank' * ?g + idx'"
    have "(rank' * ?g + idx') div ?g = rank'" using assms g by simp
    with div eq have "rank = rank'" by simp
    with eq show "rank = rank' \<and> idx = idx'" by simp
  qed simp
  show ?thesis
    using nn g div inj rank_ids_ge [OF nn]
    by (simp add: InstanceIDtoGroupRank_def GroupWorkerRankToInstanceID_def
        GroupServerRankToInstanceID_def Let_def sdiv_nonneg)
qed

theorem group_rank_roundtrip_witness:
  "InstanceIDtoGroupRank ((Postoffice_new 0)\<lparr>po_group_size := 8\<rparr>)
     (GroupServerRankToInstanceID ((Postoffice_new 0)\<lparr>po_group_size := 8\<rparr>) 2 5) = 2 \<and>
   GroupServerRankToInstanceID ((Postoffice_new 0)\<lparr>po_group_size := 8\<rparr>) 2 5 = 50"
  using group_rank_roundtrip [of 2 5 "(Postoffice_new 0)\<lparr>po_group_size := 8\<rparr>" 2 5]
  by (simp add: GroupServerRankToInstanceID_def ServerRankToID_def)

section \<open>Properties: the node id table\<close>

definition worker_pairs :: "nat \<Rightarrow> (int \<times> int) list" where
  "worker_pairs i = (let j = WorkerRankToID (int i) in
     map (\<lambda>g. (g, j)) [j, kWorkerGroup, kWorkerGroup + kServerGroup, kWorkerGroup + kScheduler,
                       kWorkerGroup + kServerGroup + kScheduler])"

definition server_pairs :: "nat \<Rightarrow> (int \<times> int) list" where
  "server_pairs i = (let j = ServerRankToID (int i) in
     map (\<lambda>g. (g, j)) [j, kServerGroup, kWorkerGroup + kServerGroup, kServerGroup + kScheduler,
                       kWorkerGroup + kServerGroup + kScheduler])"

definition sched_pairs :: "(int \<times> int) list" where
  "sched_pairs = map (\<lambda>g. (g, kScheduler)) [kScheduler, kScheduler + kServerGroup + kWorkerGroup,
     kScheduler + kWorkerGroup, kScheduler + kServerGroup]"

definition push_pairs :: "(int \<times> int) list \<Rightarrow> (int, int list) umap \<Rightarrow> (int, int list) umap" where
  "push_pairs ps m = fold (\<lambda>(g, j). push_id j g) ps m"

definition group_consts :: "int set" where
  "group_consts = {1, 2, 3, 4, 5, 6, 7}"

lemmas group_defs = kScheduler_def kServerGroup_def kWorkerGroup_def

lemma push_pairs_append: "push_pairs (ps @ qs) m = push_pairs qs (push_pairs ps m)"
  by (simp add: push_pairs_def)

lemma fold_push_id: "fold (push_id j) gs m = push_pairs (map (\<lambda>g. (g, j)) gs) m"
  by (simp add: push_pairs_def fold_map comp_def)

lemma fold_push_pairs: "fold (\<lambda>i. push_pairs (f i)) is m = push_pairs (concat (map f is)) m"
  by (induction "is" arbitrary: m) (auto simp: push_pairs_append push_pairs_def)

lemma init_node_ids_eq:
  "init_node_ids po m =
     push_pairs (concat (map worker_pairs [0..<nat (num_worker_instances po)]) @
                 concat (map server_pairs [0..<nat (num_server_instances po)]) @ sched_pairs) m"
  unfolding init_node_ids_def Let_def fold_push_id
  by (simp add: push_pairs_append fold_push_pairs [symmetric] worker_pairs_def server_pairs_def
      sched_pairs_def num_worker_instances_def num_server_instances_def Let_def)

lemma fst_pairs_filter: "g \<in> fst ` set ps \<longleftrightarrow> filter (\<lambda>p. fst p = g) ps \<noteq> []"
  by (auto simp: filter_empty_conv)

lemma umap_find_push_pairs:
  "umap_find (push_pairs ps m) g =
     (if g \<in> fst ` set ps
      then Some (umap_index [] m g @ map snd (filter (\<lambda>p. fst p = g) ps)) else umap_find m g)"
proof (induction ps arbitrary: m)
  case (Cons p ps)
  obtain h j where p: "p = (h, j)" by (cases p)
  have "push_pairs (p # ps) m = push_pairs ps (push_id j h m)"
    by (simp add: push_pairs_def p)
  then show ?case
    unfolding fst_pairs_filter by (auto simp: Cons.IH fst_pairs_filter p push_id_def umap_index_def)
qed (simp add: push_pairs_def)

lemma filter_worker_pairs:
  "filter (\<lambda>p. fst p = g) (worker_pairs i) =
     (if g = WorkerRankToID (int i) \<or> g \<in> {4, 5, 6, 7} then [(g, WorkerRankToID (int i))] else [])"
  by (auto simp: worker_pairs_def Let_def group_defs WorkerRankToID_def)

lemma filter_server_pairs:
  "filter (\<lambda>p. fst p = g) (server_pairs i) =
     (if g = ServerRankToID (int i) \<or> g \<in> {2, 3, 6, 7} then [(g, ServerRankToID (int i))] else [])"
  by (auto simp: server_pairs_def Let_def group_defs ServerRankToID_def)

lemma filter_sched_pairs:
  "filter (\<lambda>p. fst p = g) sched_pairs = (if g \<in> {1, 3, 5, 7} then [(g, 1)] else [])"
  by (auto simp: sched_pairs_def group_defs)

lemma id_neq_small [simp]:
  "g < 8 \<Longrightarrow> WorkerRankToID (int i) \<noteq> g" "g < 8 \<Longrightarrow> g \<noteq> WorkerRankToID (int i)"
  "g < 8 \<Longrightarrow> ServerRankToID (int i) \<noteq> g" "g < 8 \<Longrightarrow> g \<noteq> ServerRankToID (int i)"
  by (auto simp: WorkerRankToID_def ServerRankToID_def)

lemma concat_map_if_eq:
  "concat (map (\<lambda>i. if k = i then [f i] else []) [0..<n]) = (if k < n then [f k] else [])"
  by (induction n) auto

lemma concat_map_Nil [simp]: "concat (map (\<lambda>_. []) xs) = []"
  by (induction xs) auto

text \<open>The entry that the start-up loops leave for a key of an empty table.\<close>

definition node_id_entry :: "postoffice \<Rightarrow> int \<Rightarrow> int list" where
  "node_id_entry po g =
     concat (map (\<lambda>i. map snd (filter (\<lambda>p. fst p = g) (worker_pairs i))) [0..<nat (num_worker_instances po)]) @
     concat (map (\<lambda>i. map snd (filter (\<lambda>p. fst p = g) (server_pairs i))) [0..<nat (num_server_instances po)]) @
     map snd (filter (\<lambda>p. fst p = g) sched_pairs)"

lemma find_init_node_ids:
  "umap_find (init_node_ids po []) g =
     (if node_id_entry po g = [] then None else Some (node_id_entry po g))"
  unfolding init_node_ids_eq umap_find_push_pairs fst_pairs_filter node_id_entry_def
  by (auto simp: filter_concat map_concat comp_def umap_index_def)

abbreviation worker_ids :: "postoffice \<Rightarrow> int list" where
  "worker_ids po \<equiv> map (\<lambda>i. WorkerRankToID (int i)) [0..<nat (num_worker_instances po)]"

abbreviation server_ids :: "postoffice \<Rightarrow> int list" where
  "server_ids po \<equiv> map (\<lambda>i. ServerRankToID (int i)) [0..<nat (num_server_instances po)]"

lemma node_id_entry_groups:
  "node_id_entry po kWorkerGroup = worker_ids po"
  "node_id_entry po kServerGroup = server_ids po"
  "node_id_entry po kScheduler = [kScheduler]"
  "node_id_entry po (kWorkerGroup + kServerGroup) = worker_ids po @ server_ids po"
  "node_id_entry po (kWorkerGroup + kScheduler) = worker_ids po @ [kScheduler]"
  "node_id_entry po (kServerGroup + kScheduler) = server_ids po @ [kScheduler]"
  "node_id_entry po (kWorkerGroup + kServerGroup + kScheduler) =
     worker_ids po @ server_ids po @ [kScheduler]"
  by (simp_all add: node_id_entry_def filter_worker_pairs filter_server_pairs filter_sched_pairs
      group_defs)

lemma node_id_entry_worker:
  "node_id_entry po (WorkerRankToID (int k)) =
     (if k < nat (num_worker_instances po) then [WorkerRankToID (int k)] else [])"
proof -
  have "(WorkerRankToID (int k) = WorkerRankToID (int i) \<or> WorkerRankToID (int k) \<in> {4, 5, 6, 7}) = (k = i)" for i
    by simp
  then show ?thesis
    by (simp add: node_id_entry_def filter_worker_pairs filter_server_pairs filter_sched_pairs
        concat_map_if_eq if_distrib cong: if_cong)
qed

lemma node_id_entry_server:
  "node_id_entry po (ServerRankToID (int k)) =
     (if k < nat (num_server_instances po) then [ServerRankToID (int k)] else [])"
proof -
  have "(ServerRankToID (int k) = ServerRankToID (int i) \<or> ServerRankToID (int k) \<in> {2, 3, 6, 7}) = (k = i)" for i
    by simp
  moreover have "ServerRankToID (int k) \<noteq> WorkerRankToID (int i)" for i
    by (metis Worker_neq_Server)
  ultimately show ?thesis
    by (simp add: node_id_entry_def filter_worker_pairs filter_server_pairs filter_sched_pairs
        concat_map_if_eq if_distrib cong: if_cong)
qed

text \<open>The id table as \<^verbatim>\<open>Start\<close> leaves it.\<close>

definition node_ids_ready :: "postoffice \<Rightarrow> bool" where
  "node_ids_ready po \<longleftrightarrow> (\<forall>g. umap_find (po_node_ids po) g =
     (if node_id_entry po g = [] then None else Some (node_id_entry po g)))"

lemma GetNodeIDs_ready:
  "node_ids_ready po \<Longrightarrow> GetNodeIDs po g =
     (if node_id_entry po g = [] then Inl (CheckFailed ''node doesn't exist'') else Inr (node_id_entry po g))"
  by (simp add: GetNodeIDs_def node_ids_ready_def)

lemma Start_node_ids_ready:
  assumes start: "Postoffice_Start_init b e role rank po = Inr po'"
    and fresh: "po_init_stage po = 0" "po_node_ids po = []"
  shows "node_ids_ready po'"
proof -
  obtain po2 po3 where po2: "InitEnvironment b e (po\<lparr>po_started := True, po_preferred_rank := rank\<rparr>) = Inr po2"
    and po3: "set_role role po2 = Inr po3"
    and po': "po' = po3\<lparr>po_node_ids := init_node_ids po3 (po_node_ids po3),
                        po_init_stage := po_init_stage po3 + 1\<rparr>"
    using start fresh(1) by (auto simp: Postoffice_Start_init_def Let_def res_simps)
  have ids3: "po_node_ids po3 = []"
    using po2 po3 fresh(2)
    by (auto simp: InitEnvironment_def Let_def res_simps set_role_def split: Role.splits)
  have n: "num_worker_instances po3 = num_worker_instances po'"
    "num_server_instances po3 = num_server_instances po'"
    by (simp_all add: po' num_worker_instances_def num_server_instances_def)
  show ?thesis
    unfolding node_ids_ready_def
    using find_init_node_ids [of po3] by (simp add: po' ids3 node_id_entry_def n)
qed

text \<open>
  C33: After \<^verbatim>\<open>Postoffice::Start\<close> has filled the id table, every group constant names exactly
  its members (workers before servers before the scheduler, each once, in rank order), every
  worker and server instance id names itself, and asking for any other worker or server id
  fails the check in \<^verbatim>\<open>GetNodeIDs\<close>.
\<close>

theorem node_ids_after_start:
  assumes start: "Postoffice_Start_init b e role rank po = Inr po'"
    and fresh: "po_init_stage po = 0" "po_node_ids po = []"
    and workers: "0 < num_worker_instances po'" and servers: "0 < num_server_instances po'"
  shows "GetNodeIDs po' kWorkerGroup = Inr (worker_ids po') \<and>
    GetNodeIDs po' kServerGroup = Inr (server_ids po') \<and>
    GetNodeIDs po' kScheduler = Inr [kScheduler] \<and>
    GetNodeIDs po' (kWorkerGroup + kServerGroup) = Inr (worker_ids po' @ server_ids po') \<and>
    GetNodeIDs po' (kWorkerGroup + kScheduler) = Inr (worker_ids po' @ [kScheduler]) \<and>
    GetNodeIDs po' (kServerGroup + kScheduler) = Inr (server_ids po' @ [kScheduler]) \<and>
    GetNodeIDs po' (kWorkerGroup + kServerGroup + kScheduler) =
      Inr (worker_ids po' @ server_ids po' @ [kScheduler]) \<and>
    GetNodeIDs po' (WorkerRankToID (int k)) =
      (if k < nat (num_worker_instances po') then Inr [WorkerRankToID (int k)]
       else Inl (CheckFailed ''node doesn't exist'')) \<and>
    GetNodeIDs po' (ServerRankToID (int k)) =
      (if k < nat (num_server_instances po') then Inr [ServerRankToID (int k)]
       else Inl (CheckFailed ''node doesn't exist''))"
  unfolding GetNodeIDs_ready [OF Start_node_ids_ready [OF start fresh]]
    node_id_entry_groups node_id_entry_worker node_id_entry_server
  using workers servers by simp

definition example_env :: environment where
  "example_env = \<lparr>env_kvs = [(''DMLC_NUM_WORKER'', ''1''), (''DMLC_NUM_SERVER'', ''2''),
     (''DMLC_ROLE'', ''worker''), (''DMLC_GROUP_SIZE'', ''2'')], env_sys = (\<lambda>_. None)\<rparr>"

definition example_flags :: build_flags where
  "example_flags = \<lparr>use_rdma = False, use_fabric = False, use_ucx = False, use_tp = False\<rparr>"

definition example_po :: postoffice where
  "example_po = (case Postoffice_Start_init example_flags example_env WORKER (-1) (Postoffice_new 0) of
     Inr po \<Rightarrow> po | Inl _ \<Rightarrow> Postoffice_new 0)"

lemmas env_eval = env_find_def env_find_int_def GetEnv_def GetEnv_str_def umap_find_def atoi_def
  digits_val_def isdigit_def isspace_def

lemma example_po_start:
  "Postoffice_Start_init example_flags example_env WORKER (-1) (Postoffice_new 0) = Inr example_po"
  by (simp add: example_po_def Postoffice_Start_init_def InitEnvironment_def Van_Create_def
      check_notnull_def set_role_def example_env_def example_flags_def Postoffice_new_def env_eval)

lemma example_po_sizes:
  "num_worker_instances example_po = 2" "num_server_instances example_po = 4"
  "po_num_servers example_po = 2" "po_group_size example_po = 2"
  by (simp_all add: example_po_def Postoffice_Start_init_def InitEnvironment_def Van_Create_def
      check_notnull_def set_role_def example_env_def example_flags_def Postoffice_new_def env_eval
      num_worker_instances_def num_server_instances_def)

lemma example_po_ready: "node_ids_ready example_po"
  by (rule Start_node_ids_ready [OF example_po_start]) (simp_all add: Postoffice_new_def)

theorem node_ids_after_start_witness:
  "GetNodeIDs example_po kServerGroup = Inr [8, 10, 12, 14] \<and> GetNodeIDs example_po 11 = Inr [11]"
  using node_ids_after_start [OF example_po_start, where k = 1]
  by (simp add: example_po_sizes Postoffice_new_def WorkerRankToID_def ServerRankToID_def upt_rec)

section \<open>Properties: customers\<close>

lemma GetCustomer_const:
  assumes "0 \<le> timeout"
  shows "GetCustomer (\<lambda>_. m) app_id c timeout =
    (case umap_find m app_id of None \<Rightarrow> None | Some in_app \<Rightarrow> umap_find in_app c)"
proof -
  have stuck: "GetCustomer_poll (map (\<lambda>_. m) xs) app_id c = None" if "umap_find m app_id = None" for xs :: "nat list"
    using that by (induction xs) auto
  obtain n where n: "nat (timeout * 1000 + 1) = Suc n"
    using assms by (metis Suc_pred' zero_less_nat_eq add_nonneg_pos mult_nonneg_nonneg
        zero_le_numeral zero_less_one)
  show ?thesis
    using stuck by (auto simp: GetCustomer_def n upt_rec [of 0] simp del: upt_Suc split: option.split)
qed

text \<open>
  Registering a customer makes exactly that customer visible: the lookup returns its
  object, lookups of every other (application, customer) pair are unchanged, a second
  registration under the same pair is refused, and removing it makes the lookup come back
  empty, again without touching any other pair.
\<close>

theorem customer_registry:
  assumes add: "AddCustomer app c ptr po = Inr po'" and "0 \<le> timeout"
  shows "GetCustomer (\<lambda>_. po_customers po') app c timeout = Some ptr \<and>
    AddCustomer app c ptr' po' = Inl (CheckFailed ''customer_id already exists'') \<and>
    GetCustomer (\<lambda>_. po_customers (RemoveCustomer app c po')) app c timeout = None \<and>
    ((app', c') \<noteq> (app, c) \<longrightarrow>
      GetCustomer (\<lambda>_. po_customers po') app' c' timeout =
        GetCustomer (\<lambda>_. po_customers po) app' c' timeout \<and>
      GetCustomer (\<lambda>_. po_customers (RemoveCustomer app c po')) app' c' timeout =
        GetCustomer (\<lambda>_. po_customers po) app' c' timeout)"
proof -
  let ?in = "umap_index [] (po_customers po) app"
  have absent: "umap_find ?in c = None"
    and cs: "po_customers po' = umap_set app (umap_set c ptr ?in) (po_customers po)"
    using add by (auto simp: AddCustomer_def Let_def res_simps umap_insert_def)
  have look: "(case umap_find m app' of None \<Rightarrow> None | Some in_app \<Rightarrow> umap_find in_app c')
      = umap_find (umap_index [] m app') c'" for m :: "(int, (int, customer_ptr) umap) umap" and app' c'
    by (simp add: umap_index_def split: option.split)
  let ?er = "umap_erase c (umap_set c ptr ?in)"
  have er: "umap_find ?er k = umap_find ?in k" for k
    using absent by simp
  have removed: "umap_find (umap_index [] (po_customers (RemoveCustomer app c po')) a) k =
      (if a = app \<and> k = c then None else umap_find (umap_index [] (po_customers po) a) k)" for a k
  proof (cases "?er = []")
    case True
    then have "umap_find ?in k = None" using er [of k] by simp
    with True show ?thesis by (simp add: RemoveCustomer_def Let_def cs)
  next
    case False
    then show ?thesis using absent er by (simp add: RemoveCustomer_def Let_def cs)
  qed
  have added: "umap_find (umap_index [] (po_customers po') a) k =
      (if a = app \<and> k = c then Some ptr else umap_find (umap_index [] (po_customers po) a) k)" for a k
    by (simp add: cs)
  show ?thesis
    unfolding GetCustomer_const [OF assms(2)] look added removed
    by (auto simp: AddCustomer_def Let_def added)
qed

theorem customer_registry_witness:
  "\<exists>po'. AddCustomer 0 3 7 (Postoffice_new 0) = Inr po' \<and>
     GetCustomer (\<lambda>_. po_customers po') 0 3 5 = Some 7"
proof -
  obtain po' where po': "AddCustomer 0 3 7 (Postoffice_new 0) = Inr po'"
    by (simp add: AddCustomer_def Postoffice_new_def umap_index_def)
  have "GetCustomer (\<lambda>_. po_customers po') 0 3 5 = Some 7"
    using customer_registry [OF po', of 5 0 0 0]
    by (simp add: Postoffice_new_def umap_index_def)
  with po' show ?thesis by blast
qed

section \<open>Properties: server key ranges\<close>

text \<open>The width of one server's range, as a natural number.\<close>

definition key_quota :: "int \<Rightarrow> nat" where
  "key_quota n = (2 ^ 64 - 1) div nat n"

lemma key_quota_le: "key_quota n * nat n \<le> 2 ^ 64 - 1"
  by (simp add: key_quota_def div_times_less_eq_dividend)

lemma unat_quota_word:
  assumes "0 < n" and "n < 2 ^ 31" and "i \<le> nat n"
  shows "unat (kMaxKey div word_of_int n * of_nat i :: 64 word) = key_quota n * i"
proof -
  have n: "unat (word_of_int n :: 64 word) = nat n"
    using assms by (simp add: unat_eq_nat_uint uint_word_of_int)
  have m: "unat kMaxKey = 2 ^ 64 - 1"
    by (simp add: kMaxKey_def unsigned_minus_1_eq_mask mask_eq_exp_minus_1)
  have q: "unat (kMaxKey div word_of_int n) = key_quota n"
    by (simp add: unat_div n m key_quota_def)
  have i: "unat (of_nat i :: 64 word) = i"
    using assms by (simp add: unat_of_nat)
  have "key_quota n * i \<le> key_quota n * nat n" using assms(3) by simp
  also have "\<dots> \<le> 2 ^ 64 - 1" by (rule key_quota_le)
  finally have "key_quota n * i < 2 ^ 64" by simp
  then show ?thesis by (simp add: unat_word_ariths(2) q i)
qed

text \<open>
  C35: The key ranges handed to the slicer are disjoint and contiguous, each of the same
  width: for \<open>n\<close> servers, a key is in exactly one range when it is below \<open>n\<close> times the
  width, and in none of them otherwise.  In particular the largest key \<^verbatim>\<open>kMaxKey\<close> is never
  covered.
\<close>

theorem server_key_ranges_partition:
  assumes "po_server_key_ranges po = []" and "0 < po_num_servers po" and "po_num_servers po < 2 ^ 31"
    and "rs = snd (GetServerKeyRanges po)" and "n = nat (po_num_servers po)"
    and "q = key_quota (po_num_servers po)"
  shows "length rs = n \<and>
    (\<forall>i < n. unat (r_begin (rs ! i)) = q * i \<and> unat (r_end (rs ! i)) = q * (i + 1)) \<and>
    (\<forall>i. i + 1 < n \<longrightarrow> r_end (rs ! i) = r_begin (rs ! (i + 1))) \<and>
    (unat k < q * n \<longrightarrow> (\<exists>!i. i < n \<and> r_begin (rs ! i) \<le> k \<and> k < r_end (rs ! i))) \<and>
    (q * n \<le> unat k \<longrightarrow> (\<forall>i < n. \<not> k < r_end (rs ! i))) \<and>
    (\<forall>i < n. \<not> kMaxKey < r_end (rs ! i))"
proof -
  have nth: "rs ! i = \<lparr>r_begin = kMaxKey div word_of_int (po_num_servers po) * of_nat i,
       r_end = kMaxKey div word_of_int (po_num_servers po) * of_nat (i + 1)\<rparr>" if "i < n" for i
    using that by (simp add: assms(1,4,5) GetServerKeyRanges_def Let_def)
  have len: "length rs = n" by (simp add: assms(1,4,5) GetServerKeyRanges_def Let_def)
  have begins: "unat (r_begin (rs ! i)) = q * i" if "i < n" for i
    using unat_quota_word [of "po_num_servers po" i] that assms(2,3,5,6) by (simp add: nth [OF that])
  have ends: "unat (r_end (rs ! i)) = q * (i + 1)" if "i < n" for i
    using unat_quota_word [of "po_num_servers po" "i + 1"] that assms(2,3,5,6) by (simp add: nth [OF that])
  have in_range: "r_begin (rs ! i) \<le> k \<and> k < r_end (rs ! i) \<longleftrightarrow> q * i \<le> unat k \<and> unat k < q * (i + 1)"
    if "i < n" for i
    using begins [OF that] ends [OF that] by (simp add: word_le_nat_alt word_less_nat_alt)
  have covered: "\<exists>!i. i < n \<and> r_begin (rs ! i) \<le> k \<and> k < r_end (rs ! i)" if "unat k < q * n"
  proof -
    have q: "0 < q" using that by (cases q) auto
    let ?i = "unat k div q"
    have i: "?i < n" using that q by (simp add: less_mult_imp_div_less mult.commute)
    have here: "q * ?i \<le> unat k \<and> unat k < q * (?i + 1)"
      using q by (metis Suc_eq_plus1 dividend_less_times_div times_div_less_eq_dividend mult_Suc_right add.commute)
    have unique: "j = ?i" if "q * j \<le> unat k" "unat k < q * (j + 1)" for j
      using that q by (metis Suc_eq_plus1 div_nat_eqI mult.commute)
    show ?thesis using i here unique in_range by metis
  qed
  have above: "\<not> k' < r_end (rs ! i)" if "q * n \<le> unat k'" "i < n" for k' i
  proof -
    have "q * (i + 1) \<le> q * n" using that(2) by (intro mult_le_mono2) simp
    with that(1) ends [OF that(2)] show ?thesis by (simp add: word_less_nat_alt)
  qed
  have max: "q * n \<le> unat kMaxKey"
    using key_quota_le [of "po_num_servers po"] assms
    by (simp add: kMaxKey_def unsigned_minus_1_eq_mask mask_eq_exp_minus_1)
  have next_eq: "r_end (rs ! i) = r_begin (rs ! (i + 1))" if "i + 1 < n" for i
    using nth [of i] nth [of "i + 1"] that by simp
  show ?thesis
    using len begins ends next_eq covered above max by blast
qed

theorem server_key_ranges_partition_witness:
  "\<exists>!i. i < 2 \<and> r_begin (snd (GetServerKeyRanges example_po) ! i) \<le> 1000 \<and>
         1000 < r_end (snd (GetServerKeyRanges example_po) ! i)"
proof -
  have "po_server_key_ranges example_po = []"
    by (simp add: example_po_def Postoffice_Start_init_def InitEnvironment_def Van_Create_def
        check_notnull_def set_role_def example_env_def example_flags_def Postoffice_new_def env_eval)
  moreover have "unat (1000 :: 64 word) < key_quota 2 * 2"
    by (simp add: key_quota_def)
  ultimately show ?thesis
    using server_key_ranges_partition [of example_po _ 2 "key_quota 2" 1000]
    by (simp add: example_po_sizes)
qed

section \<open>Properties: waking up from a barrier\<close>

lemma find_fold_set_true:
  "umap_find (fold (\<lambda>c m. umap_set (int c) True m) [0..<n] m) k =
     (if 0 \<le> k \<and> k < int n then Some True else umap_find m k)"
  by (induction n) auto

text \<open>
  When the response to a barrier request arrives, the waiting call returns exactly if
  its customer id is smaller than the number of customers registered for application 0.
  (The handler marks the ids \<open>0..size-1\<close>, whatever ids are registered.)
\<close>

theorem barrier_wakes_small_ids:
  assumes enter: "DoBarrier_request ready role ts c grp inst po = Inr (po1, Some req)"
    and resp: "\<not> m_request (msg_meta r)" "m_app_id (msg_meta r) = 0"
      "msg_cmd r = (if inst then INSTANCE_BARRIER else BARRIER)"
    and "0 \<le> c"
  shows "\<not> barrier_flag po1 c \<and>
    (\<exists>po2. Manage r po1 = Inr po2 \<and>
      (barrier_flag po2 c \<longleftrightarrow> c < int (length (umap_index [] (po_barrier_done po1) 0))))"
proof -
  let ?flags = "umap_index [] (po_barrier_done po1) 0"
  have off: "umap_index False ?flags c = False"
    using enter by (auto simp: DoBarrier_request_def Let_def res_simps split: if_splits)
  have manage: "Manage r po1 = Inr (po1\<lparr>po_barrier_done :=
      umap_set 0 (fold (\<lambda>c m. umap_set (int c) True m) [0..<length ?flags] ?flags) (po_barrier_done po1)\<rparr>)"
    using resp by (auto simp: Manage_def Let_def control_empty_def)
  show ?thesis
    using off assms(5)
    by (auto simp: manage barrier_flag_def umap_index_def [of False] find_fold_set_true split: option.splits)
qed

theorem barrier_wakes_small_ids_witness:
  "\<exists>po1 req po2. DoBarrier_request True WORKER 4 0 7 True
       (example_po\<lparr>po_barrier_done := [(0, [(0, False)])]\<rparr>) = Inr (po1, Some req) \<and>
     Manage (upd_meta (\<lambda>m. m\<lparr>m_request := False\<rparr>) req) po1 = Inr po2 \<and> barrier_flag po2 0"
proof -
  let ?po = "example_po\<lparr>po_barrier_done := [(0, [(0, False)])]\<rparr>"
  have "GetNodeIDs example_po 7 = Inr (worker_ids example_po @ server_ids example_po @ [kScheduler])"
    using node_id_entry_groups(7) [of example_po] by (simp add: GetNodeIDs_ready [OF example_po_ready] group_defs)
  then have ids: "GetNodeIDs ?po 7 = Inr [9, 11, 8, 10, 12, 14, 1]"
    by (simp add: GetNodeIDs_def example_po_sizes WorkerRankToID_def ServerRankToID_def upt_rec kScheduler_def)
  obtain po1 req where enter: "DoBarrier_request True WORKER 4 0 7 True ?po = Inr (po1, Some req)"
    and req: "m_app_id (msg_meta req) = 0" "msg_cmd req = INSTANCE_BARRIER"
      "umap_index [] (po_barrier_done po1) 0 = [(0, False)]"
    by (simp add: DoBarrier_request_def ids kWorkerGroup_def umap_index_def umap_find_def umap_set_def)
  let ?r = "upd_meta (\<lambda>m. m\<lparr>m_request := False\<rparr>) req"
  from barrier_wakes_small_ids [OF enter, of ?r] req
  obtain po2 where "Manage ?r po1 = Inr po2" "barrier_flag po2 0"
    by auto
  with enter show ?thesis by blast
qed

end
