(* ===== verification/Customer.thy ===== *)
theory Customer
  imports Postoffice
begin

text \<open>
  \<^verbatim>\<open>src/customer.cc\<close> and \<^verbatim>\<open>include/ps/internal/customer.h\<close>: the request tracker of an
  application.  \<^verbatim>\<open>NewRequest\<close> opens a slot that expects one response per server group,
  received responses are counted into it, and \<^verbatim>\<open>WaitRequest\<close> spins until the count is
  reached or the deadline passes.  The trace fields are filled in tracing builds only and are
  left out.
\<close>

section \<open>State and operations\<close>

record tracker =
  tr_count :: int
  tr_response_count :: int
  tr_response_count_cache :: int
  tr_start_time :: "64 word"

record customer =
  cu_app_id :: int
  cu_customer_id :: int
  cu_tracker :: "tracker list"

definition Customer_new :: "int \<Rightarrow> int \<Rightarrow> customer_ptr \<Rightarrow> postoffice \<Rightarrow> (customer \<times> postoffice) res" where
  "Customer_new app_id customer_id ptr po =
     bindR (AddCustomer app_id customer_id ptr po) (\<lambda>po'.
       Inr (\<lparr>cu_app_id = app_id, cu_customer_id = customer_id, cu_tracker = []\<rparr>, po'))"

definition Customer_delete :: "customer \<Rightarrow> postoffice \<Rightarrow> postoffice" where
  "Customer_delete c po = RemoveCustomer (cu_app_id c) (cu_customer_id c) po"

text \<open>\<^verbatim>\<open>size() / group_size()\<close> divides a \<^verbatim>\<open>size_t\<close> by an \<^verbatim>\<open>int\<close> that is converted to \<^verbatim>\<open>size_t\<close>.\<close>

definition size_div :: "nat \<Rightarrow> int \<Rightarrow> int res" where
  "size_div n g = no_ub (g \<noteq> 0) ''division by zero'' (Inr (if 0 < g then int n div g else 0))"

definition NewRequest :: "postoffice \<Rightarrow> 64 word \<Rightarrow> int \<Rightarrow> customer \<Rightarrow> (customer \<times> int) res" where
  "NewRequest po now recver c =
     PS_CHECK (recver = kServerGroup) ''recver''
      (bindR (GetNodeIDs po recver) (\<lambda>ids.
       bindR (size_div (length ids) (po_group_size po)) (\<lambda>num.
         let t = \<lparr>tr_count = num, tr_response_count = 0, tr_response_count_cache = 0,
                  tr_start_time = now\<rparr>;
             ts = cu_tracker c @ [t]
         in Inr (c\<lparr>cu_tracker := ts\<rparr>, int (length ts) - 1))))"

definition NumResponse :: "customer \<Rightarrow> int \<Rightarrow> int res" where
  "NumResponse c timestamp = bindR (vec_get (cu_tracker c) timestamp) (\<lambda>t. Inr (tr_count t))"

definition AddResponse :: "int \<Rightarrow> int \<Rightarrow> customer \<Rightarrow> customer res" where
  "AddResponse timestamp num c =
     bindR (vec_get (cu_tracker c) timestamp) (\<lambda>t.
     bindR (vec_set (cu_tracker c) timestamp (t\<lparr>tr_response_count := tr_response_count t + num\<rparr>)) (\<lambda>ts.
       Inr (c\<lparr>cu_tracker := ts\<rparr>)))"

text \<open>
  The two ways a received message reaches the application.  \<open>handle\<close> is the \<^verbatim>\<open>recv_handle_\<close> of
  the application; it works on the application's state together with this customer, which the
  application owns.
\<close>

definition DirectProcess ::
  "(message \<Rightarrow> customer \<times> 'a \<Rightarrow> (customer \<times> 'a) res) \<Rightarrow> message \<Rightarrow> customer \<times> 'a \<Rightarrow> (customer \<times> 'a) res"
where
  "DirectProcess handle recv s =
     (if \<not> control_empty (m_control (msg_meta recv)) \<and> msg_cmd recv = TERMINATE then Inr s
      else bindR (handle recv s) (\<lambda>(c, a).
        if \<not> m_request (msg_meta recv) then
          bindR (vec_get (cu_tracker c) (m_timestamp (msg_meta recv))) (\<lambda>t.
          bindR (vec_set (cu_tracker c) (m_timestamp (msg_meta recv))
                  (t\<lparr>tr_response_count := tr_response_count t + 1,
                     tr_response_count_cache := tr_response_count_cache t + 1\<rparr>)) (\<lambda>ts.
            Inr (c\<lparr>cu_tracker := ts\<rparr>, a)))
        else Inr (c, a)))"

text \<open>One turn of the \<^verbatim>\<open>Receiving\<close> loop over the queue; \<open>None\<close>: the loop ended.\<close>

definition Receiving_turn ::
  "(message \<Rightarrow> customer \<times> 'a \<Rightarrow> (customer \<times> 'a) res) \<Rightarrow> message \<Rightarrow> customer \<times> 'a \<Rightarrow>
     (customer \<times> 'a) option res" where
  "Receiving_turn handle recv s =
     (if \<not> control_empty (m_control (msg_meta recv)) \<and> msg_cmd recv = TERMINATE then Inr None
      else bindR (handle recv s) (\<lambda>(c, a).
        if \<not> m_request (msg_meta recv) then
          bindR (AddResponse (m_timestamp (msg_meta recv)) 1 c) (\<lambda>c'. Inr (Some (c', a)))
        else Inr (Some (c, a))))"

section \<open>Waiting\<close>

text \<open>
  The spin loop of \<^verbatim>\<open>WaitRequest\<close>.  Each entry of the list is what one turn reads: the
  response counter (an acquire load) and the clock, which is consulted only after
  \<^verbatim>\<open>kMaxSpinCount\<close> turns.  \<open>None\<close>: still spinning when the observations end.
\<close>

definition kMaxSpinCount :: nat where "kMaxSpinCount = 10000"

fun wait_loop ::
  "int \<Rightarrow> 64 word \<Rightarrow> 64 word \<Rightarrow> nat \<Rightarrow> (int \<times> 64 word) list \<Rightarrow> unit res option" where
  "wait_loop cnt start_time timeout_ns spin [] = None"
| "wait_loop cnt start_time timeout_ns spin ((rc, now) # obs) =
     (if cnt = rc then Some (Inr ())
      else if spin < kMaxSpinCount then wait_loop cnt start_time timeout_ns (spin + 1) obs
      else if now - start_time > timeout_ns then Some (Inl (LogFatal ''request timeout''))
      else wait_loop cnt start_time timeout_ns spin obs)"

definition WaitRequest ::
  "int \<Rightarrow> 64 word \<Rightarrow> (int \<times> 64 word) list \<Rightarrow> customer \<Rightarrow> unit res option" where
  "WaitRequest timestamp timeout_ms obs c =
     (case vec_get (cu_tracker c) timestamp of
        Inl e \<Rightarrow> Some (Inl e)
      | Inr req \<Rightarrow> wait_loop (tr_count req) (tr_start_time req) (timeout_ms * 1000000) 0 obs)"

section \<open>Properties\<close>

lemma NewRequest_Inr:
  assumes "NewRequest po now recver c = Inr (c', ts)"
  shows "ts = int (length (cu_tracker c)) \<and>
    cu_tracker c' = cu_tracker c @ [cu_tracker c' ! length (cu_tracker c)] \<and>
    tr_response_count (cu_tracker c' ! nat ts) = 0 \<and> tr_start_time (cu_tracker c' ! nat ts) = now"
  using assms by (auto simp: NewRequest_def Let_def res_simps nth_append)

lemma NewRequest_count:
  assumes "NewRequest po now recver c = Inr (c', ts)"
    and "GetNodeIDs po kServerGroup = Inr (server_ids po)"
    and "0 < po_group_size po" and "0 \<le> po_num_servers po"
  shows "tr_count (cu_tracker c' ! nat ts) = po_num_servers po"
proof -
  have "int (nat (num_server_instances po)) = po_num_servers po * po_group_size po"
    using assms(3,4) by (simp add: num_server_instances_def)
  then show ?thesis
    using assms(1-3) by (auto simp: NewRequest_def Let_def res_simps size_div_def nth_append)
qed

lemma AddResponse_Inr:
  "AddResponse ts n c = Inr c' \<longleftrightarrow> 0 \<le> ts \<and> nat ts < length (cu_tracker c) \<and>
     c' = c\<lparr>cu_tracker := (cu_tracker c)[nat ts :=
        (cu_tracker c ! nat ts)\<lparr>tr_response_count := tr_response_count (cu_tracker c ! nat ts) + n\<rparr>]\<rparr>"
  by (auto simp: AddResponse_def res_simps vec_get_eq_Inr vec_set_eq_Inr)

text \<open>An application handler that leaves the request slots alone.\<close>

definition keeps_trackers :: "(message \<Rightarrow> customer \<times> 'a \<Rightarrow> (customer \<times> 'a) res) \<Rightarrow> bool" where
  "keeps_trackers handle \<longleftrightarrow>
     (\<forall>m c a c' a'. handle m (c, a) = Inr (c', a') \<longrightarrow> cu_tracker c' = cu_tracker c)"

definition is_response_to :: "int \<Rightarrow> message \<Rightarrow> bool" where
  "is_response_to ts m \<longleftrightarrow> \<not> m_request (msg_meta m) \<and> m_timestamp (msg_meta m) = ts \<and> msg_cmd m \<noteq> TERMINATE"

abbreviation responses_at :: "customer \<Rightarrow> int \<Rightarrow> int" where
  "responses_at c ts \<equiv> tr_response_count (cu_tracker c ! nat ts)"

lemma DirectProcess_step:
  assumes "keeps_trackers handle" and "DirectProcess handle m (c, a) = Inr (c', a')"
    and "0 \<le> ts" and "nat ts < length (cu_tracker c)"
  shows "length (cu_tracker c') = length (cu_tracker c) \<and>
    tr_count (cu_tracker c' ! nat ts) = tr_count (cu_tracker c ! nat ts) \<and>
    responses_at c' ts = responses_at c ts + (if is_response_to ts m then 1 else 0)"
proof (cases "msg_cmd m = TERMINATE")
  case True
  then show ?thesis using assms(2) by (auto simp: DirectProcess_def control_empty_def is_response_to_def)
next
  case False
  then obtain c1 a1 where h: "handle m (c, a) = Inr (c1, a1)"
    using assms(2) by (auto simp: DirectProcess_def res_simps)
  have t1: "cu_tracker c1 = cu_tracker c"
    using assms(1) h unfolding keeps_trackers_def by blast
  let ?mt = "m_timestamp (msg_meta m)"
  show ?thesis
  proof (cases "m_request (msg_meta m)")
    case True
    then show ?thesis using assms(2) False h t1 by (auto simp: DirectProcess_def is_response_to_def)
  next
    case resp: False
    have mt: "0 \<le> ?mt" "nat ?mt < length (cu_tracker c)"
      and c': "cu_tracker c' = (cu_tracker c)[nat ?mt := (cu_tracker c ! nat ?mt)
         \<lparr>tr_response_count := tr_response_count (cu_tracker c ! nat ?mt) + 1,
          tr_response_count_cache := tr_response_count_cache (cu_tracker c ! nat ?mt) + 1\<rparr>]"
      using assms(2) False h resp
      by (auto simp: DirectProcess_def res_simps t1 vec_get_eq_Inr vec_set_eq_Inr)
    show ?thesis
    proof (cases "?mt = ts")
      case True
      with assms(3,4) resp False show ?thesis by (simp add: c' is_response_to_def)
    next
      case other: False
      with mt assms(3) have "nat ?mt \<noteq> nat ts" by (simp add: eq_nat_nat_iff)
      with other show ?thesis by (simp add: c' is_response_to_def)
    qed
  qed
qed

text \<open>
  C17: Response accounting.  However messages for other requests, requests and responses are
  interleaved, after processing them the counter of a request has grown by exactly the number
  of responses with its timestamp, and the number of responses it waits for is unchanged.
\<close>

theorem response_accounting:
  assumes "keeps_trackers handle" and "0 \<le> ts" and "nat ts < length (cu_tracker c)"
    and "foldR (DirectProcess handle) ms (c, a) = Inr (c', a')"
  shows "length (cu_tracker c') = length (cu_tracker c) \<and>
    tr_count (cu_tracker c' ! nat ts) = tr_count (cu_tracker c ! nat ts) \<and>
    responses_at c' ts = responses_at c ts + int (length (filter (is_response_to ts) ms))"
  using assms(3,4)
proof (induction ms arbitrary: c a)
  case (Cons m ms)
  then obtain c1 a1 where step: "DirectProcess handle m (c, a) = Inr (c1, a1)"
    and rest: "foldR (DirectProcess handle) ms (c1, a1) = Inr (c', a')"
    by (auto simp: res_simps)
  from DirectProcess_step [OF assms(1) step assms(2) Cons.prems(1)] Cons.prems(1)
  show ?case using Cons.IH [OF _ rest] by auto
qed simp

definition example_customer :: customer where
  "example_customer = \<lparr>cu_app_id = 0, cu_customer_id = 0,
     cu_tracker = [\<lparr>tr_count = 2, tr_response_count = 0, tr_response_count_cache = 0, tr_start_time = 0\<rparr>]\<rparr>"

definition response_msg :: "int \<Rightarrow> message" where
  "response_msg ts = upd_meta (\<lambda>m. m\<lparr>m_timestamp := ts, m_request := False\<rparr>) Message0"

theorem response_accounting_witness:
  "\<exists>c'. foldR (DirectProcess (\<lambda>_ s. Inr s)) [response_msg 0, Message0\<lparr>msg_meta := Meta0\<lparr>m_request := True\<rparr>\<rparr>, response_msg 0]
       (example_customer, ()) = Inr (c', ()) \<and> responses_at c' 0 = 2"
proof -
  let ?ms = "[response_msg 0, Message0\<lparr>msg_meta := Meta0\<lparr>m_request := True\<rparr>\<rparr>, response_msg 0]"
  have keeps: "keeps_trackers (\<lambda>(m::message) s. Inr s :: (customer \<times> unit) res)"
    by (simp add: keeps_trackers_def)
  have "\<exists>c'. foldR (DirectProcess (\<lambda>_ s. Inr s)) ?ms (example_customer, ()) = Inr (c', ())"
    by (simp add: DirectProcess_def example_customer_def response_msg_def Message0_def Meta0_def
        control_empty_def Control0_def vec_get_def vec_set_def)
  then obtain c' where run: "foldR (DirectProcess (\<lambda>_ s. Inr s)) ?ms (example_customer, ()) = Inr (c', ())"
    by blast
  have "responses_at c' 0 = 2"
    using response_accounting [OF keeps _ _ run, of 0]
    by (simp add: example_customer_def is_response_to_def response_msg_def Message0_def Meta0_def Control0_def)
  with run show ?thesis by blast
qed

section \<open>Properties: the spin loop\<close>

abbreviation in_time :: "64 word \<Rightarrow> 64 word \<Rightarrow> 64 word \<Rightarrow> bool" where
  "in_time start timeout now \<equiv> now - start \<le> timeout"

lemma wait_loop_hit:
  assumes "\<forall>(rc, now) \<in> set pre. rc \<noteq> cnt \<and> in_time start tmo now"
  shows "wait_loop cnt start tmo spin (pre @ (cnt, now) # post) = Some (Inr ())"
  using assms by (induction pre arbitrary: spin) auto

lemma wait_loop_sound:
  "wait_loop cnt start tmo spin obs = Some (Inr ()) \<Longrightarrow> cnt \<in> fst ` set obs"
proof (induction cnt start tmo spin obs rule: wait_loop.induct)
  case (2 cnt start tmo spin rc now obs)
  then show ?case by (auto split: if_splits)
qed simp

lemma wait_loop_timeout:
  assumes "\<forall>(rc, now) \<in> set pre. rc \<noteq> cnt \<and> in_time start tmo now"
    and "kMaxSpinCount \<le> spin + length pre" and "rc \<noteq> cnt" and "\<not> in_time start tmo now"
  shows "wait_loop cnt start tmo spin (pre @ (rc, now) # post) = Some (Inl (LogFatal ''request timeout''))"
  using assms
proof (induction pre arbitrary: spin)
  case (Cons p pre)
  then show ?case by (cases "spin < kMaxSpinCount") auto
qed auto

text \<open>
  C32: \<^verbatim>\<open>WaitRequest\<close> returns at the first turn that reads a response count equal to the expected
  one, provided every clock reading until then was within the deadline; it returns only if
  such a count was read; and once it has spun \<^verbatim>\<open>kMaxSpinCount\<close> times, a turn that reads a
  different count and a clock past the deadline ends the process with the timeout error.
\<close>

theorem WaitRequest_correct:
  assumes req: "vec_get (cu_tracker c) ts = Inr req"
    and pre: "\<forall>(rc, now) \<in> set pre. rc \<noteq> tr_count req \<and>
                in_time (tr_start_time req) (timeout_ms * 1000000) now"
  shows "WaitRequest ts timeout_ms (pre @ (tr_count req, now) # post) c = Some (Inr ()) \<and>
    (WaitRequest ts timeout_ms obs c = Some (Inr ()) \<longrightarrow> tr_count req \<in> fst ` set obs) \<and>
    (kMaxSpinCount \<le> length pre \<longrightarrow> rc \<noteq> tr_count req \<longrightarrow>
       \<not> in_time (tr_start_time req) (timeout_ms * 1000000) late \<longrightarrow>
       WaitRequest ts timeout_ms (pre @ (rc, late) # post) c = Some (Inl (LogFatal ''request timeout'')))"
  using wait_loop_hit [OF pre] wait_loop_sound wait_loop_timeout [OF pre, of 0 rc late]
  by (auto simp: WaitRequest_def req)

theorem WaitRequest_correct_witness:
  "WaitRequest 0 10000 ([(0, 5), (1, 9)] @ (2, 12) # []) example_customer = Some (Inr ()) \<and>
   vec_get (cu_tracker example_customer) 0 = Inr (cu_tracker example_customer ! 0)"
proof -
  have get: "vec_get (cu_tracker example_customer) 0 = Inr (cu_tracker example_customer ! 0)"
    by (simp add: example_customer_def vec_get_def)
  have count: "tr_count (cu_tracker example_customer ! 0) = 2"
    by (simp add: example_customer_def)
  have "\<forall>(rc, now) \<in> set [(0, 5), (1, 9)]. rc \<noteq> tr_count (cu_tracker example_customer ! 0) \<and>
      in_time (tr_start_time (cu_tracker example_customer ! 0)) (10000 * 1000000) now"
    by (simp add: example_customer_def)
  from WaitRequest_correct [OF get this] count get show ?thesis by simp
qed

end
