(* ===== verification/Resender.thy ===== *)
theory Resender
  imports Message "HOL-Library.Sublist"
begin

text \<open>
  \<^verbatim>\<open>src/resender.h\<close>: messages are kept until acknowledged, resent when no acknowledgement
  arrives in time, and filtered for duplicates at the receiver.  The operations return the
  acknowledgement or the messages to resend; the van sends them.
\<close>

section \<open>State and operations\<close>

record entry =
  en_msg :: message
  en_send :: int
  en_num_retry :: int

record resender =
  rs_send_buff :: "(64 word, entry) umap"
  rs_acked :: "64 word list"
  rs_timeout :: int
  rs_max_num_retry :: int

definition Resender_new :: "int \<Rightarrow> int \<Rightarrow> resender" where
  "Resender_new timeout max_num_retry =
     \<lparr>rs_send_buff = [], rs_acked = [], rs_timeout = timeout, rs_max_num_retry = max_num_retry\<rparr>"

text \<open>
  The signature of a message: \<^verbatim>\<open>app_id\<close> cut to 16 bits, sender and receiver cut to 8 bits, and
  the \<^verbatim>\<open>int\<close> \<^verbatim>\<open>timestamp << 1\<close> sign-extended to 64 bits.
\<close>

definition GetKey :: "int \<Rightarrow> message \<Rightarrow> (64 word) res" where
  "GetKey my_id msg =
     (let mt = msg_meta msg in
      PS_CHECK (m_timestamp mt \<noteq> kEmpty) ''timestamp''
       (let aid = (word_of_int (m_app_id mt) :: 16 word);
            sender = (word_of_int (if m_sender mt = kEmpty then my_id else m_sender mt) :: 8 word);
            recver = (word_of_int (m_recver mt) :: 8 word)
        in Inr (push_bit 48 (ucast aid) OR push_bit 40 (ucast sender) OR push_bit 32 (ucast recver) OR
                word_of_int (to_int32 (m_timestamp mt * 2)) OR of_bool (m_request mt))))"

definition AddOutgoing :: "int \<Rightarrow> int \<Rightarrow> message \<Rightarrow> resender \<Rightarrow> resender res" where
  "AddOutgoing my_id now msg r =
     (if msg_cmd msg = ACK then Inr r
      else PS_CHECK (m_timestamp (msg_meta msg) \<noteq> kEmpty) ''timestamp''
        (bindR (GetKey my_id msg) (\<lambda>k.
           if umap_find (rs_send_buff r) k \<noteq> None then Inr r
           else Inr (r\<lparr>rs_send_buff :=
                  umap_set k \<lparr>en_msg = msg, en_send = now, en_num_retry = 0\<rparr> (rs_send_buff r)\<rparr>))))"

definition ack_for :: "message \<Rightarrow> 64 word \<Rightarrow> message" where
  "ack_for msg k = Message0\<lparr>msg_meta := Meta0
     \<lparr>m_recver := m_sender (msg_meta msg), m_sender := m_recver (msg_meta msg),
      m_control := Control0\<lparr>c_cmd := ACK, c_msg_sig := k\<rparr>\<rparr>\<rparr>"

text \<open>The result: the new state, whether the message is to be dropped, the acknowledgement.\<close>

definition AddIncomming :: "int \<Rightarrow> message \<Rightarrow> resender \<Rightarrow> (resender \<times> bool \<times> message option) res" where
  "AddIncomming my_id msg r =
     (if msg_cmd msg = TERMINATE then Inr (r, False, None)
      else if msg_cmd msg = ACK then
        Inr (r\<lparr>rs_send_buff := umap_erase (c_msg_sig (m_control (msg_meta msg))) (rs_send_buff r)\<rparr>, True, None)
      else bindR (GetKey my_id msg) (\<lambda>k.
        let duplicated = k \<in> set (rs_acked r);
            r' = (if duplicated then r else r\<lparr>rs_acked := k # rs_acked r\<rparr>)
        in Inr (r', duplicated, Some (ack_for msg k))))"

text \<open>One pass of the monitor thread over the buffer at time \<open>now\<close>.\<close>

definition monitor_entry :: "resender \<Rightarrow> int \<Rightarrow> 64 word \<times> entry \<Rightarrow> message list \<Rightarrow>
    ((64 word \<times> entry) \<times> message list) res" where
  "monitor_entry r now ke resend =
     (let (k, e) = ke in
      if en_send e + rs_timeout r * (1 + en_num_retry e) < now then
        PS_CHECK (en_num_retry e + 1 < rs_max_num_retry r) ''num_retry''
          (Inr ((k, e\<lparr>en_num_retry := en_num_retry e + 1\<rparr>), resend @ [en_msg e]))
      else Inr (ke, resend))"

definition Monitoring_pass :: "int \<Rightarrow> resender \<Rightarrow> (resender \<times> message list) res" where
  "Monitoring_pass now r =
     bindR (mapfoldR (monitor_entry r now) (rs_send_buff r) []) (\<lambda>(buff, resend).
       Inr (r\<lparr>rs_send_buff := buff\<rparr>, resend))"

section \<open>Signatures\<close>

definition sender_of :: "int \<Rightarrow> message \<Rightarrow> int" where
  "sender_of my_id msg = (if m_sender (msg_meta msg) = kEmpty then my_id else m_sender (msg_meta msg))"

text \<open>The ranges in which no part of a signature is cut off.\<close>

definition key_fits :: "int \<Rightarrow> message \<Rightarrow> bool" where
  "key_fits my_id msg \<longleftrightarrow>
     0 \<le> m_app_id (msg_meta msg) \<and> m_app_id (msg_meta msg) < 2 ^ 16 \<and>
     0 \<le> sender_of my_id msg \<and> sender_of my_id msg < 2 ^ 8 \<and>
     0 \<le> m_recver (msg_meta msg) \<and> m_recver (msg_meta msg) < 2 ^ 8 \<and>
     0 \<le> m_timestamp (msg_meta msg) \<and> m_timestamp (msg_meta msg) < 2 ^ 30"

lemma key_fields:
  fixes a :: "16 word" and s r :: "8 word" and l :: "64 word"
  assumes low: "\<And>n. 32 \<le> n \<Longrightarrow> \<not> bit l n"
    and k: "k = push_bit 48 (ucast a) OR push_bit 40 (ucast s) OR push_bit 32 (ucast r) OR l"
  shows "ucast (drop_bit 48 k) = a" "ucast (drop_bit 40 k) = s" "ucast (drop_bit 32 k) = r"
    "take_bit 32 k = l"
proof -
  show "ucast (drop_bit 48 k) = a" "ucast (drop_bit 40 k) = s" "ucast (drop_bit 32 k) = r"
    by (rule bit_word_eqI; auto simp: k bit_simps low dest: bit_imp_le_length)+
  show "take_bit 32 k = l"
    by (rule bit_word_eqI) (auto simp: k bit_simps low not_less intro: ccontr [OF low [THEN notE]])
qed

lemma small_word:
  assumes "0 \<le> (v :: int)" and "v < 2 ^ 32"
  shows "uint (word_of_int v :: 64 word) = v"
  using assms by (simp add: uint_word_of_int)

lemma low_part:
  fixes t :: int
  assumes "0 \<le> t" and "t < 2 ^ 30"
  shows "(word_of_int (to_int32 (t * 2)) OR of_bool b :: 64 word) = word_of_int (t * 2 + of_bool b)"
    and "uint (word_of_int (t * 2 + of_bool b) :: 64 word) = t * 2 + of_bool b"
    and "32 \<le> n \<Longrightarrow> \<not> bit (word_of_int (t * 2 + of_bool b) :: 64 word) n"
proof -
  have t: "to_int32 (t * 2) = t * 2"
    using assms by (simp add: int32_def)
  have sum: "t * 2 + of_bool b = t * 2 OR of_bool b"
    by (cases b) (simp_all add: even_or_iff or_one_eq)
  show eq: "(word_of_int (to_int32 (t * 2)) OR of_bool b :: 64 word) = word_of_int (t * 2 + of_bool b)"
    unfolding t sum by (cases b) (simp_all add: or_one_eq)
  have small: "0 \<le> t * 2 + of_bool b" "t * 2 + of_bool b < 2 ^ 32"
    using assms by (cases b; simp)+
  then show u: "uint (word_of_int (t * 2 + of_bool b) :: 64 word) = t * 2 + of_bool b"
    by (intro small_word) auto
  assume n: "32 \<le> n"
  have "take_bit 32 (t * 2 + of_bool b :: int) = t * 2 + of_bool b"
    using small by (simp add: take_bit_int_eq_self)
  then have "\<not> bit (t * 2 + of_bool b :: int) n"
    using n bit_take_bit_iff [of 32 "t * 2 + of_bool b :: int" n] by simp
  then show "\<not> bit (word_of_int (t * 2 + of_bool b) :: 64 word) n"
    unfolding bit_word_of_int_iff by blast
qed

text \<open>What a signature is meant to identify.\<close>

definition identity :: "int \<Rightarrow> message \<Rightarrow> int \<times> int \<times> int \<times> int \<times> bool" where
  "identity my_id msg = (m_app_id (msg_meta msg), sender_of my_id msg, m_recver (msg_meta msg),
     m_timestamp (msg_meta msg), m_request (msg_meta msg))"

lemma GetKey_form:
  assumes "key_fits my_id msg" and "m_timestamp (msg_meta msg) \<noteq> kEmpty"
  shows "GetKey my_id msg = Inr (push_bit 48 (ucast (word_of_int (m_app_id (msg_meta msg)) :: 16 word)) OR
     push_bit 40 (ucast (word_of_int (sender_of my_id msg) :: 8 word)) OR
     push_bit 32 (ucast (word_of_int (m_recver (msg_meta msg)) :: 8 word)) OR
     word_of_int (m_timestamp (msg_meta msg) * 2 + of_bool (m_request (msg_meta msg))))"
proof -
  have t: "0 \<le> m_timestamp (msg_meta msg)" "m_timestamp (msg_meta msg) < 2 ^ 30"
    using assms(1) unfolding key_fits_def by blast+
  show ?thesis
    using assms(2)
    by (simp add: GetKey_def sender_of_def Let_def or.assoc low_part(1) [OF t])
qed

lemma GetKey_fields:
  assumes fits: "key_fits my_id msg" and key: "GetKey my_id msg = Inr k"
  shows "(ucast (drop_bit 48 k) :: 16 word) = word_of_int (m_app_id (msg_meta msg))"
    and "(ucast (drop_bit 40 k) :: 8 word) = word_of_int (sender_of my_id msg)"
    and "(ucast (drop_bit 32 k) :: 8 word) = word_of_int (m_recver (msg_meta msg))"
    and "uint (take_bit 32 k) = m_timestamp (msg_meta msg) * 2 + of_bool (m_request (msg_meta msg))"
proof -
  have t: "0 \<le> m_timestamp (msg_meta msg)" "m_timestamp (msg_meta msg) < 2 ^ 30"
    using fits unfolding key_fits_def by blast+
  have "m_timestamp (msg_meta msg) \<noteq> kEmpty"
    using key by (auto simp: GetKey_def Let_def res_simps)
  from GetKey_form [OF fits this] key have k: "k =
     push_bit 48 (ucast (word_of_int (m_app_id (msg_meta msg)) :: 16 word)) OR
     push_bit 40 (ucast (word_of_int (sender_of my_id msg) :: 8 word)) OR
     push_bit 32 (ucast (word_of_int (m_recver (msg_meta msg)) :: 8 word)) OR
     word_of_int (m_timestamp (msg_meta msg) * 2 + of_bool (m_request (msg_meta msg)))" by simp
  note f = key_fields [OF low_part(3) [OF t] k]
  show "(ucast (drop_bit 48 k) :: 16 word) = word_of_int (m_app_id (msg_meta msg))"
    "(ucast (drop_bit 40 k) :: 8 word) = word_of_int (sender_of my_id msg)"
    "(ucast (drop_bit 32 k) :: 8 word) = word_of_int (m_recver (msg_meta msg))"
    by (rule f(1), simp) (rule f(2), simp, rule f(3), simp)
  have "take_bit 32 k = word_of_int (m_timestamp (msg_meta msg) * 2 + of_bool (m_request (msg_meta msg)))"
    by (rule f(4)) simp
  then show "uint (take_bit 32 k) = m_timestamp (msg_meta msg) * 2 + of_bool (m_request (msg_meta msg))"
    using low_part(2) [OF t, of "m_request (msg_meta msg)"] by metis
qed

lemma word_of_int_eq_small:
  fixes x y :: int
  assumes "(word_of_int x :: 'a::len word) = word_of_int y"
    and "0 \<le> x" and "x < 2 ^ LENGTH('a)" and "0 \<le> y" and "y < 2 ^ LENGTH('a)"
  shows "x = y"
  using assms by (metis uint_word_of_int_eq take_bit_int_eq_self)

lemma GetKey_total: "m_timestamp (msg_meta msg) \<noteq> kEmpty \<Longrightarrow> \<exists>k. GetKey my_id msg = Inr k"
  by (simp add: GetKey_def Let_def)

text \<open>
  \<^verbatim>\<open>Resender::GetKey\<close> loses nothing when the ids are small enough: two messages whose
  \<^verbatim>\<open>app_id\<close> fits 16 bits, whose sender and receiver fit 8 bits and whose timestamp is below
  \<open>2^30\<close> get the same signature only if they agree in application, sender, receiver, timestamp
  and request flag.
\<close>

theorem GetKey_injective:
  assumes "key_fits me msg" and "key_fits me' msg'" and "GetKey me msg = Inr k" and "GetKey me' msg' = Inr k"
  shows "identity me msg = identity me' msg'"
proof -
  note f = GetKey_fields [OF assms(1,3)] and f' = GetKey_fields [OF assms(2,4)]
  have "(word_of_int (m_app_id (msg_meta msg)) :: 16 word) = word_of_int (m_app_id (msg_meta msg'))"
    "(word_of_int (sender_of me msg) :: 8 word) = word_of_int (sender_of me' msg')"
    "(word_of_int (m_recver (msg_meta msg)) :: 8 word) = word_of_int (m_recver (msg_meta msg'))"
    using f(1-3) f'(1-3) by simp_all
  then have ids: "m_app_id (msg_meta msg) = m_app_id (msg_meta msg')" "sender_of me msg = sender_of me' msg'"
    "m_recver (msg_meta msg) = m_recver (msg_meta msg')"
    using assms(1,2) unfolding key_fits_def by (auto intro: word_of_int_eq_small)
  have "m_timestamp (msg_meta msg) * 2 + of_bool (m_request (msg_meta msg)) =
      m_timestamp (msg_meta msg') * 2 + of_bool (m_request (msg_meta msg'))"
    using f(4) f'(4) by simp
  then have "m_timestamp (msg_meta msg) = m_timestamp (msg_meta msg')"
    "m_request (msg_meta msg) = m_request (msg_meta msg')"
    by (cases "m_request (msg_meta msg)"; cases "m_request (msg_meta msg')"; simp; presburger)+
  with ids show ?thesis by (simp add: identity_def)
qed

definition example_msg :: "int \<Rightarrow> int \<Rightarrow> message" where
  "example_msg sender ts = Message0\<lparr>msg_meta := Meta0\<lparr>m_app_id := 1, m_sender := sender, m_recver := 8,
     m_timestamp := ts, m_request := True\<rparr>\<rparr>"

lemmas example_msg_simps = example_msg_def Message0_def Meta0_def Control0_def kEmpty_def

theorem GetKey_injective_witness:
  "GetKey 8 (example_msg 9 5) = Inr 0x000109080000000b \<and>
   identity 8 (example_msg 9 5) = identity 9 (example_msg kEmpty 5)"
proof -
  have k: "GetKey 8 (example_msg 9 5) = Inr 0x000109080000000b" "GetKey 9 (example_msg kEmpty 5) = Inr 0x000109080000000b"
    by (simp_all add: GetKey_def example_msg_simps to_int32_def)
  have "key_fits 8 (example_msg 9 5)" "key_fits 9 (example_msg kEmpty 5)"
    by (simp_all add: key_fits_def sender_of_def example_msg_simps)
  from GetKey_injective [OF this k] k show ?thesis by simp
qed

section \<open>Receiving\<close>

text \<open>
  The receiving loop of the van as far as the resender sees it: a message for which
  \<^verbatim>\<open>AddIncomming\<close> returns false goes on to its handler, the acknowledgements go out.
\<close>

definition receive_one :: "int \<Rightarrow> message \<Rightarrow> resender \<times> message list \<times> message list \<Rightarrow>
    (resender \<times> message list \<times> message list) res" where
  "receive_one my_id msg s =
     (let (r, handled, acks) = s in
      bindR (AddIncomming my_id msg r) (\<lambda>(r', drop, ack).
        Inr (r', if drop then handled else handled @ [msg],
             case ack of None \<Rightarrow> acks | Some a \<Rightarrow> acks @ [a])))"

definition receive_all :: "int \<Rightarrow> message list \<Rightarrow> resender \<Rightarrow>
    (resender \<times> message list \<times> message list) res" where
  "receive_all my_id msgs r = foldR (receive_one my_id) msgs (r, [], [])"

definition signature_of :: "int \<Rightarrow> message \<Rightarrow> 64 word" where
  "signature_of my_id msg = (case GetKey my_id msg of Inl _ \<Rightarrow> 0 | Inr k \<Rightarrow> k)"

definition tracked :: "message \<Rightarrow> bool" where
  "tracked msg \<longleftrightarrow> msg_cmd msg \<notin> {TERMINATE, ACK} \<and> m_timestamp (msg_meta msg) \<noteq> kEmpty"

lemma AddIncomming_tracked:
  assumes "tracked msg"
  shows "AddIncomming my_id msg r =
    (let k = signature_of my_id msg in
     Inr (if k \<in> set (rs_acked r) then r else r\<lparr>rs_acked := k # rs_acked r\<rparr>, k \<in> set (rs_acked r),
          Some (ack_for msg k)))"
proof -
  have "GetKey my_id msg = Inr (signature_of my_id msg)"
    using assms by (simp add: signature_of_def tracked_def GetKey_def Let_def)
  then show ?thesis
    using assms by (simp add: AddIncomming_def tracked_def Let_def)
qed

text \<open>What has been handled and acknowledged after the messages \<open>msgs\<close>.\<close>

definition received :: "int \<Rightarrow> resender \<Rightarrow> message list \<Rightarrow> resender \<times> message list \<times> message list \<Rightarrow> bool" where
  "received my_id r0 msgs s \<longleftrightarrow> (case s of (r, handled, acks) \<Rightarrow>
     set (rs_acked r) = signature_of my_id ` set handled \<and>
     subseq handled msgs \<and>
     distinct (map (signature_of my_id) handled) \<and>
     signature_of my_id ` set handled = signature_of my_id ` set msgs \<and>
     acks = map (\<lambda>msg. ack_for msg (signature_of my_id msg)) msgs \<and>
     rs_send_buff r = rs_send_buff r0)"

lemma receive_one_received:
  assumes "received my_id r0 msgs s" and t: "tracked msg"
  shows "\<exists>s'. receive_one my_id msg s = Inr s' \<and> received my_id r0 (msgs @ [msg]) s'"
proof -
  obtain r handled acks where s: "s = (r, handled, acks)" by (cases s)
  let ?k = "signature_of my_id msg"
  show ?thesis
  proof (cases "?k \<in> set (rs_acked r)")
    case True
    then have "receive_one my_id msg s = Inr (r, handled, acks @ [ack_for msg ?k])"
      by (simp add: s receive_one_def AddIncomming_tracked [OF t] Let_def)
    moreover have "received my_id r0 (msgs @ [msg]) (r, handled, acks @ [ack_for msg ?k])"
      using assms(1) True by (auto simp: received_def s)
    ultimately show ?thesis by blast
  next
    case False
    then have "receive_one my_id msg s =
        Inr (r\<lparr>rs_acked := ?k # rs_acked r\<rparr>, handled @ [msg], acks @ [ack_for msg ?k])"
      by (simp add: s receive_one_def AddIncomming_tracked [OF t] Let_def)
    moreover have "received my_id r0 (msgs @ [msg])
        (r\<lparr>rs_acked := ?k # rs_acked r\<rparr>, handled @ [msg], acks @ [ack_for msg ?k])"
      using assms(1) False by (simp add: received_def s)
    ultimately show ?thesis by blast
  qed
qed

lemma receive_all_received:
  assumes "\<forall>msg\<in>set msgs. tracked msg" and "rs_acked r0 = []"
  shows "\<exists>s. receive_all my_id msgs r0 = Inr s \<and> received my_id r0 msgs s"
  using assms(1)
proof (induction msgs rule: rev_induct)
  case Nil
  then show ?case using assms(2) by (simp add: receive_all_def received_def)
next
  case (snoc msg msgs)
  then obtain s where s: "foldR (receive_one my_id) msgs (r0, [], []) = Inr s" "received my_id r0 msgs s"
    by (auto simp: receive_all_def)
  then show ?case
    using receive_one_received [OF s(2), of msg] snoc.prems
    by (auto simp: receive_all_def foldR_append)
qed

text \<open>
  C8: exactly-once handling.  Whatever messages arrive, in whatever order and however often
  each is repeated, a fresh resender lets through one message per signature and none of the
  others, in arrival order, and acknowledges every arrival with its signature, duplicates
  included.  The send buffer is not touched.
\<close>

theorem exactly_once_handling:
  assumes "\<forall>msg\<in>set msgs. tracked msg"
  shows "\<exists>r handled acks.
    receive_all my_id msgs (Resender_new timeout retries) = Inr (r, handled, acks) \<and>
    subseq handled msgs \<and>
    distinct (map (signature_of my_id) handled) \<and>
    signature_of my_id ` set handled = signature_of my_id ` set msgs \<and>
    acks = map (\<lambda>msg. ack_for msg (signature_of my_id msg)) msgs \<and>
    rs_send_buff r = []"
  using receive_all_received [OF assms, of "Resender_new timeout retries" my_id]
  by (auto simp: received_def Resender_new_def)

theorem exactly_once_handling_witness:
  "\<exists>r handled acks.
    receive_all 8 [example_msg 9 5, example_msg 9 6, example_msg 9 5] (Resender_new 1000 10) = Inr (r, handled, acks) \<and>
    distinct (map (signature_of 8) handled) \<and>
    signature_of 8 ` set handled = {0x000109080000000b, 0x000109080000000d} \<and> length acks = 3"
proof -
  have "\<forall>msg\<in>set [example_msg 9 5, example_msg 9 6, example_msg 9 5]. tracked msg"
    by (simp add: tracked_def example_msg_simps)
  moreover have "signature_of 8 (example_msg 9 5) = 0x000109080000000b" "signature_of 8 (example_msg 9 6) = 0x000109080000000d"
    by (simp_all add: signature_of_def GetKey_def example_msg_simps to_int32_def)
  ultimately show ?thesis
    using exactly_once_handling [of "[example_msg 9 5, example_msg 9 6, example_msg 9 5]" 8 1000 10] by auto
qed

section \<open>Acknowledgements\<close>

text \<open>How a message looks on arrival: the transport has filled in the sender.\<close>

definition on_arrival :: "int \<Rightarrow> message \<Rightarrow> message" where
  "on_arrival sender msg = upd_meta (m_sender_update (\<lambda>_. sender)) msg"

lemma cmd_on_arrival [simp]: "msg_cmd (on_arrival me msg) = msg_cmd msg"
  by (simp add: on_arrival_def)

lemma GetKey_on_arrival:
  assumes "m_sender (msg_meta msg) \<in> {kEmpty, me}" and "me \<noteq> kEmpty"
  shows "GetKey you (on_arrival me msg) = GetKey me msg"
  using assms by (auto simp: GetKey_def on_arrival_def Let_def)

text \<open>
  C30: the acknowledgement protocol closes.  A node buffers the message it sends under a
  signature; the receiver computes the same signature although the sender field was empty at
  the sender, addresses its acknowledgement to the sender, and when that arrives the entry is
  gone, every other buffered message is kept and the acknowledgement goes no further.
\<close>

theorem acknowledged_message_leaves_buffer:
  assumes "tracked msg" and "m_sender (msg_meta msg) \<in> {kEmpty, me}" and "me \<noteq> kEmpty"
    and sent: "AddOutgoing me now msg r = Inr r1"
    and arrived: "AddIncomming you (on_arrival me msg) r2 = Inr (r3, dropped, ack)"
  shows "\<exists>k a r4. GetKey me msg = Inr k \<and> umap_find (rs_send_buff r1) k \<noteq> None \<and>
    ack = Some a \<and> m_recver (msg_meta a) = me \<and> m_sender (msg_meta a) = m_recver (msg_meta msg) \<and>
    AddIncomming me a r1 = Inr (r4, True, None) \<and>
    umap_find (rs_send_buff r4) k = None \<and>
    (\<forall>j. j \<noteq> k \<longrightarrow> umap_find (rs_send_buff r4) j = umap_find (rs_send_buff r) j)"
proof -
  have ne: "msg_cmd msg \<noteq> ACK" "msg_cmd msg \<noteq> TERMINATE" "m_timestamp (msg_meta msg) \<noteq> kEmpty"
    using assms(1) by (auto simp: tracked_def)
  then obtain k where k: "GetKey me msg = Inr k" using GetKey_total by blast
  have r1: "umap_find (rs_send_buff r1) k \<noteq> None"
    "\<forall>j. j \<noteq> k \<longrightarrow> umap_find (rs_send_buff r1) j = umap_find (rs_send_buff r) j"
    using sent ne k by (auto simp: AddOutgoing_def res_simps split: if_splits)
  have a: "ack = Some (ack_for (on_arrival me msg) k)"
    using arrived ne k by (auto simp: AddIncomming_def GetKey_on_arrival [OF assms(2,3)] Let_def)
  have "AddIncomming me (ack_for (on_arrival me msg) k) r1 =
      Inr (r1\<lparr>rs_send_buff := umap_erase k (rs_send_buff r1)\<rparr>, True, None)"
    by (simp add: AddIncomming_def ack_for_def Message0_def Meta0_def Control0_def)
  with k r1 a show ?thesis
    by (simp add: ack_for_def on_arrival_def Message0_def)
qed

theorem acknowledged_message_leaves_buffer_witness:
  "\<exists>r1 r3 a r4. AddOutgoing 9 0 (example_msg kEmpty 5) (Resender_new 1000 10) = Inr r1 \<and>
     rs_send_buff r1 \<noteq> [] \<and>
     AddIncomming 8 (on_arrival 9 (example_msg kEmpty 5)) (Resender_new 1000 10) = Inr (r3, False, Some a) \<and>
     AddIncomming 9 a r1 = Inr (r4, True, None) \<and> umap_find (rs_send_buff r4) 0x000109080000000b = None"
proof -
  let ?m = "example_msg kEmpty 5" and ?r = "Resender_new 1000 10"
  have k: "GetKey 9 ?m = Inr 0x000109080000000b" and t: "tracked ?m"
    and s: "m_sender (msg_meta ?m) \<in> {kEmpty, 9}" "(9::int) \<noteq> kEmpty"
    by (simp_all add: GetKey_def tracked_def example_msg_simps to_int32_def)
  obtain r1 where r1: "AddOutgoing 9 0 ?m ?r = Inr r1" "rs_send_buff r1 \<noteq> []"
    using k t by (auto simp: AddOutgoing_def tracked_def Resender_new_def umap_set_def)
  obtain r3 a where "AddIncomming 8 (on_arrival 9 ?m) ?r = Inr (r3, False, Some a)"
    using k t by (auto simp: AddIncomming_def GetKey_on_arrival [OF s] tracked_def Resender_new_def Let_def)
  with acknowledged_message_leaves_buffer [OF t s r1(1), of 8 ?r r3 False "Some a"] r1 k show ?thesis by auto
qed

section \<open>Resending\<close>

definition expired :: "resender \<Rightarrow> int \<Rightarrow> entry \<Rightarrow> bool" where
  "expired r now e \<longleftrightarrow> en_send e + rs_timeout r * (1 + en_num_retry e) < now"

definition within_retries :: "resender \<Rightarrow> bool" where
  "within_retries r \<longleftrightarrow> (\<forall>(k, e)\<in>set (rs_send_buff r). 0 \<le> en_num_retry e \<and> en_num_retry e < max 1 (rs_max_num_retry r))"

lemma monitor_loop:
  "mapfoldR (monitor_entry r now) buff out =
     (if \<exists>(k, e)\<in>set buff. expired r now e \<and> rs_max_num_retry r \<le> en_num_retry e + 1
      then Inl (CheckFailed ''num_retry'')
      else Inr (map (\<lambda>(k, e). (k, if expired r now e then e\<lparr>en_num_retry := en_num_retry e + 1\<rparr> else e)) buff,
                out @ map (en_msg \<circ> snd) (filter (expired r now \<circ> snd) buff)))"
proof (induction buff arbitrary: out)
  case (Cons ke buff)
  obtain k e where "ke = (k, e)" by (cases ke)
  then show ?case
    using Cons.IH by (simp add: monitor_entry_def expired_def [symmetric] not_less PS_CHECK_def comp_def)
qed simp

text \<open>The calls a resender gets from the van's threads and its own, in the order of its mutex.\<close>

datatype rs_call = Outgoing int message | Incoming message | Monitor int

definition rs_step :: "int \<Rightarrow> rs_call \<Rightarrow> resender \<Rightarrow> resender res" where
  "rs_step my_id c r =
     (case c of
        Outgoing now msg \<Rightarrow> AddOutgoing my_id now msg r
      | Incoming msg \<Rightarrow> bindR (AddIncomming my_id msg r) (\<lambda>(r', _). Inr r')
      | Monitor now \<Rightarrow> bindR (Monitoring_pass now r) (\<lambda>(r', _). Inr r'))"

definition rs_run :: "int \<Rightarrow> rs_call list \<Rightarrow> resender \<Rightarrow> resender res" where
  "rs_run my_id calls r = foldR (rs_step my_id) calls r"

lemma set_umap_set: "set (umap_set k v m) \<subseteq> insert (k, v) (set m)"
  by (induction m) (auto simp: umap_set_def)

lemma set_umap_erase: "set (umap_erase k m) \<subseteq> set m"
  by (induction m) (auto simp: umap_erase_def)

lemma within_retries_step:
  assumes "within_retries r" and "rs_step my_id c r = Inr r'"
  shows "within_retries r' \<and> rs_max_num_retry r' = rs_max_num_retry r"
proof (cases c)
  case (Outgoing now msg)
  then show ?thesis
    using assms set_umap_set by (fastforce simp: rs_step_def AddOutgoing_def within_retries_def res_simps split: if_splits)
next
  case (Incoming msg)
  then show ?thesis
    using assms set_umap_erase
    by (fastforce simp: rs_step_def AddIncomming_def within_retries_def res_simps Let_def split: if_splits)
next
  case (Monitor now)
  then show ?thesis
    using assms
    by (fastforce simp: rs_step_def Monitoring_pass_def monitor_loop within_retries_def split: if_splits prod.splits)
qed

lemma within_retries_run:
  assumes "rs_run my_id calls r = Inr r'" and "within_retries r"
  shows "within_retries r' \<and> rs_max_num_retry r' = rs_max_num_retry r"
  using assms(1) [unfolded rs_run_def]
  by (rule foldR_invariant [where P = "\<lambda>s. within_retries s \<and> rs_max_num_retry s = rs_max_num_retry r"])
    (use assms(2) within_retries_step in auto)

text \<open>
  C31: bounded retries.  After any sequence of sends, arrivals and monitor passes no buffered
  message has been resent \<^verbatim>\<open>max_num_retry\<close> times or more; a further pass stops the process
  exactly if some message that is overdue has used up its retries, and otherwise resends
  exactly the overdue messages, counts the retry at them and leaves the other entries alone.
\<close>

theorem bounded_retries:
  assumes "rs_run my_id calls (Resender_new timeout retries) = Inr r"
  shows "(\<forall>(k, e)\<in>set (rs_send_buff r). 0 \<le> en_num_retry e \<and> en_num_retry e < max 1 retries) \<and>
    Monitoring_pass now r =
     (if \<exists>(k, e)\<in>set (rs_send_buff r). expired r now e \<and> retries \<le> en_num_retry e + 1
      then Inl (CheckFailed ''num_retry'')
      else Inr (r\<lparr>rs_send_buff := map (\<lambda>(k, e). (k, if expired r now e
                    then e\<lparr>en_num_retry := en_num_retry e + 1\<rparr> else e)) (rs_send_buff r)\<rparr>,
                map (en_msg \<circ> snd) (filter (expired r now \<circ> snd) (rs_send_buff r))))"
proof -
  have "within_retries r" "rs_max_num_retry r = retries"
    using within_retries_run [OF assms] by (auto simp: within_retries_def Resender_new_def)
  then show ?thesis
    unfolding within_retries_def by (auto simp: Monitoring_pass_def monitor_loop)
qed

theorem bounded_retries_witness:
  "\<exists>r. rs_run 9 [Outgoing 0 (example_msg kEmpty 5), Monitor 1001] (Resender_new 1000 3) = Inr r \<and>
     (\<forall>(k, e)\<in>set (rs_send_buff r). 0 \<le> en_num_retry e \<and> en_num_retry e < 3) \<and>
     map snd (rs_send_buff r) = [\<lparr>en_msg = example_msg kEmpty 5, en_send = 0, en_num_retry = 1\<rparr>] \<and>
     Monitoring_pass 2001 r = Inr (r\<lparr>rs_send_buff := map (\<lambda>(k, e). (k, e\<lparr>en_num_retry := 2\<rparr>)) (rs_send_buff r)\<rparr>,
       [example_msg kEmpty 5])"
proof -
  let ?m = "example_msg kEmpty 5"
  have k: "GetKey 9 ?m = Inr 0x000109080000000b" and m: "msg_cmd ?m \<noteq> ACK" "m_timestamp (msg_meta ?m) \<noteq> kEmpty"
    by (simp_all add: GetKey_def example_msg_simps to_int32_def)
  obtain r where r: "rs_run 9 [Outgoing 0 ?m, Monitor 1001] (Resender_new 1000 3) = Inr r"
    "rs_send_buff r = [(0x000109080000000b, \<lparr>en_msg = ?m, en_send = 0, en_num_retry = 1\<rparr>)]" "rs_timeout r = 1000"
    using k m by (simp add: rs_run_def rs_step_def AddOutgoing_def Monitoring_pass_def monitor_entry_def
        Resender_new_def umap_set_def)
  show ?thesis
    using bounded_retries [OF r(1), of 2001] r by (simp add: expired_def)
qed

text \<open>
  signatures are cut.  Two different senders whose ids agree modulo 256 (the workers 9
  and 265, that is ranks 0 and 128) give the same signature, so a receiver that has handled
  the first sender's message drops the other sender's message and acknowledges it, and that
  message is lost for good.
\<close>

theorem signature_collision_drops_message:
  assumes "m_sender (msg_meta a) mod 256 = m_sender (msg_meta b) mod 256"
    and "m_sender (msg_meta a) \<noteq> kEmpty" and "m_sender (msg_meta b) \<noteq> kEmpty"
    and "m_app_id (msg_meta a) = m_app_id (msg_meta b)" and "m_recver (msg_meta a) = m_recver (msg_meta b)"
    and "m_timestamp (msg_meta a) = m_timestamp (msg_meta b)" and "m_request (msg_meta a) = m_request (msg_meta b)"
    and "tracked a" and "tracked b"
  shows "\<exists>r acks. receive_all my_id [a, b] (Resender_new timeout retries) = Inr (r, [a], acks) \<and>
    map (m_recver \<circ> msg_meta) acks = [m_sender (msg_meta a), m_sender (msg_meta b)]"
proof -
  have "(word_of_int (m_sender (msg_meta a)) :: 8 word) = word_of_int (m_sender (msg_meta b))"
    using assms(1) by (simp add: word_of_int_eq_iff take_bit_eq_mod)
  then have "signature_of my_id a = signature_of my_id b"
    using assms(2-7) by (simp add: signature_of_def GetKey_def Let_def)
  then show ?thesis
    using assms(8,9)
    by (simp add: receive_all_def receive_one_def AddIncomming_tracked Let_def Resender_new_def ack_for_def)
qed

theorem signature_collision_drops_message_witness:
  "\<exists>r acks. receive_all 8 [example_msg 9 5, example_msg 265 5] (Resender_new 1000 10) = Inr (r, [example_msg 9 5], acks) \<and>
    map (m_recver \<circ> msg_meta) acks = [9, 265]"
  using signature_collision_drops_message [of "example_msg 9 5" "example_msg 265 5" 8 1000 10]
  by (simp add: example_msg_simps tracked_def)

end
