(* ===== verification/Wire.thy ===== *)
theory Wire
  imports Message
begin

text \<open>
  The wire format of \<^verbatim>\<open>src/meta.h\<close> and the functions \<^verbatim>\<open>Van::GetPackMetaLen\<close>, \<^verbatim>\<open>Van::PackMeta\<close> and
  \<^verbatim>\<open>Van::UnpackMeta\<close>.  The structs are laid out by the x86-64 rules (natural alignment, size
  rounded up to the largest alignment); a buffer is a memory from offsets to bytes, and
  packing is the sequence of writes of the code, so the padding and whatever the code leaves
  unwritten keep their old contents.
\<close>

section \<open>Memory and struct layout\<close>

type_synonym mem = "nat \<Rightarrow> byte"

definition put :: "nat \<Rightarrow> byte list \<Rightarrow> mem \<Rightarrow> mem" where
  "put a bs m = (\<lambda>i. if a \<le> i \<and> i < a + length bs then bs ! (i - a) else m i)"

definition get :: "nat \<Rightarrow> nat \<Rightarrow> mem \<Rightarrow> byte list" where
  "get a n m = map m [a..<a + n]"

definition put_all :: "(nat \<times> byte list) list \<Rightarrow> mem \<Rightarrow> mem" where
  "put_all ws m = fold (\<lambda>(a, bs). put a bs) ws m"

definition align_up :: "nat \<Rightarrow> nat \<Rightarrow> nat" where
  "align_up a al = (a + al - 1) div al * al"

text \<open>The offsets of the fields (name, size, alignment) of a struct, and its size.\<close>

fun layout :: "(string \<times> nat \<times> nat) list \<Rightarrow> nat \<Rightarrow> (string \<times> nat) list" where
  "layout [] a = []"
| "layout ((f, sz, al) # fs) a = (f, align_up a al) # layout fs (align_up a al + sz)"

fun layout_end :: "(string \<times> nat \<times> nat) list \<Rightarrow> nat \<Rightarrow> nat" where
  "layout_end [] a = a"
| "layout_end ((f, sz, al) # fs) a = layout_end fs (align_up a al + sz)"

definition sizeof :: "(string \<times> nat \<times> nat) list \<Rightarrow> nat" where
  "sizeof fs = align_up (layout_end fs 0) (foldr (\<lambda>(f, sz, al). max al) fs 1)"

definition offsetof :: "(string \<times> nat \<times> nat) list \<Rightarrow> string \<Rightarrow> nat" where
  "offsetof fs f = (case map_of (layout fs 0) f of None \<Rightarrow> 0 | Some a \<Rightarrow> a)"

definition RawNode :: "(string \<times> nat \<times> nat) list" where
  "RawNode =
     [(''role'', 4, 4), (''id'', 4, 4), (''hostname'', 64, 1), (''num_ports'', 4, 4),
      (''ports'', 32 * 4, 4), (''port'', 4, 4), (''dev_types'', 32 * 4, 4), (''dev_ids'', 32 * 4, 4),
      (''is_recovery'', 1, 1), (''customer_id'', 4, 4), (''endpoint_name'', 64, 1),
      (''endpoint_name_len'', 8, 8), (''aux_id'', 4, 4)]"

definition RawControl :: "(string \<times> nat \<times> nat) list" where
  "RawControl = [(''cmd'', 4, 4), (''node_size'', 4, 4), (''barrier_group'', 4, 4), (''msg_sig'', 8, 8)]"

definition RawTrace :: "(string \<times> nat \<times> nat) list" where
  "RawTrace = [(''pre_start'', 8, 8), (''start'', 8, 8), (''postsend'', 8, 8), (''postrecv'', 8, 8), (''process'', 8, 8)]"

definition RawMeta :: "(string \<times> nat \<times> nat) list" where
  "RawMeta =
     [(''head'', 4, 4), (''body_size'', 4, 4), (''control'', sizeof RawControl, 8), (''request'', 1, 1),
      (''app_id'', 4, 4), (''timestamp'', 4, 4), (''data_type_size'', 4, 4), (''src_dev_type'', 4, 4),
      (''src_dev_id'', 4, 4), (''dst_dev_type'', 4, 4), (''dst_dev_id'', 4, 4), (''customer_id'', 4, 4),
      (''push'', 1, 1), (''simple_app'', 1, 1), (''data_size'', 4, 4), (''key'', 8, 8), (''addr'', 8, 8),
      (''val_len'', 4, 4), (''option'', 4, 4), (''sid'', 4, 4), (''is_tensor'', 4, 4), (''dtype'', 4, 4),
      (''dim'', 4, 4), (''shape'', 8 * 8, 8), (''request_trace'', sizeof RawTrace, 8),
      (''response_trace'', sizeof RawTrace, 8), (''slave_qp_counter'', QP_MAX_NUM * 8, 8),
      (''slave_qp_num'', 4, 4)]"

abbreviation off :: "string \<Rightarrow> nat" where
  "off f \<equiv> offsetof RawMeta f"

abbreviation ctrl_off :: "string \<Rightarrow> nat" where
  "ctrl_off f \<equiv> offsetof RawMeta ''control'' + offsetof RawControl f"

abbreviation node_off :: "string \<Rightarrow> nat" where
  "node_off f \<equiv> offsetof RawNode f"

section \<open>Enumerations as integers\<close>

definition DataTypes :: "DataType list" where
  "DataTypes = [DataType.CHAR, INT8, INT16, INT32, INT64, UINT8, UINT16, UINT32, UINT64, FLOAT, DOUBLE, OTHER]"

definition DeviceTypes :: "DeviceType list" where
  "DeviceTypes = [UNK, CPU, GPU]"

definition Roles :: "Role list" where
  "Roles = [SERVER, WORKER, SCHEDULER, JOINT]"

definition Commands :: "Command list" where
  "Commands = [EMPTY, TERMINATE, ADD_NODE, BARRIER, ACK, HEARTBEAT, BOOTSTRAP, ADDR_REQUEST, ADDR_RESOLVED, INSTANCE_BARRIER]"

text \<open>The value of an enumerator, and the cast back, which needs an enumerator of that value.\<close>

definition enum_code :: "'a list \<Rightarrow> 'a \<Rightarrow> int" where
  "enum_code es x = int (length (takeWhile (\<lambda>y. y \<noteq> x) es))"

definition enum_cast :: "'a list \<Rightarrow> int \<Rightarrow> 'a res" where
  "enum_cast es i = (if 0 \<le> i \<and> nat i < length es then Inr (es ! nat i) else Inl (Undefined ''enum value''))"

definition to_int8 :: "int \<Rightarrow> int" where
  "to_int8 x = (x + 128) mod 256 - 128"

section \<open>Packing\<close>

definition GetPackMetaLen :: "meta \<Rightarrow> int" where
  "GetPackMetaLen meta = to_int32 (int (sizeof RawMeta + length (m_body meta) +
     length (m_data_type meta) * 4 + length (c_node (m_control meta)) * sizeof RawNode))"

text \<open>The writes of one round of the loop over \<^verbatim>\<open>control.node\<close>, for the node at offset \<open>a\<close>.\<close>

definition pack_node :: "nat \<Rightarrow> node \<Rightarrow> (nat \<times> byte list) list" where
  "pack_node a n =
     [(a + node_off ''id'', i32_bytes (n_id n)),
      (a + node_off ''role'', i32_bytes (enum_code Roles (n_role n))),
      (a + node_off ''port'', i32_bytes (n_port n)),
      (a + node_off ''num_ports'', i32_bytes (n_num_ports n)),
      (a + node_off ''ports'', replicate (32 * 4) 0),
      (a + node_off ''ports'', enc_array i32_bytes (n_ports n)),
      (a + node_off ''dev_types'', replicate (32 * 4) 0),
      (a + node_off ''dev_types'', enc_array i32_bytes (n_dev_types n)),
      (a + node_off ''dev_ids'', replicate (32 * 4) 0),
      (a + node_off ''dev_ids'', enc_array i32_bytes (n_dev_ids n)),
      (a + node_off ''hostname'', replicate 64 0),
      (a + node_off ''hostname'', map char_byte (n_hostname n)),
      (a + node_off ''endpoint_name'', replicate 64 0),
      (a + node_off ''endpoint_name'', n_endpoint_name n),
      (a + node_off ''endpoint_name_len'', u64_bytes (n_endpoint_name_len n)),
      (a + node_off ''is_recovery'', bool_bytes (n_is_recovery n)),
      (a + node_off ''customer_id'', i32_bytes (n_customer_id n)),
      (a + node_off ''aux_id'', i32_bytes (n_aux_id n))]"

fun pack_nodes :: "nat \<Rightarrow> node list \<Rightarrow> (nat \<times> byte list) list" where
  "pack_nodes a [] = []"
| "pack_nodes a (n # ns) = pack_node a n @ pack_nodes (a + sizeof RawNode) ns"

definition trace_bytes :: "trace \<Rightarrow> byte list" where
  "trace_bytes t = enc_array u64_bytes [t_pre_start t, t_start t, t_postsend t, t_postrecv t, t_process t]"

text \<open>The control part: the raw control record and the node descriptions.\<close>

definition pack_control :: "nat \<Rightarrow> control \<Rightarrow> (nat \<times> byte list) list" where
  "pack_control raw_node c =
     (if \<not> control_empty c then
        [(ctrl_off ''cmd'', i32_bytes (enum_code Commands (c_cmd c)))] @
        (if c_cmd c = BARRIER \<or> c_cmd c = INSTANCE_BARRIER
         then [(ctrl_off ''barrier_group'', i32_bytes (c_barrier_group c))]
         else if c_cmd c = ACK then [(ctrl_off ''msg_sig'', u64_bytes (c_msg_sig c))]
         else []) @
        [(ctrl_off ''node_size'', i32_bytes (int (length (c_node c))))] @
        pack_nodes raw_node (c_node c)
      else [(ctrl_off ''cmd'', i32_bytes (enum_code Commands EMPTY))])"

definition pack_writes :: "bool \<Rightarrow> int \<Rightarrow> meta \<Rightarrow> (nat \<times> byte list) list" where
  "pack_writes trace_on QP_NUM meta =
     (let raw_body = sizeof RawMeta;
          raw_data_type = raw_body + length (m_body meta);
          raw_node = raw_data_type + length (m_data_type meta) * 4
      in [(0, replicate (sizeof RawMeta) 0),
          (off ''head'', i32_bytes (m_head meta)),
          (off ''app_id'', i32_bytes (m_app_id meta)),
          (off ''timestamp'', i32_bytes (m_timestamp meta))] @
         (if m_body meta \<noteq> []
          then [(raw_body, map char_byte (m_body meta)),
                (off ''body_size'', i32_bytes (int (length (m_body meta))))]
          else []) @
         [(off ''push'', bool_bytes (m_push meta)),
          (off ''request'', bool_bytes (m_request meta)),
          (off ''simple_app'', bool_bytes (m_simple_app meta)),
          (off ''customer_id'', i32_bytes (m_customer_id meta))] @
         (if trace_on
          then [(off ''request_trace'', trace_bytes (m_request_trace meta)),
                (off ''response_trace'', trace_bytes (m_response_trace meta))]
          else []) @
         [(raw_data_type, enc_array i32_bytes (map (enum_code DataTypes) (m_data_type meta))),
          (off ''data_type_size'', i32_bytes (int (length (m_data_type meta)))),
          (off ''src_dev_type'', i32_bytes (enum_code DeviceTypes (m_src_dev_type meta))),
          (off ''src_dev_id'', i32_bytes (m_src_dev_id meta)),
          (off ''dst_dev_type'', i32_bytes (enum_code DeviceTypes (m_dst_dev_type meta))),
          (off ''dst_dev_id'', i32_bytes (m_dst_dev_id meta))] @
         pack_control raw_node (m_control meta) @
         [(off ''data_size'', i32_bytes (m_data_size meta)),
          (off ''key'', u64_bytes (m_key meta)),
          (off ''addr'', u64_bytes (m_addr meta)),
          (off ''val_len'', i32_bytes (m_val_len meta)),
          (off ''option'', i32_bytes (m_option meta)),
          (off ''sid'', i32_bytes (m_sid meta)),
          (off ''slave_qp_num'', i32_bytes 0),
          (off ''slave_qp_counter'', enc_array u64_bytes (replicate (nat QP_NUM) 0)),
          (off ''is_tensor'', i32_bytes (m_is_tensor meta)),
          (off ''dtype'', i32_bytes (m_dtype meta)),
          (off ''dim'', i32_bytes (int (length (m_shape meta)))),
          (off ''shape'', enc_array i64_bytes (m_shape meta))])"

text \<open>
  \<^verbatim>\<open>PackMeta\<close> on the buffer the caller passes (\<open>None\<close>: a null pointer, so a buffer with
  contents \<open>fresh\<close> is allocated).  Undefined behaviour: a buffer that is too small, a host name
  longer than its field, more dimensions than the shape field holds, more queue pairs than
  counters.
\<close>

definition PackMeta :: "bool \<Rightarrow> int \<Rightarrow> mem \<Rightarrow> meta \<Rightarrow> (mem \<times> nat) option \<Rightarrow> (mem \<times> int) res" where
  "PackMeta trace_on QP_NUM fresh meta meta_buf =
     (let buf_size = GetPackMetaLen meta;
          (m, capacity) = (case meta_buf of None \<Rightarrow> (fresh, nat (buf_size + 1)) | Some b \<Rightarrow> b)
      in no_ub (int (sizeof RawMeta + length (m_body meta) + length (m_data_type meta) * 4 +
                     (if control_empty (m_control meta) then 0
                      else length (c_node (m_control meta)) * sizeof RawNode)) \<le> int capacity) ''buffer''
         (no_ub (control_empty (m_control meta) \<or>
                 list_all (\<lambda>n. length (n_hostname n) \<le> 64) (c_node (m_control meta))) ''hostname''
          (no_ub (nat QP_NUM \<le> QP_MAX_NUM) ''slave_qp_counter''
           (no_ub (length (m_shape meta) \<le> 8) ''shape''
             (Inr (put_all (pack_writes trace_on QP_NUM meta) m, buf_size))))))"

section \<open>Unpacking\<close>

definition get_i32 :: "nat \<Rightarrow> mem \<Rightarrow> int" where
  "get_i32 a m = i32_of (get a 4 m)"

definition get_u64 :: "nat \<Rightarrow> mem \<Rightarrow> 64 word" where
  "get_u64 a m = u64_of (get a 8 m)"

definition get_bool :: "nat \<Rightarrow> mem \<Rightarrow> bool" where
  "get_bool a m = bool_of (get a 1 m)"

text \<open>A C string read from an array of \<open>n\<close> characters: it must be terminated inside it.\<close>

definition get_cstr :: "nat \<Rightarrow> nat \<Rightarrow> mem \<Rightarrow> string res" where
  "get_cstr a n m =
     (let bs = takeWhile (\<lambda>b. b \<noteq> 0) (get a n m)
      in no_ub (length bs < n) ''unterminated string'' (Inr (map byte_char bs)))"

definition unpack_node :: "nat \<Rightarrow> mem \<Rightarrow> node res" where
  "unpack_node a m =
     bindR (enum_cast Roles (get_i32 (a + node_off ''role'') m)) (\<lambda>role.
     bindR (get_cstr (a + node_off ''hostname'') 64 m) (\<lambda>hostname.
     Inr \<lparr>n_role = role, n_id = get_i32 (a + node_off ''id'') m,
          n_customer_id = get_i32 (a + node_off ''customer_id'') m,
          n_hostname = hostname,
          n_num_ports = get_i32 (a + node_off ''num_ports'') m,
          n_ports = dec_array i32_of 4 32 (get (a + node_off ''ports'') (32 * 4) m),
          n_dev_types = dec_array i32_of 4 32 (get (a + node_off ''dev_types'') (32 * 4) m),
          n_dev_ids = dec_array i32_of 4 32 (get (a + node_off ''dev_ids'') (32 * 4) m),
          n_port = get_i32 (a + node_off ''port'') m,
          n_is_recovery = get_bool (a + node_off ''is_recovery'') m,
          n_endpoint_name = get (a + node_off ''endpoint_name'') 64 m,
          n_endpoint_name_len = get_u64 (a + node_off ''endpoint_name_len'') m,
          n_aux_id = get_i32 (a + node_off ''aux_id'') m\<rparr>))"

fun unpack_nodes :: "nat \<Rightarrow> nat \<Rightarrow> mem \<Rightarrow> node list res" where
  "unpack_nodes a 0 m = Inr []"
| "unpack_nodes a (Suc k) m =
     bindR (unpack_node a m) (\<lambda>n. bindR (unpack_nodes (a + sizeof RawNode) k m) (\<lambda>ns. Inr (n # ns)))"

fun cast_all :: "int list \<Rightarrow> DataType list res" where
  "cast_all [] = Inr []"
| "cast_all (i # is) = bindR (enum_cast DataTypes i) (\<lambda>d. bindR (cast_all is) (\<lambda>ds. Inr (d # ds)))"

definition unpack_trace :: "bool \<Rightarrow> mem \<Rightarrow> trace \<Rightarrow> trace \<Rightarrow> trace \<times> trace" where
  "unpack_trace request m req resp =
     (let q = off ''request_trace''; p = off ''response_trace'';
          req1 = req\<lparr>t_pre_start := get_u64 (q + offsetof RawTrace ''pre_start'') m,
                     t_start := get_u64 (q + offsetof RawTrace ''start'') m,
                     t_postsend := get_u64 (q + offsetof RawTrace ''postsend'') m\<rparr>
      in if request then (req1, resp)
         else (\<lparr>t_pre_start = get_u64 (q + offsetof RawTrace ''pre_start'') m,
                t_start = get_u64 (q + offsetof RawTrace ''start'') m,
                t_postsend = get_u64 (q + offsetof RawTrace ''postsend'') m,
                t_postrecv = get_u64 (q + offsetof RawTrace ''postrecv'') m,
                t_process = get_u64 (q + offsetof RawTrace ''process'') m\<rparr>,
               resp\<lparr>t_start := get_u64 (p + offsetof RawTrace ''start'') m,
                    t_postsend := get_u64 (p + offsetof RawTrace ''postsend'') m\<rparr>))"

text \<open>
  \<^verbatim>\<open>UnpackMeta\<close> fills the metadata object it is given.  The code trusts the sizes in the buffer:
  reading past \<^verbatim>\<open>buf_size\<close>, negative sizes and values that are no enumerator are undefined.
\<close>

definition UnpackMeta :: "bool \<Rightarrow> mem \<Rightarrow> int \<Rightarrow> meta \<Rightarrow> meta res" where
  "UnpackMeta trace_on m buf_size meta =
     (let body_size = get_i32 (off ''body_size'') m;
          data_type_size = get_i32 (off ''data_type_size'') m;
          node_size = get_i32 (ctrl_off ''node_size'') m;
          dim = get_i32 (off ''dim'') m;
          raw_body = sizeof RawMeta;
          raw_data_type = raw_body + nat body_size;
          raw_node = raw_data_type + nat data_type_size * 4;
          request = get_bool (off ''request'') m;
          traces = (if trace_on then unpack_trace request m (m_request_trace meta) (m_response_trace meta)
                    else (m_request_trace meta, m_response_trace meta))
      in no_ub (0 \<le> body_size \<and> 0 \<le> data_type_size \<and>
                int (raw_node + nat node_size * sizeof RawNode) \<le> buf_size) ''buffer''
         (bindR (cast_all (dec_array i32_of 4 (nat data_type_size)
                   (get raw_data_type (nat data_type_size * 4) m))) (\<lambda>data_type.
          bindR (enum_cast DeviceTypes (get_i32 (off ''src_dev_type'') m)) (\<lambda>src_dev_type.
          bindR (enum_cast DeviceTypes (get_i32 (off ''dst_dev_type'') m)) (\<lambda>dst_dev_type.
          bindR (enum_cast Commands (get_i32 (ctrl_off ''cmd'') m)) (\<lambda>cmd.
          bindR (unpack_nodes raw_node (nat node_size) m) (\<lambda>nodes.
          no_ub (dim \<le> 8) ''shape''
            (Inr (meta
               \<lparr>m_head := get_i32 (off ''head'') m, m_app_id := get_i32 (off ''app_id'') m,
                m_timestamp := get_i32 (off ''timestamp'') m,
                m_request := request, m_push := get_bool (off ''push'') m,
                m_simple_app := get_bool (off ''simple_app'') m,
                m_body := map byte_char (get raw_body (nat body_size) m),
                m_customer_id := get_i32 (off ''customer_id'') m,
                m_data_type := data_type,
                m_src_dev_type := src_dev_type, m_src_dev_id := get_i32 (off ''src_dev_id'') m,
                m_dst_dev_type := dst_dev_type, m_dst_dev_id := get_i32 (off ''dst_dev_id'') m,
                m_control := (m_control meta)
                  \<lparr>c_cmd := cmd, c_barrier_group := get_i32 (ctrl_off ''barrier_group'') m,
                   c_msg_sig := get_u64 (ctrl_off ''msg_sig'') m,
                   c_node := c_node (m_control meta) @ nodes\<rparr>,
                m_request_trace := fst traces, m_response_trace := snd traces,
                m_data_size := get_i32 (off ''data_size'') m, m_key := get_u64 (off ''key'') m,
                m_addr := get_u64 (off ''addr'') m, m_val_len := get_i32 (off ''val_len'') m,
                m_option := get_i32 (off ''option'') m, m_sid := get_i32 (off ''sid'') m,
                m_is_tensor := to_int8 (get_i32 (off ''is_tensor'') m),
                m_dtype := to_int8 (get_i32 (off ''dtype'') m),
                m_shape := m_shape meta @
                  dec_array i64_of 8 (nat dim) (get (off ''shape'') (nat dim * 8) m)\<rparr>)))))))))"

section \<open>Reading back what was written\<close>

lemma length_get [simp]: "length (get a n m) = n"
  by (simp add: get_def)

lemma get_put_same [simp]: "n = length bs \<Longrightarrow> get a n (put a bs m) = bs"
  by (rule nth_equalityI) (auto simp: get_def put_def)

lemma get_put_other [simp]:
  "a + n \<le> b \<or> b + length bs \<le> a \<Longrightarrow> get a n (put b bs m) = get a n m"
  by (rule nth_equalityI) (auto simp: get_def put_def)

lemma get_put_inside:
  assumes "b \<le> a" and "a + n \<le> b + length bs"
  shows "get a n (put b bs m) = take n (drop (a - b) bs)"
  by (rule nth_equalityI) (use assms in \<open>auto simp: get_def put_def\<close>)

lemma put_all_simps [simp]:
  "put_all [] m = m"
  "put_all ((a, bs) # ws) m = put_all ws (put a bs m)"
  "put_all (ws @ ws') m = put_all ws' (put_all ws m)"
  by (simp_all add: put_all_def)

lemma get_put_all_other:
  "(\<And>b bs. (b, bs) \<in> set ws \<Longrightarrow> a + n \<le> b \<or> b + length bs \<le> a) \<Longrightarrow> get a n (put_all ws m) = get a n m"
proof (induction ws arbitrary: m)
  case (Cons w ws)
  obtain b bs where w: "w = (b, bs)" by (cases w)
  have "a + n \<le> b \<or> b + length bs \<le> a" using Cons.prems [of b bs] w by simp
  with Cons w show ?case by simp
qed simp

lemma get_agree: "get 0 len m' = get 0 len m \<Longrightarrow> a + n \<le> len \<Longrightarrow> get a n m' = get a n m"
  by (auto simp: get_def intro!: map_cong)

section \<open>The layout\<close>

lemma sizeof_simps [simp]:
  "sizeof RawNode = 552" "sizeof RawControl = 24" "sizeof RawTrace = 40" "sizeof RawMeta = 288"
  by (simp_all add: sizeof_def RawNode_def RawControl_def RawTrace_def RawMeta_def align_up_def QP_MAX_NUM_def)

lemma node_layout: "layout RawNode 0 =
  [(''role'', 0), (''id'', 4), (''hostname'', 8), (''num_ports'', 72), (''ports'', 76), (''port'', 204),
   (''dev_types'', 208), (''dev_ids'', 336), (''is_recovery'', 464), (''customer_id'', 468),
   (''endpoint_name'', 472), (''endpoint_name_len'', 536), (''aux_id'', 544)]"
  by (simp add: RawNode_def align_up_def)

lemma meta_layout: "layout RawMeta 0 =
  [(''head'', 0), (''body_size'', 4), (''control'', 8), (''request'', 32), (''app_id'', 36),
   (''timestamp'', 40), (''data_type_size'', 44), (''src_dev_type'', 48), (''src_dev_id'', 52),
   (''dst_dev_type'', 56), (''dst_dev_id'', 60), (''customer_id'', 64), (''push'', 68),
   (''simple_app'', 69), (''data_size'', 72), (''key'', 80), (''addr'', 88), (''val_len'', 96),
   (''option'', 100), (''sid'', 104), (''is_tensor'', 108), (''dtype'', 112), (''dim'', 116),
   (''shape'', 120), (''request_trace'', 184), (''response_trace'', 224), (''slave_qp_counter'', 264),
   (''slave_qp_num'', 280)]"
  by (simp add: RawMeta_def align_up_def QP_MAX_NUM_def)

lemma node_offsets [simp]:
  "node_off ''role'' = 0" "node_off ''id'' = 4" "node_off ''hostname'' = 8" "node_off ''num_ports'' = 72"
  "node_off ''ports'' = 76" "node_off ''port'' = 204" "node_off ''dev_types'' = 208" "node_off ''dev_ids'' = 336"
  "node_off ''is_recovery'' = 464" "node_off ''customer_id'' = 468" "node_off ''endpoint_name'' = 472"
  "node_off ''endpoint_name_len'' = 536" "node_off ''aux_id'' = 544"
  by (simp_all add: offsetof_def node_layout)

lemma control_offsets [simp]:
  "offsetof RawControl ''cmd'' = 0" "offsetof RawControl ''node_size'' = 4"
  "offsetof RawControl ''barrier_group'' = 8" "offsetof RawControl ''msg_sig'' = 16"
  by (simp_all add: offsetof_def RawControl_def align_up_def)

lemma trace_offsets [simp]:
  "offsetof RawTrace ''pre_start'' = 0" "offsetof RawTrace ''start'' = 8" "offsetof RawTrace ''postsend'' = 16"
  "offsetof RawTrace ''postrecv'' = 24" "offsetof RawTrace ''process'' = 32"
  by (simp_all add: offsetof_def RawTrace_def align_up_def)

lemma meta_offsets [simp]:
  "off ''head'' = 0" "off ''body_size'' = 4" "off ''control'' = 8" "off ''request'' = 32"
  "off ''app_id'' = 36" "off ''timestamp'' = 40" "off ''data_type_size'' = 44" "off ''src_dev_type'' = 48"
  "off ''src_dev_id'' = 52" "off ''dst_dev_type'' = 56" "off ''dst_dev_id'' = 60" "off ''customer_id'' = 64"
  "off ''push'' = 68" "off ''simple_app'' = 69" "off ''data_size'' = 72" "off ''key'' = 80"
  "off ''addr'' = 88" "off ''val_len'' = 96" "off ''option'' = 100" "off ''sid'' = 104"
  "off ''is_tensor'' = 108" "off ''dtype'' = 112" "off ''dim'' = 116" "off ''shape'' = 120"
  "off ''request_trace'' = 184" "off ''response_trace'' = 224" "off ''slave_qp_counter'' = 264"
  "off ''slave_qp_num'' = 280"
  by (simp_all add: offsetof_def meta_layout)

lemma enum_cast_code:
  assumes "x \<in> set es"
  shows "enum_cast es (enum_code es x) = Inr x"
proof -
  let ?k = "length (takeWhile (\<lambda>y. y \<noteq> x) es)"
  have "?k < length es"
    using assms by (induction es) auto
  then have "es ! ?k = x"
    using nth_length_takeWhile [of "\<lambda>y. y \<noteq> x" es] by simp
  with \<open>?k < length es\<close> show ?thesis by (simp add: enum_cast_def enum_code_def)
qed

lemma enum_code_le: "0 \<le> enum_code es x" "enum_code es x \<le> int (length es)"
  by (simp_all add: enum_code_def length_takeWhile_le)

lemma enum_code_int32 [simp]: "length es < 100 \<Longrightarrow> int32 (enum_code es x)"
  using enum_code_le [of es x] by (simp add: int32_def)

lemma enum_cast_simps [simp]:
  "enum_cast DataTypes (enum_code DataTypes d) = Inr d"
  "enum_cast DeviceTypes (enum_code DeviceTypes t) = Inr t"
  "enum_cast Roles (enum_code Roles r) = Inr r"
  "enum_cast Commands (enum_code Commands c) = Inr c"
proof -
  show "enum_cast DataTypes (enum_code DataTypes d) = Inr d"
    by (rule enum_cast_code, cases d) (simp_all add: DataTypes_def)
  show "enum_cast DeviceTypes (enum_code DeviceTypes t) = Inr t"
    by (rule enum_cast_code, cases t) (simp_all add: DeviceTypes_def)
  show "enum_cast Roles (enum_code Roles r) = Inr r"
    by (rule enum_cast_code, cases r) (simp_all add: Roles_def)
  show "enum_cast Commands (enum_code Commands c) = Inr c"
    by (rule enum_cast_code, cases c) (simp_all add: Commands_def)
qed

lemma length_enums [simp]:
  "length DataTypes = 12" "length DeviceTypes = 3" "length Roles = 4" "length Commands = 10"
  by (simp_all add: DataTypes_def DeviceTypes_def Roles_def Commands_def)

section \<open>Node descriptions\<close>

text \<open>The ranges of the C types of a node description.\<close>

definition node_typed :: "node \<Rightarrow> bool" where
  "node_typed n \<longleftrightarrow> int32 (n_id n) \<and> int32 (n_customer_id n) \<and> int32 (n_num_ports n) \<and> int32 (n_port n) \<and>
     int32 (n_aux_id n) \<and> length (n_ports n) = 32 \<and> length (n_dev_types n) = 32 \<and> length (n_dev_ids n) = 32 \<and>
     list_all int32 (n_ports n) \<and> list_all int32 (n_dev_types n) \<and> list_all int32 (n_dev_ids n) \<and>
     length (n_endpoint_name n) = 64"

text \<open>A host name that fits its field with the terminator.\<close>

definition host_fits :: "node \<Rightarrow> bool" where
  "host_fits n \<longleftrightarrow> length (n_hostname n) < 64 \<and> char_of (0::nat) \<notin> set (n_hostname n)"

lemma get_cstr_put:
  assumes "length s < n" and "char_of (0::nat) \<notin> set s"
  shows "get_cstr a n (put a (map char_byte s) (put a (replicate n 0) m)) = Inr s"
proof -
  have "get a n (put a (map char_byte s) (put a (replicate n 0) m)) = map char_byte s @ replicate (n - length s) 0"
    by (rule nth_equalityI) (use assms in \<open>auto simp: get_def put_def nth_append\<close>)
  moreover have "takeWhile (\<lambda>b. b \<noteq> 0) (map char_byte s @ replicate (n - length s) 0) = map char_byte s"
  proof -
    have "\<forall>b \<in> set (map char_byte s). b \<noteq> 0" using assms(2) by auto
    moreover obtain k where "n - length s = Suc k" using assms(1) by (cases "n - length s") auto
    ultimately show ?thesis by (subst takeWhile_append2) auto
  qed
  ultimately show ?thesis
    using assms(1) by (simp add: get_cstr_def comp_def)
qed

lemma get_cstr_other [simp]:
  "a + n \<le> b \<or> b + length bs \<le> a \<Longrightarrow> get_cstr a n (put b bs m) = get_cstr a n m"
  by (simp add: get_cstr_def)

lemmas get_defs = get_i32_def get_u64_def get_bool_def

lemma unpack_pack_node:
  assumes "node_typed n" and "host_fits n"
  shows "unpack_node a (put_all (pack_node a n) m) = Inr n"
  using assms
  by (simp add: unpack_node_def pack_node_def node_typed_def host_fits_def get_defs get_cstr_put
      i32.dec_enc_array_exact)

lemma pack_nodes_above: "(b, bs) \<in> set (pack_nodes a ns) \<Longrightarrow> a \<le> b"
proof (induction a ns rule: pack_nodes.induct)
  case (2 a n ns)
  then show ?case by (auto simp: pack_node_def)
qed simp

lemma get_pack_nodes_below [simp]: "x + k \<le> a \<Longrightarrow> get x k (put_all (pack_nodes a ns) m) = get x k m"
  by (rule get_put_all_other) (use pack_nodes_above in fastforce)

lemma get_pack_nodes_below' [simp]:
  "x + 4 \<le> a \<Longrightarrow> get_i32 x (put_all (pack_nodes a ns) m) = get_i32 x m"
  "x + 8 \<le> a \<Longrightarrow> get_u64 x (put_all (pack_nodes a ns) m) = get_u64 x m"
  "x + 1 \<le> a \<Longrightarrow> get_bool x (put_all (pack_nodes a ns) m) = get_bool x m"
  "x + k \<le> a \<Longrightarrow> get_cstr x k (put_all (pack_nodes a ns) m) = get_cstr x k m"
  by (simp_all add: get_defs get_cstr_def)

lemma unpack_node_below: "unpack_node a (put_all (pack_nodes (a + 552) ns) m) = unpack_node a m"
  by (simp add: unpack_node_def)

lemma unpack_pack_nodes:
  assumes "list_all node_typed ns" and "list_all host_fits ns"
  shows "unpack_nodes a (length ns) (put_all (pack_nodes a ns) m) = Inr ns"
  using assms
proof (induction ns arbitrary: a m)
  case (Cons n ns)
  then show ?case by (simp add: unpack_node_below unpack_pack_node)
qed simp

text \<open>Reading nodes only looks at their own bytes.\<close>

lemma unpack_node_agree:
  assumes "get 0 len m' = get 0 len m" and "a + 552 \<le> len"
  shows "unpack_node a m' = unpack_node a m"
proof -
  have "get x n m' = get x n m" if "x + n \<le> a + 552" for x n
    by (rule get_agree [OF assms(1)]) (use that assms(2) in simp)
  then show ?thesis
    by (simp add: unpack_node_def get_defs get_cstr_def)
qed

lemma unpack_nodes_agree:
  assumes "get 0 len m' = get 0 len m" and "a + k * 552 \<le> len"
  shows "unpack_nodes a k m' = unpack_nodes a k m"
  using assms(2)
proof (induction k arbitrary: a)
  case (Suc k)
  then show ?case using unpack_node_agree [OF assms(1), of a] by simp
qed simp

lemma unpack_node_put_below:
  "b + length bs \<le> a \<Longrightarrow> unpack_node a (put b bs m) = unpack_node a m"
  by (simp add: unpack_node_def get_defs)

lemma unpack_nodes_put_below [simp]:
  "b + length bs \<le> a \<Longrightarrow> unpack_nodes a k (put b bs m) = unpack_nodes a k m"
proof (induction k arbitrary: a)
  case (Suc k)
  then show ?case by (simp add: unpack_node_put_below)
qed simp

section \<open>The whole header\<close>

text \<open>A group of writes that leaves the bytes \<open>x .. x + n - 1\<close> alone.\<close>

definition outside :: "nat \<Rightarrow> nat \<Rightarrow> (nat \<times> byte list) list \<Rightarrow> bool" where
  "outside x n ws \<longleftrightarrow> list_all (\<lambda>(b, bs). x + n \<le> b \<or> b + length bs \<le> x) ws"

lemma outside_simps [simp]:
  "outside x n []"
  "outside x n ((b, bs) # ws) \<longleftrightarrow> (x + n \<le> b \<or> b + length bs \<le> x) \<and> outside x n ws"
  "outside x n (ws @ ws') \<longleftrightarrow> outside x n ws \<and> outside x n ws'"
  "outside x n (if c then ws else ws') \<longleftrightarrow> (if c then outside x n ws else outside x n ws')"
  by (simp_all add: outside_def)

lemma outside_pack_nodes [simp]: "x + n \<le> a \<Longrightarrow> outside x n (pack_nodes a ns)"
  using pack_nodes_above by (fastforce simp: outside_def list_all_iff)

lemma get_outside [simp]: "outside x n ws \<Longrightarrow> get x n (put_all ws m) = get x n m"
  by (rule get_put_all_other) (auto simp: outside_def list_all_iff)

lemma get_zeros: "a + n \<le> k \<Longrightarrow> get a n (put 0 (replicate k 0) m) = replicate n 0"
  by (simp add: get_put_inside)

lemma le_int_zeros [simp]: "le_int (replicate n 0) = 0"
  by (induction n) simp_all

lemma zero_reads [simp]:
  "i32_of (replicate n 0) = 0" "u64_of (replicate n 0) = 0"
  by (simp_all add: i32_of_def u64_of_def)

definition int8 :: "int \<Rightarrow> bool" where
  "int8 x \<longleftrightarrow> - 128 \<le> x \<and> x < 128"

lemma to_int8_id [simp]: "int8 x \<Longrightarrow> to_int8 x = x"
  by (simp add: to_int8_def int8_def)

text \<open>The ranges of the C types of a metadata object.\<close>

definition meta_typed :: "meta \<Rightarrow> bool" where
  "meta_typed m \<longleftrightarrow> int32 (m_head m) \<and> int32 (m_app_id m) \<and> int32 (m_customer_id m) \<and> int32 (m_timestamp m) \<and>
     int32 (m_src_dev_id m) \<and> int32 (m_dst_dev_id m) \<and> int32 (m_data_size m) \<and> int32 (m_val_len m) \<and>
     int32 (m_option m) \<and> int32 (m_sid m) \<and> int8 (m_is_tensor m) \<and> int8 (m_dtype m) \<and>
     list_all int64 (m_shape m) \<and> int32 (c_barrier_group (m_control m)) \<and>
     list_all node_typed (c_node (m_control m))"

text \<open>What the format asks of a message beyond its types.\<close>

definition wire_fits :: "meta \<Rightarrow> bool" where
  "wire_fits m \<longleftrightarrow> length (m_shape m) \<le> 8 \<and> list_all host_fits (c_node (m_control m)) \<and>
     288 + length (m_body m) + length (m_data_type m) * 4 + length (c_node (m_control m)) * 552 < 2 ^ 31"

text \<open>What the receiver gets: the fields the code does not ship have their initial values.\<close>

definition wire_control :: "control \<Rightarrow> control" where
  "wire_control c = (if control_empty c then Control0
     else c\<lparr>c_barrier_group := if c_cmd c \<in> {BARRIER, INSTANCE_BARRIER} then c_barrier_group c else 0,
            c_msg_sig := if c_cmd c = ACK then c_msg_sig c else 0\<rparr>)"

definition wire_view :: "bool \<Rightarrow> meta \<Rightarrow> meta" where
  "wire_view trace_on m = m
     \<lparr>m_sender := kEmpty, m_recver := kEmpty, m_tensor_ev := None,
      m_slave_qp_counter := replicate QP_MAX_NUM 0, m_slave_qp_num := 0,
      m_control := wire_control (m_control m),
      m_request_trace :=
        (if \<not> trace_on then Trace0
         else if m_request m then Trace0\<lparr>t_pre_start := t_pre_start (m_request_trace m),
           t_start := t_start (m_request_trace m), t_postsend := t_postsend (m_request_trace m)\<rparr>
         else m_request_trace m),
      m_response_trace :=
        (if \<not> trace_on \<or> m_request m then Trace0
         else Trace0\<lparr>t_start := t_start (m_response_trace m), t_postsend := t_postsend (m_response_trace m)\<rparr>)\<rparr>"

lemma zero_bytes: "i32_bytes 0 = replicate 4 0" "u64_bytes 0 = replicate 8 0"
  by (simp_all add: i32_bytes_def u64_bytes_def eval_nat_numeral)

lemma length_trace_bytes [simp]: "length (trace_bytes t) = 40"
  by (simp add: trace_bytes_def)

lemmas pack_defs = pack_writes_def Let_def pack_control_def

lemma packed_scalars:
  assumes "nat qp \<le> 2" and "length (m_shape m) \<le> 8" and B: "B = put_all (pack_writes tr qp m) fresh"
  shows "get 0 4 B = i32_bytes (m_head m)"
    and "get 36 4 B = i32_bytes (m_app_id m)"
    and "get 40 4 B = i32_bytes (m_timestamp m)"
    and "get 44 4 B = i32_bytes (int (length (m_data_type m)))"
    and "get 48 4 B = i32_bytes (enum_code DeviceTypes (m_src_dev_type m))"
    and "get 52 4 B = i32_bytes (m_src_dev_id m)"
    and "get 56 4 B = i32_bytes (enum_code DeviceTypes (m_dst_dev_type m))"
    and "get 60 4 B = i32_bytes (m_dst_dev_id m)"
    and "get 64 4 B = i32_bytes (m_customer_id m)"
    and "get 32 1 B = bool_bytes (m_request m)"
    and "get 68 1 B = bool_bytes (m_push m)"
    and "get 69 1 B = bool_bytes (m_simple_app m)"
    and "get 72 4 B = i32_bytes (m_data_size m)"
    and "get 80 8 B = u64_bytes (m_key m)"
    and "get 88 8 B = u64_bytes (m_addr m)"
    and "get 96 4 B = i32_bytes (m_val_len m)"
    and "get 100 4 B = i32_bytes (m_option m)"
    and "get 104 4 B = i32_bytes (m_sid m)"
    and "get 108 4 B = i32_bytes (m_is_tensor m)"
    and "get 112 4 B = i32_bytes (m_dtype m)"
    and "get 116 4 B = i32_bytes (int (length (m_shape m)))"
    and "get 120 (length (m_shape m) * 8) B = enc_array i64_bytes (m_shape m)"
  using assms(1,2) by (simp_all add: B pack_defs)

lemma packed_body:
  assumes "nat qp \<le> 2" and "length (m_shape m) \<le> 8" and B: "B = put_all (pack_writes tr qp m) fresh"
  shows "get 4 4 B = i32_bytes (int (length (m_body m)))"
    and "get 288 (length (m_body m)) B = map char_byte (m_body m)"
    and "get (288 + length (m_body m)) (length (m_data_type m) * 4) B =
      enc_array i32_bytes (map (enum_code DataTypes) (m_data_type m))"
  using assms(1,2) by (cases "m_body m = []"; simp add: B pack_defs get_zeros zero_bytes; simp add: get_def)+

lemma packed_control:
  assumes "nat qp \<le> 2" and "length (m_shape m) \<le> 8" and B: "B = put_all (pack_writes tr qp m) fresh"
  shows "get 8 4 B = i32_bytes (enum_code Commands (c_cmd (wire_control (m_control m))))"
    and "get 12 4 B = i32_bytes (int (length (c_node (wire_control (m_control m)))))"
    and "get 16 4 B = i32_bytes (c_barrier_group (wire_control (m_control m)))"
    and "get 24 8 B = u64_bytes (c_msg_sig (wire_control (m_control m)))"
  using assms(1,2)
  by (cases "control_empty (m_control m)"; cases "c_cmd (m_control m) \<in> {BARRIER, INSTANCE_BARRIER}";
      cases "c_cmd (m_control m) = ACK";
      simp add: B pack_defs get_zeros zero_bytes wire_control_def Control0_def control_empty_def)+

lemma packed_trace:
  assumes "nat qp \<le> 2" and "length (m_shape m) \<le> 8" and B: "B = put_all (pack_writes True qp m) fresh"
  shows "get 184 40 B = trace_bytes (m_request_trace m)" and "get 224 40 B = trace_bytes (m_response_trace m)"
  using assms(1,2) by (simp_all add: B pack_defs)

lemma get_get: "x + n \<le> k \<Longrightarrow> get (a + x) n m = take n (drop x (get a k m))"
  by (rule nth_equalityI) (auto simp: get_def add.assoc)


lemma packed_nodes:
  assumes "nat qp \<le> 2" and "length (m_shape m) \<le> 8" and B: "B = put_all (pack_writes tr qp m) fresh"
    and "list_all node_typed (c_node (m_control m))" and "list_all host_fits (c_node (m_control m))"
  shows "unpack_nodes (288 + length (m_body m) + length (m_data_type m) * 4)
      (length (c_node (wire_control (m_control m)))) B = Inr (c_node (wire_control (m_control m)))"
  using assms(1,2,4,5)
  by (cases "control_empty (m_control m)")
    (simp_all add: B pack_defs wire_control_def Control0_def unpack_pack_nodes)

lemma unpack_packed_trace:
  assumes "nat qp \<le> 2" and "length (m_shape m) \<le> 8" and B: "B = put_all (pack_writes True qp m) fresh"
  shows "unpack_trace (m_request m) B Trace0 Trace0 = (m_request_trace (wire_view True m), m_response_trace (wire_view True m))"
proof -
  have q: "get_u64 (184 + x) B = u64_of (take 8 (drop x (trace_bytes (m_request_trace m))))" if "x + 8 \<le> 40" for x
    using get_get [OF that] packed_trace(1) [OF assms] by (simp add: get_u64_def)
  have p: "get_u64 (224 + x) B = u64_of (take 8 (drop x (trace_bytes (m_response_trace m))))" if "x + 8 \<le> 40" for x
    using get_get [OF that] packed_trace(2) [OF assms] by (simp add: get_u64_def)
  have w: "u64_of (take 8 (drop 0 (trace_bytes t))) = t_pre_start t"
    "u64_of (take 8 (drop 8 (trace_bytes t))) = t_start t"
    "u64_of (take 8 (drop 16 (trace_bytes t))) = t_postsend t"
    "u64_of (take 8 (drop 24 (trace_bytes t))) = t_postrecv t"
    "u64_of (take 8 (drop 32 (trace_bytes t))) = t_process t" for t
    by (simp_all add: trace_bytes_def enc_array_def)
  show ?thesis
    using q [of 0] q [of 8] q [of 16] q [of 24] q [of 32] p [of 8] p [of 16]
    by (simp add: unpack_trace_def wire_view_def w w(1) [simplified] w(5) [simplified] Let_def Trace0_def)
qed

lemma cast_all_codes [simp]: "cast_all (map (enum_code DataTypes) ds) = Inr ds"
  by (induction ds) simp_all

lemma GetPackMetaLen_fits:
  assumes "wire_fits m"
  shows "GetPackMetaLen m = int (288 + length (m_body m) + length (m_data_type m) * 4 + length (c_node (m_control m)) * 552)"
  using assms by (simp add: GetPackMetaLen_def wire_fits_def int32_def)


lemma int8_int32 [simp]: "int8 x \<Longrightarrow> int32 x"
  by (simp add: int8_def int32_def)

lemma control_rebuilt: "Control0\<lparr>c_cmd := c_cmd c, c_barrier_group := c_barrier_group c, c_msg_sig := c_msg_sig c,
    c_node := c_node Control0 @ c_node c\<rparr> = c"
  by (simp add: Control0_def)

lemma UnpackMeta_packed:
  assumes qp: "nat qp \<le> 2" and typed: "meta_typed m" and fits: "wire_fits m"
    and B: "B = put_all (pack_writes tr qp m) fresh"
    and len: "len = GetPackMetaLen m"
    and agree: "get 0 (nat len) m' = get 0 (nat len) B"
  shows "UnpackMeta tr m' len Meta0 = Inr (wire_view tr m)"
proof -
  have shape: "length (m_shape m) \<le> 8" using fits by (simp add: wire_fits_def)
  let ?n = "288 + length (m_body m) + length (m_data_type m) * 4 + length (c_node (m_control m)) * 552"
  have n: "nat len = ?n" "len = int ?n" using GetPackMetaLen_fits [OF fits] len by simp_all
  have A: "get x k m' = get x k B" if "x + k \<le> ?n" for x k
    by (rule get_agree [OF agree]) (use that n in simp)
  have k: "length (c_node (wire_control (m_control m))) \<le> length (c_node (m_control m))"
    by (simp add: wire_control_def Control0_def)
  have nodes: "unpack_nodes (288 + length (m_body m) + length (m_data_type m) * 4)
      (length (c_node (wire_control (m_control m)))) m' = Inr (c_node (wire_control (m_control m)))"
    using packed_nodes [OF qp shape B] typed fits k n
    by (subst unpack_nodes_agree [OF agree]) (simp_all add: meta_typed_def wire_fits_def)
  have "length (m_body m) < 2 ^ 31" "length (m_data_type m) < 2 ^ 31"
    "length (c_node (wire_control (m_control m))) < 2 ^ 31"
    using fits k unfolding wire_fits_def by linarith+
  then have small: "int32 (int (length (m_body m)))" "int32 (int (length (m_data_type m)))"
    "int32 (int (length (c_node (wire_control (m_control m)))))" "int32 (int (length (m_shape m)))"
    using shape by (simp_all add: int32_def)
  have codes: "list_all int32 (map (enum_code DataTypes) (m_data_type m))"
    by (simp add: list_all_iff)
  have ctrl: "int32 (c_barrier_group (wire_control (m_control m)))"
    using typed by (simp add: wire_control_def meta_typed_def Control0_def int32_def)
  have trace: "tr \<Longrightarrow> unpack_trace (m_request m) m' Trace0 Trace0 = (m_request_trace (wire_view tr m), m_response_trace (wire_view tr m))"
  proof -
    assume tr
    have "unpack_trace (m_request m) m' Trace0 Trace0 = unpack_trace (m_request m) B Trace0 Trace0"
      by (simp add: unpack_trace_def get_u64_def A)
    with \<open>tr\<close> show ?thesis using unpack_packed_trace [OF qp shape, of B fresh] B by simp
  qed
  show ?thesis
    using typed shape small ctrl trace k nodes n(2)
      packed_scalars [OF qp shape B] packed_body [OF qp shape B] packed_control [OF qp shape B]
    by (simp add: UnpackMeta_def Let_def get_defs A i32.dec_enc_array_exact [OF codes]
        i64.dec_enc_array_exact meta_typed_def Meta0_def control_rebuilt comp_def)
      (auto simp: wire_view_def)
qed

lemma UnpackMeta_ids:
  "UnpackMeta tr m len (mt\<lparr>m_recver := r, m_sender := s\<rparr>) =
     bindR (UnpackMeta tr m len mt) (\<lambda>x. Inr (x\<lparr>m_recver := r, m_sender := s\<rparr>))"
  by (auto simp: UnpackMeta_def Let_def bindR_def no_ub_def split: sum.splits)

lemma PackMeta_fits:
  assumes "nat QP_NUM \<le> QP_MAX_NUM" and "wire_fits m"
  shows "PackMeta trace_on QP_NUM fresh m None = Inr (put_all (pack_writes trace_on QP_NUM m) fresh, GetPackMetaLen m)"
proof -
  have "list_all (\<lambda>n. length (n_hostname n) \<le> 64) (c_node (m_control m))"
    using assms(2) by (auto simp: wire_fits_def host_fits_def list_all_iff)
  then show ?thesis using assms GetPackMetaLen_fits [OF assms(2)] by (simp add: PackMeta_def wire_fits_def)
qed

text \<open>
  C6: the metadata round trip.  A message whose fields are in the ranges of their C types, with
  host names of at most 63 characters, at most 8 dimensions and a total size below 2 GB packs
  into exactly \<^verbatim>\<open>GetPackMetaLen\<close> bytes, whatever the buffer held before; a receiver that gets
  those bytes unpacks every shipped field unchanged (body, data types, devices, command, node
  descriptions, shape and, if compiled in, the traces), and the fields that are not shipped
  have their defaults.
\<close>

theorem PackMeta_roundtrip:
  assumes "nat QP_NUM \<le> QP_MAX_NUM" and "meta_typed m" and "wire_fits m"
  shows "\<exists>buf len. PackMeta trace_on QP_NUM fresh m None = Inr (buf, len) \<and>
    len = int (288 + length (m_body m) + length (m_data_type m) * 4 + length (c_node (m_control m)) * 552) \<and>
    (\<forall>buf'. get 0 (nat len) buf' = get 0 (nat len) buf \<longrightarrow>
       UnpackMeta trace_on buf' len Meta0 = Inr (wire_view trace_on m))"
proof -
  let ?B = "put_all (pack_writes trace_on QP_NUM m) fresh"
  have "PackMeta trace_on QP_NUM fresh m None = Inr (?B, GetPackMetaLen m)"
    by (rule PackMeta_fits [OF assms(1,3)])
  moreover have "UnpackMeta trace_on buf' (GetPackMetaLen m) Meta0 = Inr (wire_view trace_on m)"
    if "get 0 (nat (GetPackMetaLen m)) buf' = get 0 (nat (GetPackMetaLen m)) ?B" for buf'
    using UnpackMeta_packed [OF _ assms(2,3) refl refl that] assms(1) by (simp add: QP_MAX_NUM_def)
  ultimately show ?thesis
    using GetPackMetaLen_fits [OF assms(3)] by blast
qed

definition example_node :: node where
  "example_node = \<lparr>n_role = WORKER, n_id = 9, n_customer_id = 0, n_hostname = ''10.0.0.1'', n_num_ports = 1,
     n_ports = replicate 32 8000, n_dev_types = replicate 32 0, n_dev_ids = replicate 32 (-1), n_port = 8000,
     n_is_recovery = False, n_endpoint_name = replicate 64 0, n_endpoint_name_len = 0, n_aux_id = -1\<rparr>"

definition example_meta :: meta where
  "example_meta = Meta0\<lparr>m_body := ''hello'', m_timestamp := 3, m_data_type := [UINT64, FLOAT], m_shape := [4, 7],
     m_control := Control0\<lparr>c_cmd := ADD_NODE, c_node := [example_node]\<rparr>\<rparr>"

lemma example_meta_ok: "meta_typed example_meta" "wire_fits example_meta"
  by (simp_all add: meta_typed_def example_meta_def Meta0_def Control0_def int32_def int8_def int64_def kEmpty_def
      node_typed_def example_node_def list_all_iff wire_fits_def host_fits_def char_of_def)

theorem PackMeta_roundtrip_witness:
  "\<exists>buf. PackMeta False 2 (\<lambda>_. 255) example_meta None = Inr (buf, 853) \<and>
     UnpackMeta False buf 853 Meta0 = Inr (wire_view False example_meta)"
proof -
  have "length (m_body example_meta) = 5" "length (m_data_type example_meta) = 2"
    "length (c_node (m_control example_meta)) = 1"
    by (simp_all add: example_meta_def)
  then show ?thesis
    using PackMeta_roundtrip [of 2 example_meta False "\<lambda>_. 255"] example_meta_ok by (auto simp: QP_MAX_NUM_def)
qed

end
