(* ===== verification/Van.thy ===== *)
theory Van
  imports Customer Resender Wire
begin

text \<open>
  \<^verbatim>\<open>src/van.cc\<close> and \<^verbatim>\<open>include/ps/internal/van.h\<close>: the message pump of a node.  It sends and
  receives through a transport (the virtual \<^verbatim>\<open>SendMsg\<close>, \<^verbatim>\<open>RecvMsg\<close>, \<^verbatim>\<open>Connect\<close>, \<^verbatim>\<open>Bind\<close>), gives
  ids to the nodes that join, runs the barriers and hands data messages to the customers.
  The transport is a parameter: \<open>tx\<close> tells what \<^verbatim>\<open>SendMsg\<close> returns for a message, and the
  messages sent and nodes connected to are logged in the state in order.
\<close>

section \<open>State\<close>

record van =
  v_scheduler :: node
  v_my_node :: node
  v_is_scheduler :: bool
  v_connected_nodes :: "(string, int) umap"
  v_shared_node_mapping :: "(int, int) umap"
  v_ready :: bool
  v_send_bytes :: "64 word"
  v_recv_bytes :: "64 word"
  v_num_servers :: int
  v_num_workers :: int
  v_barrier_count :: "int list"
  v_group_barrier_requests :: "(int, int list) umap"
  v_resender :: "resender option"
  v_drop_rate :: int
  v_timestamp :: int
  v_init_stage :: int
  v_heartbeat_timeout :: int
  v_sent :: "message list"
  v_connects :: "node list"

text \<open>\<^verbatim>\<open>Node()\<close> sets five fields; the others keep what the memory \<open>junk\<close> held.\<close>

definition Node_new :: "node \<Rightarrow> node" where
  "Node_new junk = junk\<lparr>n_id := kEmpty, n_port := kEmpty, n_is_recovery := False, n_hostname := [],
     n_endpoint_name_len := 0, n_aux_id := -1\<rparr>"

definition Van_new :: "environment \<Rightarrow> node \<Rightarrow> van" where
  "Van_new e junk =
     \<lparr>v_scheduler = Node_new junk, v_my_node = Node_new junk, v_is_scheduler = False,
      v_connected_nodes = [], v_shared_node_mapping = [], v_ready = False, v_send_bytes = 0,
      v_recv_bytes = 0, v_num_servers = 0, v_num_workers = 0, v_barrier_count = [],
      v_group_barrier_requests = [], v_resender = None, v_drop_rate = 0, v_timestamp = 0,
      v_init_stage = 0,
      v_heartbeat_timeout = (case env_find e ''PS_HEARTBEAT_TIMEOUT'' of Some s \<Rightarrow> atoi s | None \<Rightarrow> 0),
      v_sent = [], v_connects = []\<rparr>"

definition my_node :: "van \<Rightarrow> node res" where
  "my_node v = PS_CHECK (v_ready v) ''call Start() first'' (Inr (v_my_node v))"

definition GetTimestamp :: "van \<Rightarrow> van \<times> int" where
  "GetTimestamp v = (v\<lparr>v_timestamp := to_int32 (v_timestamp v + 1)\<rparr>, v_timestamp v)"

definition SetNode :: "node \<Rightarrow> van \<Rightarrow> van" where
  "SetNode n v = v\<lparr>v_my_node := n\<rparr>"

definition Connect :: "node \<Rightarrow> van \<Rightarrow> van" where
  "Connect n v = v\<lparr>v_connects := v_connects v @ [n]\<rparr>"

definition node_addr :: "node \<Rightarrow> string" where
  "node_addr n = n_hostname n @ '':'' @ to_string (n_port n)"

section \<open>Sending\<close>

text \<open>
  \<^verbatim>\<open>Van::Send\<close>.  The resender reads the own id through \<^verbatim>\<open>my_node()\<close>, which must be ready, when
  the message has no sender.
\<close>

definition Send :: "(message \<Rightarrow> int) \<Rightarrow> int \<Rightarrow> message \<Rightarrow> van \<Rightarrow> van res" where
  "Send tx now msg v =
     (let send_bytes = tx msg in
      PS_CHECK (send_bytes \<noteq> -1) ''sent -1 bytes''
       (let v1 = v\<lparr>v_sent := v_sent v @ [msg], v_send_bytes := v_send_bytes v + word_of_int send_bytes\<rparr>
        in case v_resender v1 of
             None \<Rightarrow> Inr v1
           | Some r \<Rightarrow>
               PS_CHECK (v_ready v1 \<or> msg_cmd msg = ACK \<or> m_sender (msg_meta msg) \<noteq> kEmpty) ''call Start() first''
                (bindR (AddOutgoing (n_id (v_my_node v1)) now msg r) (\<lambda>r'.
                   Inr (v1\<lparr>v_resender := Some r'\<rparr>)))))"

text \<open>\<^verbatim>\<open>msg.meta.timestamp = timestamp_++; Send(msg)\<close>, and the same inside \<^verbatim>\<open>PS_CHECK_GT(Send(msg), 0)\<close>.\<close>

definition Send_next :: "(message \<Rightarrow> int) \<Rightarrow> int \<Rightarrow> message \<Rightarrow> van \<Rightarrow> van res" where
  "Send_next tx now msg v =
     (let (v1, ts) = GetTimestamp v in Send tx now (upd_meta (\<lambda>m. m\<lparr>m_timestamp := ts\<rparr>) msg) v1)"

definition Send_next_pos :: "(message \<Rightarrow> int) \<Rightarrow> int \<Rightarrow> message \<Rightarrow> van \<Rightarrow> van res" where
  "Send_next_pos tx now msg v =
     (let msg' = upd_meta (\<lambda>m. m\<lparr>m_timestamp := v_timestamp v\<rparr>) msg in
      bindR (Send_next tx now msg v) (\<lambda>v'. PS_CHECK (tx msg' > 0) ''Send'' (Inr v')))"

text \<open>A message to every id that is not mapped to another node's connection.\<close>

definition send_unshared ::
  "(message \<Rightarrow> van \<Rightarrow> van res) \<Rightarrow> message \<Rightarrow> int list \<Rightarrow> van \<Rightarrow> van res" where
  "send_unshared send msg ids v =
     foldR (\<lambda>r v. if umap_find (v_shared_node_mapping v) r = None
                  then send (upd_meta (\<lambda>m. m\<lparr>m_recver := r\<rparr>) msg) v else Inr v) ids v"

definition ProcessTerminateCommand :: "van \<Rightarrow> van" where
  "ProcessTerminateCommand v = v\<lparr>v_ready := False\<rparr>"

section \<open>Ordering the nodes at the scheduler\<close>

text \<open>
  The comparison \<^verbatim>\<open>(a.hostname.compare(b.hostname) | (a.port < b.port)) > 0\<close>: a bitwise or of an
  \<^verbatim>\<open>int\<close> and a \<^verbatim>\<open>bool\<close>.
\<close>

definition host_port_before :: "node \<Rightarrow> node \<Rightarrow> bool" where
  "host_port_before a b \<longleftrightarrow>
     (str_compare (n_hostname a) (n_hostname b) OR of_bool (n_port a < n_port b)) > (0::int)"

definition mixed_before :: "(string, nat) umap \<Rightarrow> node \<Rightarrow> node \<Rightarrow> bool" where
  "mixed_before ip_cnt a b \<longleftrightarrow>
     (if umap_index 0 ip_cnt (n_hostname a) = umap_index 0 ip_cnt (n_hostname b)
      then host_port_before a b
      else umap_index 0 ip_cnt (n_hostname a) < umap_index 0 ip_cnt (n_hostname b))"

definition sparse_before :: "(string, nat) umap \<Rightarrow> node \<Rightarrow> node \<Rightarrow> bool" where
  "sparse_before ip_pos a b \<longleftrightarrow> umap_index 0 ip_pos (n_hostname a) < umap_index 0 ip_pos (n_hostname b)"

definition count_hosts :: "node list \<Rightarrow> (string, nat) umap res" where
  "count_hosts ns = foldR (\<lambda>n cnt.
     let k = umap_index 0 cnt (n_hostname n) + 1
     in PS_CHECK (k \<le> 2) ''ip_cnt'' (Inr (umap_set (n_hostname n) k cnt))) ns []"

definition check_mixed :: "(string, nat) umap \<Rightarrow> node list \<Rightarrow> unit res" where
  "check_mixed ip_cnt ns = foldR (\<lambda>n u.
     if umap_index 0 ip_cnt (n_hostname n) = 1 then PS_CHECK (n_role n = SERVER) ''role'' (Inr u) else Inr u) ns ()"

text \<open>The list of hosts in \<^verbatim>\<open>BYTEPS_ORDERED_HOSTS\<close>, cut at the commas.\<close>

function hosts_loop :: "string \<Rightarrow> string list" where
  "hosts_loop sparse_hosts =
     (if CHR '','' \<in> set sparse_hosts
      then takeWhile (\<lambda>c. c \<noteq> CHR '','') sparse_hosts #
           hosts_loop (drop (length (takeWhile (\<lambda>c. c \<noteq> CHR '','') sparse_hosts) + 1) sparse_hosts)
      else [sparse_hosts])"
  by auto
termination
proof (relation "measure length")
  fix s :: string
  assume "CHR '','' \<in> set s"
  then show "(drop (length (takeWhile (\<lambda>c. c \<noteq> CHR '','') s) + 1) s, s) \<in> measure length"
    by (cases s) auto
qed simp

declare hosts_loop.simps [simp del]

definition host_positions :: "string list \<Rightarrow> (string, nat) umap res" where
  "host_positions hosts = foldR (\<lambda>(i, h) pos.
     let ip = takeWhile (\<lambda>c. c \<noteq> CHR '':'') h
     in PS_CHECK (umap_find pos ip = None) ''Duplicate IP found in BYTEPS_ORDERED_HOSTS''
          (Inr (umap_set ip i pos))) (enumerate 0 hosts) []"

definition order_nodes :: "environment \<Rightarrow> node list \<Rightarrow> node list res" where
  "order_nodes e ns =
     (let mixed_mode = (case env_sys e ''BYTEPS_ENABLE_MIXED_MODE'' of Some s \<Rightarrow> atoi s \<noteq> 0 | None \<Rightarrow> False);
          sparse_hosts = env_sys e ''BYTEPS_ORDERED_HOSTS''
      in PS_CHECK (\<not> (mixed_mode \<and> sparse_hosts \<noteq> None)) ''modes should not coexist''
         (if mixed_mode then
            bindR (count_hosts ns) (\<lambda>ip_cnt.
              let ns' = std_sort (mixed_before ip_cnt) ns
              in bindR (check_mixed ip_cnt ns') (\<lambda>_. Inr ns'))
          else (case sparse_hosts of
              Some hosts \<Rightarrow> bindR (host_positions (hosts_loop hosts)) (\<lambda>ip_pos. Inr (std_sort (sparse_before ip_pos) ns))
            | None \<Rightarrow> Inr (std_sort host_port_before ns))))"

section \<open>Giving out ranks\<close>

definition with_preferred_rank :: "node list \<Rightarrow> bool" where
  "with_preferred_rank ns = fold (\<lambda>n b. if n_aux_id n \<noteq> -1 then True else b) ns False"

definition collect_ranks :: "node list \<Rightarrow> (int list \<times> int list) res" where
  "collect_ranks ns = foldR (\<lambda>n (server_ranks, worker_ranks).
     case n_role n of
       SERVER \<Rightarrow> PS_CHECK (n_aux_id n \<notin> set server_ranks) ''rank must be unique''
                   (Inr (n_aux_id n # server_ranks, worker_ranks))
     | WORKER \<Rightarrow> PS_CHECK (n_aux_id n \<notin> set worker_ranks) ''rank must be unique''
                   (Inr (server_ranks, n_aux_id n # worker_ranks))
     | _ \<Rightarrow> Inl (LogFatal ''unrecognized node role'')) ns ([], [])"

definition check_ranks :: "postoffice \<Rightarrow> node list \<Rightarrow> unit res" where
  "check_ranks po ns =
     bindR (collect_ranks ns) (\<lambda>(server_ranks, worker_ranks).
       let num_servers = num_server_instances po; num_workers = num_worker_instances po in
       PS_CHECK (list_all (\<lambda>i. int i \<in> set server_ranks) [0..<nat num_servers]) ''server rank missing''
       (PS_CHECK (int (length server_ranks) = num_servers) ''server_ranks.size''
       (PS_CHECK (list_all (\<lambda>i. int i \<in> set worker_ranks) [0..<nat num_workers]) ''worker rank missing''
       (PS_CHECK (int (length worker_ranks) = num_workers) ''worker_ranks.size'' (Inr ())))))"

text \<open>One round of the loop that assigns the ids.\<close>

definition assign_node :: "int \<Rightarrow> bool \<Rightarrow> node \<Rightarrow> van \<times> postoffice \<Rightarrow> (node \<times> van \<times> postoffice) res" where
  "assign_node t pref n s =
     (let (v, po) = s;
          node_host_ip = node_addr n;
          i = (if n_role n = SERVER then ServerRankToID (if pref then n_aux_id n else v_num_servers v)
               else WorkerRankToID (if pref then n_aux_id n else v_num_workers v));
          finish = (\<lambda>n' v' po'.
            let v1 = (if n_role n' = SERVER then v'\<lparr>v_num_servers := v_num_servers v' + 1\<rparr> else v');
                v2 = (if n_role n' = WORKER then v1\<lparr>v_num_workers := v_num_workers v1 + 1\<rparr> else v1)
            in Inr (n', v2, po'))
      in case umap_find (v_connected_nodes v) node_host_ip of
           None \<Rightarrow>
             PS_CHECK (n_id n = kEmpty) ''node.id''
              (let n' = n\<lparr>n_id := i\<rparr>;
                   v' = Connect n' v
               in finish n' (v'\<lparr>v_connected_nodes := umap_set node_host_ip i (v_connected_nodes v')\<rparr>)
                    (UpdateHeartbeat (n_id n') t po))
         | Some j \<Rightarrow>
             finish (n\<lparr>n_id := j\<rparr>) (v\<lparr>v_shared_node_mapping := umap_set i j (v_shared_node_mapping v)\<rparr>) po)"

text \<open>
  \<^verbatim>\<open>ProcessAddNodeCommandAtScheduler\<close>.  \<^verbatim>\<open>Postoffice::Get()\<close> is the scheduler's own postoffice
  here.  \<open>nodes\<close> and \<open>recovery_nodes\<close> are the two metadata objects of the receiving thread.
\<close>

abbreviation meta_nodes :: "meta \<Rightarrow> node list" where
  "meta_nodes m \<equiv> c_node (m_control m)"

definition set_meta_nodes :: "node list \<Rightarrow> meta \<Rightarrow> meta" where
  "set_meta_nodes ns m = m\<lparr>m_control := (m_control m)\<lparr>c_node := ns\<rparr>\<rparr>"

definition set_meta_cmd :: "Command \<Rightarrow> meta \<Rightarrow> meta" where
  "set_meta_cmd cmd m = m\<lparr>m_control := (m_control m)\<lparr>c_cmd := cmd\<rparr>\<rparr>"

definition scheduler_full :: "(message \<Rightarrow> int) \<Rightarrow> environment \<Rightarrow> int \<Rightarrow> meta \<Rightarrow> van \<times> postoffice \<Rightarrow>
    (meta \<times> van \<times> postoffice) res" where
  "scheduler_full tx e t nodes s =
     (let (v, po) = s in
      bindR (order_nodes e (meta_nodes nodes)) (\<lambda>ns.
      let pref = with_preferred_rank ns in
      bindR (if pref then check_ranks po ns else Inr ()) (\<lambda>_.
      bindR (mapfoldR (assign_node t pref) ns (v, po)) (\<lambda>(ns', v1, po1).
      let nodes' = set_meta_cmd ADD_NODE (set_meta_nodes (ns' @ [v_my_node v1]) nodes) in
      bindR (GetNodeIDs po1 (kWorkerGroup + kServerGroup)) (\<lambda>ids.
      bindR (send_unshared (Send_next tx t) \<lparr>msg_meta = nodes', msg_data = []\<rparr> ids v1) (\<lambda>v2.
        Inr (nodes', v2\<lparr>v_ready := True\<rparr>, po1)))))))"

definition scheduler_recover :: "(message \<Rightarrow> int) \<Rightarrow> int \<Rightarrow> meta \<Rightarrow> meta \<Rightarrow> van \<times> postoffice \<Rightarrow>
    (van \<times> postoffice) res" where
  "scheduler_recover tx t nodes recovery_nodes s =
     (let (v, po) = s in
      bindR (GetDeadNodes (v_ready v) t (v_heartbeat_timeout v) po) (\<lambda>dead_set.
      PS_CHECK (length (meta_nodes recovery_nodes) = 1) ''recovery_nodes''
       (let rn = hd (meta_nodes recovery_nodes);
            v1 = Connect rn v;
            po1 = UpdateHeartbeat (n_id rn) t po
        in bindR (GetNodeIDs po1 (kWorkerGroup + kServerGroup)) (\<lambda>ids.
           bindR (foldR (\<lambda>r v.
              if r \<noteq> n_id rn \<and> r \<in> set dead_set then Inr v
              else Send_next tx t \<lparr>msg_meta = (if r = n_id rn then nodes else recovery_nodes)\<lparr>m_recver := r\<rparr>,
                                   msg_data = []\<rparr> v) ids v1) (\<lambda>v2.
             Inr (v2, po1))))))"

definition ProcessAddNodeCommandAtScheduler ::
  "(message \<Rightarrow> int) \<Rightarrow> environment \<Rightarrow> int \<Rightarrow> meta \<Rightarrow> meta \<Rightarrow> van \<times> postoffice \<Rightarrow>
     (meta \<times> meta \<times> van \<times> postoffice) res" where
  "ProcessAddNodeCommandAtScheduler tx e t nodes recovery_nodes s =
     (let recovery_nodes' = set_meta_cmd ADD_NODE recovery_nodes;
          num_nodes = num_server_instances (snd s) + num_worker_instances (snd s)
      in if int (length (meta_nodes nodes)) = num_nodes then
           bindR (scheduler_full tx e t nodes s) (\<lambda>(nodes', v, po). Inr (nodes', recovery_nodes', v, po))
         else if meta_nodes recovery_nodes' \<noteq> [] then
           bindR (scheduler_recover tx t nodes recovery_nodes' s) (\<lambda>(v, po). Inr (nodes, recovery_nodes', v, po))
         else Inr (nodes, recovery_nodes', s))"

section \<open>Joining\<close>

text \<open>The search for a dead node of the same role, whose id the new node takes over.\<close>

fun replace_dead :: "int list \<Rightarrow> node \<Rightarrow> node list \<Rightarrow> (node list \<times> node) option" where
  "replace_dead dead new [] = None"
| "replace_dead dead new (n # ns) =
     (if n_id n \<in> set dead \<and> n_role n = n_role new
      then let rn = new\<lparr>n_id := n_id n, n_is_recovery := True\<rparr> in Some (rn # ns, rn)
      else case replace_dead dead new ns of None \<Rightarrow> None | Some (ns', rn) \<Rightarrow> Some (n # ns', rn))"

definition update_my_id :: "environment \<Rightarrow> node list \<Rightarrow> van \<Rightarrow> van" where
  "update_my_id e ns v = fold (\<lambda>n v.
     if n_hostname (v_my_node v) = n_hostname n \<and> n_port (v_my_node v) = n_port n
     then (if env_sys e ''DMLC_RANK'' = None \<or> n_id (v_my_node v) = kEmpty then SetNode n v else v)
     else v) ns v"

definition UpdateLocalID ::
  "environment \<Rightarrow> int list \<Rightarrow> message \<Rightarrow> meta \<Rightarrow> meta \<Rightarrow> van \<times> postoffice \<Rightarrow> (message \<times> meta \<times> meta \<times> van) res"
where
  "UpdateLocalID e dead msg nodes recovery_nodes s =
     (let (v, po) = s;
          ctrl_node = meta_nodes (msg_meta msg);
          num_nodes = num_server_instances po + num_worker_instances po;
          finish = (\<lambda>msg' nodes' rec'. Inr (msg', nodes', rec', update_my_id e (meta_nodes (msg_meta msg')) v))
      in if m_sender (msg_meta msg) = kEmpty then
           PS_CHECK (v_is_scheduler v) ''is_scheduler''
           (PS_CHECK (length ctrl_node = 1) ''ctrl.node.size''
            (if int (length (meta_nodes nodes)) < num_nodes
             then finish msg (set_meta_nodes (meta_nodes nodes @ [hd ctrl_node]) nodes) recovery_nodes
             else PS_CHECK (v_ready v) ''ready'' (no_ub (meta_nodes nodes \<noteq> []) ''nodes.size() - 1''
               (case replace_dead dead (hd ctrl_node) (butlast (meta_nodes nodes)) of
                  None \<Rightarrow> finish msg nodes recovery_nodes
                | Some (ns, rn) \<Rightarrow>
                    finish (upd_meta (set_meta_nodes [rn]) msg)
                      (set_meta_nodes (ns @ [last (meta_nodes nodes)]) nodes)
                      (set_meta_nodes (meta_nodes recovery_nodes @ [rn]) recovery_nodes)))))
         else finish msg nodes recovery_nodes)"

definition join_node :: "node \<Rightarrow> van \<Rightarrow> van" where
  "join_node n v =
     (let v1 = (if umap_find (v_connected_nodes v) (node_addr n) = None
                then (let v' = Connect n v in
                      v'\<lparr>v_connected_nodes := umap_set (node_addr n) (n_id n) (v_connected_nodes v')\<rparr>) else v);
          v2 = (if \<not> n_is_recovery n \<and> n_role n = SERVER then v1\<lparr>v_num_servers := v_num_servers v1 + 1\<rparr> else v1)
      in if \<not> n_is_recovery n \<and> n_role n = WORKER then v2\<lparr>v_num_workers := v_num_workers v2 + 1\<rparr> else v2)"

definition ProcessAddNodeCommand ::
  "(message \<Rightarrow> int) \<Rightarrow> environment \<Rightarrow> int \<Rightarrow> message \<Rightarrow> meta \<Rightarrow> meta \<Rightarrow> van \<times> postoffice \<Rightarrow>
     (meta \<times> meta \<times> van \<times> postoffice) res" where
  "ProcessAddNodeCommand tx e t msg nodes recovery_nodes s =
     (let (v, po) = s in
      bindR (GetDeadNodes (v_ready v) t (v_heartbeat_timeout v) po) (\<lambda>dead_set.
      bindR (UpdateLocalID e dead_set msg nodes recovery_nodes (v, po)) (\<lambda>(msg', nodes', rec', v1).
        if v_is_scheduler v1 then ProcessAddNodeCommandAtScheduler tx e t nodes' rec' (v1, po)
        else Inr (nodes', rec', (fold join_node (meta_nodes (msg_meta msg')) v1)\<lparr>v_ready := True\<rparr>, po))))"

section \<open>Heartbeats\<close>

definition ProcessHearbeat :: "(message \<Rightarrow> int) \<Rightarrow> int \<Rightarrow> message \<Rightarrow> van \<times> postoffice \<Rightarrow> (van \<times> postoffice) res" where
  "ProcessHearbeat tx t msg s = foldR (\<lambda>n (v, po).
     let po' = UpdateHeartbeat (n_id n) t po in
     if v_is_scheduler v then
       bindR (Send_next tx t (Message0\<lparr>msg_meta := Meta0
                \<lparr>m_recver := n_id n, m_control := Control0\<lparr>c_cmd := HEARTBEAT, c_node := [v_my_node v]\<rparr>\<rparr>\<rparr>) v)
         (\<lambda>v'. Inr (v', po'))
     else Inr (v, po')) (meta_nodes (msg_meta msg)) s"

definition kDefaultHeartbeatInterval :: int where "kDefaultHeartbeatInterval = 0"

text \<open>One turn of the heartbeat thread; \<open>None\<close>: the thread ends.\<close>

definition Heartbeat_turn :: "(message \<Rightarrow> int) \<Rightarrow> environment \<Rightarrow> int \<Rightarrow> van \<Rightarrow> van option res" where
  "Heartbeat_turn tx e t v =
     (let interval = (case env_find e ''PS_HEARTBEAT_INTERVAL'' of Some s \<Rightarrow> atoi s | None \<Rightarrow> kDefaultHeartbeatInterval) in
      if interval > 0 \<and> v_ready v then
        bindR (Send_next tx t (Message0\<lparr>msg_meta := Meta0
                 \<lparr>m_recver := kScheduler, m_control := Control0\<lparr>c_cmd := HEARTBEAT, c_node := [v_my_node v]\<rparr>\<rparr>\<rparr>) v)
          (\<lambda>v'. Inr (Some v'))
      else Inr None)"

section \<open>Barriers\<close>

definition barrier_response :: "Command \<Rightarrow> message \<Rightarrow> message" where
  "barrier_response cmd msg = Message0\<lparr>msg_meta := Meta0
     \<lparr>m_request := False, m_app_id := m_app_id (msg_meta msg), m_customer_id := m_customer_id (msg_meta msg),
      m_control := Control0\<lparr>c_cmd := cmd\<rparr>\<rparr>\<rparr>"

definition ProcessInstanceBarrierCommand ::
  "(message \<Rightarrow> int) \<Rightarrow> int \<Rightarrow> message \<Rightarrow> van \<times> postoffice \<Rightarrow> (van \<times> postoffice) res" where
  "ProcessInstanceBarrierCommand tx t msg s =
     (let (v, po) = s in
      if m_request (msg_meta msg) then
        let counts = (if v_barrier_count v = [] then replicate 8 0 else v_barrier_count v);
            grp = c_barrier_group (m_control (msg_meta msg))
        in bindR (vec_get counts grp) (\<lambda>n.
           bindR (vec_set counts grp (n + 1)) (\<lambda>counts1.
           bindR (GetNodeIDs po grp) (\<lambda>ids.
           if n + 1 = int (length ids) then
             bindR (vec_set counts1 grp 0) (\<lambda>counts2.
             bindR (send_unshared (Send_next_pos tx t) (barrier_response INSTANCE_BARRIER msg) ids
                      (v\<lparr>v_barrier_count := counts2\<rparr>)) (\<lambda>v'. Inr (v', po)))
           else Inr (v\<lparr>v_barrier_count := counts1\<rparr>, po))))
      else bindR (Manage msg po) (\<lambda>po'. Inr (v, po')))"

text \<open>How many requests a group barrier waits for; the C division truncates.\<close>

definition num_expected_requests :: "int \<Rightarrow> int \<Rightarrow> nat \<Rightarrow> int" where
  "num_expected_requests node_group group_size num_instances =
     (if node_group = kScheduler then 1
      else if node_group AND kScheduler \<noteq> 0 then (int num_instances - 1) sdiv group_size + 1
      else int num_instances sdiv group_size)"

definition ProcessBarrierCommand ::
  "(message \<Rightarrow> int) \<Rightarrow> int \<Rightarrow> message \<Rightarrow> van \<times> postoffice \<Rightarrow> (van \<times> postoffice) res" where
  "ProcessBarrierCommand tx t msg s =
     (let (v, po) = s in
      if m_request (msg_meta msg) then
        let node_group = c_barrier_group (m_control (msg_meta msg));
            reqs = umap_index [] (v_group_barrier_requests v) node_group @ [m_sender (msg_meta msg)];
            v1 = v\<lparr>v_group_barrier_requests := umap_set node_group reqs (v_group_barrier_requests v)\<rparr>;
            group_size = po_group_size po
        in bindR (GetNodeIDs po node_group) (\<lambda>ids.
           no_ub (node_group = kScheduler \<or> group_size \<noteq> 0) ''division by zero''
           (if int (length reqs) = num_expected_requests node_group group_size (length ids) then
              bindR (send_unshared (Send_next_pos tx t) (barrier_response BARRIER msg) reqs v1) (\<lambda>v2.
                Inr (v2\<lparr>v_group_barrier_requests := umap_set node_group [] (v_group_barrier_requests v2)\<rparr>, po))
            else Inr (v1, po)))
      else bindR (Manage msg po) (\<lambda>po'. Inr (v, po')))"

section \<open>Data messages\<close>

text \<open>
  \<^verbatim>\<open>ProcessDataMsg\<close>: the message goes to the customer registered for its application, at a
  worker under the customer id of the message, elsewhere under the application id.  \<open>snaps\<close> is
  the registry as the polls of \<^verbatim>\<open>GetCustomer\<close> see it, \<open>objs\<close> the customer objects with the state
  of their applications, and \<open>handle\<close> the receive handlers.
\<close>

type_synonym registry = "(int, (int, customer_ptr) umap) umap"

definition ProcessDataMsg ::
  "(nat \<Rightarrow> registry) \<Rightarrow> (customer_ptr \<Rightarrow> message \<Rightarrow> customer \<times> 'a \<Rightarrow> (customer \<times> 'a) res) \<Rightarrow>
     message \<Rightarrow> postoffice \<Rightarrow> (customer_ptr \<Rightarrow> customer \<times> 'a) \<Rightarrow> (customer_ptr \<Rightarrow> customer \<times> 'a) res" where
  "ProcessDataMsg snaps handle msg po objs =
     PS_CHECK (m_sender (msg_meta msg) \<noteq> kEmpty) ''sender''
     (PS_CHECK (m_recver (msg_meta msg) \<noteq> kEmpty) ''recver''
     (PS_CHECK (m_app_id (msg_meta msg) \<noteq> kEmpty) ''app_id''
      (let app_id = m_app_id (msg_meta msg);
           customer_id = (if po_is_worker po then m_customer_id (msg_meta msg) else app_id)
       in case GetCustomer snaps app_id customer_id 5 of
            None \<Rightarrow> Inl (CheckFailed ''timeout (5 sec) to wait App'')
          | Some obj \<Rightarrow> bindR (DirectProcess (handle obj) msg (objs obj)) (\<lambda>st. Inr (objs(obj := st))))))"

section \<open>The receiving loop\<close>

record 'a rx =
  rx_van :: van
  rx_po :: postoffice
  rx_nodes :: meta
  rx_recovery :: meta
  rx_objs :: "customer_ptr \<Rightarrow> customer \<times> 'a"

text \<open>The duplicate filter in front of the handlers: whether the message is dropped.\<close>

definition filter_duplicate :: "(message \<Rightarrow> int) \<Rightarrow> int \<Rightarrow> message \<Rightarrow> van \<Rightarrow> (van \<times> bool) res" where
  "filter_duplicate tx t msg v =
     (case v_resender v of
        None \<Rightarrow> Inr (v, False)
      | Some r \<Rightarrow>
          PS_CHECK (v_ready v \<or> msg_cmd msg \<in> {TERMINATE, ACK} \<or> m_sender (msg_meta msg) \<noteq> kEmpty) ''call Start() first''
           (bindR (AddIncomming (n_id (v_my_node v)) msg r) (\<lambda>(r', dup, ack).
              let v1 = v\<lparr>v_resender := Some r'\<rparr> in
              case ack of
                None \<Rightarrow> Inr (v1, dup)
              | Some a \<Rightarrow> bindR (Send tx t a v1) (\<lambda>v2. Inr (v2, dup)))))"

text \<open>
  One turn of \<^verbatim>\<open>Van::Receiving\<close> with the message \<open>msg\<close> of \<open>recv_bytes\<close> bytes; \<open>coin\<close> is the random
  number of the debugging option that drops messages.  The flag tells whether the loop goes on.
\<close>

definition Van_Receiving_turn ::
  "(message \<Rightarrow> int) \<Rightarrow> environment \<Rightarrow> int \<Rightarrow> int \<Rightarrow> (nat \<Rightarrow> registry) \<Rightarrow>
     (customer_ptr \<Rightarrow> message \<Rightarrow> customer \<times> 'a \<Rightarrow> (customer \<times> 'a) res) \<Rightarrow>
     message \<Rightarrow> int \<Rightarrow> 'a rx \<Rightarrow> ('a rx \<times> bool) res" where
  "Van_Receiving_turn tx e t coin snaps handle msg recv_bytes s =
     (let v = rx_van s; po = rx_po s in
      if v_ready v \<and> v_drop_rate v > 0 \<and> coin mod 100 < v_drop_rate v then Inr (s, True)
      else PS_CHECK (recv_bytes \<noteq> -1) ''recv_bytes''
       (bindR (filter_duplicate tx t msg (v\<lparr>v_recv_bytes := v_recv_bytes v + word_of_int recv_bytes\<rparr>)) (\<lambda>(v1, dup).
        let s1 = s\<lparr>rx_van := v1\<rparr>; cmd = msg_cmd msg in
        if dup then Inr (s1, True)
        else if \<not> control_empty (m_control (msg_meta msg)) then
          (if cmd = TERMINATE then Inr (s1\<lparr>rx_van := ProcessTerminateCommand v1\<rparr>, False)
           else if cmd = ADD_NODE then
             bindR (ProcessAddNodeCommand tx e t msg (rx_nodes s) (rx_recovery s) (v1, po)) (\<lambda>(nodes, rec, v2, po2).
               Inr (s1\<lparr>rx_van := v2, rx_po := po2, rx_nodes := nodes, rx_recovery := rec\<rparr>, True))
           else if cmd = BARRIER then
             bindR (ProcessBarrierCommand tx t msg (v1, po)) (\<lambda>(v2, po2). Inr (s1\<lparr>rx_van := v2, rx_po := po2\<rparr>, True))
           else if cmd = INSTANCE_BARRIER then
             bindR (ProcessInstanceBarrierCommand tx t msg (v1, po)) (\<lambda>(v2, po2). Inr (s1\<lparr>rx_van := v2, rx_po := po2\<rparr>, True))
           else if cmd = HEARTBEAT then
             bindR (ProcessHearbeat tx t msg (v1, po)) (\<lambda>(v2, po2). Inr (s1\<lparr>rx_van := v2, rx_po := po2\<rparr>, True))
           else Inr (s1, True))
        else bindR (ProcessDataMsg snaps handle msg po (rx_objs s)) (\<lambda>objs. Inr (s1\<lparr>rx_objs := objs\<rparr>, True)))))"

section \<open>Starting and stopping\<close>

text \<open>
  What \<^verbatim>\<open>Start\<close> asks of the machine and the transport: the interface and address of the current
  GPU, the first usable interface and address, free ports, and \<^verbatim>\<open>Bind\<close>.
\<close>

record machine =
  mc_gpu_interface_ip :: "string \<times> string"
  mc_available_interface_ip :: "string \<times> string"
  mc_available_port :: "int \<Rightarrow> int \<times> int list"
  mc_bind :: "node \<Rightarrow> int \<Rightarrow> node \<times> int"

definition Van_Start_scheduler_node :: "environment \<Rightarrow> van \<Rightarrow> van res" where
  "Van_Start_scheduler_node e v =
     bindR (check_notnull (env_find e ''DMLC_PS_ROOT_URI'')) (\<lambda>uri.
     bindR (check_notnull (env_find e ''DMLC_PS_ROOT_PORT'')) (\<lambda>port.
       let sc = v_scheduler v;
           sc' = sc\<lparr>n_hostname := uri, n_num_ports := 1, n_port := atoi port,
                    n_ports := (n_ports sc)[0 := atoi port], n_dev_types := (n_dev_types sc)[0 := 1],
                    n_dev_ids := (n_dev_ids sc)[0 := 0], n_role := SCHEDULER, n_id := kScheduler\<rparr>
       in Inr (v\<lparr>v_scheduler := sc'\<rparr>)))"

definition Van_Start_my_node ::
  "machine \<Rightarrow> environment \<Rightarrow> int \<Rightarrow> postoffice \<Rightarrow> van \<Rightarrow> (environment \<times> van) res" where
  "Van_Start_my_node mc e customer_id po v =
     (if v_is_scheduler v then Inr (e, SetNode (v_scheduler v) v)
      else
        let role = (if po_is_worker po then WORKER else SERVER);
            ip0 = (case env_find e ''DMLC_NODE_HOST'' of Some s \<Rightarrow> s | None \<Rightarrow> []);
            itf0 = (case env_find e ''DMLC_INTERFACE'' of Some s \<Rightarrow> s | None \<Rightarrow> []);
            auto = (itf0 = ''auto'' \<or> itf0 = ''AUTO'');
            (itf1, ip1) = (if auto then mc_gpu_interface_ip mc else (itf0, ip0));
            e1 = (if auto then env_set ''DMLC_INTERFACE'' itf1 (env_set ''DMLC_NODE_HOST'' ip1 e) else e);
            (itf2, ip2) = (if ip1 = [] \<and> itf1 = [] then mc_available_interface_ip mc else (itf1, ip1));
            num_ports = (case env_find e1 ''DMLC_NUM_PORTS'' of Some s \<Rightarrow> atoi s | None \<Rightarrow> 1);
            (num_available, ports0) = mc_available_port mc num_ports;
            ports = (case env_find e1 ''DMLC_PORT'' of Some s \<Rightarrow> ports0[0 := atoi s] | None \<Rightarrow> ports0)
        in PS_CHECK (ip1 = [] \<longrightarrow> itf2 \<noteq> []) ''failed to get the interface''
           (PS_CHECK (ip2 \<noteq> []) ''failed to get ip''
           (PS_CHECK (num_available = num_ports) ''failed to get ports''
            (Inr (e1, SetNode ((v_my_node v)\<lparr>n_hostname := ip2, n_role := role, n_num_ports := num_ports,
                       n_ports := ports, n_port := ports ! 0, n_id := kEmpty, n_customer_id := customer_id\<rparr>) v)))))"

text \<open>The stage that runs once per van: find out who we are, bind, connect to the scheduler.\<close>

definition Van_Start_init ::
  "machine \<Rightarrow> environment \<Rightarrow> int \<Rightarrow> postoffice \<Rightarrow> van \<Rightarrow> (environment \<times> van) res" where
  "Van_Start_init mc e customer_id po v =
     (if v_init_stage v = 0 then
        bindR (Van_Start_scheduler_node e v) (\<lambda>v1.
        bindR (Van_Start_my_node mc e customer_id po (v1\<lparr>v_is_scheduler := po_is_scheduler po\<rparr>)) (\<lambda>(e1, v2).
        let (n, port) = mc_bind mc (v_my_node v2) (if v_is_scheduler v2 then 0 else 40) in
        PS_CHECK (port \<noteq> -1) ''bind failed''
         (let v3 = Connect (v_scheduler v2) (v2\<lparr>v_my_node := n\<lparr>n_port := port\<rparr>\<rparr>);
              v4 = (case env_find e1 ''PS_DROP_MSG'' of Some s \<Rightarrow> v3\<lparr>v_drop_rate := atoi s\<rparr> | None \<Rightarrow> v3)
          in Inr (e1, v4\<lparr>v_init_stage := v_init_stage v4 + 1\<rparr>))))
      else Inr (e, v))"

text \<open>The registration of a worker or server at the scheduler.\<close>

definition Van_Start_register :: "(message \<Rightarrow> int) \<Rightarrow> int \<Rightarrow> int \<Rightarrow> postoffice \<Rightarrow> van \<Rightarrow> van res" where
  "Van_Start_register tx t customer_id po v =
     (if \<not> v_is_scheduler v then
        Send_next tx t (Message0\<lparr>msg_meta := Meta0
          \<lparr>m_recver := kScheduler,
           m_control := Control0\<lparr>c_cmd := ADD_NODE,
             c_node := [(v_my_node v)\<lparr>n_aux_id := po_preferred_rank po, n_customer_id := customer_id\<rparr>]\<rparr>\<rparr>\<rparr>) v
      else Inr v)"

text \<open>The last stage, entered once \<^verbatim>\<open>ready_\<close> is set.\<close>

definition Van_Start_finish :: "environment \<Rightarrow> van \<Rightarrow> van" where
  "Van_Start_finish e v =
     (if v_init_stage v = 1 then
        let v1 = (case env_find e ''PS_RESEND'' of
                    Some s \<Rightarrow> if atoi s \<noteq> 0 then
                      v\<lparr>v_resender := Some (Resender_new
                           (case env_find e ''PS_RESEND_TIMEOUT'' of Some u \<Rightarrow> atoi u | None \<Rightarrow> 1000) 10)\<rparr> else v
                  | None \<Rightarrow> v)
        in v1\<lparr>v_init_stage := v_init_stage v1 + 1\<rparr>
      else v)"

text \<open>
  \<^verbatim>\<open>Van::Stop\<close>.  The resender is deleted, but the pointer to it is kept; the number of servers and
  workers and the group barrier requests are kept as well.
\<close>

definition Van_Stop :: "(message \<Rightarrow> int) \<Rightarrow> van \<Rightarrow> van res" where
  "Van_Stop tx v =
     (let exit = Message0\<lparr>msg_meta := Meta0\<lparr>m_control := Control0\<lparr>c_cmd := TERMINATE\<rparr>,
                            m_recver := n_id (v_my_node v), m_customer_id := 0\<rparr>\<rparr>
      in PS_CHECK (tx exit \<noteq> -1) ''ret''
          (Inr (v\<lparr>v_sent := v_sent v @ [exit], v_init_stage := 0, v_ready := False, v_connected_nodes := [],
                  v_shared_node_mapping := [], v_send_bytes := 0, v_timestamp := 0,
                  v_my_node := (v_my_node v)\<lparr>n_id := kEmpty\<rparr>, v_barrier_count := []\<rparr>)))"

section \<open>Properties: the order of the nodes\<close>

lemma or_bool_pos: "(x OR of_bool b) > (0::int) \<longleftrightarrow> x > 0 \<or> x = 0 \<and> b"
proof -
  define y where "y = (x OR of_bool b)"
  have neg: "y < 0 \<longleftrightarrow> x < 0" by (simp only: y_def or_negative_int_iff) simp
  have zero: "y = 0 \<longleftrightarrow> x = 0 \<and> \<not> b" unfolding y_def by (simp only: or_eq_0_iff of_bool_eq_0_iff)
  have "y > 0 \<longleftrightarrow> x > 0 \<or> x = 0 \<and> b" using neg zero by linarith
  then show ?thesis unfolding y_def .
qed

lemma host_port_before_iff:
  "host_port_before a b \<longleftrightarrow> str_compare (n_hostname a) (n_hostname b) > 0 \<or>
     n_hostname a = n_hostname b \<and> n_port a < n_port b"
  by (simp add: host_port_before_def or_bool_pos str_compare_eq_0)

lemma str_compare_trans': "str_compare b a \<le> 0 \<Longrightarrow> str_compare c b \<le> 0 \<Longrightarrow> str_compare c a \<le> 0"
  using str_compare_trans [of a b c] str_compare_flip [of b a] str_compare_flip [of c b] str_compare_flip [of c a]
  by linarith

lemma host_port_before_order: "strict_weak_order host_port_before"
  unfolding strict_weak_order_def
proof (intro conjI allI impI)
  fix a b :: node
  assume "host_port_before a b"
  then show "\<not> host_port_before b a"
    unfolding host_port_before_iff using str_compare_flip [of "n_hostname a" "n_hostname b"] by auto
next
  fix a b c :: node
  assume "\<not> host_port_before b a" and "\<not> host_port_before c b"
  then have ba: "str_compare (n_hostname b) (n_hostname a) \<le> 0" "n_hostname b = n_hostname a \<longrightarrow> n_port a \<le> n_port b"
    and cb: "str_compare (n_hostname c) (n_hostname b) \<le> 0" "n_hostname c = n_hostname b \<longrightarrow> n_port b \<le> n_port c"
    unfolding host_port_before_iff by auto
  have "str_compare (n_hostname c) (n_hostname a) \<le> 0"
    by (rule str_compare_trans' [OF ba(1) cb(1)])
  moreover have "n_port a \<le> n_port c" if eq: "n_hostname c = n_hostname a"
  proof -
    have "0 \<le> str_compare (n_hostname b) (n_hostname a)"
      using cb(1) eq str_compare_flip [of "n_hostname a" "n_hostname b"] by auto
    with ba(1) have "n_hostname b = n_hostname a" by (simp add: str_compare_eq_0 [symmetric])
    with eq ba(2) cb(2) show ?thesis by simp
  qed
  ultimately show "\<not> host_port_before c a" unfolding host_port_before_iff by auto
qed

lemma strict_weak_order_lex:
  fixes f :: "'a \<Rightarrow> 'b::linorder"
  assumes "strict_weak_order lt"
  shows "strict_weak_order (\<lambda>a b. if f a = f b then lt a b else f a < f b)"
  unfolding strict_weak_order_def
proof (intro conjI allI impI)
  fix a b :: 'a
  assume ab: "if f a = f b then lt a b else f a < f b"
  have asym: "lt a b \<longrightarrow> \<not> lt b a" using assms unfolding strict_weak_order_def by blast
  show "\<not> (if f b = f a then lt b a else f b < f a)"
    using ab asym by (cases "f a = f b") auto
next
  fix a b c :: 'a
  assume ba: "\<not> (if f b = f a then lt b a else f b < f a)" and cb: "\<not> (if f c = f b then lt c b else f c < f b)"
  then have le: "f a \<le> f b" "f b \<le> f c" by (auto split: if_splits)
  show "\<not> (if f c = f a then lt c a else f c < f a)"
  proof (cases "f c = f a")
    case True
    with le have eq: "f b = f a" "f c = f b" by auto
    with ba cb have "\<not> lt b a" "\<not> lt c b" by auto
    then have "\<not> lt c a" using assms unfolding strict_weak_order_def by blast
    with True show ?thesis by simp
  next
    case False
    with le show ?thesis by auto
  qed
qed

lemma mixed_before_order: "strict_weak_order (mixed_before cnt)"
  using strict_weak_order_lex [OF host_port_before_order, of "\<lambda>n. umap_index 0 cnt (n_hostname n)"]
  by (simp add: mixed_before_def [abs_def])

lemma sparse_before_order: "strict_weak_order (sparse_before pos)"
  unfolding strict_weak_order_def sparse_before_def by auto

lemma order_nodes_mset:
  assumes "order_nodes e ns = Inr ns'"
  shows "mset ns' = mset ns"
proof -
  from assms obtain lt where "ns' = std_sort lt ns"
    unfolding order_nodes_def Let_def PS_CHECK_eq_Inr
    by (cases "env_sys e ''BYTEPS_ORDERED_HOSTS''") (auto simp: bindR_eq_Inr split: if_split_asm)
  then show ?thesis by simp
qed

text \<open>
  sorting the joining nodes is well defined and loses none.  All three comparison functions
  of the scheduler are strict weak orderings, as \<^verbatim>\<open>std::sort\<close> requires (the plain one although it
  is written as a bitwise or of two results), the sorted list has the same nodes, and without
  the special modes it is ordered by descending host name and, for equal hosts, ascending port.
\<close>

theorem node_order_well_defined:
  "strict_weak_order host_port_before \<and> strict_weak_order (mixed_before cnt) \<and> strict_weak_order (sparse_before pos) \<and>
   (order_nodes e ns = Inr ns' \<longrightarrow> mset ns' = mset ns \<and>
     (env_sys e ''BYTEPS_ENABLE_MIXED_MODE'' = None \<and> env_sys e ''BYTEPS_ORDERED_HOSTS'' = None \<longrightarrow>
       sorted_wrt (\<lambda>a b. str_compare (n_hostname b) (n_hostname a) \<le> 0 \<and>
         (n_hostname a = n_hostname b \<longrightarrow> n_port a \<le> n_port b)) ns'))"
proof -
  have "sorted_wrt (\<lambda>a b. str_compare (n_hostname b) (n_hostname a) \<le> 0 \<and>
      (n_hostname a = n_hostname b \<longrightarrow> n_port a \<le> n_port b)) (std_sort host_port_before ns)"
    by (rule sorted_wrt_mono_rel [OF _ sorted_std_sort [OF host_port_before_order]])
      (auto simp: host_port_before_iff not_less)
  moreover have "order_nodes e ns = Inr ns' \<and> env_sys e ''BYTEPS_ENABLE_MIXED_MODE'' = None \<and>
      env_sys e ''BYTEPS_ORDERED_HOSTS'' = None \<longrightarrow> ns' = std_sort host_port_before ns"
    by (auto simp: order_nodes_def)
  ultimately show ?thesis
    using order_nodes_mset [of e ns ns'] host_port_before_order mixed_before_order [of cnt] sparse_before_order [of pos]
    by (cases "order_nodes e ns = Inr ns'") auto
qed

theorem node_order_well_defined_witness:
  "\<exists>ns. order_nodes \<lparr>env_kvs = [], env_sys = (\<lambda>_. None)\<rparr>
       [example_node, example_node\<lparr>n_hostname := ''10.0.0.2''\<rparr>, example_node\<lparr>n_port := 7000\<rparr>] = Inr ns \<and>
     map n_port ns = [8000, 7000, 8000] \<and>
     sorted_wrt (\<lambda>a b. str_compare (n_hostname b) (n_hostname a) \<le> 0 \<and>
       (n_hostname a = n_hostname b \<longrightarrow> n_port a \<le> n_port b)) ns"
proof -
  let ?e = "\<lparr>env_kvs = [], env_sys = (\<lambda>_. None)\<rparr>"
  let ?ns = "[example_node, example_node\<lparr>n_hostname := ''10.0.0.2''\<rparr>, example_node\<lparr>n_port := 7000\<rparr>]"
  have ns: "order_nodes ?e ?ns = Inr (std_sort host_port_before ?ns)"
    by (simp add: order_nodes_def)
  moreover have "map n_port (std_sort host_port_before ?ns) = [8000, 7000, 8000]"
    by (simp add: host_port_before_iff example_node_def)
  ultimately show ?thesis
    using node_order_well_defined [of _ _ ?e ?ns "std_sort host_port_before ?ns"] by simp
qed

section \<open>Facts on sending\<close>

definition stamped :: "int \<Rightarrow> message \<Rightarrow> message" where
  "stamped ts msg = upd_meta (\<lambda>m. m\<lparr>m_timestamp := ts\<rparr>) msg"

definition addressed :: "int \<Rightarrow> message \<Rightarrow> message" where
  "addressed r msg = upd_meta (\<lambda>m. m\<lparr>m_recver := r\<rparr>) msg"

text \<open>The state after a message has gone out under the next timestamp, without a resender.\<close>

definition sent_next :: "(message \<Rightarrow> int) \<Rightarrow> message \<Rightarrow> van \<Rightarrow> van" where
  "sent_next tx msg v = v\<lparr>v_timestamp := to_int32 (v_timestamp v + 1),
     v_sent := v_sent v @ [stamped (v_timestamp v) msg],
     v_send_bytes := v_send_bytes v + word_of_int (tx (stamped (v_timestamp v) msg))\<rparr>"

lemma Send_next_plain:
  assumes "v_resender v = None" and "\<forall>m. tx m \<noteq> -1"
  shows "Send_next tx now msg v = Inr (sent_next tx msg v)"
  using assms by (simp add: Send_next_def GetTimestamp_def Send_def sent_next_def stamped_def)

lemma Send_next_pos_plain:
  assumes "v_resender v = None" and "\<forall>m. tx m > 0"
  shows "Send_next_pos tx now msg v = Inr (sent_next tx msg v)"
proof -
  have "\<forall>m. tx m \<noteq> -1" using assms(2) by (metis less_minus_one_simps(1) order_less_asym)
  then show ?thesis
    using assms by (simp add: Send_next_pos_def Send_next_plain)
qed

text \<open>
  A loop that sends \<open>msg\<close> to the unshared ones of \<open>ids\<close> adds exactly these messages to the log, in
  order, and changes nothing but the log, the byte count and the timestamp.
\<close>

definition same_but_sent :: "van \<Rightarrow> van \<Rightarrow> bool" where
  "same_but_sent v v' \<longleftrightarrow>
     v' = v\<lparr>v_timestamp := v_timestamp v', v_sent := v_sent v', v_send_bytes := v_send_bytes v'\<rparr>"

lemma same_but_sent_refl [simp]: "same_but_sent v v"
  by (simp add: same_but_sent_def)

lemma same_but_sent_trans: "same_but_sent a b \<Longrightarrow> same_but_sent b c \<Longrightarrow> same_but_sent a c"
  by (cases a; cases b; cases c) (simp add: same_but_sent_def)

lemma same_but_sent_next [simp]: "same_but_sent v (sent_next tx msg v)"
  by (simp add: same_but_sent_def sent_next_def)

lemma same_but_sent_fields:
  assumes "same_but_sent v v'"
  shows "v_shared_node_mapping v' = v_shared_node_mapping v" "v_resender v' = v_resender v"
    "v_barrier_count v' = v_barrier_count v" "v_group_barrier_requests v' = v_group_barrier_requests v"
    "v_my_node v' = v_my_node v" "v_num_servers v' = v_num_servers v" "v_num_workers v' = v_num_workers v"
    "v_connected_nodes v' = v_connected_nodes v" "v_connects v' = v_connects v" "v_ready v' = v_ready v"
    "v_is_scheduler v' = v_is_scheduler v"
  using assms by (cases v; cases v'; simp add: same_but_sent_def)+

lemma send_unshared_log:
  assumes "\<And>m v. v_resender v = None \<Longrightarrow> send m v = Inr (sent_next tx m v)" and "v_resender v = None"
  shows "\<exists>v' tss. send_unshared send msg ids v = Inr v' \<and> same_but_sent v v' \<and>
    length tss = length (filter (\<lambda>r. umap_find (v_shared_node_mapping v) r = None) ids) \<and>
    v_sent v' = v_sent v @ map2 (\<lambda>r ts. stamped ts (addressed r msg))
      (filter (\<lambda>r. umap_find (v_shared_node_mapping v) r = None) ids) tss"
  using assms(2)
proof (induction ids arbitrary: v)
  case Nil
  then show ?case by (simp add: send_unshared_def)
next
  case (Cons r ids)
  show ?case
  proof (cases "umap_find (v_shared_node_mapping v) r")
    case None
    let ?v = "sent_next tx (addressed r msg) v"
    have "send (addressed r msg) v = Inr ?v" using assms(1) Cons.prems by simp
    then have step: "send_unshared send msg (r # ids) v = send_unshared send msg ids ?v"
      using None by (simp add: send_unshared_def addressed_def)
    have "v_resender ?v = None" using Cons.prems by (simp add: sent_next_def)
    from Cons.IH [OF this] obtain v' tss where ih: "send_unshared send msg ids ?v = Inr v'" "same_but_sent ?v v'"
      "length tss = length (filter (\<lambda>r. umap_find (v_shared_node_mapping v) r = None) ids)"
      "v_sent v' = v_sent ?v @ map2 (\<lambda>r ts. stamped ts (addressed r msg))
         (filter (\<lambda>r. umap_find (v_shared_node_mapping v) r = None) ids) tss"
      by (auto simp: sent_next_def)
    show ?thesis
      by (rule exI [of _ v'], rule exI [of _ "v_timestamp v # tss"])
        (use ih None step same_but_sent_trans [OF same_but_sent_next ih(2)] in \<open>simp add: sent_next_def\<close>)
  next
    case (Some j)
    then have "send_unshared send msg (r # ids) v = send_unshared send msg ids v"
      by (simp add: send_unshared_def)
    with Some Cons.IH [OF Cons.prems] show ?thesis by simp
  qed
qed

end
