(* ===== verification/Barriers.thy ===== *)
theory Barriers
  imports Van
begin

text \<open>
  The barrier handlers of the scheduler (\<^verbatim>\<open>ProcessInstanceBarrierCommand\<close> and
  \<^verbatim>\<open>ProcessBarrierCommand\<close> in \<^verbatim>\<open>src/van.cc\<close>): what a sequence of barrier requests, for several
  groups and in any interleaving, makes the scheduler send.
\<close>

section \<open>Instance barriers\<close>

abbreviation msg_group :: "message \<Rightarrow> int" where
  "msg_group m \<equiv> c_barrier_group (m_control (msg_meta m))"

abbreviation msg_recver :: "message \<Rightarrow> int" where
  "msg_recver m \<equiv> m_recver (msg_meta m)"

text \<open>The members of a group, and the counter of a group (all zero before the first request).\<close>

definition members :: "postoffice \<Rightarrow> int \<Rightarrow> int list" where
  "members po g = (case GetNodeIDs po g of Inl _ \<Rightarrow> [] | Inr ids \<Rightarrow> ids)"

definition arrived :: "van \<Rightarrow> int \<Rightarrow> int" where
  "arrived v g = (if v_barrier_count v = [] then 0 else v_barrier_count v ! nat g)"

definition counts_wf :: "van \<Rightarrow> bool" where
  "counts_wf v \<longleftrightarrow> v_barrier_count v = [] \<or> length (v_barrier_count v) = 8"

definition barrier_request :: "postoffice \<Rightarrow> message \<Rightarrow> bool" where
  "barrier_request po m \<longleftrightarrow> m_request (msg_meta m) \<and> 0 \<le> msg_group m \<and> msg_group m < 8 \<and> members po (msg_group m) \<noteq> []"

definition unshared :: "van \<Rightarrow> int list \<Rightarrow> int list" where
  "unshared v ids = filter (\<lambda>r. umap_find (v_shared_node_mapping v) r = None) ids"

text \<open>An answer to a request: an empty response with the barrier's command, for the same application and customer.\<close>

definition answers :: "Command \<Rightarrow> message \<Rightarrow> message \<Rightarrow> bool" where
  "answers cmd q m \<longleftrightarrow> \<not> m_request (msg_meta m) \<and> msg_cmd m = cmd \<and> m_app_id (msg_meta m) = m_app_id (msg_meta q) \<and>
     m_customer_id (msg_meta m) = m_customer_id (msg_meta q) \<and> msg_data m = []"

lemma answers_response: "answers cmd q (stamped ts (addressed r (barrier_response cmd q)))"
  by (simp add: answers_def stamped_def addressed_def barrier_response_def Message0_def)

lemma answers_responses:
  "\<forall>x\<in>set (map2 (\<lambda>r ts. stamped ts (addressed r (barrier_response cmd q))) rs tss). answers cmd q x"
  by (auto simp: answers_response)

lemma members_Inr: "members po g \<noteq> [] \<Longrightarrow> GetNodeIDs po g = Inr (members po g)"
  by (simp add: members_def split: sum.splits)

lemma nat_eq_small: "0 \<le> (a::int) \<Longrightarrow> 0 \<le> b \<Longrightarrow> nat a = nat b \<longleftrightarrow> a = b"
  by auto

lemma instance_barrier_step:
  assumes tx: "\<forall>m. tx m > 0" and m: "barrier_request po m"
    and v: "counts_wf v" "v_resender v = None"
  shows "\<exists>v' new. ProcessInstanceBarrierCommand tx t m (v, po) = Inr (v', po) \<and>
    counts_wf v' \<and> v_resender v' = None \<and> v_shared_node_mapping v' = v_shared_node_mapping v \<and>
    v_sent v' = v_sent v @ new \<and>
    map msg_recver new = (if arrived v (msg_group m) + 1 = int (length (members po (msg_group m)))
                          then unshared v (members po (msg_group m)) else []) \<and>
    (\<forall>x\<in>set new. answers INSTANCE_BARRIER m x) \<and>
    (\<forall>g. 0 \<le> g \<and> g < 8 \<longrightarrow> arrived v' g =
      (if g = msg_group m then if arrived v g + 1 = int (length (members po g)) then 0 else arrived v g + 1
       else arrived v g))"
proof -
  let ?g = "msg_group m" and ?ids = "members po (msg_group m)"
  define counts where "counts = (if v_barrier_count v = [] then replicate 8 0 else v_barrier_count v)"
  have g: "0 \<le> ?g" "nat ?g < 8" "m_request (msg_meta m)" "GetNodeIDs po ?g = Inr ?ids"
    using m members_Inr by (auto simp: barrier_request_def)
  have len: "length counts = 8" using v(1) by (auto simp: counts_def counts_wf_def)
  have arr: "arrived v x = counts ! nat x" if "0 \<le> x" "x < 8" for x
    using that by (simp add: arrived_def counts_def)
  have ne: "counts[nat ?g := x] \<noteq> []" for x using len by auto
  show ?thesis
  proof (cases "counts ! nat ?g + 1 = int (length ?ids)")
    case False
    let ?v = "v\<lparr>v_barrier_count := counts[nat ?g := counts ! nat ?g + 1]\<rparr>"
    have "ProcessInstanceBarrierCommand tx t m (v, po) = Inr (?v, po)"
      using g len False by (simp add: ProcessInstanceBarrierCommand_def Let_def counts_def [symmetric] vec_get_def vec_set_def)
    moreover have "arrived ?v x = (if x = ?g then arrived v x + 1 else arrived v x)" if "0 \<le> x" "x < 8" for x
      using that g len arr [OF that] ne by (auto simp: arrived_def nth_list_update nat_eq_small)
    ultimately show ?thesis
      using False v len g arr by (intro exI [of _ ?v] exI [of _ "[]"]) (auto simp: counts_wf_def)
  next
    case True
    let ?v = "v\<lparr>v_barrier_count := counts[nat ?g := 0]\<rparr>"
    have "v_resender ?v = None" using v(2) by simp
    from send_unshared_log [of "Send_next_pos tx t" tx, OF Send_next_pos_plain [OF _ tx] this,
        of "barrier_response INSTANCE_BARRIER m" ?ids]
    obtain v' tss where s: "send_unshared (Send_next_pos tx t) (barrier_response INSTANCE_BARRIER m) ?ids ?v = Inr v'"
      "same_but_sent ?v v'" "length tss = length (unshared v ?ids)"
      "v_sent v' = v_sent v @ map2 (\<lambda>r ts. stamped ts (addressed r (barrier_response INSTANCE_BARRIER m))) (unshared v ?ids) tss"
      by (auto simp: unshared_def)
    let ?new = "map2 (\<lambda>r ts. stamped ts (addressed r (barrier_response INSTANCE_BARRIER m))) (unshared v ?ids) tss"
    have "ProcessInstanceBarrierCommand tx t m (v, po) = Inr (v', po)"
      using g len True s(1)
      by (simp add: ProcessInstanceBarrierCommand_def Let_def counts_def [symmetric] vec_get_def vec_set_def)
    moreover have "map msg_recver ?new = unshared v ?ids"
      using s(3) by (auto simp: stamped_def addressed_def map_eq_conv intro!: nth_equalityI)
    moreover have "arrived v' x = (if x = ?g then 0 else arrived v x)" if "0 \<le> x" "x < 8" for x
      using that g len arr [OF that] ne same_but_sent_fields(3) [OF s(2)]
      by (auto simp: arrived_def nth_list_update nat_eq_small)
    ultimately show ?thesis
      using True s len g arr same_but_sent_fields [OF s(2)] v answers_responses [of INSTANCE_BARRIER m "unshared v ?ids" tss]
      by (intro exI [of _ v'] exI [of _ ?new]) (auto simp: counts_wf_def)
  qed
qed

text \<open>The requests for a group in a sequence of messages, and the rounds they complete.\<close>

definition requests_for :: "int \<Rightarrow> message list \<Rightarrow> nat" where
  "requests_for g msgs = length (filter (\<lambda>m. msg_group m = g) msgs)"

definition rounds :: "postoffice \<Rightarrow> int \<Rightarrow> message list \<Rightarrow> nat" where
  "rounds po g msgs = requests_for g msgs div length (members po g)"

lemma requests_for_snoc: "requests_for g (msgs @ [m]) = requests_for g msgs + (if msg_group m = g then 1 else 0)"
  by (simp add: requests_for_def)

lemma Suc_div_mod_cases:
  fixes k n :: nat
  assumes "0 < n"
  shows "(if k mod n + 1 = n then (k + 1) mod n = 0 \<and> (k + 1) div n = k div n + 1
          else (k + 1) mod n = k mod n + 1 \<and> (k + 1) div n = k div n)"
  using assms by (simp add: mod_Suc div_Suc)

lemma sum_update_one:
  fixes f h :: "int \<Rightarrow> nat"
  assumes "finite A" and "x \<in> A" and "\<And>y. y \<in> A \<Longrightarrow> y \<noteq> x \<Longrightarrow> h y = f y" and "h x = f x + d"
  shows "sum h A = sum f A + d"
proof -
  have "sum h (A - {x}) = sum f (A - {x})" using assms(3) by (intro sum.cong) auto
  then show ?thesis using assms(1,2,4) by (simp add: sum.remove)
qed

definition barrier_state :: "van \<Rightarrow> postoffice \<Rightarrow> message list \<Rightarrow> van \<Rightarrow> message list \<Rightarrow> bool" where
  "barrier_state v po msgs v' new \<longleftrightarrow> counts_wf v' \<and> v_resender v' = None \<and>
     v_shared_node_mapping v' = v_shared_node_mapping v \<and> v_sent v' = v_sent v @ new \<and>
     (\<forall>g. 0 \<le> g \<and> g < 8 \<and> members po g \<noteq> [] \<longrightarrow>
        arrived v' g = int (requests_for g msgs mod length (members po g))) \<and>
     (\<forall>x\<in>set new. \<exists>q\<in>set msgs. answers INSTANCE_BARRIER q x \<and> msg_recver x \<in> set (members po (msg_group q))) \<and>
     (\<forall>r. count_list (map msg_recver new) r =
        (\<Sum>g\<in>{0..<8}. count_list (unshared v (members po g)) r * rounds po g msgs))"

lemma barrier_state_step:
  assumes tx: "\<forall>m. tx m > 0" and m: "barrier_request po m" and inv: "barrier_state v po msgs v1 new1"
  shows "\<exists>v2 new2. ProcessInstanceBarrierCommand tx t m (v1, po) = Inr (v2, po) \<and> barrier_state v po (msgs @ [m]) v2 new2"
proof -
  let ?g = "msg_group m"
  have g: "0 \<le> ?g" "?g < 8" "members po ?g \<noteq> []" using m by (auto simp: barrier_request_def)
  have wf: "counts_wf v1" "v_resender v1 = None" using inv by (auto simp: barrier_state_def)
  from instance_barrier_step [OF tx m wf, of t] obtain v2 new where s:
    "ProcessInstanceBarrierCommand tx t m (v1, po) = Inr (v2, po)" "counts_wf v2" "v_resender v2 = None"
    "v_shared_node_mapping v2 = v_shared_node_mapping v1" "v_sent v2 = v_sent v1 @ new"
    "map msg_recver new = (if arrived v1 ?g + 1 = int (length (members po ?g)) then unshared v1 (members po ?g) else [])"
    "\<forall>x\<in>set new. answers INSTANCE_BARRIER m x"
    "\<forall>g. 0 \<le> g \<and> g < 8 \<longrightarrow> arrived v2 g =
      (if g = ?g then if arrived v1 g + 1 = int (length (members po g)) then 0 else arrived v1 g + 1 else arrived v1 g)"
    by blast
  let ?n = "length (members po ?g)" and ?k = "requests_for ?g msgs"
  have arr: "arrived v1 ?g = int (?k mod ?n)" using inv g by (simp add: barrier_state_def)
  have full: "arrived v1 ?g + 1 = int ?n \<longleftrightarrow> ?k mod ?n + 1 = ?n" using arr by linarith
  have dm: "(if ?k mod ?n + 1 = ?n then (?k + 1) mod ?n = 0 \<and> (?k + 1) div ?n = ?k div ?n + 1
          else (?k + 1) mod ?n = ?k mod ?n + 1 \<and> (?k + 1) div ?n = ?k div ?n)"
    using g(3) by (intro Suc_div_mod_cases) simp
  have counts: "arrived v2 x = int (requests_for x (msgs @ [m]) mod length (members po x))"
    if x: "0 \<le> x" "x < 8" "members po x \<noteq> []" for x
    using inv s(8) x dm full arr by (auto simp: barrier_state_def requests_for_snoc split: if_splits)
  have "count_list (map msg_recver (new1 @ new)) r =
      (\<Sum>g\<in>{0..<8}. count_list (unshared v (members po g)) r * rounds po g (msgs @ [m]))" for r
  proof -
    have "(\<Sum>g\<in>{0..<8}. count_list (unshared v (members po g)) r * rounds po g (msgs @ [m])) =
        (\<Sum>g\<in>{0..<8}. count_list (unshared v (members po g)) r * rounds po g msgs) + count_list (map msg_recver new) r"
    proof (rule sum_update_one)
      show "count_list (unshared v (members po ?g)) r * rounds po ?g (msgs @ [m]) =
          count_list (unshared v (members po ?g)) r * rounds po ?g msgs + count_list (map msg_recver new) r"
        using dm full s(6) inv by (auto simp: rounds_def requests_for_snoc unshared_def barrier_state_def split: if_splits)
    qed (use g in \<open>auto simp: rounds_def requests_for_snoc\<close>)
    then show ?thesis using inv by (simp add: barrier_state_def)
  qed
  moreover have "msg_recver x \<in> set (members po ?g)" if "x \<in> set new" for x
  proof -
    have "msg_recver x \<in> set (map msg_recver new)" using that by simp
    then show ?thesis unfolding s(6) by (auto simp: unshared_def split: if_splits)
  qed
  ultimately have "barrier_state v po (msgs @ [m]) v2 (new1 @ new)"
    using s(2-5,7) inv counts by (simp add: barrier_state_def ball_Un)
  with s(1) show ?thesis by blast
qed

lemma barrier_state_run:
  assumes tx: "\<forall>m. tx m > 0" and "\<forall>m\<in>set msgs. barrier_request po m"
    and "v_barrier_count v = []" and "v_resender v = None"
  shows "\<exists>v' new. foldR (ProcessInstanceBarrierCommand tx t) msgs (v, po) = Inr (v', po) \<and> barrier_state v po msgs v' new"
  using assms(2)
proof (induction msgs rule: rev_induct)
  case Nil
  show ?case
    using assms(3,4) by (intro exI [of _ v] exI [of _ "[]"])
      (simp add: barrier_state_def counts_wf_def arrived_def requests_for_def rounds_def)
next
  case (snoc m msgs)
  then obtain v1 new1 where run: "foldR (ProcessInstanceBarrierCommand tx t) msgs (v, po) = Inr (v1, po)"
    and inv: "barrier_state v po msgs v1 new1" by auto
  have "barrier_request po m" using snoc.prems by simp
  from barrier_state_step [OF tx this inv, of t] run show ?case by (auto simp: foldR_append)
qed

text \<open>
  C12: instance barriers.  Whatever the interleaving of barrier requests for the groups of a
  started system, the scheduler answers a member of a group once per completed round of that
  group, a round being as many requests as the group has instances, and never in between; requests
  are counted, whoever sends them.  Each answer is an empty response with the command of the
  barrier and the application and customer of a request for a group of the receiver.  The counter of
  each group holds the requests of the unfinished round, so a barrier can be reused at once.
\<close>

theorem instance_barrier_rounds:
  assumes "\<forall>m. tx m > 0" and "\<forall>m\<in>set msgs. barrier_request po m"
    and "v_barrier_count v = []" and "v_resender v = None"
  shows "\<exists>v' new. foldR (ProcessInstanceBarrierCommand tx t) msgs (v, po) = Inr (v', po) \<and>
    v_sent v' = v_sent v @ new \<and>
    (\<forall>r. count_list (map msg_recver new) r =
       (\<Sum>g\<in>{0..<8}. count_list (unshared v (members po g)) r *
          (requests_for g msgs div length (members po g)))) \<and>
    (\<forall>x\<in>set new. \<exists>q\<in>set msgs. answers INSTANCE_BARRIER q x \<and> msg_recver x \<in> set (members po (msg_group q))) \<and>
    (\<forall>g. 0 \<le> g \<and> g < 8 \<and> members po g \<noteq> [] \<longrightarrow>
       arrived v' g = int (requests_for g msgs mod length (members po g)))"
  using barrier_state_run [OF assms, of t] by (auto simp: barrier_state_def rounds_def)

definition example_request :: "Command \<Rightarrow> int \<Rightarrow> int \<Rightarrow> message" where
  "example_request cmd sender g = Message0\<lparr>msg_meta := Meta0\<lparr>m_request := True, m_sender := sender,
     m_control := Control0\<lparr>c_cmd := cmd, c_barrier_group := g\<rparr>\<rparr>\<rparr>"

lemma example_members:
  "members example_po 4 = [9, 11]" "members example_po 2 = [8, 10, 12, 14]" "members example_po 1 = [1]"
  "members example_po 6 = [9, 11, 8, 10, 12, 14]" "members example_po 5 = [9, 11, 1]"
  "members example_po 3 = [8, 10, 12, 14, 1]" "members example_po 7 = [9, 11, 8, 10, 12, 14, 1]"
  using node_id_entry_groups [of example_po]
  by (simp_all add: members_def GetNodeIDs_ready [OF example_po_ready] group_defs example_po_sizes
      WorkerRankToID_def ServerRankToID_def upt_rec)

lemma eight_groups: "{0..<8::int} = {0, 1, 2, 3, 4, 5, 6, 7}"
  by auto

theorem instance_barrier_rounds_witness:
  "\<exists>v' new. foldR (ProcessInstanceBarrierCommand (\<lambda>_. 1) 0)
       [example_request INSTANCE_BARRIER 9 4, example_request INSTANCE_BARRIER 8 2,
        example_request INSTANCE_BARRIER 11 4, example_request INSTANCE_BARRIER 9 4]
       (Van_new example_env example_node, example_po) = Inr (v', example_po) \<and>
     v_sent v' = new \<and> count_list (map msg_recver new) 9 = 1 \<and> count_list (map msg_recver new) 11 = 1 \<and>
     count_list (map msg_recver new) 8 = 0 \<and> arrived v' 4 = 1 \<and> arrived v' 2 = 1"
proof -
  let ?v = "Van_new example_env example_node"
  let ?msgs = "[example_request INSTANCE_BARRIER 9 4, example_request INSTANCE_BARRIER 8 2,
        example_request INSTANCE_BARRIER 11 4, example_request INSTANCE_BARRIER 9 4]"
  have v: "v_barrier_count ?v = []" "v_resender ?v = None" "v_sent ?v = []" "v_shared_node_mapping ?v = []"
    by (simp_all add: Van_new_def)
  have "\<forall>m\<in>set ?msgs. barrier_request example_po m"
    by (simp add: barrier_request_def example_request_def Message0_def example_members)
  from instance_barrier_rounds [OF _ this v(1,2), of "\<lambda>_. 1" 0] obtain v' new where r:
    "foldR (ProcessInstanceBarrierCommand (\<lambda>_. 1) 0) ?msgs (?v, example_po) = Inr (v', example_po)"
    "v_sent v' = new"
    "\<forall>r. count_list (map msg_recver new) r =
       (\<Sum>g\<in>{0..<8}. count_list (unshared ?v (members example_po g)) r *
          (requests_for g ?msgs div length (members example_po g)))"
    "\<forall>g. 0 \<le> g \<and> g < 8 \<and> members example_po g \<noteq> [] \<longrightarrow>
       arrived v' g = int (requests_for g ?msgs mod length (members example_po g))"
    by (auto simp: v)
  have k: "requests_for g ?msgs = (if g = 4 then 3 else if g = 2 then 1 else 0)" for g
    by (auto simp: requests_for_def example_request_def Message0_def)
  show ?thesis
    using r(1,2) r(3) [rule_format, of 9] r(3) [rule_format, of 11] r(3) [rule_format, of 8]
      r(4) [rule_format, of 4] r(4) [rule_format, of 2]
    by (auto simp: k eight_groups example_members unshared_def v numeral_2_eq_2 [symmetric])
qed

section \<open>Group barriers\<close>

definition pending :: "van \<Rightarrow> int \<Rightarrow> int list" where
  "pending v g = umap_index [] (v_group_barrier_requests v) g"

definition expected :: "postoffice \<Rightarrow> int \<Rightarrow> int" where
  "expected po g = num_expected_requests g (po_group_size po) (length (members po g))"

abbreviation msg_sender :: "message \<Rightarrow> int" where
  "msg_sender m \<equiv> m_sender (msg_meta m)"

lemma umap_index_find: "umap_index d m k = (case umap_find m k of None \<Rightarrow> d | Some v \<Rightarrow> v)"
  by (simp add: umap_index_def umap_find_def split: option.splits)

lemma group_barrier_step:
  assumes tx: "\<forall>m. tx m > 0" and m: "m_request (msg_meta m)" "members po (msg_group m) \<noteq> []"
    and gs: "po_group_size po \<noteq> 0" and v: "v_resender v = None"
  shows "\<exists>v' new. ProcessBarrierCommand tx t m (v, po) = Inr (v', po) \<and> v_resender v' = None \<and>
    v_shared_node_mapping v' = v_shared_node_mapping v \<and> v_sent v' = v_sent v @ new \<and>
    map msg_recver new = (if int (length (pending v (msg_group m))) + 1 = expected po (msg_group m)
       then unshared v (pending v (msg_group m) @ [msg_sender m]) else []) \<and>
    (\<forall>x\<in>set new. answers BARRIER m x) \<and>
    (\<forall>g. pending v' g = (if g = msg_group m then
       if int (length (pending v g)) + 1 = expected po g then [] else pending v g @ [msg_sender m]
       else pending v g))"
proof -
  let ?g = "msg_group m" and ?reqs = "pending v (msg_group m) @ [msg_sender m]"
  have ids: "GetNodeIDs po ?g = Inr (members po ?g)" using m(2) by (rule members_Inr)
  let ?v = "v\<lparr>v_group_barrier_requests := umap_set ?g ?reqs (v_group_barrier_requests v)\<rparr>"
  show ?thesis
  proof (cases "int (length (pending v ?g)) + 1 = expected po ?g")
    case False
    then have "ProcessBarrierCommand tx t m (v, po) = Inr (?v, po)"
      using m ids gs by (simp add: ProcessBarrierCommand_def Let_def pending_def expected_def add.commute)
    with False v show ?thesis
      by (intro exI [of _ ?v] exI [of _ "[]"]) (auto simp: pending_def)
  next
    case True
    have "v_resender ?v = None" using v by simp
    from send_unshared_log [of "Send_next_pos tx t" tx, OF Send_next_pos_plain [OF _ tx] this,
        of "barrier_response BARRIER m" ?reqs]
    obtain v' tss where s: "send_unshared (Send_next_pos tx t) (barrier_response BARRIER m) ?reqs ?v = Inr v'"
      "same_but_sent ?v v'" "length tss = length (unshared v ?reqs)"
      "v_sent v' = v_sent v @ map2 (\<lambda>r ts. stamped ts (addressed r (barrier_response BARRIER m))) (unshared v ?reqs) tss"
      by (auto simp: unshared_def)
    let ?new = "map2 (\<lambda>r ts. stamped ts (addressed r (barrier_response BARRIER m))) (unshared v ?reqs) tss"
    let ?v' = "v'\<lparr>v_group_barrier_requests := umap_set ?g [] (v_group_barrier_requests v')\<rparr>"
    have "ProcessBarrierCommand tx t m (v, po) = Inr (?v', po)"
      using m ids gs True s(1) by (simp add: ProcessBarrierCommand_def Let_def pending_def expected_def add.commute)
    moreover have "map msg_recver ?new = unshared v ?reqs"
      using s(3) by (auto simp: stamped_def addressed_def intro!: nth_equalityI)
    ultimately show ?thesis
      using True s v same_but_sent_fields [OF s(2)] answers_responses [of BARRIER m "unshared v ?reqs" tss]
      by (intro exI [of _ ?v'] exI [of _ ?new]) (auto simp: pending_def)
  qed
qed

text \<open>Who has asked for a group barrier, and the part of them whose rounds are complete.\<close>

definition senders_for :: "int \<Rightarrow> message list \<Rightarrow> int list" where
  "senders_for g msgs = map msg_sender (filter (\<lambda>m. msg_group m = g) msgs)"

definition completed :: "postoffice \<Rightarrow> int \<Rightarrow> message list \<Rightarrow> nat" where
  "completed po g msgs = nat (expected po g) * (length (senders_for g msgs) div nat (expected po g))"

lemma senders_for_snoc: "senders_for g (msgs @ [m]) = senders_for g msgs @ (if msg_group m = g then [msg_sender m] else [])"
  by (simp add: senders_for_def)

lemma take_drop_rounds:
  fixes e :: nat
  assumes "0 < e"
  shows "if length (drop (e * (length xs div e)) xs) + 1 = e
    then take (e * ((length xs + 1) div e)) (xs @ [s]) = take (e * (length xs div e)) xs @ drop (e * (length xs div e)) xs @ [s] \<and>
         drop (e * ((length xs + 1) div e)) (xs @ [s]) = []
    else take (e * ((length xs + 1) div e)) (xs @ [s]) = take (e * (length xs div e)) xs \<and>
         drop (e * ((length xs + 1) div e)) (xs @ [s]) = drop (e * (length xs div e)) xs @ [s]"
proof -
  let ?k = "length xs"
  have len: "length (drop (e * (?k div e)) xs) = ?k mod e"
    by (simp add: minus_mult_div_eq_mod)
  have le: "e * (?k div e) \<le> ?k" by (simp add: mult.commute)
  show ?thesis
  proof (cases "?k mod e + 1 = e")
    case True
    then have "e * ((?k + 1) div e) = ?k + 1"
      using Suc_div_mod_cases [OF assms, of ?k] mult_div_mod_eq [of e "?k + 1"] by simp
    with True len show ?thesis by simp
  next
    case False
    then have "(?k + 1) div e = ?k div e" using Suc_div_mod_cases [OF assms, of ?k] by simp
    with False len le show ?thesis by simp
  qed
qed

definition group_state :: "van \<Rightarrow> postoffice \<Rightarrow> message list \<Rightarrow> van \<Rightarrow> message list \<Rightarrow> bool" where
  "group_state v po msgs v' new \<longleftrightarrow> v_resender v' = None \<and>
     v_shared_node_mapping v' = v_shared_node_mapping v \<and> v_sent v' = v_sent v @ new \<and>
     (\<forall>g. 0 \<le> g \<and> g < 8 \<and> 0 < expected po g \<longrightarrow> pending v' g = drop (completed po g msgs) (senders_for g msgs)) \<and>
     (\<forall>x\<in>set new. \<exists>q\<in>set msgs. answers BARRIER q x \<and> msg_recver x \<in> set (senders_for (msg_group q) msgs)) \<and>
     (\<forall>r. count_list (map msg_recver new) r =
        (\<Sum>g\<in>{0..<8}. count_list (unshared v (take (completed po g msgs) (senders_for g msgs))) r))"

definition group_request :: "postoffice \<Rightarrow> message \<Rightarrow> bool" where
  "group_request po m \<longleftrightarrow> m_request (msg_meta m) \<and> 0 \<le> msg_group m \<and> msg_group m < 8 \<and>
     members po (msg_group m) \<noteq> [] \<and> 0 < expected po (msg_group m)"

lemma group_state_step:
  assumes tx: "\<forall>m. tx m > 0" and m: "group_request po m" and gs: "po_group_size po \<noteq> 0"
    and inv: "group_state v po msgs v1 new1"
  shows "\<exists>v2 new2. ProcessBarrierCommand tx t m (v1, po) = Inr (v2, po) \<and> group_state v po (msgs @ [m]) v2 new2"
proof -
  let ?g = "msg_group m" and ?e = "nat (expected po (msg_group m))" and ?xs = "senders_for (msg_group m) msgs"
  have g: "0 \<le> ?g" "?g < 8" "members po ?g \<noteq> []" "0 < expected po ?g" "m_request (msg_meta m)"
    using m by (auto simp: group_request_def)
  have wf: "v_resender v1 = None" using inv by (simp add: group_state_def)
  from group_barrier_step [OF tx g(5,3) gs wf, of t] obtain v2 new where s:
    "ProcessBarrierCommand tx t m (v1, po) = Inr (v2, po)" "v_resender v2 = None"
    "v_shared_node_mapping v2 = v_shared_node_mapping v1" "v_sent v2 = v_sent v1 @ new"
    "map msg_recver new = (if int (length (pending v1 ?g)) + 1 = expected po ?g
       then unshared v1 (pending v1 ?g @ [msg_sender m]) else [])"
    "\<forall>x\<in>set new. answers BARRIER m x"
    "\<forall>g. pending v2 g = (if g = ?g then
       if int (length (pending v1 g)) + 1 = expected po g then [] else pending v1 g @ [msg_sender m] else pending v1 g)"
    by blast
  have pend: "pending v1 ?g = drop (completed po ?g msgs) ?xs" using inv g by (simp add: group_state_def)
  have full: "int (length (pending v1 ?g)) + 1 = expected po ?g \<longleftrightarrow> length (pending v1 ?g) + 1 = ?e"
    using g(4) by linarith
  have c1: "completed po ?g msgs = ?e * (length ?xs div ?e)"
    and c2: "completed po ?g (msgs @ [m]) = ?e * ((length ?xs + 1) div ?e)"
    by (simp_all add: completed_def senders_for_snoc)
  have td: "if length (pending v1 ?g) + 1 = ?e
    then take (completed po ?g (msgs @ [m])) (?xs @ [msg_sender m]) = take (completed po ?g msgs) ?xs @ pending v1 ?g @ [msg_sender m] \<and>
         drop (completed po ?g (msgs @ [m])) (?xs @ [msg_sender m]) = []
    else take (completed po ?g (msgs @ [m])) (?xs @ [msg_sender m]) = take (completed po ?g msgs) ?xs \<and>
         drop (completed po ?g (msgs @ [m])) (?xs @ [msg_sender m]) = pending v1 ?g @ [msg_sender m]"
    unfolding pend c2 c1 by (rule take_drop_rounds) (use g(4) in simp)
  have snoc: "senders_for ?g (msgs @ [m]) = ?xs @ [msg_sender m]" by (simp add: senders_for_snoc)
  have tk: "take (completed po ?g (msgs @ [m])) (senders_for ?g (msgs @ [m])) = take (completed po ?g msgs) ?xs @
      (if length (pending v1 ?g) + 1 = ?e then pending v1 ?g @ [msg_sender m] else [])"
    using td unfolding snoc by (cases "length (pending v1 ?g) + 1 = ?e") (simp_all only: simp_thms if_True if_False append_Nil2)
  have same: "completed po x (msgs @ [m]) = completed po x msgs" if "x \<noteq> ?g" for x
    using that by (simp add: completed_def senders_for_snoc)
  have pend2: "pending v2 x = drop (completed po x (msgs @ [m])) (senders_for x (msgs @ [m]))"
    if x: "0 \<le> x" "x < 8" "0 < expected po x" for x
  proof (cases "x = ?g")
    case True
    with s(7) td full show ?thesis by (auto simp: senders_for_snoc split: if_splits)
  next
    case False
    with s(7) inv x same [OF False] show ?thesis by (simp add: group_state_def senders_for_snoc)
  qed
  have "count_list (map msg_recver (new1 @ new)) r =
      (\<Sum>g\<in>{0..<8}. count_list (unshared v (take (completed po g (msgs @ [m])) (senders_for g (msgs @ [m])))) r)" for r
  proof -
    have "(\<Sum>g\<in>{0..<8}. count_list (unshared v (take (completed po g (msgs @ [m])) (senders_for g (msgs @ [m])))) r) =
        (\<Sum>g\<in>{0..<8}. count_list (unshared v (take (completed po g msgs) (senders_for g msgs))) r) +
        count_list (map msg_recver new) r"
    proof (rule sum_update_one)
      show "count_list (unshared v (take (completed po ?g (msgs @ [m])) (senders_for ?g (msgs @ [m])))) r =
          count_list (unshared v (take (completed po ?g msgs) ?xs)) r + count_list (map msg_recver new) r"
        using s(5) inv by (simp add: tk full unshared_def group_state_def)
    qed (use g same in \<open>auto simp: senders_for_snoc\<close>)
    then show ?thesis using inv by (simp add: group_state_def)
  qed
  moreover have "msg_recver x \<in> set (senders_for ?g (msgs @ [m]))" if "x \<in> set new" for x
  proof -
    have "msg_recver x \<in> set (map msg_recver new)" using that by simp
    then show ?thesis unfolding s(5) pend snoc by (auto simp: unshared_def dest: in_set_dropD split: if_splits)
  qed
  moreover have "msg_recver x \<in> set (senders_for (msg_group q) (msgs @ [m]))" if "msg_recver x \<in> set (senders_for (msg_group q) msgs)" for x q
    using that by (simp add: senders_for_snoc)
  ultimately have "group_state v po (msgs @ [m]) v2 (new1 @ new)"
    using s(2-4,6) inv pend2 by (simp add: group_state_def ball_Un) blast
  with s(1) show ?thesis by blast
qed

lemma group_state_run:
  assumes tx: "\<forall>m. tx m > 0" and "\<forall>m\<in>set msgs. group_request po m" and gs: "po_group_size po \<noteq> 0"
    and "v_group_barrier_requests v = []" and "v_resender v = None"
  shows "\<exists>v' new. foldR (ProcessBarrierCommand tx t) msgs (v, po) = Inr (v', po) \<and> group_state v po msgs v' new"
  using assms(2)
proof (induction msgs rule: rev_induct)
  case Nil
  show ?case
    using assms(4,5) by (intro exI [of _ v] exI [of _ "[]"])
      (simp add: group_state_def pending_def umap_index_find senders_for_def unshared_def)
next
  case (snoc m msgs)
  then obtain v1 new1 where run: "foldR (ProcessBarrierCommand tx t) msgs (v, po) = Inr (v1, po)"
    and inv: "group_state v po msgs v1 new1" by auto
  have "group_request po m" using snoc.prems by simp
  from group_state_step [OF tx this gs inv, of t] run show ?case by (auto simp: foldR_append)
qed

text \<open>
  C11: group barriers.  Whatever the interleaving of requests for several groups, the scheduler
  answers the requesters themselves, each as often as it has asked within the completed rounds
  of its group, where a round of a group is \<^verbatim>\<open>num_expected_requests\<close> requests, counted whoever sends
  them.  Each answer is an empty response with the command of the barrier and the application and
  customer of a request for a group that its receiver asked for.  The requesters of the unfinished
  round, in order, are kept and have not been answered for it.
\<close>

theorem group_barrier_rounds:
  assumes "\<forall>m. tx m > 0" and "\<forall>m\<in>set msgs. group_request po m" and "po_group_size po \<noteq> 0"
    and "v_group_barrier_requests v = []" and "v_resender v = None"
  shows "\<exists>v' new. foldR (ProcessBarrierCommand tx t) msgs (v, po) = Inr (v', po) \<and>
    v_sent v' = v_sent v @ new \<and>
    (\<forall>r. count_list (map msg_recver new) r =
       (\<Sum>g\<in>{0..<8}. count_list (unshared v (take (completed po g msgs) (senders_for g msgs))) r)) \<and>
    (\<forall>x\<in>set new. \<exists>q\<in>set msgs. answers BARRIER q x \<and> msg_recver x \<in> set (senders_for (msg_group q) msgs)) \<and>
    (\<forall>g. 0 \<le> g \<and> g < 8 \<and> 0 < expected po g \<longrightarrow>
       pending v' g = drop (completed po g msgs) (senders_for g msgs))"
  using group_state_run [OF assms, of t] by (auto simp: group_state_def)

theorem group_barrier_rounds_witness:
  "\<exists>v' new. foldR (ProcessBarrierCommand (\<lambda>_. 1) 0)
       [example_request BARRIER 10 2, example_request BARRIER 9 4, example_request BARRIER 12 2,
        example_request BARRIER 8 2] (Van_new example_env example_node, example_po) = Inr (v', example_po) \<and>
     v_sent v' = new \<and> count_list (map msg_recver new) 10 = 1 \<and> count_list (map msg_recver new) 12 = 1 \<and>
     count_list (map msg_recver new) 9 = 1 \<and> count_list (map msg_recver new) 8 = 0 \<and> pending v' 2 = [8]"
proof -
  let ?v = "Van_new example_env example_node"
  let ?msgs = "[example_request BARRIER 10 2, example_request BARRIER 9 4, example_request BARRIER 12 2, example_request BARRIER 8 2]"
  have v: "v_group_barrier_requests ?v = []" "v_resender ?v = None" "v_sent ?v = []" "v_shared_node_mapping ?v = []"
    by (simp_all add: Van_new_def)
  have e: "expected example_po 2 = 2" "expected example_po 4 = 1"
    by (simp_all add: expected_def num_expected_requests_def example_members example_po_sizes kScheduler_def signed_divide_int_def)
  have "\<forall>m\<in>set ?msgs. group_request example_po m"
    by (simp add: group_request_def example_request_def Message0_def example_members e)
  from group_barrier_rounds [OF _ this _ v(1,2), of "\<lambda>_. 1" 0] obtain v' new where r:
    "foldR (ProcessBarrierCommand (\<lambda>_. 1) 0) ?msgs (?v, example_po) = Inr (v', example_po)" "v_sent v' = new"
    "\<forall>r. count_list (map msg_recver new) r =
       (\<Sum>g\<in>{0..<8}. count_list (unshared ?v (take (completed example_po g ?msgs) (senders_for g ?msgs))) r)"
    "\<forall>g. 0 \<le> g \<and> g < 8 \<and> 0 < expected example_po g \<longrightarrow> pending v' g = drop (completed example_po g ?msgs) (senders_for g ?msgs)"
    by (auto simp: v example_po_sizes)
  have k: "senders_for g ?msgs = (if g = 2 then [10, 12, 8] else if g = 4 then [9] else [])" for g
    by (auto simp: senders_for_def example_request_def Message0_def)
  have c: "completed example_po 2 ?msgs = 2" "completed example_po 4 ?msgs = 1"
    by (simp_all only: completed_def k e) simp_all
  show ?thesis
    using r(1,2) r(3) [rule_format, of 10] r(3) [rule_format, of 12] r(3) [rule_format, of 9]
      r(3) [rule_format, of 8] r(4) [rule_format, of 2]
    by (auto simp: k c e eight_groups unshared_def v)
qed

text \<open>
  what a group barrier waits for.  After \<^verbatim>\<open>Start\<close> with at least one worker and one server, the
  number of expected requests of every combination of the groups is the number of worker
  groups and server groups in it, plus one for the scheduler, whatever the group size: one
  request per instance group.
\<close>

theorem expected_is_number_of_groups:
  assumes "node_ids_ready po" and "0 < po_num_workers po" and "0 < po_num_servers po" and "0 < po_group_size po"
  shows "expected po kScheduler = 1 \<and>
    expected po kWorkerGroup = po_num_workers po \<and> expected po kServerGroup = po_num_servers po \<and>
    expected po (kWorkerGroup + kServerGroup) = po_num_workers po + po_num_servers po \<and>
    expected po (kWorkerGroup + kScheduler) = po_num_workers po + 1 \<and>
    expected po (kServerGroup + kScheduler) = po_num_servers po + 1 \<and>
    expected po (kWorkerGroup + kServerGroup + kScheduler) = po_num_workers po + po_num_servers po + 1"
proof -
  have w: "int (nat (num_worker_instances po)) = po_num_workers po * po_group_size po" "0 < num_worker_instances po"
    and s: "int (nat (num_server_instances po)) = po_num_servers po * po_group_size po" "0 < num_server_instances po"
    using assms(2-4) by (simp_all add: num_worker_instances_def num_server_instances_def)
  have d: "(a * g) sdiv g = a" if "0 < g" "0 < a" for a g :: int
    using that by (simp add: signed_divide_int_def sgn_mult)
  have dw: "(po_num_workers po * po_group_size po + po_num_servers po * po_group_size po) sdiv po_group_size po =
      po_num_workers po + po_num_servers po"
    using d [of "po_group_size po" "po_num_workers po + po_num_servers po"] assms(2-4) by (simp add: algebra_simps)
  show ?thesis
    unfolding expected_def members_def GetNodeIDs_ready [OF assms(1)] node_id_entry_groups
    using w s assms(2-4) d dw
    by (simp add: num_expected_requests_def group_defs num_worker_instances_def num_server_instances_def
        not_le zero_less_mult_iff)
qed

theorem expected_is_number_of_groups_witness:
  "expected example_po kServerGroup = 2 \<and> expected example_po (kWorkerGroup + kServerGroup + kScheduler) = 4"
proof -
  have "po_num_workers example_po = 1"
    using example_po_sizes by (simp add: num_worker_instances_def)
  then show ?thesis
    using expected_is_number_of_groups [OF example_po_ready] by (simp add: example_po_sizes)
qed

end
