(* ===== verification/Membership.thy ===== *)
theory Membership
  imports Van
begin

text \<open>
  How nodes get their ids (\<^verbatim>\<open>ProcessAddNodeCommandAtScheduler\<close>, \<^verbatim>\<open>UpdateLocalID\<close> and
  \<^verbatim>\<open>ProcessAddNodeCommand\<close> in \<^verbatim>\<open>src/van.cc\<close>), how a restarted node takes over the id of a dead one,
  and how heartbeats and data messages are handled.
\<close>

section \<open>The assignment loop\<close>

text \<open>The ids the loop gives out, by preferred rank or counting servers and workers.\<close>

fun ranked :: "bool \<Rightarrow> int \<Rightarrow> int \<Rightarrow> node list \<Rightarrow> node list" where
  "ranked pref s w [] = []"
| "ranked pref s w (n # ns) =
     (if n_role n = SERVER
      then n\<lparr>n_id := ServerRankToID (if pref then n_aux_id n else s)\<rparr> # ranked pref (s + 1) w ns
      else n\<lparr>n_id := WorkerRankToID (if pref then n_aux_id n else w)\<rparr> # ranked pref s (w + 1) ns)"

definition joinable :: "node \<Rightarrow> bool" where
  "joinable n \<longleftrightarrow> n_id n = kEmpty \<and> n_role n \<in> {SERVER, WORKER}"

abbreviation servers_in :: "node list \<Rightarrow> node list" where
  "servers_in ns \<equiv> filter (\<lambda>n. n_role n = SERVER) ns"

abbreviation workers_in :: "node list \<Rightarrow> node list" where
  "workers_in ns \<equiv> filter (\<lambda>n. n_role n = WORKER) ns"

lemma node_addr_id [simp]: "node_addr (n\<lparr>n_id := i\<rparr>) = node_addr n"
  by (simp add: node_addr_def)

definition after_assign :: "node list \<Rightarrow> node list \<Rightarrow> van \<Rightarrow> van" where
  "after_assign ns ns' v = v
     \<lparr>v_connects := v_connects v @ ns',
      v_connected_nodes := fold (\<lambda>n. umap_set (node_addr n) (n_id n)) ns' (v_connected_nodes v),
      v_num_servers := v_num_servers v + int (length (servers_in ns)),
      v_num_workers := v_num_workers v + int (length (workers_in ns))\<rparr>"

lemma assign_loop:
  assumes "\<forall>n\<in>set ns. joinable n" and "distinct (map node_addr ns)"
    and "\<forall>n\<in>set ns. umap_find (v_connected_nodes v) (node_addr n) = None"
  shows "mapfoldR (assign_node t pref) ns (v, po) =
    (let ns' = ranked pref (v_num_servers v) (v_num_workers v) ns
     in Inr (ns', after_assign ns ns' v, fold (\<lambda>n. UpdateHeartbeat (n_id n) t) ns' po))"
  using assms
proof (induction ns arbitrary: v po)
  case Nil
  then show ?case by (simp add: after_assign_def)
next
  case (Cons n ns)
  let ?i = "if n_role n = SERVER then ServerRankToID (if pref then n_aux_id n else v_num_servers v)
            else WorkerRankToID (if pref then n_aux_id n else v_num_workers v)"
  let ?n = "n\<lparr>n_id := ?i\<rparr>"
  let ?v = "v\<lparr>v_connects := v_connects v @ [?n],
      v_connected_nodes := umap_set (node_addr n) ?i (v_connected_nodes v),
      v_num_servers := v_num_servers v + (if n_role n = SERVER then 1 else 0),
      v_num_workers := v_num_workers v + (if n_role n = WORKER then 1 else 0)\<rparr>"
  have n: "joinable n" "umap_find (v_connected_nodes v) (node_addr n) = None" using Cons.prems by auto
  have step: "assign_node t pref n (v, po) = Inr (?n, ?v, UpdateHeartbeat ?i t po)"
    using n by (cases "n_role n") (simp_all add: assign_node_def Let_def joinable_def Connect_def)
  have "\<forall>m\<in>set ns. umap_find (v_connected_nodes ?v) (node_addr m) = None"
    using Cons.prems by (auto simp: image_iff)
  with Cons.IH [of ?v] Cons.prems
  have ih: "mapfoldR (assign_node t pref) ns (?v, UpdateHeartbeat ?i t po) =
    (let ns' = ranked pref (v_num_servers ?v) (v_num_workers ?v) ns
     in Inr (ns', after_assign ns ns' ?v, fold (\<lambda>n. UpdateHeartbeat (n_id n) t) ns' (UpdateHeartbeat ?i t po)))"
    by simp
  show ?case
    using n step ih by (cases "n_role n") (simp_all add: joinable_def Let_def after_assign_def)
qed

section \<open>The own description\<close>

text \<open>The own description after a list of nodes has been looked through.\<close>

definition recognise :: "environment \<Rightarrow> node \<Rightarrow> node \<Rightarrow> node" where
  "recognise e n me = (if n_hostname me = n_hostname n \<and> n_port me = n_port n \<and>
     (env_sys e ''DMLC_RANK'' = None \<or> n_id me = kEmpty) then n else me)"

lemma update_my_id_eq: "update_my_id e ns v = v\<lparr>v_my_node := fold (recognise e) ns (v_my_node v)\<rparr>"
proof (induction ns arbitrary: v)
  case Nil
  show ?case by (simp add: update_my_id_def)
next
  case (Cons m ns)
  have "update_my_id e (m # ns) v = update_my_id e ns (v\<lparr>v_my_node := recognise e m (v_my_node v)\<rparr>)"
    by (simp add: update_my_id_def recognise_def SetNode_def)
  then show ?case by (simp add: Cons.IH)
qed

lemma update_my_id_form: "\<exists>n. update_my_id e ns v = v\<lparr>v_my_node := n\<rparr>"
  by (blast intro: update_my_id_eq)

definition same_place :: "node \<Rightarrow> node \<Rightarrow> bool" where
  "same_place a b \<longleftrightarrow> n_hostname a = n_hostname b \<and> n_port a = n_port b"

section \<open>Which ids are given out\<close>

lemma ranked_props:
  "length (ranked pref s w ns) = length ns"
  "map n_role (ranked pref s w ns) = map n_role ns"
  "map node_addr (ranked pref s w ns) = map node_addr ns"
  "map n_aux_id (ranked pref s w ns) = map n_aux_id ns"
  by (induction ns arbitrary: s w) simp_all

lemma ranked_server_ids:
  "map n_id (servers_in (ranked False s w ns)) = map (\<lambda>i. ServerRankToID (s + int i)) [0..<length (servers_in ns)]"
proof (induction ns arbitrary: s w)
  case (Cons n ns)
  have "map (\<lambda>i. ServerRankToID (s + 1 + int i)) [0..<k] = map (\<lambda>i. ServerRankToID (s + int i)) [1..<Suc k]" for k
    by (simp add: map_Suc_upt [symmetric] add.assoc del: upt_Suc)
  then show ?case
    using Cons.IH by (simp add: upt_conv_Cons [of 0 "Suc _"] del: upt_Suc)
qed simp

lemma ranked_worker_ids:
  assumes "\<forall>n\<in>set ns. joinable n"
  shows "map n_id (workers_in (ranked False s w ns)) = map (\<lambda>i. WorkerRankToID (w + int i)) [0..<length (workers_in ns)]"
  using assms
proof (induction ns arbitrary: s w)
  case (Cons n ns)
  have "map (\<lambda>i. WorkerRankToID (w + 1 + int i)) [0..<k] = map (\<lambda>i. WorkerRankToID (w + int i)) [1..<Suc k]" for k
    by (simp add: map_Suc_upt [symmetric] add.assoc del: upt_Suc)
  then show ?case
    using Cons by (auto simp: joinable_def upt_conv_Cons [of 0 "Suc _"] simp del: upt_Suc)
qed simp

lemma distinct_map_split:
  assumes "distinct (map f (filter P xs))" and "distinct (map f (filter Q xs))"
    and "f ` set (filter P xs) \<inter> f ` set (filter Q xs) = {}" and "\<forall>x\<in>set xs. P x \<or> Q x"
  shows "distinct (map f xs)"
  using assms
proof (induction xs)
  case (Cons x xs)
  have "distinct (map f xs)"
    using Cons by (auto split: if_splits)
  moreover have "f x \<notin> f ` set xs"
  proof
    assume "f x \<in> f ` set xs"
    then obtain y where y: "y \<in> set xs" "f y = f x" by auto
    then have "P y \<or> Q y" "P x \<or> Q x" using Cons.prems(4) by auto
    with y Cons.prems(1-3) show False by (auto simp: image_iff split: if_splits)
  qed
  ultimately show ?case by simp
qed simp

lemma joinable_roles: "\<forall>n\<in>set ns. joinable n \<Longrightarrow> \<forall>n\<in>set (ranked pref s w ns). n_role n = SERVER \<or> n_role n = WORKER"
  by (induction ns arbitrary: s w) (auto simp: joinable_def)

lemma distinct_ids:
  assumes "\<forall>n\<in>set ns. n_role n = SERVER \<or> n_role n = WORKER"
    and "map n_id (servers_in ns) = map (\<lambda>i. ServerRankToID (int i)) xs" and "distinct xs"
    and "map n_id (workers_in ns) = map (\<lambda>i. WorkerRankToID (int i)) ys" and "distinct ys"
  shows "distinct (map n_id ns)"
proof (rule distinct_map_split)
  show "distinct (map n_id (servers_in ns))" "distinct (map n_id (workers_in ns))"
    unfolding assms(2,4) using assms(3,5) by (auto simp: distinct_map inj_on_def ServerRankToID_def WorkerRankToID_def)
  have "n_id ` set (servers_in ns) = (\<lambda>i. ServerRankToID (int i)) ` set xs"
    "n_id ` set (workers_in ns) = (\<lambda>i. WorkerRankToID (int i)) ` set ys"
    using assms(2,4) by (metis set_map)+
  then show "n_id ` set (servers_in ns) \<inter> n_id ` set (workers_in ns) = {}"
    by (auto simp: ServerRankToID_def WorkerRankToID_def, presburger)
qed (use assms(1) in auto)

lemma with_preferred_rank_iff: "with_preferred_rank ns \<longleftrightarrow> (\<exists>n\<in>set ns. n_aux_id n \<noteq> -1)"
proof -
  have "fold (\<lambda>n b. if n_aux_id n \<noteq> -1 then True else b) ns b \<longleftrightarrow> b \<or> (\<exists>n\<in>set ns. n_aux_id n \<noteq> -1)" for b
    by (induction ns arbitrary: b) auto
  then show ?thesis by (simp add: with_preferred_rank_def)
qed

lemma GetNodeIDs_heartbeats [simp]: "GetNodeIDs (fold (\<lambda>n. UpdateHeartbeat (n_id n) t) ns po) g = GetNodeIDs po g"
  by (induction ns arbitrary: po) (simp_all add: UpdateHeartbeat_def GetNodeIDs_def)

text \<open>A van that has not given out any id.\<close>

definition van_fresh :: "van \<Rightarrow> bool" where
  "van_fresh v \<longleftrightarrow> v_num_servers v = 0 \<and> v_num_workers v = 0 \<and> v_connected_nodes v = [] \<and>
     v_shared_node_mapping v = [] \<and> v_resender v = None"

text \<open>The joining nodes: each from its own address, as many as the system has instances.\<close>

definition complete_join :: "postoffice \<Rightarrow> node list \<Rightarrow> bool" where
  "complete_join po ns \<longleftrightarrow> (\<forall>n\<in>set ns. joinable n) \<and> distinct (map node_addr ns) \<and>
     length (servers_in ns) = nat (num_server_instances po) \<and> length (workers_in ns) = nat (num_worker_instances po) \<and>
     0 < num_server_instances po \<and> 0 < num_worker_instances po"

lemma complete_join_mset:
  assumes "mset ns' = mset ns"
  shows "complete_join po ns' = complete_join po ns"
proof -
  have "set ns' = set ns" using assms by (metis set_mset_mset)
  moreover have "distinct (map node_addr ns') = distinct (map node_addr ns)"
    using assms by (metis mset_map mset_eq_imp_distinct_iff)
  moreover have "length (filter P ns') = length (filter P ns)" for P
    using assms by (metis mset_filter size_mset)
  ultimately show ?thesis by (simp add: complete_join_def)
qed

lemma complete_join_length:
  assumes "complete_join po ns"
  shows "int (length ns) = num_server_instances po + num_worker_instances po"
proof -
  have "\<forall>n\<in>set ns. n_role n = SERVER \<or> n_role n = WORKER" using assms by (auto simp: complete_join_def joinable_def)
  then have "length ns = length (servers_in ns) + length (workers_in ns)" by (induction ns) auto
  then show ?thesis using assms by (simp add: complete_join_def)
qed

lemma scheduler_full_run:
  assumes order: "order_nodes e (meta_nodes nodes) = Inr ns" and join: "complete_join po (meta_nodes nodes)"
    and ranks: "with_preferred_rank ns \<Longrightarrow> check_ranks po ns = Inr ()"
    and ready: "node_ids_ready po" and fresh: "van_fresh v" and tx: "\<forall>m. tx m \<noteq> -1"
  shows "\<exists>v' po' new. scheduler_full tx e t nodes (v, po) =
      Inr (set_meta_cmd ADD_NODE (set_meta_nodes (ranked (with_preferred_rank ns) 0 0 ns @ [v_my_node v]) nodes), v', po') \<and>
    v_ready v' \<and> v_connects v' = v_connects v @ ranked (with_preferred_rank ns) 0 0 ns \<and>
    v_sent v' = v_sent v @ new \<and> map (\<lambda>m. m_recver (msg_meta m)) new = worker_ids po @ server_ids po \<and>
    (\<forall>m\<in>set new. m_control (msg_meta m) = m_control
       (set_meta_cmd ADD_NODE (set_meta_nodes (ranked (with_preferred_rank ns) 0 0 ns @ [v_my_node v]) nodes)))"
proof -
  let ?p = "with_preferred_rank ns"
  let ?ns = "ranked ?p 0 0 ns" and ?po = "fold (\<lambda>n. UpdateHeartbeat (n_id n) t) (ranked ?p 0 0 ns) po"
  let ?v = "after_assign ns ?ns v"
  let ?nodes = "set_meta_cmd ADD_NODE (set_meta_nodes (?ns @ [v_my_node v]) nodes)"
  have "complete_join po ns" using complete_join_mset [OF order_nodes_mset [OF order]] join by simp
  then have loop: "mapfoldR (assign_node t ?p) ns (v, po) = Inr (?ns, ?v, ?po)"
    using assign_loop [of ns v t ?p po] fresh by (simp add: complete_join_def van_fresh_def Let_def)
  have ids: "GetNodeIDs ?po (kWorkerGroup + kServerGroup) = Inr (worker_ids po @ server_ids po)"
    using ready join by (simp add: GetNodeIDs_ready node_id_entry_groups complete_join_def)
  have "v_resender ?v = None" using fresh by (simp add: after_assign_def van_fresh_def)
  from send_unshared_log [of "Send_next tx t" tx, OF Send_next_plain [OF _ tx] this,
      of "\<lparr>msg_meta = ?nodes, msg_data = []\<rparr>" "worker_ids po @ server_ids po"]
  obtain v' tss where s: "send_unshared (Send_next tx t) \<lparr>msg_meta = ?nodes, msg_data = []\<rparr> (worker_ids po @ server_ids po) ?v = Inr v'"
    "same_but_sent ?v v'" "length tss = length (worker_ids po @ server_ids po)"
    "v_sent v' = v_sent v @ map2 (\<lambda>r ts. stamped ts (addressed r \<lparr>msg_meta = ?nodes, msg_data = []\<rparr>)) (worker_ids po @ server_ids po) tss"
    using fresh by (auto simp: after_assign_def van_fresh_def)
  let ?new = "map2 (\<lambda>r ts. stamped ts (addressed r \<lparr>msg_meta = ?nodes, msg_data = []\<rparr>)) (worker_ids po @ server_ids po) tss"
  have my: "v_my_node ?v = v_my_node v" by (simp add: after_assign_def)
  have "scheduler_full tx e t nodes (v, po) = Inr (?nodes, v'\<lparr>v_ready := True\<rparr>, ?po)"
    using order ranks loop ids s(1) my by (simp add: scheduler_full_def Let_def)
  moreover have "map (\<lambda>m. m_recver (msg_meta m)) ?new = worker_ids po @ server_ids po"
    using s(3) by (auto simp: stamped_def addressed_def intro!: nth_equalityI)
  moreover have "\<forall>m\<in>set ?new. m_control (msg_meta m) = m_control ?nodes"
    by (auto simp: stamped_def addressed_def)
  moreover have "v_connects v' = v_connects v @ ?ns"
    using same_but_sent_fields(9) [OF s(2)] by (simp add: after_assign_def)
  ultimately show ?thesis using s(4) by (intro exI [of _ "v'\<lparr>v_ready := True\<rparr>"] exI [of _ ?po] exI [of _ ?new]) simp
qed

section \<open>Registration\<close>

text \<open>The last registration completes the list; without preferred ranks the ids are counted.\<close>

lemma scheduler_full_ranks:
  assumes order: "order_nodes e (meta_nodes nodes) = Inr ns" and join: "complete_join po (meta_nodes nodes)"
    and no_pref: "\<forall>n\<in>set (meta_nodes nodes). n_aux_id n = -1"
    and ready: "node_ids_ready po" and fresh: "van_fresh v" and tx: "\<forall>m. tx m \<noteq> -1"
  shows "\<exists>ns' v' po' new nodes'. scheduler_full tx e t nodes (v, po) = Inr (nodes', v', po') \<and> v_ready v' \<and>
    meta_nodes nodes' = ns' @ [v_my_node v] \<and>
    map node_addr ns' = map node_addr ns \<and> map n_role ns' = map n_role ns \<and>
    map n_id (servers_in ns') = server_ids po \<and> map n_id (workers_in ns') = worker_ids po \<and>
    distinct (map n_id ns') \<and> v_connects v' = v_connects v @ ns' \<and>
    v_sent v' = v_sent v @ new \<and> map (\<lambda>m. m_recver (msg_meta m)) new = worker_ids po @ server_ids po \<and>
    (\<forall>m\<in>set new. msg_cmd m = ADD_NODE \<and> meta_nodes (msg_meta m) = ns' @ [v_my_node v])"
proof -
  have mset: "mset ns = mset (meta_nodes nodes)" by (rule order_nodes_mset [OF order])
  then have set: "set ns = set (meta_nodes nodes)" by (metis set_mset_mset)
  have pref: "\<not> with_preferred_rank ns" using no_pref set by (auto simp: with_preferred_rank_iff)
  have cj: "complete_join po ns" using complete_join_mset [OF mset] join by simp
  let ?ns = "ranked False 0 0 ns"
  have j: "\<forall>n\<in>set ns. joinable n" using cj by (simp add: complete_join_def)
  have s: "map n_id (servers_in ?ns) = server_ids po" and w: "map n_id (workers_in ?ns) = worker_ids po"
    using ranked_server_ids [of 0 0 ns] ranked_worker_ids [OF j, of 0 0] cj by (simp_all add: complete_join_def)
  have "distinct (map n_id ?ns)"
    by (rule distinct_ids [OF joinable_roles [OF j] s _ w]) simp_all
  with scheduler_full_run [OF order join _ ready fresh tx, of t] pref s w ranked_props [of False 0 0 ns]
  show ?thesis
    by (fastforce simp: set_meta_cmd_def set_meta_nodes_def)
qed

text \<open>
  The registrations at a scheduler: one node each, from a sender without an id.  The receiving thread
  handles them one after another, at the given times, with its two metadata objects.
\<close>

definition registration :: "node \<Rightarrow> int \<times> message \<Rightarrow> bool" where
  "registration n = (\<lambda>(t, msg). m_sender (msg_meta msg) = kEmpty \<and> meta_nodes (msg_meta msg) = [n])"

definition process_registrations ::
  "(message \<Rightarrow> int) \<Rightarrow> environment \<Rightarrow> (int \<times> message) list \<Rightarrow> meta \<times> meta \<times> van \<times> postoffice \<Rightarrow>
     (meta \<times> meta \<times> van \<times> postoffice) res" where
  "process_registrations tx e = foldR (\<lambda>(t, msg) (nodes, rec, s). ProcessAddNodeCommand tx e t msg nodes rec s)"

definition starting_scheduler :: "van \<Rightarrow> node list \<Rightarrow> bool" where
  "starting_scheduler v ns \<longleftrightarrow> v_is_scheduler v \<and> \<not> v_ready v \<and> (\<forall>n\<in>set ns. \<not> same_place (v_my_node v) n)"

lemma set_meta_nodes_simps [simp]:
  "meta_nodes (set_meta_nodes ns m) = ns" "set_meta_nodes ns (set_meta_nodes ns' m) = set_meta_nodes ns m"
  "meta_nodes (set_meta_cmd c m) = meta_nodes m"
  by (simp_all add: set_meta_nodes_def set_meta_cmd_def)

lemma register_step:
  assumes "registration n (t, msg)" and "starting_scheduler v [n]"
    and "int (length (meta_nodes nodes)) < num_server_instances po + num_worker_instances po"
  shows "ProcessAddNodeCommand tx e t msg nodes rec (v, po) =
    ProcessAddNodeCommandAtScheduler tx e t (set_meta_nodes (meta_nodes nodes @ [n]) nodes) rec (v, po)"
proof -
  have "recognise e n (v_my_node v) = v_my_node v"
    using assms(2) by (auto simp: starting_scheduler_def recognise_def same_place_def)
  then have "update_my_id e [n] v = v" by (simp add: update_my_id_eq)
  then show ?thesis
    using assms by (simp add: ProcessAddNodeCommand_def GetDeadNodes_def UpdateLocalID_def Let_def registration_def starting_scheduler_def)
qed

text \<open>Until the last one, a registration is only kept.\<close>

lemma register_early:
  assumes "list_all2 registration ns regs" and "starting_scheduler v ns" and "meta_nodes rec = []"
    and "int (length (meta_nodes nodes) + length ns) < num_server_instances po + num_worker_instances po"
  shows "\<exists>rec'. process_registrations tx e regs (nodes, rec, v, po) =
    Inr (set_meta_nodes (meta_nodes nodes @ ns) nodes, rec', v, po) \<and> meta_nodes rec' = []"
  using assms
proof (induction ns regs arbitrary: nodes rec)
  case Nil
  then show ?case by (simp add: process_registrations_def set_meta_nodes_def)
next
  case (Cons n ns reg regs)
  obtain t msg where reg: "reg = (t, msg)" by (cases reg)
  let ?nodes = "set_meta_nodes (meta_nodes nodes @ [n]) nodes" and ?rec = "set_meta_cmd ADD_NODE rec"
  have v: "starting_scheduler v [n]" "starting_scheduler v ns" using Cons.prems(1) by (simp_all add: starting_scheduler_def)
  have "ProcessAddNodeCommand tx e t msg nodes rec (v, po) = Inr (?nodes, ?rec, v, po)"
    using register_step [OF _ v(1), of t msg nodes po tx e rec] Cons.hyps(1) Cons.prems
    by (simp add: reg ProcessAddNodeCommandAtScheduler_def Let_def)
  moreover obtain rec' where "process_registrations tx e regs (?nodes, ?rec, v, po) =
      Inr (set_meta_nodes (meta_nodes ?nodes @ ns) ?nodes, rec', v, po)" "meta_nodes rec' = []"
    using Cons.IH [OF v(2), of ?rec ?nodes] Cons.prems by auto
  ultimately show ?case by (simp add: reg process_registrations_def)
qed

text \<open>
  C10: the scheduler's rank assignment.  The nodes of a cluster register one by one, in any order and
  at any times, from pairwise different addresses that are not the scheduler's, and without preferred
  ranks, at a scheduler that has just started and has no resender.  With the last registration the \<open>i\<close>-th
  server and the \<open>i\<close>-th worker in the sorted order get the ids of rank \<open>i\<close>; all ids are different and
  are exactly the ids of the id table.  The scheduler connects to each node, sends every id exactly one
  message with the complete list (its own description last), and is ready.
\<close>

theorem scheduler_assigns_ranks:
  assumes regs: "list_all2 registration joiners regs" and join: "complete_join po joiners"
    and order: "order_nodes e joiners = Inr ns" and no_pref: "\<forall>n\<in>set joiners. n_aux_id n = -1"
    and empty: "meta_nodes nodes = []" "meta_nodes rec = []"
    and ready: "node_ids_ready po" and v: "van_fresh v" "starting_scheduler v joiners" and tx: "\<forall>m. tx m \<noteq> -1"
  shows "\<exists>ns' v' po' new nodes' rec'. process_registrations tx e regs (nodes, rec, v, po) = Inr (nodes', rec', v', po') \<and>
    v_ready v' \<and> meta_nodes nodes' = ns' @ [v_my_node v] \<and>
    map node_addr ns' = map node_addr ns \<and> map n_role ns' = map n_role ns \<and>
    map n_id (servers_in ns') = server_ids po \<and> map n_id (workers_in ns') = worker_ids po \<and>
    distinct (map n_id ns') \<and> v_connects v' = v_connects v @ ns' \<and>
    v_sent v' = v_sent v @ new \<and> map (\<lambda>m. m_recver (msg_meta m)) new = worker_ids po @ server_ids po \<and>
    (\<forall>m\<in>set new. msg_cmd m = ADD_NODE \<and> meta_nodes (msg_meta m) = ns' @ [v_my_node v])"
proof -
  have len: "int (length joiners) = num_server_instances po + num_worker_instances po" by (rule complete_join_length [OF join])
  then have "joiners \<noteq> []" using join by (auto simp: complete_join_def)
  then obtain js n where joiners: "joiners = js @ [n]" by (metis rev_exhaust)
  then obtain regs1 t msg where split: "regs = regs1 @ [(t, msg)]" "list_all2 registration js regs1" "registration n (t, msg)"
    using regs by (auto simp: list_all2_append1 list_all2_Cons1)
  have vs: "starting_scheduler v js" "starting_scheduler v [n]" using v(2) by (auto simp: starting_scheduler_def joiners)
  obtain rec1 where early: "process_registrations tx e regs1 (nodes, rec, v, po) = Inr (set_meta_nodes js nodes, rec1, v, po)"
    using register_early [OF split(2) vs(1) empty(2), of nodes po tx e] len empty(1) by (auto simp: joiners)
  let ?nodes = "set_meta_nodes joiners nodes"
  have step: "process_registrations tx e regs (nodes, rec, v, po) = ProcessAddNodeCommandAtScheduler tx e t ?nodes rec1 (v, po)"
    using early register_step [OF split(3) vs(2), of "set_meta_nodes js nodes" po tx e rec1] len
    by (cases "ProcessAddNodeCommandAtScheduler tx e t ?nodes rec1 (v, po)")
      (simp_all add: split(1) process_registrations_def foldR_append joiners)
  have at: "order_nodes e (meta_nodes ?nodes) = Inr ns" "complete_join po (meta_nodes ?nodes)"
    "\<forall>n\<in>set (meta_nodes ?nodes). n_aux_id n = -1"
    using order join no_pref by simp_all
  show ?thesis
    using scheduler_full_ranks [OF at ready v(1) tx, of t] len unfolding step
    by (fastforce simp: ProcessAddNodeCommandAtScheduler_def Let_def)
qed

definition example_joiners :: "node list" where
  "example_joiners =
     map (\<lambda>h. example_node\<lparr>n_id := kEmpty, n_hostname := h\<rparr>) [''a'', ''b''] @
     map (\<lambda>h. example_node\<lparr>n_id := kEmpty, n_hostname := h, n_role := SERVER\<rparr>) [''c'', ''d'', ''e'', ''f'']"

lemma example_joiners_complete: "complete_join example_po example_joiners"
  by (simp add: complete_join_def example_joiners_def joinable_def node_addr_def example_node_def example_po_sizes)

lemma example_van_fresh: "van_fresh (Van_new example_env example_node)"
  by (simp add: van_fresh_def Van_new_def)

definition example_scheduler :: van where
  "example_scheduler = (Van_new example_env (example_node\<lparr>n_hostname := ''s''\<rparr>))\<lparr>v_is_scheduler := True\<rparr>"

definition example_registrations :: "(int \<times> message) list" where
  "example_registrations = map (\<lambda>n. (0, Message0\<lparr>msg_meta := set_meta_nodes [n] Meta0\<rparr>)) example_joiners"

theorem scheduler_assigns_ranks_witness:
  "\<exists>ns' v' po' nodes' rec'. process_registrations (\<lambda>_. 1) \<lparr>env_kvs = [], env_sys = (\<lambda>_. None)\<rparr> example_registrations
       (Meta0, Meta0, example_scheduler, example_po) = Inr (nodes', rec', v', po') \<and>
     v_ready v' \<and> map n_id (servers_in ns') = [8, 10, 12, 14] \<and> map n_id (workers_in ns') = [9, 11] \<and>
     length (v_sent v') = 6 \<and> meta_nodes nodes' = ns' @ [v_my_node example_scheduler]"
proof -
  let ?e = "\<lparr>env_kvs = [], env_sys = (\<lambda>_. None)\<rparr>"
  have regs: "list_all2 registration example_joiners example_registrations"
    by (simp add: example_registrations_def list_all2_conv_all_nth registration_def Message0_def Meta0_def set_meta_nodes_def)
  have order: "order_nodes ?e example_joiners = Inr (std_sort host_port_before example_joiners)"
    by (simp add: order_nodes_def)
  have aux: "\<forall>n\<in>set example_joiners. n_aux_id n = -1" by (simp add: example_joiners_def example_node_def)
  have empty: "meta_nodes Meta0 = []" by (simp add: Meta0_def Control0_def)
  have v: "van_fresh example_scheduler" "starting_scheduler example_scheduler example_joiners" "v_sent example_scheduler = []"
    by (simp_all add: van_fresh_def starting_scheduler_def example_scheduler_def Van_new_def Node_new_def example_joiners_def same_place_def)
  obtain ns' v' po' new nodes' rec' where r: "process_registrations (\<lambda>_. 1) ?e example_registrations (Meta0, Meta0, example_scheduler, example_po) =
      Inr (nodes', rec', v', po')"
    "v_ready v'" "meta_nodes nodes' = ns' @ [v_my_node example_scheduler]"
    "map n_id (servers_in ns') = server_ids example_po" "map n_id (workers_in ns') = worker_ids example_po"
    "v_sent v' = v_sent example_scheduler @ new"
    "map (\<lambda>m. m_recver (msg_meta m)) new = worker_ids example_po @ server_ids example_po"
    using scheduler_assigns_ranks [OF regs example_joiners_complete order aux empty empty example_po_ready v(1,2), of "\<lambda>_. 1"] by auto
  have "length new = length (worker_ids example_po @ server_ids example_po)" using r(7) by (metis length_map)
  then show ?thesis
    using r v(3) by (intro exI [of _ ns'] exI [of _ v'] exI [of _ po'] exI [of _ nodes'] exI [of _ rec'])
      (simp add: example_po_sizes upt_rec ServerRankToID_def WorkerRankToID_def)
qed

section \<open>Preferred ranks\<close>

lemma collect_ranks_loop:
  "foldR (\<lambda>n (server_ranks, worker_ranks).
     case n_role n of
       SERVER \<Rightarrow> PS_CHECK (n_aux_id n \<notin> set server_ranks) ''rank must be unique'' (Inr (n_aux_id n # server_ranks, worker_ranks))
     | WORKER \<Rightarrow> PS_CHECK (n_aux_id n \<notin> set worker_ranks) ''rank must be unique'' (Inr (server_ranks, n_aux_id n # worker_ranks))
     | _ \<Rightarrow> Inl (LogFatal ''unrecognized node role'')) ns (sr, wr) = Inr (sr', wr') \<longleftrightarrow>
   (\<forall>n\<in>set ns. n_role n = SERVER \<or> n_role n = WORKER) \<and>
   sr' = rev (map n_aux_id (servers_in ns)) @ sr \<and> wr' = rev (map n_aux_id (workers_in ns)) @ wr \<and>
   (distinct sr \<longrightarrow> distinct sr') \<and> (distinct wr \<longrightarrow> distinct wr') \<and>
   set (map n_aux_id (servers_in ns)) \<inter> set sr = {} \<and> set (map n_aux_id (workers_in ns)) \<inter> set wr = {} \<and>
   distinct (map n_aux_id (servers_in ns)) \<and> distinct (map n_aux_id (workers_in ns))"
proof (induction ns arbitrary: sr wr)
  case Nil
  then show ?case by auto
next
  case (Cons n ns)
  show ?case
  proof (cases "n_role n")
    case SERVER
    then show ?thesis
      by (cases "n_aux_id n \<in> set sr") (auto simp: Cons.IH)
  next
    case WORKER
    then show ?thesis
      by (cases "n_aux_id n \<in> set wr") (auto simp: Cons.IH)
  qed auto
qed

lemma collect_ranks_eq:
  "collect_ranks ns = Inr (sr, wr) \<longleftrightarrow> (\<forall>n\<in>set ns. n_role n = SERVER \<or> n_role n = WORKER) \<and>
     sr = rev (map n_aux_id (servers_in ns)) \<and> wr = rev (map n_aux_id (workers_in ns)) \<and> distinct sr \<and> distinct wr"
  unfolding collect_ranks_def collect_ranks_loop by auto

text \<open>A permutation of the first ranks.\<close>

definition first_ranks :: "node list \<Rightarrow> int \<Rightarrow> bool" where
  "first_ranks ns k \<longleftrightarrow> distinct (map n_aux_id ns) \<and> set (map n_aux_id ns) = {0..<k}"

lemma first_ranks_iff:
  assumes "0 \<le> k"
  shows "first_ranks ns k \<longleftrightarrow> distinct (map n_aux_id ns) \<and>
    (\<forall>i\<in>set [0..<nat k]. int i \<in> set (map n_aux_id ns)) \<and> int (length ns) = k"
proof
  assume f: "first_ranks ns k"
  then have "int (length ns) = k"
    using distinct_card [of "map n_aux_id ns"] assms by (simp add: first_ranks_def)
  with f show "distinct (map n_aux_id ns) \<and> (\<forall>i\<in>set [0..<nat k]. int i \<in> set (map n_aux_id ns)) \<and> int (length ns) = k"
    by (auto simp: first_ranks_def)
next
  assume r: "distinct (map n_aux_id ns) \<and> (\<forall>i\<in>set [0..<nat k]. int i \<in> set (map n_aux_id ns)) \<and> int (length ns) = k"
  have "{0..<k} \<subseteq> set (map n_aux_id ns)"
  proof
    fix x assume "x \<in> {0..<k}"
    then have "nat x \<in> set [0..<nat k]" "int (nat x) = x" by auto
    with r show "x \<in> set (map n_aux_id ns)" by metis
  qed
  moreover have "card (set (map n_aux_id ns)) = card {0..<k}"
    using r distinct_card [of "map n_aux_id ns"] by auto
  ultimately show "first_ranks ns k"
    using r card_subset_eq [of "set (map n_aux_id ns)" "{0..<k}"] by (auto simp: first_ranks_def)
qed

lemma check_ranks_iff:
  assumes "0 \<le> num_server_instances po" and "0 \<le> num_worker_instances po"
  shows "check_ranks po ns = Inr () \<longleftrightarrow> (\<forall>n\<in>set ns. n_role n = SERVER \<or> n_role n = WORKER) \<and>
    first_ranks (servers_in ns) (num_server_instances po) \<and> first_ranks (workers_in ns) (num_worker_instances po)"
proof -
  have "check_ranks po ns = Inr () \<longleftrightarrow> (\<exists>sr wr. collect_ranks ns = Inr (sr, wr) \<and>
      (\<forall>i\<in>set [0..<nat (num_server_instances po)]. int i \<in> set sr) \<and> int (length sr) = num_server_instances po \<and>
      (\<forall>i\<in>set [0..<nat (num_worker_instances po)]. int i \<in> set wr) \<and> int (length wr) = num_worker_instances po)"
    unfolding check_ranks_def Let_def bindR_eq_Inr
    by (simp only: split_paired_Ex prod.case PS_CHECK_eq_Inr list_all_iff simp_thms)
  also have "\<dots> \<longleftrightarrow> (\<forall>n\<in>set ns. n_role n = SERVER \<or> n_role n = WORKER) \<and>
    first_ranks (servers_in ns) (num_server_instances po) \<and> first_ranks (workers_in ns) (num_worker_instances po)"
    unfolding collect_ranks_eq first_ranks_iff [OF assms(1)] first_ranks_iff [OF assms(2)] by auto
  finally show ?thesis .
qed

lemma ranked_pref_ids:
  "map n_id (servers_in (ranked True s w ns)) = map (\<lambda>n. ServerRankToID (n_aux_id n)) (servers_in ns)"
  "\<forall>n\<in>set ns. joinable n \<Longrightarrow>
     map n_id (workers_in (ranked True s w ns)) = map (\<lambda>n. WorkerRankToID (n_aux_id n)) (workers_in ns)"
  by (induction ns arbitrary: s w) (auto simp: joinable_def)

lemma scheduler_full_bad_ranks:
  assumes "order_nodes e (meta_nodes nodes) = Inr ns" and "with_preferred_rank ns" and "check_ranks po ns = Inl err"
  shows "scheduler_full tx e t nodes (v, po) = Inl err"
  using assms by (simp add: scheduler_full_def Let_def)

lemma image_ranks:
  assumes "g ` set xs = {0..<(k::int)}"
  shows "set (map (\<lambda>x. f (g x)) xs) = set (map (\<lambda>i. f (int i)) [0..<nat k])"
proof -
  have "{0..<k} = int ` {0..<nat k}"
    using image_int_atLeastLessThan [of 0 "nat k"] by (cases "0 \<le> k") auto
  with assms have "f ` (g ` set xs) = f ` (int ` {0..<nat k})" by simp
  then show ?thesis by (simp add: image_image)
qed

lemma rank_ids_sets:
  assumes "first_ranks xs (num_server_instances po)" and "first_ranks ys (num_worker_instances po)"
  shows "set (map (\<lambda>n. ServerRankToID (n_aux_id n)) xs) = set (server_ids po)"
    and "set (map (\<lambda>n. WorkerRankToID (n_aux_id n)) ys) = set (worker_ids po)"
  using image_ranks [of n_aux_id xs _ ServerRankToID] image_ranks [of n_aux_id ys _ WorkerRankToID] assms
  by (simp_all add: first_ranks_def)

text \<open>
  preferred ranks.  If some joining node asks for a rank, the scheduler goes on exactly if
  the servers ask for the ranks 0 to the number of servers minus one, each once, and the workers
  likewise; every node then gets the id of the rank it asked for, and the ids given out are again
  exactly those of the id table.  Otherwise the process stops at a check.
\<close>

theorem scheduler_honours_preferred_ranks:
  assumes order: "order_nodes e (meta_nodes nodes) = Inr ns" and join: "complete_join po (meta_nodes nodes)"
    and pref: "\<exists>n\<in>set (meta_nodes nodes). n_aux_id n \<noteq> -1"
    and ready: "node_ids_ready po" and fresh: "van_fresh v" and tx: "\<forall>m. tx m \<noteq> -1"
  shows "if first_ranks (servers_in ns) (num_server_instances po) \<and> first_ranks (workers_in ns) (num_worker_instances po)
    then \<exists>ns' v' po' nodes'. scheduler_full tx e t nodes (v, po) = Inr (nodes', v', po') \<and> v_ready v' \<and>
      meta_nodes nodes' = ns' @ [v_my_node v] \<and> map node_addr ns' = map node_addr ns \<and>
      map n_id (servers_in ns') = map (\<lambda>n. ServerRankToID (n_aux_id n)) (servers_in ns) \<and>
      map n_id (workers_in ns') = map (\<lambda>n. WorkerRankToID (n_aux_id n)) (workers_in ns) \<and>
      set (map n_id (servers_in ns')) = set (server_ids po) \<and> set (map n_id (workers_in ns')) = set (worker_ids po)
    else \<exists>err. scheduler_full tx e t nodes (v, po) = Inl err"
proof -
  have mset: "mset ns = mset (meta_nodes nodes)" by (rule order_nodes_mset [OF order])
  then have set: "set ns = set (meta_nodes nodes)" by (metis set_mset_mset)
  have p: "with_preferred_rank ns" using pref set by (auto simp: with_preferred_rank_iff)
  have cj: "complete_join po ns" using complete_join_mset [OF mset] join by simp
  have j: "\<forall>n\<in>set ns. joinable n" and pos: "0 \<le> num_server_instances po" "0 \<le> num_worker_instances po"
    using cj by (simp_all add: complete_join_def)
  have roles: "\<forall>n\<in>set ns. n_role n = SERVER \<or> n_role n = WORKER" using j by (auto simp: joinable_def)
  show ?thesis
  proof (cases "first_ranks (servers_in ns) (num_server_instances po) \<and> first_ranks (workers_in ns) (num_worker_instances po)")
    case True
    then have "check_ranks po ns = Inr ()" using check_ranks_iff [OF pos, of ns] roles by blast
    from scheduler_full_run [OF order join this ready fresh tx, of t] obtain v' po' where
      run: "scheduler_full tx e t nodes (v, po) =
        Inr (set_meta_cmd ADD_NODE (set_meta_nodes (ranked True 0 0 ns @ [v_my_node v]) nodes), v', po')" "v_ready v'"
      using p by auto
    have sets: "set (map (\<lambda>n. ServerRankToID (n_aux_id n)) (servers_in ns)) = set (server_ids po)"
      "set (map (\<lambda>n. WorkerRankToID (n_aux_id n)) (workers_in ns)) = set (worker_ids po)"
      using rank_ids_sets True by blast+
    show ?thesis
      unfolding if_P [OF True]
      by (rule exI [of _ "ranked True 0 0 ns"])
        (use run sets ranked_props [of True 0 0 ns] ranked_pref_ids(1) [of 0 0 ns] ranked_pref_ids(2) [OF j, of 0 0]
          in \<open>simp only: set_meta_cmd_def set_meta_nodes_def; simp\<close>)
  next
    case False
    then have "check_ranks po ns \<noteq> Inr ()" using check_ranks_iff [OF pos, of ns] roles by blast
    then obtain err where "check_ranks po ns = Inl err" by (cases "check_ranks po ns") auto
    with False show ?thesis using scheduler_full_bad_ranks [OF order p] by auto
  qed
qed

lemma first_ranks_mset: "mset xs = mset ys \<Longrightarrow> first_ranks xs k = first_ranks ys k"
  by (simp add: first_ranks_def) (metis mset_eq_setD mset_map mset_eq_imp_distinct_iff)

definition example_ranked :: "node list" where
  "example_ranked = map2 (\<lambda>n r. n\<lparr>n_aux_id := r\<rparr>) example_joiners [1, 0, 3, 2, 1, 0]"

lemmas example_ranked_eval = example_ranked_def example_joiners_def example_node_def

theorem scheduler_honours_preferred_ranks_witness:
  "\<exists>ns' v' po' nodes'. scheduler_full (\<lambda>_. 1) \<lparr>env_kvs = [], env_sys = (\<lambda>_. None)\<rparr> 0
       (set_meta_nodes example_ranked Meta0) (Van_new example_env example_node, example_po) = Inr (nodes', v', po') \<and>
     v_ready v' \<and> meta_nodes nodes' = ns' @ [Node_new example_node] \<and>
     set (map n_id (servers_in ns')) = {8, 10, 12, 14} \<and> set (map n_id (workers_in ns')) = {9, 11}"
proof -
  let ?e = "\<lparr>env_kvs = [], env_sys = (\<lambda>_. None)\<rparr>" and ?n = "set_meta_nodes example_ranked Meta0"
  let ?ns = "std_sort host_port_before example_ranked"
  have nodes: "meta_nodes ?n = example_ranked" by (simp add: set_meta_nodes_def)
  have order: "order_nodes ?e (meta_nodes ?n) = Inr ?ns" unfolding nodes by (simp add: order_nodes_def)
  have join: "complete_join example_po (meta_nodes ?n)" unfolding nodes
    by (simp add: complete_join_def example_ranked_eval joinable_def node_addr_def example_po_sizes)
  have pref: "\<exists>n\<in>set (meta_nodes ?n). n_aux_id n \<noteq> -1" unfolding nodes by (simp add: example_ranked_eval)
  have "{0..<4::int} = {0, 1, 2, 3}" "{0..<2::int} = {0, 1}" by auto
  then have f: "first_ranks (servers_in example_ranked) 4" "first_ranks (workers_in example_ranked) 2"
    by (auto simp: first_ranks_def example_ranked_eval)
  have "mset (servers_in ?ns) = mset (servers_in example_ranked)" "mset (workers_in ?ns) = mset (workers_in example_ranked)"
    by simp_all
  with f have fr: "first_ranks (servers_in ?ns) (num_server_instances example_po) \<and>
      first_ranks (workers_in ?ns) (num_worker_instances example_po)"
    using first_ranks_mset by (metis example_po_sizes(1,2))
  obtain ns' v' po' nodes' where r: "scheduler_full (\<lambda>_. 1) ?e 0 ?n (Van_new example_env example_node, example_po) = Inr (nodes', v', po')"
    "v_ready v'" "meta_nodes nodes' = ns' @ [v_my_node (Van_new example_env example_node)]"
    "set (map n_id (servers_in ns')) = set (server_ids example_po)" "set (map n_id (workers_in ns')) = set (worker_ids example_po)"
    using scheduler_honours_preferred_ranks [OF order join pref example_po_ready example_van_fresh, of "\<lambda>_. 1" 0]
    unfolding if_P [OF fr] by auto
  moreover have "set (server_ids example_po) = {8, 10, 12, 14}" "set (worker_ids example_po) = {9, 11}"
    by (simp_all add: example_po_sizes upt_rec ServerRankToID_def WorkerRankToID_def)
  ultimately show ?thesis
    by (intro exI [of _ ns'] exI [of _ v'] exI [of _ po'] exI [of _ nodes']) (simp add: Van_new_def)
qed

section \<open>Recovery\<close>

lemma replace_dead_Some:
  "replace_dead dead new ns = Some (ns', rn) \<Longrightarrow>
     \<exists>i < length ns. n_id (ns ! i) \<in> set dead \<and> n_role (ns ! i) = n_role new \<and>
       rn = new\<lparr>n_id := n_id (ns ! i), n_is_recovery := True\<rparr> \<and> ns' = ns[i := rn]"
proof (induction ns arbitrary: ns')
  case (Cons n ns)
  show ?case
  proof (cases "n_id n \<in> set dead \<and> n_role n = n_role new")
    case True
    with Cons.prems show ?thesis by (intro exI [of _ 0]) (auto simp: Let_def)
  next
    case False
    with Cons.prems obtain ns1 where "replace_dead dead new ns = Some (ns1, rn)" "ns' = n # ns1"
      by (auto split: option.splits if_splits)
    with Cons.IH show ?thesis by (metis Suc_less_eq length_Cons list_update_code(3) nth_Cons_Suc)
  qed
qed simp

lemma replace_dead_None:
  "replace_dead dead new ns = None \<longleftrightarrow> (\<forall>n\<in>set ns. \<not> (n_id n \<in> set dead \<and> n_role n = n_role new))"
  by (induction ns) (auto simp: Let_def split: option.splits)

lemma map_id_role_update:
  assumes "i < length ns" and "n_id rn = n_id (ns ! i)" and "n_role rn = n_role (ns ! i)"
  shows "map n_id (ns[i := rn]) = map n_id ns" and "map n_role (ns[i := rn]) = map n_role ns"
  using assms by (simp_all add: map_update list_update_same_conv)

text \<open>A registration at a scheduler that already knows all nodes.\<close>

definition late_join :: "message \<Rightarrow> node \<Rightarrow> van \<Rightarrow> postoffice \<Rightarrow> node list \<Rightarrow> bool" where
  "late_join msg new v po ns \<longleftrightarrow> m_sender (msg_meta msg) = kEmpty \<and> meta_nodes (msg_meta msg) = [new] \<and>
     v_is_scheduler v \<and> v_ready v \<and> num_server_instances po + num_worker_instances po = int (length ns)"

lemma late_join_update:
  assumes "late_join msg new v po ns" and "meta_nodes nodes = ns @ [sched]"
  shows "\<exists>msg' nodes' rec' n. UpdateLocalID e dead msg nodes rec (v, po) = Inr (msg', nodes', rec', v\<lparr>v_my_node := n\<rparr>) \<and>
    length (meta_nodes nodes') = length ns + 1 \<and> c_cmd (m_control nodes') = c_cmd (m_control nodes) \<and>
    map n_id (meta_nodes nodes') = map n_id (meta_nodes nodes) \<and> map n_role (meta_nodes nodes') = map n_role (meta_nodes nodes) \<and>
    (if \<exists>n\<in>set ns. n_id n \<in> set dead \<and> n_role n = n_role new
     then \<exists>i < length ns. n_id (ns ! i) \<in> set dead \<and> n_role (ns ! i) = n_role new \<and>
        (let rn = new\<lparr>n_id := n_id (ns ! i), n_is_recovery := True\<rparr>
         in meta_nodes nodes' = ns[i := rn] @ [sched] \<and> meta_nodes rec' = meta_nodes rec @ [rn] \<and> meta_nodes (msg_meta msg') = [rn])
     else nodes' = nodes \<and> rec' = rec)"
proof -
  note late = assms(1) [unfolded late_join_def]
  show ?thesis
  proof (cases "replace_dead dead new ns")
    case None
    obtain n where "update_my_id e [new] v = v\<lparr>v_my_node := n\<rparr>" using update_my_id_form by blast
    with late assms(2) None have "UpdateLocalID e dead msg nodes rec (v, po) = Inr (msg, nodes, rec, v\<lparr>v_my_node := n\<rparr>)"
      by (simp add: UpdateLocalID_def Let_def)
    with None assms(2) show ?thesis
      by (intro exI [of _ msg] exI [of _ nodes] exI [of _ rec] exI [of _ n]) (auto simp: replace_dead_None)
  next
    case (Some p)
    obtain ns' rn where p: "p = (ns', rn)" by (cases p)
    from replace_dead_Some [of dead new ns ns' rn] Some p obtain i where i: "i < length ns" "n_id (ns ! i) \<in> set dead"
      "n_role (ns ! i) = n_role new" "rn = new\<lparr>n_id := n_id (ns ! i), n_is_recovery := True\<rparr>" "ns' = ns[i := rn]" by auto
    obtain n where n: "update_my_id e [rn] v = v\<lparr>v_my_node := n\<rparr>" using update_my_id_form by blast
    have "UpdateLocalID e dead msg nodes rec (v, po) =
        Inr (upd_meta (set_meta_nodes [rn]) msg, set_meta_nodes (ns' @ [sched]) nodes,
             set_meta_nodes (meta_nodes rec @ [rn]) rec, v\<lparr>v_my_node := n\<rparr>)"
      using late assms(2) Some p n by (simp add: UpdateLocalID_def Let_def set_meta_nodes_def)
    moreover have "map n_id ns' = map n_id ns" "map n_role ns' = map n_role ns"
      using i map_id_role_update [of i ns rn] by auto
    moreover have "\<exists>n\<in>set ns. n_id n \<in> set dead \<and> n_role n = n_role new" using i nth_mem by blast
    ultimately show ?thesis
      using i assms(2)
      by (intro exI [of _ "upd_meta (set_meta_nodes [rn]) msg"] exI [of _ "set_meta_nodes (ns' @ [sched]) nodes"]
          exI [of _ "set_meta_nodes (meta_nodes rec @ [rn]) rec"] exI [of _ n])
        (auto simp: set_meta_nodes_def)
  qed
qed

text \<open>The broadcast after a recovery: one message to each id that is not skipped.\<close>

lemma broadcast_log:
  assumes "v_resender v = None" and tx: "\<forall>m. tx m \<noteq> -1"
  shows "\<exists>v' new. foldR (\<lambda>r v. if skip r then Inr v else Send_next tx t (message r) v) ids v = Inr v' \<and> same_but_sent v v' \<and>
    v_sent v' = v_sent v @ new \<and> list_all2 (\<lambda>r m. \<exists>ts. m = stamped ts (message r)) (filter (\<lambda>r. \<not> skip r) ids) new"
  using assms(1)
proof (induction ids arbitrary: v)
  case Nil
  then show ?case by simp
next
  case (Cons r ids)
  show ?case
  proof (cases "skip r")
    case True
    then show ?thesis using Cons by simp
  next
    case False
    let ?v = "sent_next tx (message r) v"
    have "v_resender ?v = None" using Cons.prems by (simp add: sent_next_def)
    from Cons.IH [OF this] obtain v' new where
      ih: "foldR (\<lambda>r v. if skip r then Inr v else Send_next tx t (message r) v) ids ?v = Inr v'" "same_but_sent ?v v'"
        "v_sent v' = v_sent ?v @ new" "list_all2 (\<lambda>r m. \<exists>ts. m = stamped ts (message r)) (filter (\<lambda>r. \<not> skip r) ids) new" by blast
    have "list_all2 (\<lambda>r m. \<exists>ts. m = stamped ts (message r)) (filter (\<lambda>r. \<not> skip r) (r # ids)) (stamped (v_timestamp v) (message r) # new)"
      using False ih(4) by auto
    moreover have "v_sent v' = v_sent v @ stamped (v_timestamp v) (message r) # new" using ih(3) by (simp add: sent_next_def)
    moreover have "foldR (\<lambda>r v. if skip r then Inr v else Send_next tx t (message r) v) (r # ids) v = Inr v'"
      using False ih(1) Send_next_plain [OF Cons.prems tx] by simp
    ultimately show ?thesis using same_but_sent_trans [OF same_but_sent_next ih(2)] by blast
  qed
qed

lemma recover_run:
  assumes rn: "meta_nodes rec = [rn]" and dead: "GetDeadNodes (v_ready v) t (v_heartbeat_timeout v) po = Inr dead"
    and ids: "GetNodeIDs po (kWorkerGroup + kServerGroup) = Inr ids" and v: "v_resender v = None" and tx: "\<forall>m. tx m \<noteq> -1"
  shows "\<exists>v' new. scheduler_recover tx t nodes rec (v, po) = Inr (v', UpdateHeartbeat (n_id rn) t po) \<and>
    v_connects v' = v_connects v @ [rn] \<and> v_sent v' = v_sent v @ new \<and>
    map (\<lambda>m. m_recver (msg_meta m)) new = filter (\<lambda>r. r = n_id rn \<or> r \<notin> set dead) ids \<and>
    (\<forall>m\<in>set new. m_control (msg_meta m) = m_control (if m_recver (msg_meta m) = n_id rn then nodes else rec))"
proof -
  let ?msg = "\<lambda>r. \<lparr>msg_meta = (if r = n_id rn then nodes else rec)\<lparr>m_recver := r\<rparr>, msg_data = []\<rparr>"
  let ?skip = "\<lambda>r. r \<noteq> n_id rn \<and> r \<in> set dead"
  have "v_resender (Connect rn v) = None" using v by (simp add: Connect_def)
  from broadcast_log [OF this tx, of ?skip t ?msg ids] obtain v' new where
    b: "foldR (\<lambda>r v. if ?skip r then Inr v else Send_next tx t (?msg r) v) ids (Connect rn v) = Inr v'" "same_but_sent (Connect rn v) v'"
      "v_sent v' = v_sent (Connect rn v) @ new" "list_all2 (\<lambda>r m. \<exists>ts. m = stamped ts (?msg r)) (filter (\<lambda>r. \<not> ?skip r) ids) new"
    by blast
  have "GetNodeIDs (UpdateHeartbeat (n_id rn) t po) (kWorkerGroup + kServerGroup) = Inr ids"
    using ids GetNodeIDs_heartbeats [of t "[rn]" po] by simp
  then have "scheduler_recover tx t nodes rec (v, po) = Inr (v', UpdateHeartbeat (n_id rn) t po)"
    using dead rn b(1) by (simp add: scheduler_recover_def)
  moreover have "v_connects v' = v_connects v @ [rn]" "v_sent v' = v_sent v @ new"
    using same_but_sent_fields(9) [OF b(2)] b(3) by (simp_all add: Connect_def)
  moreover have "map (\<lambda>m. m_recver (msg_meta m)) new = filter (\<lambda>r. \<not> ?skip r) ids"
    using b(4) by (intro nth_equalityI) (auto simp: list_all2_conv_all_nth stamped_def)
  moreover have "m_control (msg_meta m) = m_control (if m_recver (msg_meta m) = n_id rn then nodes else rec)" if m: "m \<in> set new" for m
  proof -
    obtain r ts where "m = stamped ts (?msg r)" using b(4) m by (auto simp: list_all2_conv_all_nth in_set_conv_nth)
    then show ?thesis by (simp add: stamped_def)
  qed
  ultimately show ?thesis by (intro exI [of _ v'] exI [of _ new]) simp
qed

text \<open>
  C27: the first recovery.  A node registers at a ready scheduler that already has all its nodes and
  has recovered none so far, while the heartbeats say that the nodes \<open>dead\<close> are dead.  If one of them has
  the newcomer's role, the newcomer takes its place and id in the list and is marked as recovered, and the
  scheduler connects to it and records its heartbeat.  It sends the newcomer the complete list, every
  node that is not dead the newcomer's description, and the other dead nodes nothing.  Without a dead
  node of that role nothing is sent and the lists and connections stay as they were.
\<close>

theorem recovery_takes_over_id:
  assumes late: "late_join msg new v po ns" and nodes: "meta_nodes nodes = ns @ [sched]" "c_cmd (m_control nodes) = ADD_NODE"
    and first: "meta_nodes rec = []" and dead: "GetDeadNodes (v_ready v) t (v_heartbeat_timeout v) po = Inr dead"
    and ready: "node_ids_ready po" "0 < num_server_instances po" "0 < num_worker_instances po"
    and v: "v_resender v = None" and tx: "\<forall>m. tx m \<noteq> -1"
  shows "\<exists>nodes' rec' v' po' sent. ProcessAddNodeCommand tx e t msg nodes rec (v, po) = Inr (nodes', rec', v', po') \<and>
    v_sent v' = v_sent v @ sent \<and>
    (if \<exists>n\<in>set ns. n_id n \<in> set dead \<and> n_role n = n_role new
     then \<exists>i < length ns. n_id (ns ! i) \<in> set dead \<and> n_role (ns ! i) = n_role new \<and>
        (let rn = new\<lparr>n_id := n_id (ns ! i), n_is_recovery := True\<rparr>
         in meta_nodes nodes' = ns[i := rn] @ [sched] \<and> meta_nodes rec' = [rn] \<and>
            v_connects v' = v_connects v @ [rn] \<and> po' = UpdateHeartbeat (n_id rn) t po \<and>
            map (\<lambda>m. m_recver (msg_meta m)) sent =
              filter (\<lambda>r. r = n_id rn \<or> r \<notin> set dead) (worker_ids po @ server_ids po) \<and>
            (\<forall>m\<in>set sent. msg_cmd m = ADD_NODE \<and>
               meta_nodes (msg_meta m) = (if m_recver (msg_meta m) = n_id rn then meta_nodes nodes' else [rn])))
     else meta_nodes nodes' = meta_nodes nodes \<and> meta_nodes rec' = [] \<and> sent = [] \<and> v_connects v' = v_connects v \<and> po' = po)"
proof -
  have sched: "v_is_scheduler v" "num_server_instances po + num_worker_instances po = int (length ns)"
    using late by (simp_all add: late_join_def)
  show ?thesis
  proof (cases "\<exists>n\<in>set ns. n_id n \<in> set dead \<and> n_role n = n_role new")
    case True
    obtain msg' nodes' rec' n i where u: "UpdateLocalID e dead msg nodes rec (v, po) = Inr (msg', nodes', rec', v\<lparr>v_my_node := n\<rparr>)"
      and i: "i < length ns" "n_id (ns ! i) \<in> set dead" "n_role (ns ! i) = n_role new"
      and m: "meta_nodes nodes' = ns[i := new\<lparr>n_id := n_id (ns ! i), n_is_recovery := True\<rparr>] @ [sched]"
        "meta_nodes rec' = [new\<lparr>n_id := n_id (ns ! i), n_is_recovery := True\<rparr>]" and cmd: "c_cmd (m_control nodes') = ADD_NODE"
      using late_join_update [OF late nodes(1), of e dead rec] nodes(2) first unfolding if_P [OF True] Let_def by auto
    define rn where "rn = new\<lparr>n_id := n_id (ns ! i), n_is_recovery := True\<rparr>"
    let ?rec = "set_meta_cmd ADD_NODE rec'"
    have ids: "GetNodeIDs po (kWorkerGroup + kServerGroup) = Inr (worker_ids po @ server_ids po)"
      using ready by (simp add: GetNodeIDs_ready node_id_entry_groups)
    have rec: "meta_nodes ?rec = [rn]" using m(2) by (simp add: rn_def)
    have at: "GetDeadNodes (v_ready (v\<lparr>v_my_node := n\<rparr>)) t (v_heartbeat_timeout (v\<lparr>v_my_node := n\<rparr>)) po = Inr dead"
      "v_resender (v\<lparr>v_my_node := n\<rparr>) = None" using dead v by simp_all
    from recover_run [OF rec at(1) ids at(2) tx, of nodes'] obtain v' sent where
      run: "scheduler_recover tx t nodes' ?rec (v\<lparr>v_my_node := n\<rparr>, po) = Inr (v', UpdateHeartbeat (n_id rn) t po)"
      and post: "v_connects v' = v_connects v @ [rn]" "v_sent v' = v_sent v @ sent"
        "map (\<lambda>m. m_recver (msg_meta m)) sent = filter (\<lambda>r. r = n_id rn \<or> r \<notin> set dead) (worker_ids po @ server_ids po)"
        "\<forall>m\<in>set sent. m_control (msg_meta m) = m_control (if m_recver (msg_meta m) = n_id rn then nodes' else ?rec)"
      by auto
    have "ProcessAddNodeCommand tx e t msg nodes rec (v, po) = Inr (nodes', ?rec, v', UpdateHeartbeat (n_id rn) t po)"
      using dead u sched run m by (simp add: ProcessAddNodeCommand_def ProcessAddNodeCommandAtScheduler_def Let_def)
    moreover have "\<forall>m\<in>set sent. msg_cmd m = ADD_NODE \<and>
        meta_nodes (msg_meta m) = (if m_recver (msg_meta m) = n_id rn then meta_nodes nodes' else [rn])"
      using post(4) cmd rec by (simp add: set_meta_cmd_def)
    ultimately show ?thesis
      unfolding if_P [OF True] Let_def
      by (intro exI [of _ nodes'] exI [of _ ?rec] exI [of _ v'] exI [of _ "UpdateHeartbeat (n_id rn) t po"] exI [of _ sent] conjI exI [of _ i])
        (use i m post rec in \<open>simp_all add: rn_def\<close>)
  next
    case False
    then obtain msg' n where "UpdateLocalID e dead msg nodes rec (v, po) = Inr (msg', nodes, rec, v\<lparr>v_my_node := n\<rparr>)"
      using late_join_update [OF late nodes(1), of e dead rec] by auto
    then have "ProcessAddNodeCommand tx e t msg nodes rec (v, po) = Inr (nodes, set_meta_cmd ADD_NODE rec, v\<lparr>v_my_node := n\<rparr>, po)"
      using dead sched first nodes(1) by (simp add: ProcessAddNodeCommand_def ProcessAddNodeCommandAtScheduler_def Let_def)
    with False first show ?thesis by simp
  qed
qed

definition example_members_list :: "node list" where
  "example_members_list = [example_node\<lparr>n_id := 9\<rparr>, example_node\<lparr>n_id := 11, n_hostname := ''b''\<rparr>,
     example_node\<lparr>n_id := 8, n_role := SERVER\<rparr>, example_node\<lparr>n_id := 10, n_role := SERVER\<rparr>,
     example_node\<lparr>n_id := 12, n_role := SERVER\<rparr>, example_node\<lparr>n_id := 14, n_role := SERVER\<rparr>]"

definition example_late_msg :: message where
  "example_late_msg = Message0\<lparr>msg_meta := Meta0\<lparr>m_control := Control0
     \<lparr>c_cmd := ADD_NODE, c_node := [example_node\<lparr>n_id := kEmpty, n_hostname := ''z''\<rparr>]\<rparr>\<rparr>\<rparr>"

definition example_sched_van :: van where
  "example_sched_van = (Van_new example_env example_node)\<lparr>v_is_scheduler := True, v_ready := True\<rparr>"

lemma example_late_join:
  "late_join example_late_msg (example_node\<lparr>n_id := kEmpty, n_hostname := ''z''\<rparr>) example_sched_van example_po example_members_list"
  by (simp add: late_join_def example_late_msg_def example_sched_van_def example_po_sizes example_members_list_def
      Message0_def Meta0_def)

lemma example_dead_nodes:
  "node_ids_ready (example_po\<lparr>po_is_scheduler := True\<rparr>)"
  "GetDeadNodes True 100 10 (example_po\<lparr>po_is_scheduler := True\<rparr>) = Inr [9, 11, 8, 10, 12, 14]"
  "worker_ids (example_po\<lparr>po_is_scheduler := True\<rparr>) = [9, 11]"
  "server_ids (example_po\<lparr>po_is_scheduler := True\<rparr>) = [8, 10, 12, 14]"
proof -
  let ?po = "example_po\<lparr>po_is_scheduler := True\<rparr>"
  show ready: "node_ids_ready ?po" using example_po_ready
    by (simp add: node_ids_ready_def node_id_entry_def num_server_instances_def num_worker_instances_def)
  then have "GetNodeIDs ?po (kWorkerGroup + kServerGroup) = Inr [9, 11, 8, 10, 12, 14]"
    using example_po_sizes
    by (simp add: GetNodeIDs_ready node_id_entry_groups num_server_instances_def num_worker_instances_def
        upt_rec ServerRankToID_def WorkerRankToID_def)
  moreover have "po_heartbeats example_po = []" "po_start_time example_po = 0"
    by (simp_all add: example_po_def Postoffice_Start_init_def InitEnvironment_def Van_Create_def
        check_notnull_def set_role_def example_env_def example_flags_def Postoffice_new_def env_eval)
  ultimately show "GetDeadNodes True 100 10 ?po = Inr [9, 11, 8, 10, 12, 14]" by (simp add: GetDeadNodes_def)
  show "worker_ids ?po = [9, 11]" "server_ids ?po = [8, 10, 12, 14]"
    using example_po_sizes
    by (simp_all add: num_server_instances_def num_worker_instances_def upt_rec ServerRankToID_def WorkerRankToID_def)
qed

theorem recovery_takes_over_id_witness:
  "\<exists>nodes' rec' v' po' sent. ProcessAddNodeCommand (\<lambda>_. 1) example_env 100 example_late_msg
       (set_meta_cmd ADD_NODE (set_meta_nodes (example_members_list @ [example_node]) Meta0)) Meta0
       (example_sched_van\<lparr>v_heartbeat_timeout := 10\<rparr>, example_po\<lparr>po_is_scheduler := True\<rparr>) = Inr (nodes', rec', v', po') \<and>
     v_sent v' = sent \<and> map n_hostname (meta_nodes rec') = [''z''] \<and>
     map (\<lambda>m. m_recver (msg_meta m)) sent = map n_id (meta_nodes rec') \<and> (\<forall>m\<in>set sent. meta_nodes (msg_meta m) = meta_nodes nodes')"
proof -
  let ?nodes = "set_meta_cmd ADD_NODE (set_meta_nodes (example_members_list @ [example_node]) Meta0)"
  let ?v = "example_sched_van\<lparr>v_heartbeat_timeout := 10\<rparr>" and ?po = "example_po\<lparr>po_is_scheduler := True\<rparr>"
  let ?new = "example_node\<lparr>n_id := kEmpty, n_hostname := ''z''\<rparr>" and ?dead = "[9, 11, 8, 10, 12, 14] :: int list"
  have late: "late_join example_late_msg ?new ?v ?po example_members_list"
    using example_late_join by (simp add: late_join_def num_server_instances_def num_worker_instances_def)
  have nodes: "meta_nodes ?nodes = example_members_list @ [example_node]" "c_cmd (m_control ?nodes) = ADD_NODE"
    "meta_nodes Meta0 = []" by (simp_all add: set_meta_cmd_def Meta0_def Control0_def)
  have dead: "GetDeadNodes (v_ready ?v) 100 (v_heartbeat_timeout ?v) ?po = Inr ?dead"
    using example_dead_nodes(2) by (simp add: example_sched_van_def)
  have "0 < num_server_instances ?po" "0 < num_worker_instances ?po" "v_resender ?v = None" "v_sent ?v = []"
    using example_po_sizes
    by (simp_all add: num_server_instances_def num_worker_instances_def example_sched_van_def Van_new_def)
  note facts = this
  have some: "\<exists>n\<in>set example_members_list. n_id n \<in> set ?dead \<and> n_role n = n_role ?new"
    by (simp add: example_members_list_def)
  have tx: "\<forall>m :: message. (\<lambda>_. 1) m \<noteq> (-1 :: int)" by simp
  let ?rn = "\<lambda>i. ?new\<lparr>n_id := n_id (example_members_list ! i), n_is_recovery := True\<rparr>"
  obtain nodes' rec' v' po' sent i where r:
    "ProcessAddNodeCommand (\<lambda>_. 1) example_env 100 example_late_msg ?nodes Meta0 (?v, ?po) = Inr (nodes', rec', v', po')"
    "v_sent v' = v_sent ?v @ sent" "n_id (example_members_list ! i) \<in> set ?dead" "meta_nodes rec' = [?rn i]"
    "map (\<lambda>m. m_recver (msg_meta m)) sent = filter (\<lambda>r. r = n_id (?rn i) \<or> r \<notin> set ?dead) (worker_ids ?po @ server_ids ?po)"
    "\<forall>m\<in>set sent. msg_cmd m = ADD_NODE \<and> meta_nodes (msg_meta m) = (if m_recver (msg_meta m) = n_id (?rn i) then meta_nodes nodes' else [?rn i])"
    using recovery_takes_over_id [OF late nodes dead example_dead_nodes(1) facts(1-3) tx, of example_env]
    unfolding if_P [OF some] Let_def by (elim exE conjE) (rule that; assumption)
  have ids: "map (\<lambda>m. m_recver (msg_meta m)) sent = [n_id (example_members_list ! i)]"
    using r(3) unfolding r(5) example_dead_nodes(3,4) by auto
  then have "\<forall>m\<in>set sent. m_recver (msg_meta m) = n_id (example_members_list ! i)" by auto
  with r(6) have "\<forall>m\<in>set sent. meta_nodes (msg_meta m) = meta_nodes nodes'" by simp
  with r(1,2,4) ids facts(4) show ?thesis
    by (intro exI [of _ nodes'] exI [of _ rec'] exI [of _ v'] exI [of _ po'] exI [of _ sent]) simp
qed



section \<open>Joining at a worker or server\<close>







section \<open>Heartbeats\<close>

lemma heartbeat_table:
  "umap_find (po_heartbeats (fold (\<lambda>n. UpdateHeartbeat (n_id n) t) ns po)) i =
     (if i \<in> n_id ` set ns then Some t else umap_find (po_heartbeats po) i)"
  by (induction ns arbitrary: po) (auto simp: UpdateHeartbeat_def)

lemma heartbeat_other [simp]:
  "po_start_time (fold (\<lambda>n. UpdateHeartbeat (n_id n) t) ns po) = po_start_time po"
  "po_is_scheduler (fold (\<lambda>n. UpdateHeartbeat (n_id n) t) ns po) = po_is_scheduler po"
  by (induction ns arbitrary: po) (simp_all add: UpdateHeartbeat_def)

lemma heartbeat_loop:
  assumes tx: "\<forall>m. tx m \<noteq> -1" and "v_resender v = None"
  shows "\<exists>v' new. foldR (\<lambda>n (v, po).
       let po' = UpdateHeartbeat (n_id n) t po in
       if v_is_scheduler v then
         bindR (Send_next tx t (Message0\<lparr>msg_meta := Meta0
                \<lparr>m_recver := n_id n, m_control := Control0\<lparr>c_cmd := HEARTBEAT, c_node := [v_my_node v]\<rparr>\<rparr>\<rparr>) v)
           (\<lambda>v'. Inr (v', po'))
       else Inr (v, po')) ns (v, po) = Inr (v', fold (\<lambda>n. UpdateHeartbeat (n_id n) t) ns po) \<and>
    same_but_sent v v' \<and> v_sent v' = v_sent v @ new \<and>
    map (\<lambda>m. (msg_cmd m, m_recver (msg_meta m))) new = (if v_is_scheduler v then map (\<lambda>n. (HEARTBEAT, n_id n)) ns else [])"
  using assms(2)
proof (induction ns arbitrary: v po)
  case Nil
  then show ?case by (intro exI [of _ v]) simp
next
  case (Cons n ns)
  let ?msg = "Message0\<lparr>msg_meta := Meta0
      \<lparr>m_recver := n_id n, m_control := Control0\<lparr>c_cmd := HEARTBEAT, c_node := [v_my_node v]\<rparr>\<rparr>\<rparr>"
  let ?v = "if v_is_scheduler v then sent_next tx ?msg v else v"
  have fields: "v_resender ?v = None" "v_is_scheduler ?v = v_is_scheduler v" using Cons.prems by (simp_all add: sent_next_def)
  from Cons.IH [OF fields(1), of "UpdateHeartbeat (n_id n) t po"] obtain v' new where ih:
    "foldR (\<lambda>n (v, po).
       let po' = UpdateHeartbeat (n_id n) t po in
       if v_is_scheduler v then
         bindR (Send_next tx t (Message0\<lparr>msg_meta := Meta0
                \<lparr>m_recver := n_id n, m_control := Control0\<lparr>c_cmd := HEARTBEAT, c_node := [v_my_node v]\<rparr>\<rparr>\<rparr>) v)
           (\<lambda>v'. Inr (v', po'))
       else Inr (v, po')) ns (?v, UpdateHeartbeat (n_id n) t po) =
      Inr (v', fold (\<lambda>n. UpdateHeartbeat (n_id n) t) ns (UpdateHeartbeat (n_id n) t po))"
    "same_but_sent ?v v'" "v_sent v' = v_sent ?v @ new"
    "map (\<lambda>m. (msg_cmd m, m_recver (msg_meta m))) new = (if v_is_scheduler v then map (\<lambda>n. (HEARTBEAT, n_id n)) ns else [])"
    unfolding fields(2) by blast
  have "same_but_sent v ?v" by simp
  then have "same_but_sent v v'" using ih(2) same_but_sent_trans by blast
  then show ?case
    using ih Cons.prems Send_next_plain [OF _ tx, of v t ?msg]
    by (cases "v_is_scheduler v")
      (intro exI [of _ v'], auto simp: sent_next_def stamped_def intro!: exI [of _ "stamped (v_timestamp v) ?msg # new"])
qed

text \<open>
  heartbeats.  Processing a heartbeat message stamps every node it lists: from then on, and
  for as long as the timeout has not passed again, \<^verbatim>\<open>GetDeadNodes\<close> does not report these nodes,
  while its verdict on every other node is unchanged.  The scheduler answers each listed node
  with a heartbeat of its own; other nodes answer nothing.
\<close>

theorem heartbeat_keeps_alive:
  assumes "\<forall>m. tx m \<noteq> -1" and "v_resender v = None"
    and "GetDeadNodes rdy now timeout po = Inr dead"
  shows "\<exists>v' po' new dead'. ProcessHearbeat tx t msg (v, po) = Inr (v', po') \<and> v_sent v' = v_sent v @ new \<and>
    map (\<lambda>m. (msg_cmd m, m_recver (msg_meta m))) new =
      (if v_is_scheduler v then map (\<lambda>n. (HEARTBEAT, n_id n)) (meta_nodes (msg_meta msg)) else []) \<and>
    GetDeadNodes rdy now timeout po' = Inr dead' \<and>
    (\<forall>r. r \<in> n_id ` set (meta_nodes (msg_meta msg)) \<longrightarrow> now \<le> t + timeout \<longrightarrow> r \<notin> set dead') \<and>
    (\<forall>r. r \<notin> n_id ` set (meta_nodes (msg_meta msg)) \<longrightarrow> (r \<in> set dead' \<longleftrightarrow> r \<in> set dead))"
proof -
  let ?ns = "meta_nodes (msg_meta msg)"
  let ?po = "fold (\<lambda>n. UpdateHeartbeat (n_id n) t) ?ns po"
  obtain v' new where run: "ProcessHearbeat tx t msg (v, po) = Inr (v', ?po)" "v_sent v' = v_sent v @ new"
    "map (\<lambda>m. (msg_cmd m, m_recver (msg_meta m))) new = (if v_is_scheduler v then map (\<lambda>n. (HEARTBEAT, n_id n)) ?ns else [])"
    using heartbeat_loop [OF assms(1,2), of t ?ns po] unfolding ProcessHearbeat_def by blast
  show ?thesis
  proof (cases "rdy \<and> timeout \<noteq> 0")
    case False
    then have "GetDeadNodes rdy now timeout ?po = Inr []" "dead = []" using assms(3) by (auto simp: GetDeadNodes_def)
    with run show ?thesis by (intro exI [of _ v'] exI [of _ ?po] exI [of _ new] exI [of _ "[]"]) simp
  next
    case True
    then obtain nodes where nodes: "GetNodeIDs po (if po_is_scheduler po then kWorkerGroup + kServerGroup else kScheduler) = Inr nodes"
      "dead = filter (\<lambda>r. (case umap_find (po_heartbeats po) r of None \<Rightarrow> True | Some seen \<Rightarrow> seen + timeout < now) \<and>
        po_start_time po + timeout < now) nodes"
      using assms(3) by (auto simp: GetDeadNodes_def res_simps)
    let ?dead = "filter (\<lambda>r. (case umap_find (po_heartbeats ?po) r of None \<Rightarrow> True | Some seen \<Rightarrow> seen + timeout < now) \<and>
        po_start_time po + timeout < now) nodes"
    have "GetDeadNodes rdy now timeout ?po = Inr ?dead" using True nodes(1) by (simp add: GetDeadNodes_def)
    moreover have "\<forall>r. r \<in> n_id ` set ?ns \<longrightarrow> now \<le> t + timeout \<longrightarrow> r \<notin> set ?dead" by (auto simp: heartbeat_table)
    moreover have "\<forall>r. r \<notin> n_id ` set ?ns \<longrightarrow> (r \<in> set ?dead \<longleftrightarrow> r \<in> set dead)" by (auto simp: heartbeat_table nodes(2))
    ultimately show ?thesis
      using run by (intro exI [of _ v'] exI [of _ ?po] exI [of _ new] exI [of _ ?dead]) blast
  qed
qed

theorem heartbeat_keeps_alive_witness:
  "\<exists>v' po' dead'. ProcessHearbeat (\<lambda>_. 1) 95 (Message0\<lparr>msg_meta := Meta0\<lparr>m_control := Control0
       \<lparr>c_cmd := HEARTBEAT, c_node := [example_node\<lparr>n_id := 1\<rparr>]\<rparr>\<rparr>\<rparr>) (Van_new example_env example_node, example_po) = Inr (v', po') \<and>
     GetDeadNodes True 100 10 example_po = Inr [1] \<and> GetDeadNodes True 100 10 po' = Inr dead' \<and> 1 \<notin> set dead'"
proof -
  let ?msg = "Message0\<lparr>msg_meta := Meta0\<lparr>m_control := Control0\<lparr>c_cmd := HEARTBEAT, c_node := [example_node\<lparr>n_id := 1\<rparr>]\<rparr>\<rparr>\<rparr>"
  have po: "po_heartbeats example_po = []" "po_start_time example_po = 0" "\<not> po_is_scheduler example_po"
    by (simp_all add: example_po_def Postoffice_Start_init_def InitEnvironment_def Van_Create_def
        check_notnull_def set_role_def example_env_def example_flags_def Postoffice_new_def env_eval)
  have dead: "GetDeadNodes True 100 10 example_po = Inr [1]"
    using po node_id_entry_groups(3) [of example_po]
    by (simp add: GetDeadNodes_def GetNodeIDs_ready [OF example_po_ready] kScheduler_def)
  have "v_resender (Van_new example_env example_node) = None" by (simp add: Van_new_def)
  from heartbeat_keeps_alive [of "\<lambda>_. 1", OF _ this dead, of 95 ?msg] dead show ?thesis by auto
qed

end
