(* ===== verification/SimpleApp.thy ===== *)
theory SimpleApp
  imports Customer
begin

text \<open>
  \<^verbatim>\<open>include/ps/simple_app.h\<close>: requests that carry an integer and a string.  The messages handed
  to \<^verbatim>\<open>Van::Send\<close> are returned in order.  The two handlers are functions on the state \<open>'s\<close> of the
  application that owns the handle; an empty \<^verbatim>\<open>std::function\<close> is \<open>None\<close>.
\<close>

section \<open>Data and operations\<close>

record simple_data =
  sd_head :: int
  sd_body :: string
  sd_sender :: int
  sd_timestamp :: int
  sd_customer_id :: int

record 's simple_handles =
  sh_request :: "(simple_data \<Rightarrow> 's \<Rightarrow> 's res) option"
  sh_response :: "(simple_data \<Rightarrow> 's \<Rightarrow> 's res) option"

definition simple_set_request_handle ::
  "(simple_data \<Rightarrow> 's \<Rightarrow> 's res) option \<Rightarrow> 's simple_handles \<Rightarrow> 's simple_handles res" where
  "simple_set_request_handle h hs =
     PS_CHECK (h \<noteq> None) ''invalid request handle'' (Inr (hs\<lparr>sh_request := h\<rparr>))"

definition simple_set_response_handle ::
  "(simple_data \<Rightarrow> 's \<Rightarrow> 's res) option \<Rightarrow> 's simple_handles \<Rightarrow> 's simple_handles res" where
  "simple_set_response_handle h hs =
     PS_CHECK (h \<noteq> None) ''invalid response handle'' (Inr (hs\<lparr>sh_response := h\<rparr>))"

definition simple_Request ::
  "postoffice \<Rightarrow> 64 word \<Rightarrow> int \<Rightarrow> string \<Rightarrow> int \<Rightarrow> customer \<Rightarrow> (customer \<times> int \<times> message list) res" where
  "simple_Request po now req_head req_body recv_id c =
     (let m0 = upd_meta (\<lambda>m. m\<lparr>m_head := req_head\<rparr>) Message0;
          m1 = (if length req_body \<noteq> 0 then upd_meta (\<lambda>m. m\<lparr>m_body := req_body\<rparr>) m0 else m0)
      in bindR (NewRequest po now recv_id c) (\<lambda>(c', ts).
         let msg = upd_meta (\<lambda>m. m\<lparr>m_timestamp := ts, m_request := True, m_simple_app := True,
                                   m_app_id := cu_app_id c', m_customer_id := cu_customer_id c'\<rparr>) m1
         in bindR (GetNodeIDs po recv_id) (\<lambda>ids.
            Inr (c', ts, map (\<lambda>r. upd_meta (\<lambda>m. m\<lparr>m_recver := r\<rparr>) msg) ids))))"

definition simple_Response :: "customer \<Rightarrow> simple_data \<Rightarrow> string \<Rightarrow> message" where
  "simple_Response c req res_body =
     (let m0 = upd_meta (\<lambda>m. m\<lparr>m_head := sd_head req\<rparr>) Message0;
          m1 = (if length res_body \<noteq> 0 then upd_meta (\<lambda>m. m\<lparr>m_body := res_body\<rparr>) m0 else m0)
      in upd_meta (\<lambda>m. m\<lparr>m_timestamp := sd_timestamp req, m_request := False, m_simple_app := True,
                         m_app_id := cu_app_id c, m_customer_id := sd_customer_id req,
                         m_recver := sd_sender req\<rparr>) m1)"

definition simple_Process :: "'s simple_handles \<Rightarrow> message \<Rightarrow> 's \<Rightarrow> 's res" where
  "simple_Process hs msg s =
     (let recv = \<lparr>sd_head = m_head (msg_meta msg), sd_body = m_body (msg_meta msg),
                  sd_sender = m_sender (msg_meta msg), sd_timestamp = m_timestamp (msg_meta msg),
                  sd_customer_id = m_customer_id (msg_meta msg)\<rparr>
      in if m_request (msg_meta msg)
         then (case sh_request hs of None \<Rightarrow> Inl (CheckFailed ''request_handle_'') | Some h \<Rightarrow> h recv s)
         else (case sh_response hs of None \<Rightarrow> Inl (CheckFailed ''response_handle_'') | Some h \<Rightarrow> h recv s))"

text \<open>A \<^verbatim>\<open>SimpleApp\<close> on its own: its customer and the messages it has sent.\<close>

type_synonym simple_app = "customer \<times> message list"

definition simple_handles0 :: "simple_app simple_handles" where
  "simple_handles0 =
     \<lparr>sh_request = Some (\<lambda>recved (c, sent). Inr (c, sent @ [simple_Response c recved []])),
      sh_response = Some (\<lambda>recved s. Inr s)\<rparr>"

section \<open>Properties\<close>

lemma NewRequest_server_ids:
  assumes "NewRequest po now recv_id c = Inr (c', ts)" and "node_ids_ready po"
    and "0 < po_group_size po" and "0 \<le> po_num_servers po"
  shows "recv_id = kServerGroup \<and> GetNodeIDs po kServerGroup = Inr (server_ids po) \<and>
    tr_count (cu_tracker c' ! nat ts) = po_num_servers po"
proof -
  from assms(1) obtain ids where ids: "recv_id = kServerGroup" "GetNodeIDs po kServerGroup = Inr ids"
    by (auto simp: NewRequest_def res_simps)
  then have "ids = server_ids po"
    using GetNodeIDs_ready [OF assms(2), of kServerGroup] node_id_entry_groups(2) [of po]
    by (auto simp: group_defs split: if_splits)
  with ids NewRequest_count [OF assms(1) _ assms(3,4)] show ?thesis by simp
qed

lemma simple_Response_fields:
  "msg_cmd (simple_Response c d b) = EMPTY" "m_request (msg_meta (simple_Response c d b)) = False"
  "m_timestamp (msg_meta (simple_Response c d b)) = sd_timestamp d"
  "m_recver (msg_meta (simple_Response c d b)) = sd_sender d"
  "m_customer_id (msg_meta (simple_Response c d b)) = sd_customer_id d"
  by (simp_all add: simple_Response_def Let_def Message0_def Meta0_def Control0_def)

text \<open>The message as the receiver sees it: \<^verbatim>\<open>Van::RecvMsg\<close> has filled in the sender.\<close>

definition received_from :: "int \<Rightarrow> message \<Rightarrow> message" where
  "received_from i m = upd_meta (\<lambda>mt. mt\<lparr>m_sender := i\<rparr>) m"

text \<open>What a remote \<^verbatim>\<open>SimpleApp\<close> with the default handlers answers to one request.\<close>

definition answer :: "customer \<Rightarrow> int \<Rightarrow> message \<Rightarrow> message list res" where
  "answer c sender m = bindR (simple_Process simple_handles0 (received_from sender m) (c, [])) (\<lambda>(c, sent). Inr sent)"

text \<open>
  C38: a request to the server group is a broadcast: every server instance gets exactly one copy
  with the same timestamp, and a remote application with the default handlers answers each copy
  with exactly one response, addressed to the requesting node and customer and counted for the
  request.  The request expects one response per server group, so with more than one instance
  per group it gets \<open>group_size\<close> times the number of responses it waits for.
\<close>

theorem simple_request_answers:
  assumes req: "simple_Request po now head body recv_id c = Inr (c', ts, ms)"
    and po: "node_ids_ready po" "0 < po_group_size po" "0 \<le> po_num_servers po"
  shows "recv_id = kServerGroup \<and> map (\<lambda>m. m_recver (msg_meta m)) ms = server_ids po \<and>
    tr_count (cu_tracker c' ! nat ts) = po_num_servers po \<and>
    int (length ms) = po_group_size po * tr_count (cu_tracker c' ! nat ts) \<and>
    (\<forall>m\<in>set ms. \<exists>r. answer d me m = Inr [r] \<and> is_response_to ts r \<and> m_recver (msg_meta r) = me \<and>
       m_customer_id (msg_meta r) = cu_customer_id c' \<and> m_head (msg_meta m) = head \<and> m_body (msg_meta m) = body)"
proof -
  obtain ids where nr: "NewRequest po now recv_id c = Inr (c', ts)" "GetNodeIDs po recv_id = Inr ids"
    and ms: "ms = map (\<lambda>r. upd_meta (\<lambda>m. m\<lparr>m_recver := r\<rparr>)
        (upd_meta (\<lambda>m. m\<lparr>m_timestamp := ts, m_request := True, m_simple_app := True,
            m_app_id := cu_app_id c', m_customer_id := cu_customer_id c'\<rparr>)
          (if length body \<noteq> 0 then upd_meta (\<lambda>m. m\<lparr>m_body := body\<rparr>) (upd_meta (\<lambda>m. m\<lparr>m_head := head\<rparr>) Message0)
           else upd_meta (\<lambda>m. m\<lparr>m_head := head\<rparr>) Message0))) ids"
    using req unfolding simple_Request_def Let_def by (auto simp: res_simps)
  note s = NewRequest_server_ids [OF nr(1) po]
  then have ids: "ids = server_ids po" using nr(2) by simp
  have len: "int (length (server_ids po)) = po_group_size po * po_num_servers po"
    using po by (simp add: num_server_instances_def)
  have ans: "\<exists>r. answer d me m = Inr [r] \<and> is_response_to ts r \<and> m_recver (msg_meta r) = me \<and>
       m_customer_id (msg_meta r) = cu_customer_id c' \<and> m_head (msg_meta m) = head \<and> m_body (msg_meta m) = body"
    if "m \<in> set ms" for m
  proof -
    have f: "m_request (msg_meta m)" "m_timestamp (msg_meta m) = ts" "m_customer_id (msg_meta m) = cu_customer_id c'"
      "m_head (msg_meta m) = head" "m_body (msg_meta m) = body"
      using that by (auto simp: ms Message0_def Meta0_def)
    then show ?thesis
      by (simp add: answer_def simple_Process_def simple_handles0_def received_from_def Let_def
          simple_Response_fields is_response_to_def)
  qed
  have "map (\<lambda>m. m_recver (msg_meta m)) ms = server_ids po"
    by (simp add: ms ids comp_def)
  moreover have "length ms = length (server_ids po)" by (simp add: ms ids)
  ultimately show ?thesis using s len ans by simp
qed

lemma example_server_ids: "GetNodeIDs example_po kServerGroup = Inr (server_ids example_po)"
proof -
  have "node_id_entry example_po kServerGroup = server_ids example_po"
    using node_id_entry_groups(2) [of example_po] by (simp add: group_defs)
  moreover have "server_ids example_po \<noteq> []" by (simp add: example_po_sizes)
  ultimately show ?thesis using GetNodeIDs_ready [OF example_po_ready, of kServerGroup] by simp
qed

theorem simple_request_answers_witness:
  "\<exists>c' ts ms. simple_Request example_po 0 7 ''hi'' kServerGroup example_customer = Inr (c', ts, ms) \<and>
     length ms = 4 \<and> tr_count (cu_tracker c' ! nat ts) = 2"
proof -
  obtain c' ts ms where req: "simple_Request example_po 0 7 ''hi'' kServerGroup example_customer = Inr (c', ts, ms)"
    by (simp add: simple_Request_def NewRequest_def Let_def example_server_ids size_div_def example_po_sizes)
  from simple_request_answers [OF req example_po_ready, of example_customer 9] show ?thesis
    by (intro exI [of _ c'] exI [of _ ts] exI [of _ ms]) (auto simp: req example_po_sizes)
qed

end
