(* ===== verification/KV.thy ===== *)
theory KV
  imports SimpleApp
begin

text \<open>
  \<^verbatim>\<open>include/ps/kv_app.h\<close>: the key-value application.  A worker slices a sorted list of key-value
  pairs by the key ranges of the servers, sends one message per server that gets any key, and
  collects the replies of a pull; a server decodes requests, hands them to its handle and
  replies.  The value type \<^verbatim>\<open>Val\<close> is a parameter: its C++ type and the encoder, decoder and
  width of its object representation.  The messages handed to \<^verbatim>\<open>Van::Send\<close> are kept in order.
\<close>

section \<open>Arrays\<close>

text \<open>
  An \<^verbatim>\<open>SArray\<close> by its elements, its address and its device fields.  The pointer of a default
  constructed array is indeterminate in the source and is 0 here.
\<close>

record 'v sarray =
  s_elems :: "'v list"
  s_addr :: "64 word"
  s_src_type :: DeviceType
  s_src_id :: int
  s_dst_type :: DeviceType
  s_dst_id :: int

definition SArray0 :: "'v sarray" where
  "SArray0 = \<lparr>s_elems = [], s_addr = 0, s_src_type = CPU, s_src_id = 0, s_dst_type = CPU, s_dst_id = 0\<rparr>"

abbreviation s_size :: "'v sarray \<Rightarrow> nat" where
  "s_size a \<equiv> length (s_elems a)"

text \<open>The converting assignments from and to \<^verbatim>\<open>SArray<char>\<close>.\<close>

definition to_chars :: "('v \<Rightarrow> byte list) \<Rightarrow> 'v sarray \<Rightarrow> sarr" where
  "to_chars enc a = \<lparr>sa_bytes = enc_array enc (s_elems a), sa_addr = s_addr a, sa_src_type = s_src_type a,
     sa_src_id = s_src_id a, sa_dst_type = s_dst_type a, sa_dst_id = s_dst_id a\<rparr>"

definition of_chars :: "(byte list \<Rightarrow> 'v) \<Rightarrow> nat \<Rightarrow> sarr \<Rightarrow> 'v sarray res" where
  "of_chars dec w b =
     (let n = length (sa_bytes b) div w
      in PS_CHECK (n * w = length (sa_bytes b)) ''cannot be divided''
         (Inr \<lparr>s_elems = dec_array dec w n (sa_bytes b), s_addr = sa_addr b, s_src_type = sa_src_type b,
               s_src_id = sa_src_id b, s_dst_type = sa_dst_type b, s_dst_id = sa_dst_id b\<rparr>))"

text \<open>\<^verbatim>\<open>segment\<close>, \<^verbatim>\<open>clear\<close>, \<^verbatim>\<open>front\<close> and \<^verbatim>\<open>back\<close>; \<open>w\<close> is the size of an element.\<close>

definition segment :: "nat \<Rightarrow> int \<Rightarrow> int \<Rightarrow> 'v sarray \<Rightarrow> 'v sarray res" where
  "segment w b e a =
     PS_CHECK (b \<le> e) ''end''
      (PS_CHECK (e \<le> int (s_size a)) ''end''
        (Inr (a\<lparr>s_elems := take (nat (e - b)) (drop (nat b) (s_elems a)),
                s_addr := s_addr a + word_of_int b * of_nat w\<rparr>)))"

definition sarray_clear :: "'v sarray \<Rightarrow> 'v sarray" where
  "sarray_clear a = SArray0"

definition sarray_front :: "'v sarray \<Rightarrow> 'v res" where
  "sarray_front a = PS_CHECK (s_elems a \<noteq> []) ''!empty()'' (Inr (hd (s_elems a)))"

definition sarray_back :: "'v sarray \<Rightarrow> 'v res" where
  "sarray_back a = PS_CHECK (s_elems a \<noteq> []) ''!empty()'' (Inr (List.last (s_elems a)))"

definition FindRange :: "64 word sarray \<Rightarrow> 64 word \<Rightarrow> 64 word \<Rightarrow> Range" where
  "FindRange arr lower upper =
     (if upper \<le> lower then \<lparr>r_begin = 0, r_end = 0\<rparr>
      else \<lparr>r_begin = of_nat (lower_bound (s_elems arr) lower),
            r_end = of_nat (lower_bound (s_elems arr) upper)\<rparr>)"

text \<open>How values of type \<^verbatim>\<open>Val\<close> look in memory.\<close>

record 'v valtype =
  vt_cxx :: cxx_type
  vt_enc :: "'v \<Rightarrow> byte list"
  vt_dec :: "byte list \<Rightarrow> 'v"
  vt_width :: nat

section \<open>Key-value pairs and the slicer\<close>

record 'v kvpairs =
  kv_keys :: "key sarray"
  kv_vals :: "'v sarray"
  kv_lens :: "int sarray"

definition KVPairs0 :: "'v kvpairs" where
  "KVPairs0 = \<lparr>kv_keys = SArray0, kv_vals = SArray0, kv_lens = SArray0\<rparr>"

text \<open>
  The loop that finds the positions: \<open>begin\<close> always points at the element \<open>pos[i]\<close>.  The result
  is \<^verbatim>\<open>pos[i + 1]\<close>, ..., \<^verbatim>\<open>pos[n]\<close>.
\<close>

fun pos_loop :: "Range option \<Rightarrow> Range list \<Rightarrow> key list \<Rightarrow> nat \<Rightarrow> nat list res" where
  "pos_loop prev [] keys p = Inr []"
| "pos_loop prev (r # rs) keys p =
     PS_CHECK (case prev of None \<Rightarrow> True | Some q \<Rightarrow> r_end q = r_begin r) ''ranges''
      (let p' = p + lower_bound (drop p keys) (r_end r)
       in bindR (pos_loop (Some r) rs keys p') (\<lambda>ps. Inr (p' # ps)))"

definition slice_positions :: "key list \<Rightarrow> Range list \<Rightarrow> nat list res" where
  "slice_positions keys ranges =
     (let p0 = (case ranges of [] \<Rightarrow> 0 | r # _ \<Rightarrow> lower_bound keys (r_begin r))
      in bindR (pos_loop None ranges keys p0) (\<lambda>ps. Inr (p0 # ps)))"

text \<open>
  The slicing loop over the pairs \<^verbatim>\<open>pos[i]\<close>, \<^verbatim>\<open>pos[i + 1]\<close>.  \<open>val_begin\<close> is the running position
  in the values when lengths are given; \<^verbatim>\<open>val_end\<close> equals it at the start of each turn.
\<close>

fun slice_loop ::
  "nat \<Rightarrow> nat \<Rightarrow> 'v kvpairs \<Rightarrow> nat list \<Rightarrow> int \<Rightarrow> (bool \<times> 'v kvpairs) list res" where
  "slice_loop w k send (p # p' # ps) val_begin =
     (if p' = p
      then bindR (slice_loop w k send (p' # ps) val_begin) (\<lambda>ss. Inr ((False, KVPairs0) # ss))
      else bindR (segment 8 (int p) (int p') (kv_keys send)) (\<lambda>keys.
        if s_elems (kv_lens send) \<noteq> []
        then bindR (segment 4 (int p) (int p') (kv_lens send)) (\<lambda>lens.
             let val_end = val_begin + sum_list (s_elems lens)
             in bindR (segment w val_begin val_end (kv_vals send)) (\<lambda>vals.
                bindR (slice_loop w k send (p' # ps) val_end) (\<lambda>ss.
                  Inr ((True, \<lparr>kv_keys = keys, kv_vals = vals, kv_lens = lens\<rparr>) # ss))))
        else bindR (segment w (int (p * k)) (int (p' * k)) (kv_vals send)) (\<lambda>vals.
             bindR (slice_loop w k send (p' # ps) val_begin) (\<lambda>ss.
               Inr ((True, \<lparr>kv_keys = keys, kv_vals = vals, kv_lens = SArray0\<rparr>) # ss)))))"
| "slice_loop w k send ps val_begin = Inr []"

definition DefaultSlicer :: "nat \<Rightarrow> 'v kvpairs \<Rightarrow> Range list \<Rightarrow> (bool \<times> 'v kvpairs) list res" where
  "DefaultSlicer w send ranges =
     bindR (slice_positions (s_elems (kv_keys send)) ranges) (\<lambda>pos.
       PS_CHECK (List.last pos = s_size (kv_keys send)) ''pos[n]''
        (if s_elems (kv_keys send) = [] then Inr (map (\<lambda>_. (False, KVPairs0)) ranges)
         else let k = s_size (kv_vals send) div s_size (kv_keys send)
              in PS_CHECK (if s_elems (kv_lens send) = []
                           then k * s_size (kv_keys send) = s_size (kv_vals send)
                           else s_size (kv_keys send) = s_size (kv_lens send)) ''vals''
                 (slice_loop w k send pos 0)))"

section \<open>The worker\<close>

text \<open>
  Callbacks are data: a function of the application (by number); the closure that \<^verbatim>\<open>Pull_\<close>
  registers with the timestamp, the keys, the result buffers and the application's callback; or
  the closure of a tensor worker that drops the replies with a timestamp.
  \<open>kw_vals\<close> and \<open>kw_lens\<close> are the buffers of the application that a pull fills; \<open>kw_called\<close> logs
  the application's callbacks that have run; \<open>kw_first\<close> is \<^verbatim>\<open>Postoffice::GetWorker()\<close>.
\<close>

datatype callback =
    UserCb nat
  | PullCb int "key sarray" nat "nat option" "nat option"
  | EraseCb int

record 'v kvworker =
  kw_is_worker_zpull :: bool
  kw_recv_kvs :: "(int, 'v kvpairs list) umap"
  kw_callbacks :: "(int, callback) umap"
  kw_instance_idx :: int
  kw_po :: postoffice
  kw_first :: postoffice
  kw_sent :: "message list"
  kw_vals :: "nat \<Rightarrow> 'v sarray"
  kw_lens :: "nat \<Rightarrow> int sarray"
  kw_called :: "nat list"

definition worker_zpull :: "environment \<Rightarrow> bool" where
  "worker_zpull e =
     (let val = env_find e ''DMLC_ENABLE_RDMA''; enable_ucx = env_find e ''DMLC_ENABLE_UCX''
      in if enable_ucx \<noteq> None \<and> the enable_ucx = ''1'' then True
         else if val = None \<or> the val = ''0'' \<or> the val = ''zmq'' then False
         else True)"

definition KVWorker_new ::
  "environment \<Rightarrow> po_static \<Rightarrow> int \<Rightarrow> int \<Rightarrow> int \<Rightarrow> customer_ptr \<Rightarrow> (nat \<Rightarrow> 'v sarray) \<Rightarrow> (nat \<Rightarrow> int sarray) \<Rightarrow>
     (customer \<times> 'v kvworker) res" where
  "KVWorker_new e st app_id customer_id instance_idx ptr vals lens =
     bindR (Postoffice_GetWorker st instance_idx) (\<lambda>po.
     bindR (Postoffice_GetWorker st 0) (\<lambda>po0.
     PS_CHECK (po_group_size po > instance_idx) ''group_size''
      (bindR (Customer_new app_id customer_id ptr po) (\<lambda>(c, po').
        Inr (c, \<lparr>kw_is_worker_zpull = worker_zpull e, kw_recv_kvs = [], kw_callbacks = [],
                 kw_instance_idx = instance_idx, kw_po = po', kw_first = (if instance_idx = 0 then po' else po0),
                 kw_sent = [], kw_vals = vals, kw_lens = lens, kw_called = []\<rparr>)))))"

definition KVWorker_SendMsg :: "message \<Rightarrow> int \<Rightarrow> customer \<times> 'v kvworker \<Rightarrow> customer \<times> 'v kvworker" where
  "KVWorker_SendMsg msg dst = (\<lambda>(c, k).
     let instance_server_id = GroupServerRankToInstanceID (kw_po k) dst (kw_instance_idx k);
         msg' = upd_meta (\<lambda>m. m\<lparr>m_app_id := cu_app_id c, m_customer_id := cu_customer_id c,
                                 m_recver := instance_server_id\<rparr>) msg
     in (c, k\<lparr>kw_sent := kw_sent k @ [msg']\<rparr>))"

definition AddCallback :: "int \<Rightarrow> callback option \<Rightarrow> 'v kvworker \<Rightarrow> 'v kvworker" where
  "AddCallback timestamp cb k =
     (case cb of None \<Rightarrow> k | Some f \<Rightarrow> k\<lparr>kw_callbacks := umap_set timestamp f (kw_callbacks k)\<rparr>)"

definition EraseRecvKvs :: "int \<Rightarrow> 'v kvworker \<Rightarrow> 'v kvworker" where
  "EraseRecvKvs ts k = k\<lparr>kw_recv_kvs := umap_erase ts (kw_recv_kvs k)\<rparr>"

definition AllocTimestamp :: "64 word \<Rightarrow> customer \<times> 'v kvworker \<Rightarrow> ((customer \<times> 'v kvworker) \<times> int) res" where
  "AllocTimestamp now = (\<lambda>(c, k).
     bindR (NewRequest (kw_po k) now kServerGroup c) (\<lambda>(c', ts). Inr ((c', k), ts)))"

subsection \<open>The callback of a pull\<close>

text \<open>The checks over the replies; the result is \<^verbatim>\<open>total_key\<close> and \<^verbatim>\<open>total_val\<close>.\<close>

definition check_reply ::
  "key sarray \<Rightarrow> bool \<Rightarrow> 'v kvpairs \<Rightarrow> nat \<times> nat \<Rightarrow> (nat \<times> nat) res" where
  "check_reply keys with_lens s = (\<lambda>(total_key, total_val).
     bindR (sarray_front (kv_keys s)) (\<lambda>lo.
     bindR (sarray_back (kv_keys s)) (\<lambda>hi.
       PS_CHECK (range_size (FindRange keys lo (hi + 1)) = of_nat (s_size (kv_keys s))) ''unmatched keys size from one server''
        (PS_CHECK (with_lens \<longrightarrow> s_size (kv_lens s) = s_size (kv_keys s)) ''lens''
          (Inr (total_key + s_size (kv_keys s), total_val + s_size (kv_vals s)))))))"

definition reply_before :: "'v kvpairs \<Rightarrow> 'v kvpairs \<Rightarrow> bool" where
  "reply_before a b \<longleftrightarrow> hd (s_elems (kv_keys a)) < hd (s_elems (kv_keys b))"

text \<open>\<^verbatim>\<open>resize\<close> of the application's buffer, seen through its contents, and a copy into it.\<close>

definition fill_to :: "nat \<Rightarrow> 'v::zero sarray \<Rightarrow> 'v sarray" where
  "fill_to n a = a\<lparr>s_elems := take n (s_elems a) @ replicate (n - s_size a) 0\<rparr>"

definition copy_at :: "nat \<Rightarrow> 'a list \<Rightarrow> 'a list \<Rightarrow> 'a list" where
  "copy_at p xs buf = take p buf @ xs @ drop (p + length xs) buf"

fun copy_replies ::
  "'v kvpairs list \<Rightarrow> nat \<Rightarrow> nat \<Rightarrow> 'v list \<Rightarrow> int list option \<Rightarrow> 'v list \<times> int list option" where
  "copy_replies [] p_vals p_lens vbuf lbuf = (vbuf, lbuf)"
| "copy_replies (s # ss) p_vals p_lens vbuf lbuf =
     copy_replies ss (p_vals + s_size (kv_vals s)) (p_lens + s_size (kv_lens s))
       (copy_at p_vals (s_elems (kv_vals s)) vbuf)
       (map_option (copy_at p_lens (s_elems (kv_lens s))) lbuf)"

text \<open>
  The buffers before the copy: filled up if empty; otherwise that of the values must be large
  enough, and that of the lengths must have the right size.
\<close>

definition vals_buffer :: "nat \<Rightarrow> 'v::zero sarray \<Rightarrow> 'v sarray res" where
  "vals_buffer n vals =
     (if s_elems vals = [] then Inr (fill_to n vals)
      else PS_CHECK (n \<le> s_size vals) ''vals->size()'' (Inr vals))"

definition lens_buffer :: "nat \<Rightarrow> int sarray \<Rightarrow> int sarray res" where
  "lens_buffer n lens =
     (if s_elems lens = [] then Inr (fill_to n lens)
      else PS_CHECK (s_size lens = n) ''lens->size()'' (Inr lens))"

definition run_pull ::
  "int \<Rightarrow> key sarray \<Rightarrow> nat \<Rightarrow> nat option \<Rightarrow> nat option \<Rightarrow> 'v::zero kvworker \<Rightarrow> 'v kvworker res" where
  "run_pull ts keys vals lens cb k =
     (let kvs = umap_index [] (kw_recv_kvs k) ts in
      bindR (foldR (check_reply keys (lens \<noteq> None)) kvs (0, 0)) (\<lambda>(total_key, total_val).
      PS_CHECK (total_key = s_size keys) ''lost some servers?''
       (let sorted_kvs = std_sort reply_before kvs
        in bindR (vals_buffer total_val (kw_vals k vals)) (\<lambda>vbuf.
           bindR (if kw_is_worker_zpull k then Inr (k\<lparr>kw_vals := (kw_vals k)(vals := vbuf)\<rparr>)
                  else case lens of
                    None \<Rightarrow>
                      (let (vs, _) = copy_replies sorted_kvs 0 0 (s_elems vbuf) None
                       in Inr (k\<lparr>kw_vals := (kw_vals k)(vals := vbuf\<lparr>s_elems := vs\<rparr>)\<rparr>))
                  | Some l \<Rightarrow>
                      bindR (lens_buffer (s_size keys) (kw_lens k l)) (\<lambda>lbuf.
                      let (vs, ls) = copy_replies sorted_kvs 0 0 (s_elems vbuf) (Some (s_elems lbuf))
                      in Inr (k\<lparr>kw_vals := (kw_vals k)(vals := vbuf\<lparr>s_elems := vs\<rparr>),
                                kw_lens := (kw_lens k)(l := lbuf\<lparr>s_elems := the ls\<rparr>)\<rparr>))) (\<lambda>k1.
             Inr (k1\<lparr>kw_recv_kvs := umap_erase ts (kw_recv_kvs k1),
                     kw_called := kw_called k1 @ (case cb of None \<Rightarrow> [] | Some f \<Rightarrow> [f])\<rparr>))))))"

definition run_callback :: "callback \<Rightarrow> 'v::zero kvworker \<Rightarrow> 'v kvworker res" where
  "run_callback cb k =
     (case cb of
        UserCb f \<Rightarrow> Inr (k\<lparr>kw_called := kw_called k @ [f]\<rparr>)
      | PullCb ts keys vals lens f \<Rightarrow> run_pull ts keys vals lens f k
      | EraseCb ts \<Rightarrow> Inr (EraseRecvKvs ts k))"

definition RunCallback :: "int \<Rightarrow> 'v::zero kvworker \<Rightarrow> 'v kvworker res" where
  "RunCallback timestamp k =
     (if kw_callbacks k = [] then Inr k
      else case umap_find (kw_callbacks k) timestamp of
             None \<Rightarrow> Inr k
           | Some cb \<Rightarrow> bindR (run_callback cb k) (\<lambda>k'.
               Inr (k'\<lparr>kw_callbacks := umap_erase timestamp (kw_callbacks k')\<rparr>)))"

subsection \<open>Sending\<close>

text \<open>The payload of a request or a reply: keys and values, and lengths if there are any.\<close>

definition add_kvs :: "'v valtype \<Rightarrow> 'v kvpairs \<Rightarrow> message \<Rightarrow> message res" where
  "add_kvs vt kvs msg =
     (if s_elems (kv_keys kvs) \<noteq> []
      then bindR (AddData Ty_uint64 (to_chars u64_bytes (kv_keys kvs)) msg) (\<lambda>m1.
           bindR (AddData (vt_cxx vt) (to_chars (vt_enc vt) (kv_vals kvs)) m1) (\<lambda>m2.
             if s_elems (kv_lens kvs) \<noteq> []
             then AddData Ty_int32 (to_chars i32_bytes (kv_lens kvs)) m2 else Inr m2))
      else Inr msg)"

text \<open>The message for one slice; \<open>vt\<close> describes the value type.\<close>

definition slice_msg ::
  "'v valtype \<Rightarrow> customer \<Rightarrow> int \<Rightarrow> bool \<Rightarrow> int \<Rightarrow> int \<Rightarrow> 'v kvpairs \<Rightarrow> message res" where
  "slice_msg vt c timestamp push cmd recver kvs =
     (let msg = upd_meta (\<lambda>m. m\<lparr>m_app_id := cu_app_id c, m_customer_id := cu_customer_id c,
            m_request := True, m_push := push, m_head := cmd, m_timestamp := timestamp,
            m_recver := recver, m_addr := s_addr (kv_vals kvs),
            m_val_len := to_int32 (int (s_size (kv_vals kvs)))\<rparr>) Message0;
          kvs' = (if \<not> push then kvs\<lparr>kv_vals := sarray_clear (kv_vals kvs)\<rparr> else kvs)
      in bindR (add_kvs vt kvs' msg) (\<lambda>msg'.
         Inr (if \<not> push
              then upd_meta (\<lambda>m. m\<lparr>m_src_dev_type := s_src_type (kv_vals kvs), m_src_dev_id := s_src_id (kv_vals kvs),
                     m_dst_dev_type := s_dst_type (kv_vals kvs), m_dst_dev_id := s_dst_id (kv_vals kvs)\<rparr>) msg'
              else msg')))"

fun send_slices ::
  "'v valtype \<Rightarrow> customer \<Rightarrow> int \<Rightarrow> bool \<Rightarrow> int \<Rightarrow> int \<Rightarrow> (bool \<times> 'v kvpairs) list \<Rightarrow> 'v kvworker \<Rightarrow> 'v kvworker res" where
  "send_slices vt c timestamp push cmd i [] k = Inr k"
| "send_slices vt c timestamp push cmd i ((used, kvs) # ss) k =
     (if \<not> used then send_slices vt c timestamp push cmd (i + 1) ss k
      else bindR (slice_msg vt c timestamp push cmd
                    (GroupServerRankToInstanceID (kw_po k) i (kw_instance_idx k)) kvs) (\<lambda>msg.
           send_slices vt c timestamp push cmd (i + 1) ss (k\<lparr>kw_sent := kw_sent k @ [msg]\<rparr>)))"

type_synonym 'v slicer = "'v kvpairs \<Rightarrow> Range list \<Rightarrow> (bool \<times> 'v kvpairs) list res"

definition KVWorker_Send ::
  "'v valtype \<Rightarrow> 'v::zero slicer \<Rightarrow> int \<Rightarrow> bool \<Rightarrow> int \<Rightarrow> 'v kvpairs \<Rightarrow>
     customer \<times> 'v kvworker \<Rightarrow> (customer \<times> 'v kvworker) res" where
  "KVWorker_Send vt slicer timestamp push cmd kvs = (\<lambda>(c, k).
     let (first', ranges) = GetServerKeyRanges (kw_first k);
         k1 = k\<lparr>kw_first := first'\<rparr>
     in bindR (slicer kvs ranges) (\<lambda>sliced.
        let skipped = length (filter (\<lambda>s. \<not> fst s) sliced)
        in bindR (AddResponse timestamp (int skipped) c) (\<lambda>c'.
           bindR (if skipped = length sliced then RunCallback timestamp k1 else Inr k1) (\<lambda>k2.
           bindR (send_slices vt c' timestamp push cmd 0 sliced k2) (\<lambda>k3. Inr (c', k3))))))"

definition ZPush ::
  "'v valtype \<Rightarrow> 'v::zero slicer \<Rightarrow> 64 word \<Rightarrow> key sarray \<Rightarrow> 'v sarray \<Rightarrow> int sarray \<Rightarrow> int \<Rightarrow> nat option \<Rightarrow>
     customer \<times> 'v kvworker \<Rightarrow> ((customer \<times> 'v kvworker) \<times> int) res" where
  "ZPush vt slicer now keys vals lens cmd cb = (\<lambda>(c, k).
     bindR (NewRequest (kw_po k) now kServerGroup c) (\<lambda>(c', ts).
     let k1 = AddCallback ts (map_option UserCb cb) k;
         kvs = \<lparr>kv_keys = keys, kv_vals = vals, kv_lens = lens\<rparr>
     in bindR (KVWorker_Send vt slicer ts True cmd kvs (c', k1)) (\<lambda>s. Inr (s, ts))))"

definition Pull_impl ::
  "'v valtype \<Rightarrow> 'v::zero slicer \<Rightarrow> 64 word \<Rightarrow> key sarray \<Rightarrow> nat \<Rightarrow> nat option \<Rightarrow> int \<Rightarrow> nat option \<Rightarrow>
     customer \<times> 'v kvworker \<Rightarrow> ((customer \<times> 'v kvworker) \<times> int) res" where
  "Pull_impl vt slicer now keys vals lens cmd cb = (\<lambda>(c, k).
     bindR (NewRequest (kw_po k) now kServerGroup c) (\<lambda>(c', ts).
     let k1 = AddCallback ts (Some (PullCb ts keys vals lens cb)) k;
         kvs = \<lparr>kv_keys = keys, kv_vals = kw_vals k vals, kv_lens = SArray0\<rparr>
     in bindR (KVWorker_Send vt slicer ts False cmd kvs (c', k1)) (\<lambda>s. Inr (s, ts))))"

text \<open>The overloads that take \<^verbatim>\<open>std::vector\<close>s copy them into new arrays at \<open>addr\<close>.\<close>

definition from_vector :: "64 word \<Rightarrow> 'v list \<Rightarrow> 'v sarray" where
  "from_vector addr xs = SArray0\<lparr>s_elems := xs, s_addr := addr\<rparr>"

definition Push ::
  "'v valtype \<Rightarrow> 'v::zero slicer \<Rightarrow> 64 word \<Rightarrow> 64 word \<times> key list \<Rightarrow> 64 word \<times> 'v list \<Rightarrow> 64 word \<times> int list \<Rightarrow> int \<Rightarrow>
     nat option \<Rightarrow> customer \<times> 'v kvworker \<Rightarrow> ((customer \<times> 'v kvworker) \<times> int) res" where
  "Push vt slicer now keys vals lens cmd cb =
     ZPush vt slicer now (case_prod from_vector keys) (case_prod from_vector vals) (case_prod from_vector lens) cmd cb"

definition Pull ::
  "'v valtype \<Rightarrow> 'v::zero slicer \<Rightarrow> 64 word \<Rightarrow> 64 word \<times> key list \<Rightarrow> nat \<Rightarrow> nat option \<Rightarrow> int \<Rightarrow> nat option \<Rightarrow>
     customer \<times> 'v kvworker \<Rightarrow> ((customer \<times> 'v kvworker) \<times> int) res" where
  "Pull vt slicer now keys vals lens cmd cb = Pull_impl vt slicer now (case_prod from_vector keys) vals lens cmd cb"

subsection \<open>Receiving\<close>

text \<open>The arrays of a message as key-value pairs; a third array holds the lengths.\<close>

definition decode_kvs :: "'v valtype \<Rightarrow> message \<Rightarrow> 'v kvpairs res" where
  "decode_kvs vt msg =
     PS_CHECK (2 \<le> length (msg_data msg)) ''msg.data.size()''
      (bindR (of_chars u64_of 8 (msg_data msg ! 0)) (\<lambda>keys.
       bindR (of_chars (vt_dec vt) (vt_width vt) (msg_data msg ! 1)) (\<lambda>vals.
       bindR (if 2 < length (msg_data msg) then of_chars i32_of 4 (msg_data msg ! 2) else Inr SArray0) (\<lambda>lens.
         Inr \<lparr>kv_keys = keys, kv_vals = vals, kv_lens = lens\<rparr>))))"

definition KVWorker_Process ::
  "'v valtype \<Rightarrow> (customer \<times> 'v kvworker) simple_handles \<Rightarrow> message \<Rightarrow>
     customer \<times> 'v::zero kvworker \<Rightarrow> (customer \<times> 'v kvworker) res" where
  "KVWorker_Process vt hs msg = (\<lambda>(c, k).
     if m_simple_app (msg_meta msg) then simple_Process hs msg (c, k)
     else let ts = m_timestamp (msg_meta msg) in
       bindR (if \<not> m_push (msg_meta msg) \<and> msg_data msg \<noteq> []
              then bindR (decode_kvs vt msg) (\<lambda>kvs.
                     Inr (k\<lparr>kw_recv_kvs := umap_set ts (umap_index [] (kw_recv_kvs k) ts @ [kvs]) (kw_recv_kvs k)\<rparr>))
              else Inr k) (\<lambda>k1.
       bindR (NumResponse c ts) (\<lambda>num.
         if num = po_num_servers (kw_first k1) - 1
         then bindR (RunCallback ts k1) (\<lambda>k2. Inr (c, k2))
         else Inr (c, k1))))"

section \<open>The server\<close>

record kvmeta =
  km_cmd :: int
  km_push :: bool
  km_sender :: int
  km_timestamp :: int
  km_customer_id :: int
  km_key :: key
  km_addr :: "64 word"
  km_val_len :: int
  km_option :: int
  km_is_tensor :: int
  km_dtype :: int
  km_shape :: "int list"

text \<open>
  The server's state: the messages given to \<^verbatim>\<open>Van::Send\<close> and to \<^verbatim>\<open>Van::RegisterRecvBuffer\<close>, and
  the state \<open>'h\<close> of the request handle.
\<close>

record 'h kvserver =
  ks_instance_idx :: int
  ks_po :: postoffice
  ks_sent :: "message list"
  ks_registered :: "message list"
  ks_handle :: 'h

definition KVServer_new ::
  "po_static \<Rightarrow> int \<Rightarrow> bool \<Rightarrow> int \<Rightarrow> customer_ptr \<Rightarrow> 'h \<Rightarrow> (customer \<times> 'h kvserver) res" where
  "KVServer_new st app_id is_scheduler instance_idx ptr h =
     bindR (if is_scheduler
            then PS_CHECK (ps_initialized st) ''Please call ps::StartPS() first'' (check_notnull (ps_scheduler st))
            else Postoffice_GetServer st instance_idx) (\<lambda>po.
     bindR (Customer_new app_id app_id ptr po) (\<lambda>(c, po').
       Inr (c, \<lparr>ks_instance_idx = instance_idx, ks_po = po', ks_sent = [], ks_registered = [], ks_handle = h\<rparr>)))"

definition RegisterRecvBuffer_impl ::
  "'v valtype \<Rightarrow> int \<Rightarrow> key sarray \<Rightarrow> 'v sarray \<Rightarrow> int sarray \<Rightarrow> int \<Rightarrow> 'h kvserver \<Rightarrow> 'h kvserver res" where
  "RegisterRecvBuffer_impl vt worker_id keys vals lens cmd s =
     (let msg = upd_meta (\<lambda>m. m\<lparr>m_request := True, m_push := True, m_head := cmd, m_sender := worker_id\<rparr>) Message0
      in PS_CHECK (s_elems keys \<noteq> []) ''keys.size()''
          (bindR (AddData Ty_uint64 (to_chars u64_bytes keys) msg) (\<lambda>m1.
           bindR (AddData (vt_cxx vt) (to_chars (vt_enc vt) vals) m1) (\<lambda>m2.
           PS_CHECK (s_elems lens \<noteq> []) ''lens.size()''
            (bindR (AddData Ty_int32 (to_chars i32_bytes lens) m2) (\<lambda>m3.
             let m4 = upd_meta (\<lambda>m. m\<lparr>m_key := u64_of (take 8 (sa_bytes (msg_data m3 ! 0)))\<rparr>) m3
             in Inr (s\<lparr>ks_registered := ks_registered s @ [m4]\<rparr>)))))))"

definition RegisterRecvBuffer ::
  "'v valtype \<Rightarrow> int \<Rightarrow> key sarray \<Rightarrow> 'v sarray \<Rightarrow> int sarray \<Rightarrow> int \<Rightarrow> 'h kvserver \<Rightarrow> 'h kvserver res" where
  "RegisterRecvBuffer vt worker_id keys vals lens cmd s =
     RegisterRecvBuffer_impl vt worker_id keys vals lens cmd s"

text \<open>The call passes no command, so the default 0 is used.\<close>

definition RegisterRecvBufferWithRank ::
  "'v valtype \<Rightarrow> int \<Rightarrow> key sarray \<Rightarrow> 'v sarray \<Rightarrow> int sarray \<Rightarrow> int \<Rightarrow> 'h kvserver \<Rightarrow> 'h kvserver res" where
  "RegisterRecvBufferWithRank vt worker_rank keys vals lens cmd s =
     (let instance_worker_id = GroupWorkerRankToInstanceID (ks_po s) worker_rank (ks_instance_idx s)
      in RegisterRecvBuffer_impl vt instance_worker_id keys vals lens 0 s)"

type_synonym ('v, 's) req_handle = "kvmeta \<Rightarrow> 'v kvpairs \<Rightarrow> 's \<Rightarrow> 's res"

definition server_data :: "'v valtype \<Rightarrow> message \<Rightarrow> 'v kvpairs res" where
  "server_data vt msg =
     (let n = length (msg_data msg)
      in if n = 0 then Inr KVPairs0
         else bindR (decode_kvs vt msg) (\<lambda>data.
              if n > 2
              then PS_CHECK (n = 3) ''n''
                    (PS_CHECK (s_size (kv_lens data) = s_size (kv_keys data)) ''lens.size()'' (Inr data))
              else Inr data))"

definition request_meta :: "postoffice \<Rightarrow> meta \<Rightarrow> kvmeta" where
  "request_meta po mt =
     (let group_worker_rank = InstanceIDtoGroupRank po (m_sender mt);
          group_worker_id = WorkerRankToID group_worker_rank
      in \<lparr>km_cmd = m_head mt, km_push = m_push mt, km_sender = group_worker_id, km_timestamp = m_timestamp mt,
          km_customer_id = m_customer_id mt, km_key = m_key mt, km_addr = m_addr mt, km_val_len = m_val_len mt,
          km_option = m_option mt, km_is_tensor = m_is_tensor mt, km_dtype = m_dtype mt, km_shape = m_shape mt\<rparr>)"

definition KVServer_Process ::
  "'v valtype \<Rightarrow> (customer \<times> 'h kvserver) simple_handles \<Rightarrow> ('v, customer \<times> 'h kvserver) req_handle option \<Rightarrow>
     message \<Rightarrow> customer \<times> 'h kvserver \<Rightarrow> (customer \<times> 'h kvserver) res" where
  "KVServer_Process vt hs request_handle msg = (\<lambda>(c, s).
     if m_simple_app (msg_meta msg) then simple_Process hs msg (c, s)
     else bindR (server_data vt msg) (\<lambda>data.
          case request_handle of
            None \<Rightarrow> Inl (CheckFailed ''request_handle_'')
          | Some h \<Rightarrow> h (request_meta (ks_po s) (msg_meta msg)) data (c, s)))"

definition Response ::
  "'v valtype \<Rightarrow> kvmeta \<Rightarrow> 'v kvpairs \<Rightarrow> customer \<times> 'h kvserver \<Rightarrow> (customer \<times> 'h kvserver) res" where
  "Response vt req reply = (\<lambda>(c, s).
     let group_worker_rank = IDtoRank (km_sender req);
         instance_worker_id = GroupWorkerRankToInstanceID (ks_po s) group_worker_rank (ks_instance_idx s);
         msg = upd_meta (\<lambda>m. m\<lparr>m_app_id := cu_app_id c, m_customer_id := km_customer_id req, m_request := False,
            m_push := km_push req, m_head := km_cmd req, m_timestamp := km_timestamp req,
            m_recver := instance_worker_id, m_key := km_key req, m_addr := km_addr req,
            m_val_len := km_val_len req, m_option := km_option req\<rparr>) Message0
     in bindR (add_kvs vt reply msg) (\<lambda>msg'.
        Inr (c, s\<lparr>ks_sent := ks_sent s @ [msg']\<rparr>)))"

text \<open>
  \<^verbatim>\<open>KVServerDefaultHandle\<close>: the loop over the keys adds to the store or reads it into the reply.
  Reading \<^verbatim>\<open>store[key]\<close> creates a missing entry with value 0; \<open>addr\<close> is where the values of the
  reply are allocated.
\<close>

fun default_loop ::
  "bool \<Rightarrow> (key \<times> 'v::{zero,plus}) list \<Rightarrow> (key, 'v) umap \<Rightarrow> (key, 'v) umap \<times> 'v list" where
  "default_loop push [] store = (store, [])"
| "default_loop push ((key, val) # kvs) store =
     (if push
      then let store' = umap_set key (umap_index 0 store key + val) store;
               (store'', out) = default_loop push kvs store'
           in (store'', out)
      else let v = umap_index 0 store key;
               (store'', out) = default_loop push kvs (umap_set key v store)
           in (store'', v # out))"

definition KVServerDefaultHandle ::
  "'v valtype \<Rightarrow> 64 word \<Rightarrow> ('v::{zero,plus}, customer \<times> (key, 'v) umap kvserver) req_handle" where
  "KVServerDefaultHandle vt addr req_meta req_data = (\<lambda>(c, s).
     let keys = s_elems (kv_keys req_data) in
     if km_push req_meta
     then PS_CHECK (length keys = s_size (kv_vals req_data)) ''vals.size()''
           (let (store, _) = default_loop True (zip keys (s_elems (kv_vals req_data))) (ks_handle s)
            in Response vt req_meta KVPairs0 (c, s\<lparr>ks_handle := store\<rparr>))
     else let (store, out) = default_loop False (map (\<lambda>key. (key, 0)) keys) (ks_handle s)
          in Response vt req_meta (KVPairs0\<lparr>kv_keys := kv_keys req_data, kv_vals := from_vector addr out\<rparr>)
               (c, s\<lparr>ks_handle := store\<rparr>))"

end
