(* ===== verification/Slicing.thy ===== *)
theory Slicing
  imports KV
begin

text \<open>
  Correctness of the slicer of \<^verbatim>\<open>KVWorker\<close>: sorted keys are cut into consecutive pieces, one per
  server range, and every piece takes its own values and lengths along.
\<close>

section \<open>Positions\<close>

definition below :: "key list \<Rightarrow> key \<Rightarrow> nat" where
  "below keys v = length (takeWhile (\<lambda>x. x < v) keys)"

definition ranges_ok :: "Range list \<Rightarrow> bool" where
  "ranges_ok rs \<longleftrightarrow> (\<forall>r\<in>set rs. r_begin r \<le> r_end r) \<and> successively (\<lambda>a b. r_end a = r_begin b) rs"

lemma ranges_ok_Cons:
  "ranges_ok (r # rs) \<longleftrightarrow> r_begin r \<le> r_end r \<and> ranges_ok rs \<and> (rs \<noteq> [] \<longrightarrow> r_end r = r_begin (hd rs))"
  by (auto simp: ranges_ok_def successively_Cons)

lemma below_le: "below keys v \<le> length keys"
  by (simp add: below_def length_takeWhile_le)

lemma below_mono: "u \<le> v \<Longrightarrow> below keys u \<le> below keys v"
  unfolding below_def by (induction keys) auto

lemma below_all: "below keys v = length keys \<longleftrightarrow> (\<forall>k\<in>set keys. k < v)"
  unfolding below_def by (induction keys) auto

lemma below_none: "sorted keys \<Longrightarrow> below keys v = 0 \<longleftrightarrow> (\<forall>k\<in>set keys. v \<le> k)"
  unfolding below_def by (cases keys) auto

lemma lower_bound_drop:
  assumes "sorted keys" and "p \<le> below keys v"
  shows "p + lower_bound (drop p keys) v = below keys v"
proof -
  have "takeWhile (\<lambda>x. x < v) (drop p keys) = drop p (takeWhile (\<lambda>x. x < v) keys)"
  proof -
    have "take p keys = take p (takeWhile (\<lambda>x. x < v) keys @ dropWhile (\<lambda>x. x < v) keys)"
      by (simp only: takeWhile_dropWhile_id)
    also have "\<dots> = take p (takeWhile (\<lambda>x. x < v) keys)"
      using assms(2) unfolding take_append below_def by simp
    finally have "\<forall>x\<in>set (take p keys). x < v" by (auto dest: in_set_takeD set_takeWhileD)
    then have "takeWhile (\<lambda>x. x < v) (take p keys @ drop p keys) = take p keys @ takeWhile (\<lambda>x. x < v) (drop p keys)"
      by (intro takeWhile_append2) blast
    then have "takeWhile (\<lambda>x. x < v) keys = take p keys @ takeWhile (\<lambda>x. x < v) (drop p keys)" by simp
    moreover have "length (take p keys) = p" using assms(2) below_le [of keys v] by simp
    ultimately show ?thesis by (metis append_eq_conv_conj)
  qed
  then show ?thesis
    using assms by (simp add: lower_bound_eq_takeWhile sorted_wrt_drop below_def)
qed

lemma pos_loop_eq:
  assumes "sorted keys" and "ranges_ok rs" and "rs \<noteq> [] \<Longrightarrow> p = below keys (r_begin (hd rs))"
    and "case prev of None \<Rightarrow> True | Some q \<Rightarrow> rs \<noteq> [] \<longrightarrow> r_end q = r_begin (hd rs)"
  shows "pos_loop prev rs keys p = Inr (map (\<lambda>r. below keys (r_end r)) rs)"
  using assms(2-)
proof (induction rs arbitrary: prev p)
  case (Cons r rs)
  then have r: "r_begin r \<le> r_end r" "ranges_ok rs" "rs \<noteq> [] \<longrightarrow> r_end r = r_begin (hd rs)"
    by (simp_all add: ranges_ok_Cons)
  have p: "p + lower_bound (drop p keys) (r_end r) = below keys (r_end r)"
    using Cons.prems(2) below_mono [OF r(1), of keys] by (intro lower_bound_drop [OF assms(1)]) simp
  show ?case
    using Cons.prems(3) Cons.IH [OF r(2), of "below keys (r_end r)" "Some r"] r(3)
    by (cases prev) (simp_all add: p Let_def)
qed simp

text \<open>The positions of a list of ranges: \<^verbatim>\<open>pos[0]\<close>, ..., \<^verbatim>\<open>pos[n]\<close>.\<close>

definition positions :: "key list \<Rightarrow> Range list \<Rightarrow> nat list" where
  "positions keys rs = below keys (r_begin (hd rs)) # map (\<lambda>r. below keys (r_end r)) rs"

lemma slice_positions_eq:
  assumes "sorted keys" and "ranges_ok rs" and "rs \<noteq> []"
  shows "slice_positions keys rs = Inr (positions keys rs)"
proof -
  have "lower_bound keys v = below keys v" for v
    using assms(1) by (simp add: lower_bound_eq_takeWhile below_def)
  with assms pos_loop_eq [OF assms(1,2), of "below keys (r_begin (hd rs))" None] show ?thesis
    by (cases rs) (simp_all add: slice_positions_def positions_def Let_def)
qed

section \<open>Slices\<close>

abbreviation sub :: "nat \<Rightarrow> nat \<Rightarrow> 'a list \<Rightarrow> 'a list" where
  "sub a b xs \<equiv> take (b - a) (drop a xs)"

lemma sub_drop: "a \<le> b \<Longrightarrow> sub a b xs @ drop b xs = drop a xs"
  by (metis append_take_drop_id drop_drop le_add_diff_inverse2)

text \<open>Where the values of the key at position \<open>p\<close> start.\<close>

definition voff :: "'v kvpairs \<Rightarrow> nat \<Rightarrow> nat" where
  "voff send p = (if s_elems (kv_lens send) = [] then p * (s_size (kv_vals send) div s_size (kv_keys send))
                  else nat (sum_list (take p (s_elems (kv_lens send)))))"

text \<open>The documented format: equally many values per key, or as many as the lengths say.\<close>

definition kvs_ok :: "'v kvpairs \<Rightarrow> bool" where
  "kvs_ok send \<longleftrightarrow> (if s_elems (kv_lens send) = [] then s_size (kv_keys send) dvd s_size (kv_vals send)
     else s_size (kv_lens send) = s_size (kv_keys send) \<and> (\<forall>l\<in>set (s_elems (kv_lens send)). 0 \<le> l) \<and>
          sum_list (s_elems (kv_lens send)) = int (s_size (kv_vals send)))"

definition cut :: "nat \<Rightarrow> 'v kvpairs \<Rightarrow> nat \<Rightarrow> nat \<Rightarrow> 'v kvpairs" where
  "cut w send p p' =
     \<lparr>kv_keys = (kv_keys send)\<lparr>s_elems := sub p p' (s_elems (kv_keys send)), s_addr := s_addr (kv_keys send) + of_nat p * 8\<rparr>,
      kv_vals = (kv_vals send)\<lparr>s_elems := sub (voff send p) (voff send p') (s_elems (kv_vals send)),
                  s_addr := s_addr (kv_vals send) + of_nat (voff send p) * of_nat w\<rparr>,
      kv_lens = (if s_elems (kv_lens send) = [] then SArray0 else
                 (kv_lens send)\<lparr>s_elems := sub p p' (s_elems (kv_lens send)), s_addr := s_addr (kv_lens send) + of_nat p * 4\<rparr>)\<rparr>"

fun slices :: "nat \<Rightarrow> 'v kvpairs \<Rightarrow> nat list \<Rightarrow> (bool \<times> 'v kvpairs) list" where
  "slices w send (p # p' # ps) = (if p' = p then (False, KVPairs0) else (True, cut w send p p')) # slices w send (p' # ps)"
| "slices w send ps = []"

lemma segment_sub:
  "a \<le> b \<Longrightarrow> b \<le> s_size arr \<Longrightarrow>
     segment w (int a) (int b) arr = Inr (arr\<lparr>s_elems := sub a b (s_elems arr), s_addr := s_addr arr + of_nat a * of_nat w\<rparr>)"
  by (simp add: segment_def nat_diff_distrib)

lemma sum_list_take_mono:
  assumes "\<forall>l\<in>set ls. 0 \<le> (l::int)" and "a \<le> b"
  shows "0 \<le> sum_list (take a ls)" and "sum_list (take a ls) \<le> sum_list (take b ls)"
    and "sum_list (take b ls) = sum_list (take a ls) + sum_list (sub a b ls)"
proof -
  have nn: "0 \<le> sum_list (take n ls)" "0 \<le> sum_list (sub a b ls)" for n
    using assms(1) by (auto intro!: sum_list_nonneg dest: in_set_takeD in_set_dropD)
  have "take b ls = take a ls @ sub a b ls"
    using assms(2) by (metis le_add_diff_inverse take_add)
  then show eq: "sum_list (take b ls) = sum_list (take a ls) + sum_list (sub a b ls)" by simp
  show "0 \<le> sum_list (take a ls)" by (rule nn)
  show "sum_list (take a ls) \<le> sum_list (take b ls)" using eq nn by simp
qed

lemma voff_mono: "kvs_ok send \<Longrightarrow> a \<le> b \<Longrightarrow> voff send a \<le> voff send b"
  using sum_list_take_mono(1,2) [of "s_elems (kv_lens send)" a b]
  by (auto simp: voff_def kvs_ok_def split: if_splits)

lemma voff_end: "kvs_ok send \<Longrightarrow> voff send (s_size (kv_keys send)) = s_size (kv_vals send)"
  by (auto simp: voff_def kvs_ok_def split: if_splits)

lemma voff_le: "kvs_ok send \<Longrightarrow> p \<le> s_size (kv_keys send) \<Longrightarrow> voff send p \<le> s_size (kv_vals send)"
  using voff_mono voff_end by metis

lemma slice_loop_eq:
  assumes ok: "kvs_ok send" and "sorted (p # ps)" and "\<forall>q\<in>set (p # ps). q \<le> s_size (kv_keys send)"
    and k: "k = s_size (kv_vals send) div s_size (kv_keys send)"
    and "s_elems (kv_lens send) \<noteq> [] \<Longrightarrow> vb = int (voff send p)"
  shows "slice_loop w k send (p # ps) vb = Inr (slices w send (p # ps))"
  using assms(2,3,5)
proof (induction ps arbitrary: p vb)
  case (Cons p' ps)
  then have le: "p \<le> p'" "p' \<le> s_size (kv_keys send)" by simp_all
  note v = voff_mono [OF ok le(1)] voff_le [OF ok le(2)]
  show ?case
  proof (cases "s_elems (kv_lens send) = []")
    case True
    then have "segment w (int (p * k)) (int (p' * k)) (kv_vals send) = Inr (kv_vals (cut w send p p'))"
      using v segment_sub [OF v, of w] by (simp add: cut_def voff_def k)
    then show ?thesis
      using True le Cons.IH [of p'] Cons.prems segment_sub [OF le, of 8]
      by (auto simp: cut_def)
  next
    case False
    then have lens: "s_size (kv_lens send) = s_size (kv_keys send)" "\<forall>l\<in>set (s_elems (kv_lens send)). 0 \<le> l"
      using ok by (simp_all add: kvs_ok_def)
    then have le': "p' \<le> s_size (kv_lens send)" using le by simp
    have ve: "vb + sum_list (sub p p' (s_elems (kv_lens send))) = int (voff send p')"
      using Cons.prems(3) [OF False] False sum_list_take_mono [OF lens(2) le(1)]
      by (simp add: voff_def)
    show ?thesis
      using False le Cons.IH [of p'] Cons.prems segment_sub [OF le, of 8] segment_sub [OF le(1) le', of 4]
        segment_sub [OF v, of w] ve
      by (auto simp: cut_def Let_def)
  qed
qed simp

lemma length_slices [simp]: "length (slices w send (p # ps)) = length ps"
  by (induction ps arbitrary: p) auto

lemma nth_slices:
  "i < length ps \<Longrightarrow> slices w send (p # ps) ! i =
     (if ps ! i = (p # ps) ! i then (False, KVPairs0) else (True, cut w send ((p # ps) ! i) (ps ! i)))"
proof (induction ps arbitrary: p i)
  case (Cons p' ps)
  then show ?case by (cases i) auto
qed simp

lemma KVPairs0_empty [simp]:
  "s_elems (kv_keys KVPairs0) = []" "s_elems (kv_vals KVPairs0) = []" "s_elems (kv_lens KVPairs0) = []"
  by (simp_all add: KVPairs0_def SArray0_def)

text \<open>The pieces put together again are the part of the list from the first position on.\<close>

lemma concat_slices:
  assumes "kvs_ok send" and "sorted (p # ps)" and "List.last (p # ps) = s_size (kv_keys send)"
  shows "concat (map (\<lambda>s. s_elems (kv_keys (snd s))) (slices w send (p # ps))) = drop p (s_elems (kv_keys send))"
    and "concat (map (\<lambda>s. s_elems (kv_vals (snd s))) (slices w send (p # ps))) = drop (voff send p) (s_elems (kv_vals send))"
    and "concat (map (\<lambda>s. s_elems (kv_lens (snd s))) (slices w send (p # ps))) = drop p (s_elems (kv_lens send))"
proof -
  have "concat (map (\<lambda>s. s_elems (kv_keys (snd s))) (slices w send (p # ps))) = drop p (s_elems (kv_keys send)) \<and>
    concat (map (\<lambda>s. s_elems (kv_vals (snd s))) (slices w send (p # ps))) = drop (voff send p) (s_elems (kv_vals send)) \<and>
    concat (map (\<lambda>s. s_elems (kv_lens (snd s))) (slices w send (p # ps))) = drop p (s_elems (kv_lens send))"
    using assms(2,3)
  proof (induction ps arbitrary: p)
    case Nil
    have "s_size (kv_lens send) = s_size (kv_keys send) \<or> s_elems (kv_lens send) = []"
      using assms(1) by (auto simp: kvs_ok_def)
    with Nil show ?case by (auto simp: voff_end [OF assms(1)])
  next
    case (Cons p' ps)
    then have le: "p \<le> p'" by simp
    show ?case
      using Cons sub_drop [OF le, of "s_elems (kv_keys send)"] sub_drop [OF le, of "s_elems (kv_lens send)"]
        sub_drop [OF voff_mono [OF assms(1) le], of "s_elems (kv_vals send)"]
      by (cases "p' = p") (auto simp: cut_def SArray0_def)
  qed
  then show "concat (map (\<lambda>s. s_elems (kv_keys (snd s))) (slices w send (p # ps))) = drop p (s_elems (kv_keys send))"
    and "concat (map (\<lambda>s. s_elems (kv_vals (snd s))) (slices w send (p # ps))) = drop (voff send p) (s_elems (kv_vals send))"
    and "concat (map (\<lambda>s. s_elems (kv_lens (snd s))) (slices w send (p # ps))) = drop p (s_elems (kv_lens send))"
    by blast+
qed

lemma below_nth: "i < below keys v \<Longrightarrow> keys ! i < v"
  unfolding below_def using nth_mem [of i "takeWhile (\<lambda>x. x < v) keys"]
  by (auto simp: takeWhile_nth dest: set_takeWhileD)

lemma nth_below: "sorted keys \<Longrightarrow> below keys v \<le> i \<Longrightarrow> i < length keys \<Longrightarrow> v \<le> keys ! i"
  using nth_length_takeWhile [of "\<lambda>x. x < v" keys] sorted_nth_mono [of keys "below keys v" i]
  by (auto simp: below_def not_less intro: order_trans)

lemma sub_between:
  assumes "sorted keys" and "k \<in> set (sub (below keys u) (below keys v) keys)"
  shows "u \<le> k \<and> k < v"
proof -
  obtain j where j: "j < below keys v - below keys u" "below keys u + j < length keys" "k = keys ! (below keys u + j)"
    using assms(2) by (auto simp: in_set_conv_nth)
  then show ?thesis
    using below_nth [of "below keys u + j" keys v] nth_below [OF assms(1), of u "below keys u + j"] by simp
qed

lemma cut_count:
  assumes "kvs_ok send" and "p \<le> p'" and "p' \<le> s_size (kv_keys send)"
  shows "int (s_size (kv_vals (cut w send p p'))) =
    (if s_elems (kv_lens send) = [] then int (s_size (kv_vals send) div s_size (kv_keys send) * s_size (kv_keys (cut w send p p')))
     else sum_list (s_elems (kv_lens (cut w send p p'))))"
proof -
  have len: "s_size (kv_vals (cut w send p p')) = voff send p' - voff send p"
    using voff_le [OF assms(1,3)] by (simp add: cut_def)
  show ?thesis
  proof (cases "s_elems (kv_lens send) = []")
    case True
    then show ?thesis using assms(2,3) by (simp add: len) (simp add: cut_def voff_def left_diff_distrib mult.commute)
  next
    case False
    then have "\<forall>l\<in>set (s_elems (kv_lens send)). 0 \<le> l" using assms(1) by (simp add: kvs_ok_def)
    note m = sum_list_take_mono [OF this assms(2)]
    then show ?thesis using False by (simp add: len) (simp add: cut_def voff_def nat_diff_distrib)
  qed
qed

section \<open>The slicer\<close>

lemma sorted_positions:
  "ranges_ok rs \<Longrightarrow> rs \<noteq> [] \<Longrightarrow> sorted (positions keys rs)"
proof (induction rs)
  case (Cons r rs)
  then have r: "below keys (r_begin r) \<le> below keys (r_end r)" and rs: "ranges_ok rs"
    and next_eq: "rs \<noteq> [] \<longrightarrow> r_end r = r_begin (hd rs)"
    by (auto simp: ranges_ok_Cons intro: below_mono)
  show ?case
  proof (cases rs)
    case Nil
    with r show ?thesis by (simp add: positions_def)
  next
    case (Cons r' rs')
    then have "sorted (positions keys rs)" using Cons.IH rs by simp
    then have "sorted (below keys (r_end r) # map (\<lambda>r. below keys (r_end r)) rs)"
      using next_eq Cons by (simp add: positions_def)
    with r show ?thesis by (auto simp: positions_def intro: order_trans)
  qed
qed simp

lemma last_positions: "rs \<noteq> [] \<Longrightarrow> List.last (positions keys rs) = below keys (r_end (List.last rs))"
  by (simp add: positions_def last_map)

lemma positions_nth:
  assumes "ranges_ok rs" and "i < length rs"
  shows "positions keys rs ! i = below keys (r_begin (rs ! i))"
proof (cases i)
  case 0
  with assms show ?thesis by (simp add: positions_def hd_conv_nth)
next
  case (Suc j)
  then have "r_end (rs ! j) = r_begin (rs ! Suc j)"
    using assms by (simp add: ranges_ok_def successively_conv_nth)
  with Suc assms(2) show ?thesis by (simp add: positions_def)
qed

lemma DefaultSlicer_eq:
  assumes "sorted (s_elems (kv_keys send))" and "ranges_ok rs" and "rs \<noteq> []" and "kvs_ok send"
    and "s_elems (kv_keys send) \<noteq> []" and "\<forall>k\<in>set (s_elems (kv_keys send)). r_begin (hd rs) \<le> k"
  shows "DefaultSlicer w send rs =
    (if \<forall>k\<in>set (s_elems (kv_keys send)). k < r_end (List.last rs)
     then Inr (slices w send (positions (s_elems (kv_keys send)) rs)) else Inl (CheckFailed ''pos[n]''))"
proof -
  let ?keys = "s_elems (kv_keys send)"
  have fits: "if s_elems (kv_lens send) = []
      then s_size (kv_vals send) div s_size (kv_keys send) * s_size (kv_keys send) = s_size (kv_vals send)
      else s_size (kv_keys send) = s_size (kv_lens send)"
    using assms(4) by (auto simp: kvs_ok_def)
  show ?thesis
  proof (cases "\<forall>k\<in>set ?keys. k < r_end (List.last rs)")
    case True
    then have end_eq: "List.last (positions ?keys rs) = s_size (kv_keys send)"
      by (simp add: last_positions [OF assms(3)] below_all)
    have first: "below ?keys (r_begin (hd rs)) = 0" using assms(1,6) by (simp add: below_none)
    have "slice_loop w (s_size (kv_vals send) div s_size (kv_keys send)) send (positions ?keys rs) 0 =
        Inr (slices w send (positions ?keys rs))"
      unfolding positions_def
      by (rule slice_loop_eq [OF assms(4) _ _ refl])
        (use sorted_positions [OF assms(2,3), of ?keys] in
          \<open>auto simp: positions_def first voff_def below_le\<close>)
    then show ?thesis
      using True end_eq fits assms(5) by (simp add: DefaultSlicer_def slice_positions_eq [OF assms(1-3)] Let_def)
  next
    case False
    then have "below ?keys (r_end (List.last rs)) \<noteq> length ?keys" by (simp add: below_all)
    with False show ?thesis
      by (simp add: DefaultSlicer_def slice_positions_eq [OF assms(1-3)] last_positions [OF assms(3)])
  qed
qed

text \<open>One piece: it is used exactly if it has keys, they belong to its range, and its values are theirs.\<close>

definition slice_fits :: "'v kvpairs \<Rightarrow> Range \<Rightarrow> bool \<times> 'v kvpairs \<Rightarrow> bool" where
  "slice_fits send r s \<longleftrightarrow> fst s = (s_elems (kv_keys (snd s)) \<noteq> []) \<and>
     (\<forall>k\<in>set (s_elems (kv_keys (snd s))). r_begin r \<le> k \<and> k < r_end r) \<and>
     s_size (kv_lens (snd s)) = (if s_elems (kv_lens send) = [] then 0 else s_size (kv_keys (snd s))) \<and>
     int (s_size (kv_vals (snd s))) =
       (if s_elems (kv_lens send) = [] then int (s_size (kv_vals send) div s_size (kv_keys send) * s_size (kv_keys (snd s)))
        else sum_list (s_elems (kv_lens (snd s))))"

lemma slices_fit:
  assumes "sorted (s_elems (kv_keys send))" and "ranges_ok rs" and "rs \<noteq> []" and "kvs_ok send" and "i < length rs"
  shows "slice_fits send (rs ! i) (slices w send (positions (s_elems (kv_keys send)) rs) ! i)"
proof -
  let ?keys = "s_elems (kv_keys send)"
  let ?p = "below ?keys (r_begin (rs ! i))" and ?p' = "below ?keys (r_end (rs ! i))"
  have le: "?p \<le> ?p'" using assms(2,5) by (auto simp: ranges_ok_def intro: below_mono)
  have s: "slices w send (positions ?keys rs) ! i = (if ?p' = ?p then (False, KVPairs0) else (True, cut w send ?p ?p'))"
    using nth_slices [of i "map (\<lambda>r. below ?keys (r_end r)) rs" w send "below ?keys (r_begin (hd rs))"]
      positions_nth [OF assms(2,5), of ?keys] assms(5)
    by (simp add: positions_def)
  show ?thesis
  proof (cases "?p' = ?p")
    case True
    then show ?thesis by (simp add: s slice_fits_def)
  next
    case False
    have "s_elems (kv_lens send) \<noteq> [] \<Longrightarrow> s_size (kv_lens send) = s_size (kv_keys send)"
      using assms(4) by (simp add: kvs_ok_def)
    then have lens: "s_size (kv_lens (cut w send ?p ?p')) =
        (if s_elems (kv_lens send) = [] then 0 else s_size (kv_keys (cut w send ?p ?p')))"
      by (simp add: cut_def SArray0_def)
    have "kv_keys (cut w send ?p ?p') = (kv_keys send)\<lparr>s_elems := sub ?p ?p' ?keys, s_addr := s_addr (kv_keys send) + of_nat ?p * 8\<rparr>"
      "sub ?p ?p' ?keys \<noteq> []"
      using False le below_le [of ?keys "r_end (rs ! i)"] by (auto simp: cut_def)
    then show ?thesis
      using False lens sub_between [OF assms(1)] cut_count [OF assms(4) le below_le]
      by (simp add: s slice_fits_def)
  qed
qed

text \<open>The pieces are the whole list, each piece fits its range.\<close>

definition partition_of :: "'v kvpairs \<Rightarrow> Range list \<Rightarrow> (bool \<times> 'v kvpairs) list \<Rightarrow> bool" where
  "partition_of send rs sliced \<longleftrightarrow> length sliced = length rs \<and>
      concat (map (\<lambda>s. s_elems (kv_keys (snd s))) sliced) = s_elems (kv_keys send) \<and>
      concat (map (\<lambda>s. s_elems (kv_vals (snd s))) sliced) = s_elems (kv_vals send) \<and>
      concat (map (\<lambda>s. s_elems (kv_lens (snd s))) sliced) = s_elems (kv_lens send) \<and>
      (\<forall>i < length rs. slice_fits send (rs ! i) (sliced ! i))"

lemma slices_partition:
  assumes "sorted (s_elems (kv_keys send))" and "kvs_ok send" and "ranges_ok rs" and "rs \<noteq> []"
    and "\<forall>k\<in>set (s_elems (kv_keys send)). r_begin (hd rs) \<le> k \<and> k < r_end (List.last rs)"
  shows "partition_of send rs (slices w send (positions (s_elems (kv_keys send)) rs))"
proof -
  let ?keys = "s_elems (kv_keys send)"
  have first: "below ?keys (r_begin (hd rs)) = 0" using assms(1,5) by (simp add: below_none)
  have "List.last (positions ?keys rs) = length ?keys" using assms(5) by (simp add: last_positions [OF assms(4)] below_all)
  note c = concat_slices [OF assms(2) sorted_positions [OF assms(3,4), of ?keys, unfolded positions_def]
      this [unfolded positions_def], folded positions_def, unfolded first]
  show ?thesis
    unfolding partition_of_def using slices_fit [OF assms(1,3,4,2)] c by (auto simp: voff_def positions_def)
qed

text \<open>
  C25: the slicer partitions.  For keys in increasing order, values in the documented format and
  ranges that follow each other, \<^verbatim>\<open>DefaultSlicer\<close> gives one piece per range: the pieces put
  together are the whole list of keys, of values and of lengths, in order; the keys of each piece
  lie in its range; a piece is marked as used exactly if it has keys; and it has as many values as
  belong to its keys.  A key that is not below the end of the last range stops the process.
\<close>

theorem slicer_partitions:
  assumes "sorted (s_elems (kv_keys send))" and "kvs_ok send" and "ranges_ok rs" and "rs \<noteq> []"
    and "\<forall>k\<in>set (s_elems (kv_keys send)). r_begin (hd rs) \<le> k"
  shows "if \<forall>k\<in>set (s_elems (kv_keys send)). k < r_end (List.last rs)
    then \<exists>sliced. DefaultSlicer w send rs = Inr sliced \<and> partition_of send rs sliced
    else DefaultSlicer w send rs = Inl (CheckFailed ''pos[n]'')"
proof (cases "s_elems (kv_keys send) = []")
  case True
  then have "s_elems (kv_vals send) = []" "s_elems (kv_lens send) = []"
    using assms(2) by (auto simp: kvs_ok_def split: if_splits)
  with True assms show ?thesis
    by (auto simp: DefaultSlicer_def slice_positions_eq last_positions below_def slice_fits_def
        o_def partition_of_def intro!: exI [of _ "map (\<lambda>_. (False, KVPairs0)) rs"])
next
  case False
  let ?keys = "s_elems (kv_keys send)"
  note eq = DefaultSlicer_eq [OF assms(1,3,4,2) False assms(5), of w]
  show ?thesis
  proof (cases "\<forall>k\<in>set ?keys. k < r_end (List.last rs)")
    case True
    with assms(5) have "partition_of send rs (slices w send (positions ?keys rs))"
      by (intro slices_partition [OF assms(1-4)]) blast
    with True show ?thesis by (simp add: eq)
  qed (simp only: eq if_False)
qed

definition example_kvs :: "int kvpairs" where
  "example_kvs = \<lparr>kv_keys = from_vector 0 [1, 5, 9], kv_vals = from_vector 0 [10, 20, 30, 40, 50, 60],
     kv_lens = SArray0\<rparr>"

definition example_ranges :: "Range list" where
  "example_ranges = [\<lparr>r_begin = 0, r_end = 6\<rparr>, \<lparr>r_begin = 6, r_end = 20\<rparr>]"

theorem slicer_partitions_witness:
  "\<exists>sliced. DefaultSlicer 4 example_kvs example_ranges = Inr sliced \<and> length sliced = 2 \<and>
     concat (map (\<lambda>s. s_elems (kv_vals (snd s))) sliced) = [10, 20, 30, 40, 50, 60] \<and>
     (\<forall>k\<in>set (s_elems (kv_keys (snd (sliced ! 1)))). 6 \<le> k \<and> k < 20)"
proof -
  have "kvs_ok example_kvs"
    using dvdI [of "s_size (kv_vals example_kvs)" "s_size (kv_keys example_kvs)" 2]
    by (simp add: example_kvs_def from_vector_def kvs_ok_def SArray0_def)
  moreover have "sorted (s_elems (kv_keys example_kvs))" "ranges_ok example_ranges" "example_ranges \<noteq> []"
    "\<forall>k\<in>set (s_elems (kv_keys example_kvs)). r_begin (hd example_ranges) \<le> k"
    and below: "\<forall>k\<in>set (s_elems (kv_keys example_kvs)). k < r_end (List.last example_ranges)"
    by (simp_all add: example_kvs_def example_ranges_def from_vector_def kvs_ok_def SArray0_def ranges_ok_def)
  ultimately obtain sliced where "DefaultSlicer 4 example_kvs example_ranges = Inr sliced" "length sliced = length example_ranges"
    "concat (map (\<lambda>s. s_elems (kv_vals (snd s))) sliced) = s_elems (kv_vals example_kvs)"
    and fit: "\<forall>i < length example_ranges. slice_fits example_kvs (example_ranges ! i) (sliced ! i)"
    using slicer_partitions [of example_kvs example_ranges 4] unfolding if_P [OF below] partition_of_def by blast
  moreover have "\<forall>k\<in>set (s_elems (kv_keys (snd (sliced ! 1)))). 6 \<le> k \<and> k < 20"
    using fit [rule_format, of 1] by (simp add: example_ranges_def slice_fits_def)
  ultimately show ?thesis
    by (intro exI [of _ sliced]) (simp add: example_kvs_def example_ranges_def from_vector_def)
qed

end
