(* ===== verification/KVProps.thy ===== *)
theory KVProps
  imports Slicing
begin

text \<open>
  What the key-value application promises: a push delivers every pair to the server that owns its
  key and is complete once each of these servers has answered; a reply goes back to the instance
  that asked; the default handle is a store with addition; the callback of a pull puts the replies
  together in key order, whatever order they arrived in.
\<close>

section \<open>Payloads\<close>

lemma of_to_chars:
  assumes "fixed_codec enc dec w ok" and "0 < w" and "list_all ok (s_elems a)"
  shows "of_chars dec w (to_chars enc a) = Inr a"
proof -
  have "length (enc_array enc (s_elems a)) = w * s_size a"
    and "dec_array dec w (s_size a) (enc_array enc (s_elems a)) = s_elems a"
    using fixed_codec.length_enc_array [OF assms(1)] fixed_codec.dec_enc_array_exact [OF assms(1,3)] by auto
  with assms(2) show ?thesis by (simp add: of_chars_def to_chars_def)
qed

text \<open>A value type whose memory form can be read back.\<close>

definition vt_ok :: "'v valtype \<Rightarrow> ('v \<Rightarrow> bool) \<Rightarrow> bool" where
  "vt_ok vt ok \<longleftrightarrow> fixed_codec (vt_enc vt) (vt_dec vt) (vt_width vt) ok \<and> 0 < vt_width vt"

definition kvs_typed :: "('v \<Rightarrow> bool) \<Rightarrow> 'v kvpairs \<Rightarrow> bool" where
  "kvs_typed ok kvs \<longleftrightarrow> list_all ok (s_elems (kv_vals kvs)) \<and> list_all int32 (s_elems (kv_lens kvs))"

definition same_kvs :: "'v kvpairs \<Rightarrow> 'v kvpairs \<Rightarrow> bool" where
  "same_kvs a b \<longleftrightarrow> kv_keys a = kv_keys b \<and> kv_vals a = kv_vals b \<and> s_elems (kv_lens a) = s_elems (kv_lens b)"

definition no_data :: "message \<Rightarrow> bool" where
  "no_data m \<longleftrightarrow> msg_data m = [] \<and> m_data_type (msg_meta m) = []"

text \<open>The fields \<^verbatim>\<open>AddData\<close> does not touch.\<close>

definition header_of :: "message \<Rightarrow> int \<times> int \<times> int \<times> bool \<times> bool \<times> int \<times> int \<times> Command \<times> bool \<times> key \<times> int \<times> int list" where
  "header_of m = (let mt = msg_meta m in (m_app_id mt, m_customer_id mt, m_recver mt, m_request mt, m_push mt,
     m_head mt, m_timestamp mt, msg_cmd m, m_simple_app mt, m_key mt, m_dtype mt, m_shape mt))"

lemma AddData_header: "AddData v a m = Inr m' \<Longrightarrow> header_of m' = header_of m"
  by (auto simp: AddData_def res_simps Let_def header_of_def split: if_splits)

lemma add_kvs_decode:
  assumes vt: "vt_ok vt ok" and "kvs_typed ok kvs" and "s_elems (kv_keys kvs) \<noteq> []" and "no_data m"
  shows "\<exists>m' d. add_kvs vt kvs m = Inr m' \<and> header_of m' = header_of m \<and> msg_data m' \<noteq> [] \<and>
    decode_kvs vt m' = Inr d \<and> same_kvs d kvs \<and>
    length (msg_data m') = (if s_elems (kv_lens kvs) = [] then 2 else 3)"
proof -
  let ?k = "to_chars u64_bytes (kv_keys kvs)" and ?v = "to_chars (vt_enc vt) (kv_vals kvs)"
    and ?l = "to_chars i32_bytes (kv_lens kvs)"
  obtain m1 where m1: "AddData Ty_uint64 ?k m = Inr m1"
    using assms(4) by (auto simp: AddData_def no_data_def Let_def)
  obtain m2 where m2: "AddData (vt_cxx vt) ?v m1 = Inr m2"
    using AddData_Inr [OF m1] assms(4) by (auto simp: AddData_def no_data_def Let_def)
  obtain m3 where m3: "AddData Ty_int32 ?l m2 = Inr m3"
    using AddData_Inr [OF m1] AddData_Inr [OF m2] assms(4) by (auto simp: AddData_def no_data_def Let_def)
  have dec: "of_chars u64_of 8 ?k = Inr (kv_keys kvs)" "of_chars (vt_dec vt) (vt_width vt) ?v = Inr (kv_vals kvs)"
    "of_chars i32_of 4 ?l = Inr (kv_lens kvs)"
    using vt assms(2) by (auto simp: vt_ok_def kvs_typed_def list_all_iff
        intro!: of_to_chars [OF u64.fixed_codec_axioms] of_to_chars [OF i32.fixed_codec_axioms] of_to_chars)
  note d = AddData_Inr [OF m1] AddData_Inr [OF m2] AddData_Inr [OF m3]
    and h = AddData_header [OF m1] AddData_header [OF m2] AddData_header [OF m3]
  show ?thesis
  proof (cases "s_elems (kv_lens kvs) = []")
    case True
    then show ?thesis using m1 m2 d h assms(3,4) dec
      by (auto simp: add_kvs_def decode_kvs_def no_data_def same_kvs_def SArray0_def)
  next
    case False
    then show ?thesis using m1 m2 m3 d h assms(3,4) dec
      by (auto simp: add_kvs_def decode_kvs_def no_data_def same_kvs_def)
  qed
qed

section \<open>Pushing\<close>

lemma GetServerKeyRanges_ok:
  assumes "po_server_key_ranges po = []" and "0 < po_num_servers po" and "po_num_servers po < 2 ^ 31"
    and rs: "rs = snd (GetServerKeyRanges po)" and n: "n = nat (po_num_servers po)" and q: "q = key_quota (po_num_servers po)"
  shows "ranges_ok rs \<and> length rs = n \<and> rs \<noteq> [] \<and> r_begin (hd rs) = 0 \<and> unat (r_end (List.last rs)) = q * n \<and>
    (\<forall>i < n. \<forall>k. r_begin (rs ! i) \<le> k \<and> k < r_end (rs ! i) \<longrightarrow> unat k div q = i)"
proof -
  have nth: "rs ! i = \<lparr>r_begin = kMaxKey div word_of_int (po_num_servers po) * of_nat i,
       r_end = kMaxKey div word_of_int (po_num_servers po) * of_nat (i + 1)\<rparr>" if "i < n" for i
    using that by (simp add: assms(1) rs n GetServerKeyRanges_def Let_def)
  have len: "length rs = n" by (simp add: assms(1) rs n GetServerKeyRanges_def Let_def)
  have "0 < n" using assms(2) n by simp
  have u: "unat (r_begin (rs ! i)) = q * i" "unat (r_end (rs ! i)) = q * (i + 1)" if "i < n" for i
    using unat_quota_word [of "po_num_servers po" i] unat_quota_word [of "po_num_servers po" "i + 1"] that assms(2,3) n q
    by (simp_all add: nth [OF that])
  have "ranges_ok rs"
    unfolding ranges_ok_def
  proof
    show "\<forall>r\<in>set rs. r_begin r \<le> r_end r"
      using u len by (auto simp: in_set_conv_nth word_le_nat_alt)
    show "successively (\<lambda>a b. r_end a = r_begin b) rs"
      using len by (auto simp: successively_conv_nth nth)
  qed
  moreover have "unat k div q = i" if "i < n" "r_begin (rs ! i) \<le> k" "k < r_end (rs ! i)" for i k
    using u [OF that(1)] that(2,3) by (intro div_nat_eqI) (auto simp: word_le_nat_alt word_less_nat_alt mult.commute)
  moreover have "r_begin (hd rs) = 0" using nth [of 0] \<open>0 < n\<close> len by (cases rs) auto
  moreover have "unat (r_end (List.last rs)) = q * n" using u(2) [of "n - 1"] \<open>0 < n\<close> len by (auto simp: last_conv_nth)
  ultimately show ?thesis using len \<open>0 < n\<close> by auto
qed

text \<open>The ranks of the servers that get a message, from rank \<open>i\<close> on.\<close>

fun used_ranks :: "int \<Rightarrow> (bool \<times> 'v kvpairs) list \<Rightarrow> int list" where
  "used_ranks i [] = []"
| "used_ranks i (s # ss) = (if fst s then [i] else []) @ used_ranks (i + 1) ss"

text \<open>A request message that carries a piece.\<close>

definition carries :: "'v valtype \<Rightarrow> int \<Rightarrow> int \<Rightarrow> message \<Rightarrow> 'v kvpairs \<Rightarrow> bool" where
  "carries vt ts cmd m s \<longleftrightarrow> m_request (msg_meta m) \<and> m_push (msg_meta m) \<and> m_timestamp (msg_meta m) = ts \<and>
     m_head (msg_meta m) = cmd \<and> \<not> m_simple_app (msg_meta m) \<and> (\<exists>d. decode_kvs vt m = Inr d \<and> same_kvs d s)"

lemma slice_msg_push:
  assumes "vt_ok vt ok" and "kvs_typed ok s" and "s_elems (kv_keys s) \<noteq> []"
  shows "\<exists>m. slice_msg vt c ts True cmd r s = Inr m \<and> carries vt ts cmd m s \<and> m_recver (msg_meta m) = r"
proof -
  let ?m0 = "upd_meta (\<lambda>m. m\<lparr>m_app_id := cu_app_id c, m_customer_id := cu_customer_id c,
            m_request := True, m_push := True, m_head := cmd, m_timestamp := ts,
            m_recver := r, m_addr := s_addr (kv_vals s),
            m_val_len := to_int32 (int (s_size (kv_vals s)))\<rparr>) Message0"
  have "no_data ?m0" by (simp add: no_data_def Message0_def Meta0_def)
  from add_kvs_decode [OF assms this] obtain m d where
    m: "add_kvs vt s ?m0 = Inr m" "header_of m = header_of ?m0" "decode_kvs vt m = Inr d" "same_kvs d s" by blast
  then show ?thesis
    by (simp add: slice_msg_def carries_def header_of_def Let_def Message0_def Meta0_def)
qed

definition sends_all :: "'v valtype \<Rightarrow> int \<Rightarrow> int \<Rightarrow> int \<Rightarrow> (bool \<times> 'v kvpairs) list \<Rightarrow> 'v kvworker \<Rightarrow> message list \<Rightarrow> bool" where
  "sends_all vt ts cmd i ss k new \<longleftrightarrow>
     map (\<lambda>m. m_recver (msg_meta m)) new =
       map (\<lambda>j. GroupServerRankToInstanceID (kw_po k) j (kw_instance_idx k)) (used_ranks i ss) \<and>
     list_all2 (carries vt ts cmd) new (map snd (filter fst ss))"

lemma send_slices_push:
  assumes vt: "vt_ok vt ok" and "\<forall>s\<in>set ss. fst s \<longrightarrow> kvs_typed ok (snd s) \<and> s_elems (kv_keys (snd s)) \<noteq> []"
  shows "\<exists>new. send_slices vt c ts True cmd i ss k = Inr (k\<lparr>kw_sent := kw_sent k @ new\<rparr>) \<and> sends_all vt ts cmd i ss k new"
  using assms(2)
proof (induction ss arbitrary: i k)
  case Nil
  then show ?case by (simp add: sends_all_def)
next
  case (Cons s ss)
  obtain u kvs where s: "s = (u, kvs)" by (cases s)
  show ?case
  proof (cases u)
    case False
    with Cons s show ?thesis by (auto simp: sends_all_def)
  next
    case True
    let ?r = "GroupServerRankToInstanceID (kw_po k) i (kw_instance_idx k)"
    obtain m where m: "slice_msg vt c ts True cmd ?r kvs = Inr m" "carries vt ts cmd m kvs" "m_recver (msg_meta m) = ?r"
      using slice_msg_push [OF vt, of kvs c ts cmd ?r] Cons.prems s True by auto
    let ?k = "k\<lparr>kw_sent := kw_sent k @ [m]\<rparr>"
    obtain new where "send_slices vt c ts True cmd (i + 1) ss ?k = Inr (?k\<lparr>kw_sent := kw_sent ?k @ new\<rparr>)"
      "sends_all vt ts cmd (i + 1) ss ?k new"
      using Cons.IH [of "i + 1" ?k] Cons.prems by auto
    with m s True show ?thesis
      by (intro exI [of _ "m # new"]) (simp add: sends_all_def)
  qed
qed

lemma used_ranks_all2:
  "(\<forall>i < length ss. fst (ss ! i) \<longrightarrow> P (a + int i) (snd (ss ! i))) \<Longrightarrow>
     list_all2 P (used_ranks a ss) (map snd (filter fst ss))"
proof (induction ss arbitrary: a)
  case (Cons s ss)
  have "\<forall>i < length ss. fst (ss ! i) \<longrightarrow> P (a + 1 + int i) (snd (ss ! i))"
    using Cons.prems by (force simp: add.assoc)
  then have "list_all2 P (used_ranks (a + 1) ss) (map snd (filter fst ss))" by (rule Cons.IH)
  then show ?case using Cons.prems [rule_format, of 0] by auto
qed simp

lemma used_ranks_sorted: "sorted_wrt (<) (used_ranks a ss) \<and> (\<forall>j\<in>set (used_ranks a ss). a \<le> j \<and> j < a + int (length ss))"
proof (induction ss arbitrary: a)
  case (Cons s ss)
  from Cons [of "a + 1"] show ?case by auto
qed simp

lemma length_used_ranks: "length (used_ranks a ss) = length (filter fst ss)"
  by (induction ss arbitrary: a) auto

lemma carried_data:
  "list_all2 (carries vt ts cmd) new ss \<Longrightarrow>
     \<exists>ds. map (decode_kvs vt) new = map Inr ds \<and> list_all2 same_kvs ds ss"
proof (induction rule: list_all2_induct)
  case (Cons m new s ss)
  then obtain ds d where "map (decode_kvs vt) new = map Inr ds" "list_all2 same_kvs ds ss" "decode_kvs vt m = Inr d" "same_kvs d s"
    by (auto simp: carries_def)
  then show ?case by (intro exI [of _ "d # ds"]) simp
qed simp

lemma concat_same:
  "list_all2 same_kvs ds ss \<Longrightarrow>
     concat (map (\<lambda>d. s_elems (kv_keys d)) ds) = concat (map (\<lambda>d. s_elems (kv_keys d)) ss) \<and>
     concat (map (\<lambda>d. s_elems (kv_vals d)) ds) = concat (map (\<lambda>d. s_elems (kv_vals d)) ss) \<and>
     concat (map (\<lambda>d. s_elems (kv_lens d)) ds) = concat (map (\<lambda>d. s_elems (kv_lens d)) ss)"
  by (induction rule: list_all2_induct) (auto simp: same_kvs_def)

lemma concat_filter:
  "(\<forall>s\<in>set ss. \<not> P s \<longrightarrow> f s = []) \<Longrightarrow> concat (map f (filter P ss)) = concat (map f ss)"
  by (induction ss) auto

lemma partition_unused:
  assumes "partition_of send rs sliced" and "s \<in> set sliced"
  shows "fst s \<longleftrightarrow> s_elems (kv_keys (snd s)) \<noteq> []"
    and "\<not> fst s \<Longrightarrow> s_elems (kv_keys (snd s)) = [] \<and> s_elems (kv_vals (snd s)) = [] \<and> s_elems (kv_lens (snd s)) = []"
proof -
  obtain i where "i < length rs" "s = sliced ! i"
    using assms by (auto simp: partition_of_def in_set_conv_nth)
  then have fit: "slice_fits send (rs ! i) s" using assms(1) by (simp add: partition_of_def)
  then show used: "fst s \<longleftrightarrow> s_elems (kv_keys (snd s)) \<noteq> []" by (simp add: slice_fits_def)
  assume "\<not> fst s"
  with used fit show "s_elems (kv_keys (snd s)) = [] \<and> s_elems (kv_vals (snd s)) = [] \<and> s_elems (kv_lens (snd s)) = []"
    by (auto simp: slice_fits_def split: if_splits)
qed

lemma partition_typed:
  assumes "partition_of send rs sliced" and "kvs_typed ok send" and "s \<in> set sliced"
  shows "kvs_typed ok (snd s)"
proof -
  have "set (s_elems (kv_vals (snd s))) \<subseteq> set (s_elems (kv_vals send))"
    "set (s_elems (kv_lens (snd s))) \<subseteq> set (s_elems (kv_lens send))"
    using assms(1,3) unfolding partition_of_def by (metis (no_types, lifting) set_concat set_map UN_upper imageI)+
  with assms(2) show ?thesis by (auto simp: kvs_typed_def list_all_iff)
qed

lemma concat_used:
  assumes "partition_of send rs sliced"
  shows "concat (map (\<lambda>s. s_elems (kv_keys s)) (map snd (filter fst sliced))) = s_elems (kv_keys send)"
    and "concat (map (\<lambda>s. s_elems (kv_vals s)) (map snd (filter fst sliced))) = s_elems (kv_vals send)"
    and "concat (map (\<lambda>s. s_elems (kv_lens s)) (map snd (filter fst sliced))) = s_elems (kv_lens send)"
  using assms partition_unused(2) [OF assms] unfolding partition_of_def map_map comp_def
  by (simp_all add: concat_filter)

lemma GetNodeIDs_servers:
  assumes "node_ids_ready po" and "0 < po_num_servers po" and "0 < po_group_size po"
  shows "GetNodeIDs po kServerGroup = Inr (server_ids po)"
proof -
  have "node_id_entry po kServerGroup = server_ids po" by (rule node_id_entry_groups(2))
  moreover have "server_ids po \<noteq> []" using mult_pos_pos [OF assms(2,3)] by (simp add: num_server_instances_def)
  ultimately show ?thesis using GetNodeIDs_ready [OF assms(1), of kServerGroup] by simp
qed

text \<open>A worker of a started cluster whose key ranges are not computed yet.\<close>

definition worker_ready :: "'v kvworker \<Rightarrow> bool" where
  "worker_ready k \<longleftrightarrow> node_ids_ready (kw_po k) \<and> 0 < po_group_size (kw_po k) \<and>
     po_num_servers (kw_first k) = po_num_servers (kw_po k) \<and> 0 < po_num_servers (kw_po k) \<and>
     po_num_servers (kw_po k) < 2 ^ 31 \<and> po_server_key_ranges (kw_first k) = []"

lemma NewRequest_ready:
  assumes "worker_ready k"
  shows "\<exists>c'. NewRequest (kw_po k) now kServerGroup c = Inr (c', int (length (cu_tracker c))) \<and>
    cu_app_id c' = cu_app_id c \<and> cu_customer_id c' = cu_customer_id c \<and>
    length (cu_tracker c') = Suc (length (cu_tracker c)) \<and>
    tr_response_count (cu_tracker c' ! length (cu_tracker c)) = 0 \<and>
    tr_count (cu_tracker c' ! length (cu_tracker c)) = po_num_servers (kw_po k)"
proof -
  have po: "node_ids_ready (kw_po k)" "0 < po_num_servers (kw_po k)" "0 < po_group_size (kw_po k)"
    using assms by (simp_all add: worker_ready_def)
  have "int (nat (num_server_instances (kw_po k))) div po_group_size (kw_po k) = po_num_servers (kw_po k)"
    using po by (simp add: num_server_instances_def)
  with po show ?thesis
    by (simp add: NewRequest_def GetNodeIDs_servers size_div_def Let_def nth_append)
qed

lemma filter_not_fst: "length (filter (\<lambda>s. \<not> fst s) ss) + length (filter fst ss) = length ss"
  by (induction ss) auto

text \<open>Sending pairs that go to at least one server.\<close>

lemma Send_push:
  assumes vt: "vt_ok vt ok" and typed: "kvs_typed ok send" and ready: "worker_ready k"
    and sorted: "sorted (s_elems (kv_keys send))" and ne: "s_elems (kv_keys send) \<noteq> []" and ok: "kvs_ok send"
    and rs: "rs = snd (GetServerKeyRanges (kw_first k))"
    and keys: "\<forall>x\<in>set (s_elems (kv_keys send)). unat x < key_quota (po_num_servers (kw_po k)) * nat (po_num_servers (kw_po k))"
    and ts: "0 \<le> ts" "nat ts < length (cu_tracker c)"
  shows "\<exists>sliced c' k' new. KVWorker_Send vt (DefaultSlicer w) ts True cmd send (c, k) = Inr (c', k') \<and>
    partition_of send rs sliced \<and> AddResponse ts (int (length (filter (\<lambda>s. \<not> fst s) sliced))) c = Inr c' \<and>
    kw_sent k' = kw_sent k @ new \<and> sends_all vt ts cmd 0 sliced k new"
proof -
  let ?n = "po_num_servers (kw_po k)"
  have r: "ranges_ok rs" "rs \<noteq> []" "r_begin (hd rs) = 0" "unat (r_end (List.last rs)) = key_quota ?n * nat ?n"
    using GetServerKeyRanges_ok [of "kw_first k", OF _ _ _ rs refl refl] ready by (simp_all add: worker_ready_def)
  have below: "\<forall>x\<in>set (s_elems (kv_keys send)). r_begin (hd rs) \<le> x \<and> x < r_end (List.last rs)"
    using keys r by (simp add: word_less_nat_alt)
  obtain sliced where sl: "DefaultSlicer w send rs = Inr sliced" "partition_of send rs sliced"
    using DefaultSlicer_eq [OF sorted r(1,2) ok ne, of w] slices_partition [OF sorted ok r(1,2) below] below by auto
  have used: "\<forall>s\<in>set sliced. fst s \<longrightarrow> kvs_typed ok (snd s) \<and> s_elems (kv_keys (snd s)) \<noteq> []"
    using partition_unused(1) [OF sl(2)] partition_typed [OF sl(2) typed] by blast
  have "filter fst sliced \<noteq> []" using concat_used(1) [OF sl(2)] ne by auto
  then have some: "length (filter (\<lambda>s. \<not> fst s) sliced) \<noteq> length sliced" using filter_not_fst [of sliced] by auto
  obtain c' where c': "AddResponse ts (int (length (filter (\<lambda>s. \<not> fst s) sliced))) c = Inr c'"
    using ts by (simp add: AddResponse_Inr)
  obtain first' where f: "GetServerKeyRanges (kw_first k) = (first', rs)" using rs by (metis prod.collapse)
  let ?k = "k\<lparr>kw_first := first'\<rparr>"
  obtain new where new: "send_slices vt c' ts True cmd 0 sliced ?k = Inr (?k\<lparr>kw_sent := kw_sent ?k @ new\<rparr>)"
    "sends_all vt ts cmd 0 sliced ?k new"
    using send_slices_push [OF vt used, of c' ts cmd 0 ?k] by blast
  have "KVWorker_Send vt (DefaultSlicer w) ts True cmd send (c, k) = Inr (c', ?k\<lparr>kw_sent := kw_sent ?k @ new\<rparr>)"
    using f sl(1) some c' new(1) by (simp add: KVWorker_Send_def Let_def)
  with sl(2) c' new(2) show ?thesis
    by (intro exI [of _ sliced] exI [of _ c'] exI [of _ "?k\<lparr>kw_sent := kw_sent ?k @ new\<rparr>"] exI [of _ new])
      (simp add: sends_all_def)
qed

text \<open>
  What server \<open>j\<close> must decode of a push: keys of its own, with one length per key if the push has
  lengths and as many values as those lengths say, otherwise with the values of each key.
\<close>

definition server_share :: "int \<Rightarrow> 'v kvpairs \<Rightarrow> int \<Rightarrow> 'v kvpairs \<Rightarrow> bool" where
  "server_share n send j d \<longleftrightarrow> s_elems (kv_keys d) \<noteq> [] \<and>
     (\<forall>x\<in>set (s_elems (kv_keys d)). int (unat x div key_quota n) = j) \<and>
     length (s_elems (kv_lens d)) = (if s_elems (kv_lens send) = [] then 0 else length (s_elems (kv_keys d))) \<and>
     int (length (s_elems (kv_vals d))) =
       (if s_elems (kv_lens send) = []
        then int (length (s_elems (kv_vals send)) div length (s_elems (kv_keys send)) * length (s_elems (kv_keys d)))
        else sum_list (s_elems (kv_lens d)))"

lemma server_share_same: "same_kvs d s \<Longrightarrow> server_share n send j s \<Longrightarrow> server_share n send j d"
  by (simp add: server_share_def same_kvs_def)

text \<open>
  C5: a push is delivered completely and accounted for.  For keys in increasing order below the
  end of the last range, \<^verbatim>\<open>ZPush\<close> returns a timestamp and hands one message to each server that
  owns any of the keys, in the order of their ranks.  What the servers decode from these messages,
  put together in the order of the ranks, is the pushed list of keys, values and lengths, and each
  server decodes its own part of each: every key is decoded by the server whose rank is the key
  divided by the width of a range, together with its length, if there are lengths, and with its
  values, which are as many as the lengths say or else the same number for every key.  The responses already credited
  plus one per message sent are exactly the responses that the request waits for.
\<close>

theorem push_delivers:
  assumes vt: "vt_ok vt ok" and typed: "kvs_typed ok send" and ready: "worker_ready k"
    and sorted: "sorted (s_elems (kv_keys send))" "s_elems (kv_keys send) \<noteq> []" and ok: "kvs_ok send"
    and n: "n = po_num_servers (kw_po k)"
    and keys: "\<forall>x\<in>set (s_elems (kv_keys send)). unat x < key_quota n * nat n"
  shows "\<exists>c' k' ts new js ds.
    ZPush vt (DefaultSlicer (vt_width vt)) now (kv_keys send) (kv_vals send) (kv_lens send) cmd cb (c, k) = Inr ((c', k'), ts) \<and>
    kw_sent k' = kw_sent k @ new \<and>
    map (\<lambda>m. m_recver (msg_meta m)) new = map (\<lambda>j. GroupServerRankToInstanceID (kw_po k) j (kw_instance_idx k)) js \<and>
    sorted_wrt (<) js \<and> map (decode_kvs vt) new = map Inr ds \<and>
    list_all2 (server_share n send) js ds \<and>
    concat (map (\<lambda>d. s_elems (kv_keys d)) ds) = s_elems (kv_keys send) \<and>
    concat (map (\<lambda>d. s_elems (kv_vals d)) ds) = s_elems (kv_vals send) \<and>
    concat (map (\<lambda>d. s_elems (kv_lens d)) ds) = s_elems (kv_lens send) \<and>
    (\<forall>m\<in>set new. m_timestamp (msg_meta m) = ts \<and> m_request (msg_meta m) \<and> m_push (msg_meta m) \<and> m_head (msg_meta m) = cmd) \<and>
    tr_count (cu_tracker c' ! nat ts) = n \<and> responses_at c' ts + int (length new) = n"
proof -
  let ?l = "length (cu_tracker c)"
  obtain c1 where c1: "NewRequest (kw_po k) now kServerGroup c = Inr (c1, int ?l)" "length (cu_tracker c1) = Suc ?l"
    "tr_response_count (cu_tracker c1 ! ?l) = 0" "tr_count (cu_tracker c1 ! ?l) = n"
    using NewRequest_ready [OF ready] n by blast
  let ?k1 = "AddCallback (int ?l) (map_option UserCb cb) k"
  have k1: "kw_po ?k1 = kw_po k" "kw_first ?k1 = kw_first k" "kw_sent ?k1 = kw_sent k" "kw_instance_idx ?k1 = kw_instance_idx k"
    by (simp_all add: AddCallback_def split: option.split)
  define rs where "rs = snd (GetServerKeyRanges (kw_first k))"
  have "worker_ready ?k1" using ready by (simp add: worker_ready_def k1)
  from Send_push [OF vt typed this sorted ok, of rs "int ?l" c1 "vt_width vt" cmd] keys n c1(2) obtain sliced c' k' new where
    run: "KVWorker_Send vt (DefaultSlicer (vt_width vt)) (int ?l) True cmd send (c1, ?k1) = Inr (c', k')"
    and part: "partition_of send rs sliced"
    and add: "AddResponse (int ?l) (int (length (filter (\<lambda>s. \<not> fst s) sliced))) c1 = Inr c'"
    and sent: "kw_sent k' = kw_sent k @ new" and all: "sends_all vt (int ?l) cmd 0 sliced ?k1 new"
    by (auto simp: k1 rs_def)
  have push: "ZPush vt (DefaultSlicer (vt_width vt)) now (kv_keys send) (kv_vals send) (kv_lens send) cmd cb (c, k) =
      Inr ((c', k'), int ?l)"
    using c1(1) run by (cases send) (simp add: ZPush_def Let_def)
  let ?js = "used_ranks 0 sliced"
  have recv: "map (\<lambda>m. m_recver (msg_meta m)) new =
      map (\<lambda>j. GroupServerRankToInstanceID (kw_po k) j (kw_instance_idx k)) ?js"
    and carry: "list_all2 (carries vt (int ?l) cmd) new (map snd (filter fst sliced))"
    using all by (simp_all add: sends_all_def k1)
  obtain ds where ds: "map (decode_kvs vt) new = map Inr ds" "list_all2 same_kvs ds (map snd (filter fst sliced))"
    using carried_data [OF carry] by blast
  have g: "length rs = nat n" "\<forall>i < nat n. \<forall>x. r_begin (rs ! i) \<le> x \<and> x < r_end (rs ! i) \<longrightarrow> unat x div key_quota n = i"
    using GetServerKeyRanges_ok [of "kw_first k", OF _ _ _ rs_def refl refl] ready n by (simp_all add: worker_ready_def)
  have "list_all2 (server_share n send) ?js (map snd (filter fst sliced))"
    by (rule used_ranks_all2) (use part g in \<open>auto simp: partition_of_def slice_fits_def server_share_def\<close>)
  then have owner: "list_all2 (server_share n send) ?js ds"
    using ds(2) server_share_same [of _ _ n send] by (fastforce simp: list_all2_conv_all_nth)
  have hdr: "m_timestamp (msg_meta m) = int ?l \<and> m_request (msg_meta m) \<and> m_push (msg_meta m) \<and> m_head (msg_meta m) = cmd"
    if "m \<in> set new" for m
    using carry that by (auto simp: list_all2_conv_all_nth in_set_conv_nth carries_def)
  have "length new = length (filter fst sliced)" using list_all2_lengthD [OF carry] by simp
  moreover have "int (length (filter (\<lambda>s. \<not> fst s) sliced)) + int (length (filter fst sliced)) = n"
    using filter_not_fst [of sliced] part g(1) ready n by (auto simp: partition_of_def worker_ready_def)
  moreover have "tr_count (cu_tracker c' ! ?l) = n" "responses_at c' (int ?l) = int (length (filter (\<lambda>s. \<not> fst s) sliced))"
    using add c1 by (auto simp: AddResponse_Inr)
  ultimately have acct: "tr_count (cu_tracker c' ! nat (int ?l)) = n" "responses_at c' (int ?l) + int (length new) = n" by simp_all
  show ?thesis
    using push sent recv used_ranks_sorted [of 0 sliced] ds(1) owner concat_same [OF ds(2)] concat_used [OF part] hdr acct
    by (intro exI [of _ c'] exI [of _ k'] exI [of _ "int ?l"] exI [of _ new] exI [of _ ?js] exI [of _ ds]) simp
qed

text \<open>A worker with 32 bit values in a cluster of two server groups of two instances.\<close>

definition i32_type :: "int valtype" where
  "i32_type = \<lparr>vt_cxx = Ty_int32, vt_enc = i32_bytes, vt_dec = i32_of, vt_width = 4\<rparr>"

definition example_worker :: "int kvworker" where
  "example_worker = \<lparr>kw_is_worker_zpull = False, kw_recv_kvs = [], kw_callbacks = [], kw_instance_idx = 1,
     kw_po = example_po, kw_first = example_po, kw_sent = [], kw_vals = (\<lambda>_. SArray0), kw_lens = (\<lambda>_. SArray0),
     kw_called = []\<rparr>"

lemma i32_type_ok: "vt_ok i32_type int32"
  by (simp add: vt_ok_def i32_type_def i32.fixed_codec_axioms)

lemma example_po_ranges: "po_server_key_ranges example_po = []"
  by (simp add: example_po_def Postoffice_Start_init_def InitEnvironment_def Van_Create_def
      check_notnull_def set_role_def example_env_def example_flags_def Postoffice_new_def env_eval)

lemma example_worker_ready: "worker_ready example_worker"
  by (simp add: worker_ready_def example_worker_def example_po_ready example_po_sizes example_po_ranges)

theorem push_delivers_witness:
  "\<exists>c' k' ts new ds.
    ZPush i32_type (DefaultSlicer (vt_width i32_type)) 0 (kv_keys example_kvs) (kv_vals example_kvs) (kv_lens example_kvs) 3 None
      (example_customer, example_worker) = Inr ((c', k'), ts) \<and>
    kw_sent k' = new \<and> map (decode_kvs i32_type) new = map Inr ds \<and>
    concat (map (\<lambda>d. s_elems (kv_vals d)) ds) = [10, 20, 30, 40, 50, 60] \<and>
    (\<forall>d\<in>set ds. length (s_elems (kv_vals d)) = 2 * length (s_elems (kv_keys d))) \<and> responses_at c' ts + int (length new) = 2"
proof -
  have share: "length (s_elems (kv_vals d)) = 2 * length (s_elems (kv_keys d))" if "server_share 2 example_kvs j d" for j d
    using that by (simp add: server_share_def example_kvs_def from_vector_def SArray0_def)
  have "kvs_ok example_kvs"
    using dvdI [of "s_size (kv_vals example_kvs)" "s_size (kv_keys example_kvs)" 2]
    by (simp add: example_kvs_def from_vector_def kvs_ok_def SArray0_def)
  moreover have "kvs_typed int32 example_kvs" "sorted (s_elems (kv_keys example_kvs))" "s_elems (kv_keys example_kvs) \<noteq> []"
    "\<forall>x\<in>set (s_elems (kv_keys example_kvs)). unat x < key_quota 2 * nat 2"
    by (simp_all add: example_kvs_def from_vector_def kvs_typed_def SArray0_def int32_def key_quota_def)
  moreover have "\<forall>d\<in>set ds. length (s_elems (kv_vals d)) = 2 * length (s_elems (kv_keys d))"
    if "list_all2 (server_share 2 example_kvs) js ds" for js ds
    using that share by (metis in_set_conv_nth list_all2_conv_all_nth)
  ultimately show ?thesis
    using push_delivers [OF i32_type_ok _ example_worker_ready, of example_kvs 2 0 3 None example_customer]
    by (fastforce simp: example_worker_def example_po_sizes example_kvs_def from_vector_def)
qed

end
