(* ===== verification/KVStore.thy ===== *)
theory KVStore
  imports KVProps
begin

text \<open>
  The server side of the key-value application and the assembly of pulled values at the worker.
\<close>

section \<open>Replies\<close>

lemma group_rank_of_worker:
  assumes "0 \<le> r" and "0 \<le> i" and "i < po_group_size po"
  shows "InstanceIDtoGroupRank po (GroupWorkerRankToInstanceID po r i) = r"
proof -
  have "0 \<le> r * po_group_size po + i" using assms by simp
  moreover have "(r * po_group_size po + i) div po_group_size po = r" using assms by simp
  ultimately show ?thesis
    using assms by (simp add: InstanceIDtoGroupRank_def GroupWorkerRankToInstanceID_def Let_def sdiv_nonneg)
qed

text \<open>The reply to a request: addressed to its sender and counted for its timestamp.\<close>

definition replies_to :: "meta \<Rightarrow> message \<Rightarrow> bool" where
  "replies_to mt m \<longleftrightarrow> m_recver (msg_meta m) = m_sender mt \<and> is_response_to (m_timestamp mt) m \<and>
     m_customer_id (msg_meta m) = m_customer_id mt \<and> m_push (msg_meta m) = m_push mt \<and>
     m_head (msg_meta m) = m_head mt \<and> m_key (msg_meta m) = m_key mt"

definition from_worker :: "'h kvserver \<Rightarrow> meta \<Rightarrow> bool" where
  "from_worker s mt \<longleftrightarrow> 0 \<le> ks_instance_idx s \<and> ks_instance_idx s < po_group_size (ks_po s) \<and>
     (\<exists>r \<ge> 0. m_sender mt = GroupWorkerRankToInstanceID (ks_po s) r (ks_instance_idx s))"

lemma Response_to_request:
  assumes vt: "vt_ok vt ok" and typed: "kvs_typed ok reply" and fw: "from_worker s mt"
  shows "\<exists>m. Response vt (request_meta (ks_po s) mt) reply (c, s) = Inr (c, s\<lparr>ks_sent := ks_sent s @ [m]\<rparr>) \<and>
    replies_to mt m \<and> \<not> m_simple_app (msg_meta m) \<and>
    (if s_elems (kv_keys reply) = [] then msg_data m = [] else \<exists>d. decode_kvs vt m = Inr d \<and> same_kvs d reply)"
proof -
  obtain r where r: "0 \<le> r" "m_sender mt = GroupWorkerRankToInstanceID (ks_po s) r (ks_instance_idx s)"
    using fw by (auto simp: from_worker_def)
  then have back_id: "IDtoRank (WorkerRankToID (InstanceIDtoGroupRank (ks_po s) (m_sender mt))) = r"
    using fw group_rank_of_worker [of r "ks_instance_idx s" "ks_po s"] by (simp add: from_worker_def)
  let ?req = "request_meta (ks_po s) mt"
  let ?m0 = "upd_meta (\<lambda>m. m\<lparr>m_app_id := cu_app_id c, m_customer_id := km_customer_id ?req, m_request := False,
            m_push := km_push ?req, m_head := km_cmd ?req, m_timestamp := km_timestamp ?req,
            m_recver := m_sender mt, m_key := km_key ?req, m_addr := km_addr ?req,
            m_val_len := km_val_len ?req, m_option := km_option ?req\<rparr>) Message0"
  have resp: "Response vt ?req reply (c, s) = bindR (add_kvs vt reply ?m0) (\<lambda>msg'. Inr (c, s\<lparr>ks_sent := ks_sent s @ [msg']\<rparr>))"
    using r(2) back_id by (simp add: Response_def Let_def) (simp add: request_meta_def Let_def)
  have rep: "replies_to mt m \<and> \<not> m_simple_app (msg_meta m)" if "header_of m = header_of ?m0" for m
    using that
    by (simp add: replies_to_def header_of_def is_response_to_def Let_def Message0_def Meta0_def Control0_def request_meta_def)
  show ?thesis
  proof (cases "s_elems (kv_keys reply) = []")
    case True
    then have "add_kvs vt reply ?m0 = Inr ?m0" by (simp add: add_kvs_def)
    then show ?thesis using resp rep [of ?m0] True
      by (intro exI [of _ ?m0]) (simp add: Message0_def)
  next
    case False
    have "no_data ?m0" by (simp add: no_data_def Message0_def Meta0_def)
    from add_kvs_decode [OF vt typed False this] obtain m d where
      m: "add_kvs vt reply ?m0 = Inr m" "header_of m = header_of ?m0" "decode_kvs vt m = Inr d" "same_kvs d reply" by blast
    then show ?thesis using resp rep [of m] False by (intro exI [of _ m]) simp
  qed
qed

section \<open>The store\<close>

abbreviation stored :: "(key, 'v::zero) umap kvserver \<Rightarrow> key \<Rightarrow> 'v" where
  "stored s key \<equiv> umap_index 0 (ks_handle s) key"

lemma default_loop_push:
  "umap_index 0 (fst (default_loop True kvs store)) key =
     foldl (+) (umap_index 0 store key) (map snd (filter (\<lambda>p. fst p = key) kvs))"
proof (induction kvs arbitrary: store)
  case (Cons p kvs)
  obtain a v where p: "p = (a, v)" by (cases p)
  show ?case
    unfolding p using Cons [of "umap_set a (umap_index 0 store a + v) store"]
    by (simp add: Let_def split_def)
qed simp

lemma default_loop_pull:
  "snd (default_loop False (map (\<lambda>key. (key, 0)) keys) store) = map (umap_index 0 store) keys \<and>
   umap_index 0 (fst (default_loop False (map (\<lambda>key. (key, 0)) keys) store)) = umap_index 0 store"
proof (induction keys arbitrary: store)
  case (Cons key keys)
  have "umap_index 0 (umap_set key (umap_index 0 store key) store) = umap_index 0 store"
    by (rule ext) simp
  with Cons [of "umap_set key (umap_index 0 store key) store"] show ?case
    by (simp add: Let_def split_def)
qed simp

text \<open>A request message that carries well-formed data.\<close>

definition request_with :: "'v valtype \<Rightarrow> message \<Rightarrow> 'v kvpairs \<Rightarrow> bool" where
  "request_with vt m d \<longleftrightarrow> \<not> m_simple_app (msg_meta m) \<and> decode_kvs vt m = Inr d \<and> length (msg_data m) \<le> 3 \<and>
     (length (msg_data m) = 3 \<longrightarrow> s_size (kv_lens d) = s_size (kv_keys d))"

lemma server_data_with: "request_with vt m d \<Longrightarrow> server_data vt m = Inr d"
  by (auto simp: request_with_def server_data_def Let_def decode_kvs_def res_simps)

text \<open>
  C18: the default handle is a store with addition.  A push with one value per key adds each value
  to what is stored under its key and is acknowledged by an empty reply; a pull leaves every
  stored value as it was and is answered by the asked keys with their stored values.  Both replies
  are addressed to the instance the request came from, carry its timestamp and customer, and so
  are counted for the request.  A push with a different number of values stops the process.
\<close>

theorem default_handle_store:
  fixes s :: "(key, 'v::{zero,plus}) umap kvserver"
  assumes vt: "vt_ok vt ok" and typed: "\<forall>key. ok (stored s key)" and fw: "from_worker s (msg_meta m)"
    and req: "request_with vt m d"
  shows "if m_push (msg_meta m)
    then if s_size (kv_keys d) = s_size (kv_vals d)
      then \<exists>s' r. KVServer_Process vt hs (Some (KVServerDefaultHandle vt addr)) m (c, s) = Inr (c, s') \<and>
        ks_sent s' = ks_sent s @ [r] \<and> replies_to (msg_meta m) r \<and> msg_data r = [] \<and>
        (\<forall>key. stored s' key =
           foldl (+) (stored s key) (map snd (filter (\<lambda>p. fst p = key) (zip (s_elems (kv_keys d)) (s_elems (kv_vals d))))))
      else KVServer_Process vt hs (Some (KVServerDefaultHandle vt addr)) m (c, s) = Inl (CheckFailed ''vals.size()'')
    else \<exists>s' r. KVServer_Process vt hs (Some (KVServerDefaultHandle vt addr)) m (c, s) = Inr (c, s') \<and>
        ks_sent s' = ks_sent s @ [r] \<and> replies_to (msg_meta m) r \<and> stored s' = stored s \<and>
        (s_elems (kv_keys d) \<noteq> [] \<longrightarrow> (\<exists>d'. decode_kvs vt r = Inr d' \<and> kv_keys d' = kv_keys d \<and>
           s_elems (kv_vals d') = map (stored s) (s_elems (kv_keys d))))"
proof -
  let ?keys = "s_elems (kv_keys d)" and ?vals = "s_elems (kv_vals d)" and ?req = "request_meta (ks_po s) (msg_meta m)"
  have proc: "KVServer_Process vt hs (Some (KVServerDefaultHandle vt addr)) m (c, s) = KVServerDefaultHandle vt addr ?req d (c, s)"
    using req by (simp add: KVServer_Process_def server_data_with) (simp add: request_with_def)
  have push: "km_push ?req = m_push (msg_meta m)" by (simp add: request_meta_def Let_def)
  have fw': "from_worker (s\<lparr>ks_handle := st\<rparr>) (msg_meta m)" for st using fw by (simp add: from_worker_def)
  show ?thesis
  proof (cases "m_push (msg_meta m)")
    case True
    let ?st = "fst (default_loop True (zip ?keys ?vals) (ks_handle s))"
    have "kvs_typed ok KVPairs0" by (simp add: kvs_typed_def)
    from Response_to_request [OF vt this fw', of ?st c] True push default_loop_push [of "zip ?keys ?vals" "ks_handle s"]
    show ?thesis by (auto simp: proc KVServerDefaultHandle_def Let_def split_def)
  next
    case False
    let ?lp = "default_loop False (map (\<lambda>key. (key, 0)) ?keys) (ks_handle s)"
    let ?reply = "KVPairs0\<lparr>kv_keys := kv_keys d, kv_vals := from_vector addr (snd ?lp)\<rparr>"
    note lp = default_loop_pull [of ?keys "ks_handle s"]
    have "kvs_typed ok ?reply" using typed lp by (simp add: kvs_typed_def from_vector_def list_all_iff)
    from Response_to_request [OF vt this fw', of "fst ?lp" c] False push lp
    show ?thesis by (auto simp: proc KVServerDefaultHandle_def Let_def split_def same_kvs_def from_vector_def)
  qed
qed

definition example_server :: "(key, int) umap kvserver" where
  "example_server = \<lparr>ks_instance_idx = 1, ks_po = example_po, ks_sent = [], ks_registered = [], ks_handle = [(5, 100)]\<rparr>"

definition example_push :: message where
  "example_push = \<lparr>msg_meta = Meta0\<lparr>m_push := True, m_request := True, m_timestamp := 4,
       m_sender := GroupWorkerRankToInstanceID example_po 0 1\<rparr>,
     msg_data = [to_chars u64_bytes (from_vector 0 [1, 5]), to_chars i32_bytes (from_vector 0 [10, 20])]\<rparr>"

definition no_handles :: "(customer \<times> (key, int) umap kvserver) simple_handles" where
  "no_handles = \<lparr>sh_request = None, sh_response = None\<rparr>"

lemma example_push_data:
  "request_with i32_type example_push \<lparr>kv_keys = from_vector 0 [1, 5], kv_vals = from_vector 0 [10, 20], kv_lens = SArray0\<rparr>"
proof -
  have "of_chars u64_of 8 (to_chars u64_bytes (from_vector 0 [1, 5])) = Inr (from_vector 0 [1, 5])"
    by (rule of_to_chars [OF u64.fixed_codec_axioms]) (simp_all add: list_all_iff)
  moreover have "of_chars i32_of 4 (to_chars i32_bytes (from_vector 0 [10, 20])) = Inr (from_vector 0 [10, 20])"
    by (rule of_to_chars [OF i32.fixed_codec_axioms]) (simp_all add: from_vector_def int32_def)
  ultimately show ?thesis
    by (simp add: request_with_def example_push_def decode_kvs_def i32_type_def Meta0_def)
qed

theorem default_handle_store_witness:
  "\<exists>s' r. KVServer_Process i32_type no_handles (Some (KVServerDefaultHandle i32_type 0)) example_push (example_customer, example_server) =
      Inr (example_customer, s') \<and> ks_sent s' = [r] \<and> replies_to (msg_meta example_push) r \<and>
      stored s' 1 = 10 \<and> stored s' 5 = 120 \<and> stored s' 7 = 0"
proof -
  have typed: "\<forall>key. int32 (stored example_server key)"
    by (simp add: example_server_def umap_index_def umap_find_def int32_def)
  have fw: "from_worker example_server (msg_meta example_push)"
    by (auto simp: from_worker_def example_server_def example_push_def example_po_sizes intro: exI [of _ 0])
  have push: "m_push (msg_meta example_push)" "ks_sent example_server = []"
    "stored example_server 1 = 0" "stored example_server 5 = 100" "stored example_server 7 = 0"
    by (simp_all add: example_push_def example_server_def umap_index_def umap_find_def)
  from default_handle_store [OF i32_type_ok typed fw example_push_data, of no_handles 0 example_customer] push(1)
  obtain s' r where "KVServer_Process i32_type no_handles (Some (KVServerDefaultHandle i32_type 0)) example_push (example_customer, example_server) =
      Inr (example_customer, s')" "ks_sent s' = ks_sent example_server @ [r]" "replies_to (msg_meta example_push) r"
    "\<forall>key. stored s' key = foldl (+) (stored example_server key) (map snd (filter (\<lambda>p. fst p = key) (zip [1, 5] [10, 20])))"
    by (auto simp: from_vector_def)
  then show ?thesis using push by (intro exI [of _ s'] exI [of _ r]) simp
qed

section \<open>Assembling the replies of a pull\<close>

text \<open>
  The replies to a pull of \<open>keys\<close>, in the order of the servers: each holds a non-empty piece of
  the keys, and lengths for it if they were asked for.
\<close>

definition pieces_ok :: "key list \<Rightarrow> bool \<Rightarrow> 'v kvpairs list \<Rightarrow> bool" where
  "pieces_ok keys with_lens ps \<longleftrightarrow> concat (map (\<lambda>p. s_elems (kv_keys p)) ps) = keys \<and>
     (\<forall>p\<in>set ps. s_elems (kv_keys p) \<noteq> [] \<and> (with_lens \<longrightarrow> s_size (kv_lens p) = s_size (kv_keys p)))"

lemma takeWhile_less_split:
  fixes xs :: "'a::linorder list"
  assumes "sorted_wrt (<) (xs @ y # ys)"
  shows "takeWhile (\<lambda>x. x < y) (xs @ y # ys) = xs"
  using assms by (subst takeWhile_append2) (auto simp: sorted_wrt_append)

lemma word_less_next:
  assumes "(l::64 word) \<noteq> -1"
  shows "x < l + 1 \<longleftrightarrow> x \<le> l"
proof -
  have "l + 1 \<noteq> 0" using assms by (simp add: add_eq_0_iff2)
  then have "unat (l + 1) = Suc (unat l)" using unatSuc [of l] by (simp add: add.commute)
  then show ?thesis by (simp add: word_less_nat_alt word_le_nat_alt less_Suc_eq_le)
qed

lemma FindRange_piece:
  assumes keys: "s_elems arr = as @ piece @ bs" and ne: "piece \<noteq> []" and strict: "sorted_wrt (<) (s_elems arr)"
    and top: "List.last piece \<noteq> -1"
  shows "range_size (FindRange arr (hd piece) (List.last piece + 1)) = of_nat (length piece)"
proof -
  obtain p ps where hd: "piece = p # ps" using ne by (cases piece) auto
  obtain b l where last: "piece = b @ [l]" using ne by (cases piece rule: rev_exhaust) auto
  have sorted: "sorted (s_elems arr)" using strict by (rule strict_sorted_imp_sorted)
  have "takeWhile (\<lambda>x. x < p) (s_elems arr) = as"
    using strict takeWhile_less_split [of as p "ps @ bs"] by (simp add: keys hd)
  then have lo: "lower_bound (s_elems arr) p = length as" by (simp add: lower_bound_eq_takeWhile [OF sorted])
  have next_l: "x < l + 1 \<longleftrightarrow> x \<le> l" for x using word_less_next [of l x] top last by simp
  have "\<forall>x\<in>set (as @ piece). x < l + 1" and "\<forall>x\<in>set bs. \<not> x < l + 1"
    using strict unfolding next_l keys last by (force simp: sorted_wrt_append)+
  then have "takeWhile (\<lambda>x. x < l + 1) ((as @ piece) @ bs) = as @ piece"
    by (subst takeWhile_append2) (auto simp: takeWhile_eq_Nil_iff)
  then have hi: "lower_bound (s_elems arr) (l + 1) = length as + length piece"
    unfolding lower_bound_eq_takeWhile [OF sorted] by (simp add: keys)
  have "p \<le> l" using strict unfolding keys using hd last by (cases b) (auto simp: sorted_wrt_append)
  then have "\<not> l + 1 \<le> p" using next_l [of p] by (simp add: not_le)
  moreover have "hd piece = p" by (simp add: hd)
  moreover have "List.last piece = l" by (simp add: last)
  ultimately show ?thesis
    using lo hi by (simp only: FindRange_def range_size_def) simp
qed

abbreviation first_key :: "'v kvpairs \<Rightarrow> key" where
  "first_key p \<equiv> hd (s_elems (kv_keys p))"

lemma reply_before_order: "strict_weak_order reply_before"
  by (auto simp: strict_weak_order_def reply_before_def)

lemma sort_replies:
  assumes "mset kvs = mset ps" and "sorted_wrt (<) (map first_key ps)"
  shows "std_sort reply_before kvs = ps"
proof -
  have "sorted (map first_key (std_sort reply_before kvs))"
    using sorted_std_sort [OF reply_before_order, of kvs] by (simp add: sorted_wrt_map reply_before_def not_less)
  moreover have "sorted (map first_key ps)" using assms(2) by (rule strict_sorted_imp_sorted)
  moreover have "mset (map first_key (std_sort reply_before kvs)) = mset (map first_key ps)" using assms(1) by simp
  ultimately have "map first_key (std_sort reply_before kvs) = map first_key ps"
    by (metis properties_for_sort)
  moreover have "inj_on first_key (set (std_sort reply_before kvs) \<union> set ps)"
  proof -
    have "set (std_sort reply_before kvs) = set ps" using assms(1) by (metis set_std_sort mset_eq_setD)
    moreover have "distinct (map first_key ps)" using assms(2) by (simp add: strict_sorted_iff)
    ultimately show ?thesis by (simp add: distinct_map)
  qed
  ultimately show ?thesis by (rule map_inj_on)
qed

lemma pieces_sorted:
  "sorted_wrt (<) (concat (map (\<lambda>p. s_elems (kv_keys p)) ps)) \<Longrightarrow> \<forall>p\<in>set ps. s_elems (kv_keys p) \<noteq> [] \<Longrightarrow>
     sorted_wrt (<) (map first_key ps)"
proof (induction ps)
  case (Cons p ps)
  have "first_key p < first_key q" if "q \<in> set ps" for q
    using Cons.prems that by (auto simp: sorted_wrt_append)
  with Cons show ?case by (auto simp: sorted_wrt_append)
qed simp

lemma check_replies:
  assumes "\<forall>p\<in>set kvs. range_size (FindRange arr (first_key p) (List.last (s_elems (kv_keys p)) + 1)) = of_nat (s_size (kv_keys p)) \<and>
      s_elems (kv_keys p) \<noteq> [] \<and> (wl \<longrightarrow> s_size (kv_lens p) = s_size (kv_keys p))"
  shows "foldR (check_reply arr wl) kvs (a, b) =
    Inr (a + sum_list (map (\<lambda>p. s_size (kv_keys p)) kvs), b + sum_list (map (\<lambda>p. s_size (kv_vals p)) kvs))"
  using assms
  by (induction kvs arbitrary: a b) (auto simp: check_reply_def sarray_front_def sarray_back_def)

lemma sum_list_mset_cong: "mset xs = mset ys \<Longrightarrow> sum_list (map f xs) = (sum_list (map f ys) :: nat)"
  by (metis mset_map sum_mset_sum_list)

lemma copy_at_append: "p + length xs \<le> length buf \<Longrightarrow> length (copy_at p xs buf) = length buf"
  by (simp add: copy_at_def)

lemma copy_replies_eq:
  "pv + length (concat (map (\<lambda>p. s_elems (kv_vals p)) ps)) \<le> length vbuf \<Longrightarrow>
     fst (copy_replies ps pv pl vbuf lbuf) = copy_at pv (concat (map (\<lambda>p. s_elems (kv_vals p)) ps)) vbuf"
proof (induction ps arbitrary: pv pl vbuf lbuf)
  case Nil
  then show ?case by (simp add: copy_at_def)
next
  case (Cons p ps)
  let ?vs = "s_elems (kv_vals p)" and ?rest = "concat (map (\<lambda>p. s_elems (kv_vals p)) ps)"
  have le: "pv + length ?vs \<le> length vbuf" using Cons.prems by simp
  have "copy_at (pv + length ?vs) ?rest (copy_at pv ?vs vbuf) = copy_at pv (?vs @ ?rest) vbuf"
    using le by (simp add: copy_at_def add.assoc add.commute)
  then show ?case using Cons le by (simp add: copy_at_append)
qed

lemma copy_replies_lens:
  "pl + length (concat (map (\<lambda>p. s_elems (kv_lens p)) ps)) \<le> length lbuf \<Longrightarrow>
     snd (copy_replies ps pv pl vbuf (Some lbuf)) = Some (copy_at pl (concat (map (\<lambda>p. s_elems (kv_lens p)) ps)) lbuf)"
proof (induction ps arbitrary: pv pl vbuf lbuf)
  case Nil
  then show ?case by (simp add: copy_at_def)
next
  case (Cons p ps)
  let ?ls = "s_elems (kv_lens p)" and ?rest = "concat (map (\<lambda>p. s_elems (kv_lens p)) ps)"
  have le: "pl + length ?ls \<le> length lbuf" using Cons.prems by simp
  have "copy_at (pl + length ?ls) ?rest (copy_at pl ?ls lbuf) = copy_at pl (?ls @ ?rest) lbuf"
    using le by (simp add: copy_at_def add.assoc add.commute)
  then show ?case using Cons le by (simp add: copy_at_append)
qed

lemma pieces_checked:
  assumes "sorted_wrt (<) (s_elems arr)" and "\<forall>x\<in>set (s_elems arr). x \<noteq> -1" and "pieces_ok (s_elems arr) wl ps" and "p \<in> set ps"
  shows "range_size (FindRange arr (first_key p) (List.last (s_elems (kv_keys p)) + 1)) = of_nat (s_size (kv_keys p))"
proof -
  obtain xs ys where ps: "ps = xs @ p # ys" using assms(4) by (meson split_list)
  let ?f = "\<lambda>p. s_elems (kv_keys p)"
  have "s_elems arr = concat (map ?f xs) @ ?f p @ concat (map ?f ys)" and ne: "?f p \<noteq> []"
    using assms(3,4) by (auto simp: pieces_ok_def ps)
  then show ?thesis
    using assms(1,2) by (intro FindRange_piece) (auto dest: last_in_set)
qed

text \<open>
  C19: the callback of a pull assembles the replies.  Suppose the servers have answered with the
  pieces \<open>ps\<close> of the asked keys (in increasing order and different from the largest key), one reply
  per server, and the replies arrived in any order whatever.  Then the callback succeeds, the
  values of all pieces are written into the buffer in the order of the keys, the rest of a longer
  buffer is left alone, the lengths likewise, the replies are dropped and the application's
  callback runs.
\<close>

theorem pull_assembles:
  fixes k :: "'v::zero kvworker"
  assumes strict: "sorted_wrt (<) (s_elems keys)" and top: "\<forall>x\<in>set (s_elems keys). x \<noteq> -1"
    and pieces: "pieces_ok (s_elems keys) (lens \<noteq> None) ps"
    and arrived: "mset (umap_index [] (kw_recv_kvs k) ts) = mset ps" and copying: "\<not> kw_is_worker_zpull k"
    and vs: "vs = concat (map (\<lambda>p. s_elems (kv_vals p)) ps)"
    and room: "s_elems (kw_vals k vals) = [] \<or> length vs \<le> s_size (kw_vals k vals)"
    and lroom: "\<And>l. lens = Some l \<Longrightarrow> s_elems (kw_lens k l) = [] \<or> s_size (kw_lens k l) = s_size keys"
  shows "\<exists>k'. run_pull ts keys vals lens cb k = Inr k' \<and>
    s_elems (kw_vals k' vals) = vs @ drop (length vs) (s_elems (kw_vals k vals)) \<and>
    (\<forall>l. lens = Some l \<longrightarrow> s_elems (kw_lens k' l) = concat (map (\<lambda>p. s_elems (kv_lens p)) ps)) \<and>
    umap_find (kw_recv_kvs k') ts = None \<and> kw_called k' = kw_called k @ (case cb of None \<Rightarrow> [] | Some f \<Rightarrow> [f])"
proof -
  let ?kvs = "umap_index [] (kw_recv_kvs k) ts"
  have cat: "concat (map (\<lambda>p. s_elems (kv_keys p)) ps) = s_elems keys" using pieces by (simp add: pieces_ok_def)
  have set_eq: "set ?kvs = set ps" using arrived by (rule mset_eq_setD)
  have tot: "sum_list (map (\<lambda>p. s_size (kv_keys p)) ?kvs) = s_size keys" "sum_list (map (\<lambda>p. s_size (kv_vals p)) ?kvs) = length vs"
    using arg_cong [OF cat, of length] vs by (simp_all add: sum_list_mset_cong [OF arrived] length_concat comp_def)
  have check: "foldR (check_reply keys (lens \<noteq> None)) ?kvs (0, 0) = Inr (s_size keys, length vs)"
    using check_replies [of ?kvs keys "lens \<noteq> None" 0 0] pieces_checked [OF strict top pieces] pieces tot
    by (auto simp: set_eq pieces_ok_def)
  have sort: "std_sort reply_before ?kvs = ps"
    using sort_replies [OF arrived pieces_sorted] strict pieces by (simp add: pieces_ok_def)
  obtain vbuf where vbuf: "vals_buffer (length vs) (kw_vals k vals) = Inr vbuf"
    "length vs \<le> s_size vbuf" "drop (length vs) (s_elems vbuf) = drop (length vs) (s_elems (kw_vals k vals))"
    using room by (cases "s_elems (kw_vals k vals) = []") (auto simp: vals_buffer_def fill_to_def)
  have cp: "fst (copy_replies ps 0 0 (s_elems vbuf) lb) = vs @ drop (length vs) (s_elems (kw_vals k vals))" for lb
    using copy_replies_eq [of 0 ps "s_elems vbuf" 0 lb] vbuf(2,3) vs by (simp add: copy_at_def)
  show ?thesis
  proof (cases lens)
    case None
    with check sort vbuf(1) cp [of None] copying show ?thesis by (simp add: run_pull_def Let_def split_def)
  next
    case (Some l)
    let ?ls = "concat (map (\<lambda>p. s_elems (kv_lens p)) ps)"
    have "sum_list (map (\<lambda>p. s_size (kv_lens p)) ps) = sum_list (map (\<lambda>p. s_size (kv_keys p)) ps)"
      using pieces Some by (intro arg_cong [of _ _ sum_list] map_cong) (auto simp: pieces_ok_def)
    then have len: "length ?ls = s_size keys"
      using tot(1) by (simp add: length_concat comp_def sum_list_mset_cong [OF arrived])
    obtain lbuf where lbuf: "lens_buffer (s_size keys) (kw_lens k l) = Inr lbuf" "s_size lbuf = s_size keys"
      using lroom [OF Some] by (cases "s_elems (kw_lens k l) = []") (auto simp: lens_buffer_def fill_to_def)
    have "snd (copy_replies ps 0 0 (s_elems vbuf) (Some (s_elems lbuf))) = Some ?ls"
      using copy_replies_lens [of 0 ps "s_elems lbuf"] len lbuf(2) by (simp add: copy_at_def)
    with Some check sort vbuf(1) cp [of "Some (s_elems lbuf)"] lbuf(1) copying show ?thesis
      by (simp add: run_pull_def Let_def split_def)
  qed
qed

definition example_pieces :: "int kvpairs list" where
  "example_pieces = [\<lparr>kv_keys = from_vector 0 [1, 5], kv_vals = from_vector 0 [10, 20], kv_lens = SArray0\<rparr>,
     \<lparr>kv_keys = from_vector 0 [9], kv_vals = from_vector 0 [30], kv_lens = SArray0\<rparr>]"

theorem pull_assembles_witness:
  "\<exists>k'. run_pull 0 (from_vector 0 [1, 5, 9]) 7 None (Some 2) (example_worker\<lparr>kw_recv_kvs := [(0, rev example_pieces)]\<rparr>) = Inr k' \<and>
     s_elems (kw_vals k' 7) = [10, 20, 30] \<and> kw_called k' = [2]"
proof -
  let ?k = "example_worker\<lparr>kw_recv_kvs := [(0, rev example_pieces)]\<rparr>"
  have p: "pieces_ok (s_elems (from_vector 0 [1, 5, 9])) (None \<noteq> (None::nat option)) example_pieces"
    by (simp add: pieces_ok_def example_pieces_def from_vector_def)
  have a: "mset (umap_index [] (kw_recv_kvs ?k) 0) = mset example_pieces"
    by (simp add: umap_index_def umap_find_def)
  have vs: "[10, 20, 30] = concat (map (\<lambda>p. s_elems (kv_vals p)) example_pieces)"
    by (simp add: example_pieces_def from_vector_def)
  have k: "\<not> kw_is_worker_zpull ?k" "s_elems (kw_vals ?k 7) = []" "kw_called ?k = []"
    by (simp_all add: example_worker_def SArray0_def)
  have s: "sorted_wrt (<) (s_elems (from_vector 0 [1, 5, 9 :: key]))" "\<forall>x\<in>set (s_elems (from_vector 0 [1, 5, 9 :: key])). x \<noteq> -1"
    by (simp_all add: from_vector_def)
  show ?thesis
    using pull_assembles [OF s p a k(1) vs, of 7 "Some 2"] unfolding k(2,3) by auto
qed

section \<open>When the callback runs\<close>

text \<open>Every open request waits for as many responses as there are server groups.\<close>

definition all_servers :: "customer \<times> 'v kvworker \<Rightarrow> bool" where
  "all_servers = (\<lambda>(c, k). \<forall>t\<in>set (cu_tracker c). tr_count t = po_num_servers (kw_first k))"

lemma Process_keeps:
  assumes "all_servers (c, k)" and "\<not> m_simple_app (msg_meta m)" and "KVWorker_Process vt hs m (c, k) = Inr (c', k')"
  shows "c' = c \<and> kw_first k' = kw_first k \<and> kw_callbacks k' = kw_callbacks k \<and> kw_vals k' = kw_vals k \<and>
    kw_lens k' = kw_lens k \<and> kw_called k' = kw_called k"
  using assms
  by (auto simp: KVWorker_Process_def Let_def res_simps NumResponse_def vec_get_eq_Inr all_servers_def split: if_splits)

lemma Process_keeps_run:
  assumes "\<forall>m\<in>set ms. \<not> m_simple_app (msg_meta m)" and "all_servers (c, k)"
    and "foldR (DirectProcess (KVWorker_Process vt hs)) ms (c, k) = Inr (c', k')"
  shows "kw_callbacks k' = kw_callbacks k \<and> kw_vals k' = kw_vals k \<and> kw_lens k' = kw_lens k \<and> kw_called k' = kw_called k"
  using assms
proof (induction ms arbitrary: c k)
  case (Cons m ms)
  then obtain c1 k1 where step: "DirectProcess (KVWorker_Process vt hs) m (c, k) = Inr (c1, k1)"
    and rest: "foldR (DirectProcess (KVWorker_Process vt hs)) ms (c1, k1) = Inr (c', k')"
    by (auto simp: res_simps)
  have "kw_first k1 = kw_first k \<and> kw_callbacks k1 = kw_callbacks k \<and> kw_vals k1 = kw_vals k \<and>
      kw_lens k1 = kw_lens k \<and> kw_called k1 = kw_called k \<and> tr_count ` set (cu_tracker c1) \<subseteq> tr_count ` set (cu_tracker c)"
  proof (cases "msg_cmd m = TERMINATE")
    case True
    with step show ?thesis by (simp add: DirectProcess_def control_empty_def)
  next
    case False
    then obtain c2 k2 where p: "KVWorker_Process vt hs m (c, k) = Inr (c2, k2)"
      and s: "(if \<not> m_request (msg_meta m) then
          bindR (vec_get (cu_tracker c2) (m_timestamp (msg_meta m))) (\<lambda>t.
          bindR (vec_set (cu_tracker c2) (m_timestamp (msg_meta m))
                  (t\<lparr>tr_response_count := tr_response_count t + 1,
                     tr_response_count_cache := tr_response_count_cache t + 1\<rparr>)) (\<lambda>ts.
            Inr (c2\<lparr>cu_tracker := ts\<rparr>, k2)))
        else Inr (c2, k2)) = Inr (c1, k1)"
      using step by (auto simp: DirectProcess_def res_simps)
    note kp = Process_keeps [OF Cons.prems(2) _ p]
    have "k1 = k2" "tr_count ` set (cu_tracker c1) \<subseteq> tr_count ` set (cu_tracker c2)"
      using s by (auto simp: res_simps vec_get_eq_Inr vec_set_eq_Inr dest!: subsetD [OF set_update_subset_insert] split: if_splits)
    with kp Cons.prems(1) show ?thesis by simp
  qed
  moreover from this have "all_servers (c1, k1)"
    using Cons.prems(2) by (fastforce simp: all_servers_def)
  ultimately show ?case using Cons.IH [OF _ _ rest] Cons.prems(1) by simp
qed simp

lemma lower_bound_0: "lower_bound (xs :: 64 word list) 0 = 0"
proof -
  have "lower_bound_loop xs v first len = first" if "v = 0" for v :: "64 word" and first len
    using that
  proof (induction xs v first len rule: lower_bound_loop.induct)
    case (1 xs v first len)
    then show ?case by (subst lower_bound_loop.simps) auto
  qed
  then show ?thesis by (simp add: lower_bound_def)
qed

lemma slice_loop_used:
  "slice_loop w k send (p # ps) vb = Inr ss \<Longrightarrow> List.last (p # ps) \<noteq> p \<Longrightarrow> \<exists>s\<in>set ss. fst s"
proof (induction ps arbitrary: p vb ss)
  case (Cons p' ps)
  show ?case
  proof (cases "p' = p")
    case True
    with Cons show ?thesis by (auto simp: res_simps)
  next
    case False
    with Cons.prems show ?thesis by (auto simp: res_simps Let_def split: if_splits)
  qed
qed simp

lemma DefaultSlicer_used:
  assumes "DefaultSlicer w send rs = Inr sliced" and "s_elems (kv_keys send) \<noteq> []" and "rs \<noteq> []" "r_begin (hd rs) = 0"
  shows "\<exists>s\<in>set sliced. fst s"
proof -
  obtain pos where pos: "slice_positions (s_elems (kv_keys send)) rs = Inr pos" "List.last pos = s_size (kv_keys send)"
    "slice_loop w (s_size (kv_vals send) div s_size (kv_keys send)) send pos 0 = Inr sliced"
    using assms(1,2) by (auto simp: DefaultSlicer_def res_simps Let_def)
  from pos(1) assms(3,4) obtain ps where "pos = 0 # ps"
    by (cases rs) (auto simp: slice_positions_def bindR_eq_Inr Let_def lower_bound_0 simp del: pos_loop.simps)
  with pos(2,3) assms(2) show ?thesis using slice_loop_used [of _ _ _ 0 ps] by auto
qed

lemma send_slices_frame:
  "send_slices vt c ts push cmd i ss k = Inr k' \<Longrightarrow> \<exists>new. k' = k\<lparr>kw_sent := kw_sent k @ new\<rparr>"
proof (induction ss arbitrary: i k)
  case Nil
  then show ?case by (auto intro!: exI [of _ "[]"])
next
  case (Cons s ss)
  obtain u kvs where s: "s = (u, kvs)" by (cases s)
  show ?case
  proof (cases u)
    case False
    with Cons s show ?thesis by auto
  next
    case True
    with Cons.prems s obtain m where "send_slices vt c ts push cmd (i + 1) ss (k\<lparr>kw_sent := kw_sent k @ [m]\<rparr>) = Inr k'"
      by (auto simp: res_simps)
    from Cons.IH [OF this] show ?thesis by fastforce
  qed
qed

lemma GetServerKeyRanges_servers: "po_num_servers (fst (GetServerKeyRanges po)) = po_num_servers po"
  by (simp add: GetServerKeyRanges_def Let_def)

text \<open>Sending pairs with keys leaves the callbacks and the application's buffers alone.\<close>

lemma Send_keeps:
  assumes "worker_ready k" and "s_elems (kv_keys send) \<noteq> []"
    and "KVWorker_Send vt (DefaultSlicer w) ts push cmd send (c, k) = Inr (c', k')"
  shows "kw_callbacks k' = kw_callbacks k \<and> kw_vals k' = kw_vals k \<and> kw_lens k' = kw_lens k \<and> kw_called k' = kw_called k \<and>
    po_num_servers (kw_first k') = po_num_servers (kw_first k) \<and> tr_count ` set (cu_tracker c') \<subseteq> tr_count ` set (cu_tracker c)"
proof -
  obtain f rs where f: "GetServerKeyRanges (kw_first k) = (f, rs)" by (cases "GetServerKeyRanges (kw_first k)")
  have rs: "rs \<noteq> []" "r_begin (hd rs) = 0"
    using GetServerKeyRanges_ok [of "kw_first k" rs, OF _ _ _ _ refl refl] assms(1) f by (auto simp: worker_ready_def)
  obtain sliced where sl: "DefaultSlicer w send rs = Inr sliced"
    and add: "AddResponse ts (int (length (filter (\<lambda>s. \<not> fst s) sliced))) c = Inr c'"
    and r: "bindR (if length (filter (\<lambda>s. \<not> fst s) sliced) = length sliced then RunCallback ts (k\<lparr>kw_first := f\<rparr>) else Inr (k\<lparr>kw_first := f\<rparr>))
        (\<lambda>k2. send_slices vt c' ts push cmd 0 sliced k2) = Inr k'"
    using assms(3) f by (auto simp: KVWorker_Send_def Let_def res_simps)
  obtain x where "x \<in> set sliced" "fst x" using DefaultSlicer_used [OF sl assms(2) rs] by blast
  then have "length (filter (\<lambda>s. \<not> fst s) sliced) < length sliced" by (intro length_filter_less) auto
  with r have "send_slices vt c' ts push cmd 0 sliced (k\<lparr>kw_first := f\<rparr>) = Inr k'" by simp
  then obtain new where k': "k' = k\<lparr>kw_first := f, kw_sent := kw_sent k @ new\<rparr>" using send_slices_frame by fastforce
  have "tr_count ` set (cu_tracker c') \<subseteq> tr_count ` set (cu_tracker c)"
    using add by (auto simp: AddResponse_Inr dest!: subsetD [OF set_update_subset_insert])
  moreover have "po_num_servers f = po_num_servers (kw_first k)" using GetServerKeyRanges_servers [of "kw_first k"] f by simp
  ultimately show ?thesis by (simp add: k')
qed

text \<open>
  C40: responses never complete a pull.  A worker whose open requests wait for one response per
  server group (which is what \<^verbatim>\<open>NewRequest\<close> sets up) and that starts a pull stores the replies,
  but its callback never runs: whatever messages arrive, as many responses as are waited for or
  more, the callback stays registered, no application callback is called and the buffers of the
  application keep their contents.  The cause is that \<^verbatim>\<open>NumResponse\<close> gives the number of expected
  responses, which is never one less than the number of servers.
\<close>

theorem pull_callback_never_runs:
  assumes ready: "worker_ready k" and all: "all_servers (c, k)" and ne: "s_elems keys \<noteq> []"
    and pull: "Pull_impl vt (DefaultSlicer w) now keys vals lens cmd cb (c, k) = Inr ((c1, k1), ts)"
    and ms: "\<forall>m\<in>set ms. \<not> m_simple_app (msg_meta m)"
    and run: "foldR (DirectProcess (KVWorker_Process vt hs)) ms (c1, k1) = Inr (c', k')"
  shows "umap_find (kw_callbacks k') ts = Some (PullCb ts keys vals lens cb) \<and> kw_called k' = kw_called k \<and>
    kw_vals k' = kw_vals k \<and> kw_lens k' = kw_lens k"
proof -
  obtain c0 where c0: "NewRequest (kw_po k) now kServerGroup c = Inr (c0, ts)"
    and send: "KVWorker_Send vt (DefaultSlicer w) ts False cmd \<lparr>kv_keys = keys, kv_vals = kw_vals k vals, kv_lens = SArray0\<rparr>
        (c0, AddCallback ts (Some (PullCb ts keys vals lens cb)) k) = Inr (c1, k1)"
    using pull by (auto simp: Pull_impl_def Let_def res_simps)
  let ?k = "AddCallback ts (Some (PullCb ts keys vals lens cb)) k"
  have k: "worker_ready ?k" using ready by (simp add: worker_ready_def AddCallback_def)
  define t where "t = cu_tracker c0 ! length (cu_tracker c)"
  have "cu_tracker c0 = cu_tracker c @ [t]" using NewRequest_Inr [OF c0] by (simp add: t_def)
  moreover have "tr_count t = po_num_servers (kw_po k)" using NewRequest_ready [OF ready, of now c] c0 by (auto simp: t_def)
  ultimately have "all_servers (c0, ?k)" using all ready by (simp add: all_servers_def AddCallback_def worker_ready_def)
  with Send_keeps [OF k _ send] ne have "all_servers (c1, k1)" by (fastforce simp: all_servers_def)
  from Process_keeps_run [OF ms this run] Send_keeps [OF k _ send] ne show ?thesis by (simp add: AddCallback_def)
qed

lemma add_kvs_total: "no_data m \<Longrightarrow> \<exists>m'. add_kvs vt kvs m = Inr m'"
  by (auto simp: add_kvs_def AddData_def no_data_def Let_def)

lemma send_slices_total: "\<exists>k'. send_slices vt c ts push cmd i ss k = Inr k'"
proof (induction ss arbitrary: i k)
  case (Cons s ss)
  obtain u kvs where s: "s = (u, kvs)" by (cases s)
  have "\<exists>m. slice_msg vt c ts push cmd r kvs = Inr m" for r
  proof -
    let ?kvs = "if \<not> push then kvs\<lparr>kv_vals := sarray_clear (kv_vals kvs)\<rparr> else kvs"
    let ?m = "upd_meta (\<lambda>m. m\<lparr>m_app_id := cu_app_id c, m_customer_id := cu_customer_id c,
            m_request := True, m_push := push, m_head := cmd, m_timestamp := ts,
            m_recver := r, m_addr := s_addr (kv_vals kvs),
            m_val_len := to_int32 (int (s_size (kv_vals kvs)))\<rparr>) Message0"
    have "no_data ?m" by (simp add: no_data_def Message0_def Meta0_def)
    from add_kvs_total [OF this] obtain m where "add_kvs vt ?kvs ?m = Inr m" by blast
    then show ?thesis by (simp add: slice_msg_def Let_def)
  qed
  then obtain m where "slice_msg vt c ts push cmd (GroupServerRankToInstanceID (kw_po k) i (kw_instance_idx k)) kvs = Inr m" by blast
  with Cons s show ?case by auto
qed simp

lemma Pull_total:
  assumes ready: "worker_ready k" and keys: "sorted (s_elems keys)" "s_elems keys \<noteq> []"
    "\<forall>x\<in>set (s_elems keys). unat x < key_quota (po_num_servers (kw_po k)) * nat (po_num_servers (kw_po k))"
    and empty: "s_elems (kw_vals k vals) = []"
  shows "\<exists>c1 k1. Pull_impl vt (DefaultSlicer w) now keys vals lens cmd cb (c, k) = Inr ((c1, k1), int (length (cu_tracker c))) \<and>
    length (cu_tracker c1) = Suc (length (cu_tracker c)) \<and> po_num_servers (kw_first k1) = po_num_servers (kw_po k) \<and>
    tr_count (cu_tracker c1 ! length (cu_tracker c)) = po_num_servers (kw_po k)"
proof -
  let ?l = "length (cu_tracker c)" and ?n = "po_num_servers (kw_po k)"
  let ?send = "\<lparr>kv_keys = keys, kv_vals = kw_vals k vals, kv_lens = SArray0\<rparr>"
  let ?k = "AddCallback (int ?l) (Some (PullCb (int ?l) keys vals lens cb)) k"
  obtain c0 where c0: "NewRequest (kw_po k) now kServerGroup c = Inr (c0, int ?l)" "length (cu_tracker c0) = Suc ?l"
    "tr_count (cu_tracker c0 ! ?l) = ?n" using NewRequest_ready [OF ready] by blast
  obtain f rs where f: "GetServerKeyRanges (kw_first k) = (f, rs)" by (cases "GetServerKeyRanges (kw_first k)")
  have r: "ranges_ok rs" "rs \<noteq> []" "r_begin (hd rs) = 0" "unat (r_end (List.last rs)) = key_quota ?n * nat ?n"
    using GetServerKeyRanges_ok [of "kw_first k" rs, OF _ _ _ _ refl refl] ready f by (simp_all add: worker_ready_def)
  have "DefaultSlicer w ?send rs = Inr (slices w ?send (positions (s_elems keys) rs))"
    using DefaultSlicer_eq [of ?send rs w] r keys empty by (simp add: kvs_ok_def SArray0_def word_less_nat_alt)
  then obtain sliced where sl: "DefaultSlicer w ?send rs = Inr sliced" by blast
  obtain x where "x \<in> set sliced" "fst x" using DefaultSlicer_used [OF sl] keys(2) r(2,3) by auto
  then have some: "length (filter (\<lambda>s. \<not> fst s) sliced) < length sliced" by (intro length_filter_less) auto
  obtain c1 where c1: "AddResponse (int ?l) (int (length (filter (\<lambda>s. \<not> fst s) sliced))) c0 = Inr c1"
    using c0(2) by (simp add: AddResponse_Inr)
  obtain k1 where k1: "send_slices vt c1 (int ?l) False cmd 0 sliced (?k\<lparr>kw_first := f\<rparr>) = Inr k1"
    using send_slices_total by blast
  then have "kw_first k1 = f" using send_slices_frame [OF k1] by auto
  moreover have "po_num_servers f = ?n" using GetServerKeyRanges_servers [of "kw_first k"] f ready by (simp add: worker_ready_def)
  moreover have "KVWorker_Send vt (DefaultSlicer w) (int ?l) False cmd ?send (c0, ?k) = Inr (c1, k1)"
    using f sl some c1 k1 by (simp add: KVWorker_Send_def Let_def AddCallback_def)
  then have "Pull_impl vt (DefaultSlicer w) now keys vals lens cmd cb (c, k) = Inr ((c1, k1), int ?l)"
    using c0(1) by (simp add: Pull_impl_def Let_def)
  moreover have "length (cu_tracker c1) = Suc ?l" "tr_count (cu_tracker c1 ! ?l) = ?n" using c1 c0 by (auto simp: AddResponse_Inr)
  ultimately show ?thesis by blast
qed

lemma response_step:
  assumes "ts < length (cu_tracker c)" and "tr_count (cu_tracker c ! ts) = po_num_servers (kw_first k)"
  shows "\<exists>c'. DirectProcess (KVWorker_Process vt hs) (response_msg (int ts)) (c, k) = Inr (c', k) \<and>
    length (cu_tracker c') = length (cu_tracker c) \<and> tr_count (cu_tracker c' ! ts) = tr_count (cu_tracker c ! ts)"
  using assms
  by (simp add: DirectProcess_def KVWorker_Process_def response_msg_def Message0_def Meta0_def Control0_def
      control_empty_def NumResponse_def vec_set_def Let_def)

definition no_handles_w :: "(customer \<times> int kvworker) simple_handles" where
  "no_handles_w = \<lparr>sh_request = None, sh_response = None\<rparr>"

theorem pull_callback_never_runs_witness:
  "\<exists>c1 k1 c' k'. Pull_impl i32_type (DefaultSlicer 4) 0 (kv_keys example_kvs) 7 None 3 (Some 2)
        (example_customer, example_worker) = Inr ((c1, k1), 1) \<and>
     foldR (DirectProcess (KVWorker_Process i32_type no_handles_w)) [response_msg 1, response_msg 1] (c1, k1) = Inr (c', k') \<and>
     kw_called k' = [] \<and> umap_find (kw_callbacks k') 1 \<noteq> None"
proof -
  have keys: "sorted (s_elems (kv_keys example_kvs))" "s_elems (kv_keys example_kvs) \<noteq> []"
    "\<forall>x\<in>set (s_elems (kv_keys example_kvs)).
       unat x < key_quota (po_num_servers (kw_po example_worker)) * nat (po_num_servers (kw_po example_worker))"
    "s_elems (kw_vals example_worker 7) = []" "length (cu_tracker example_customer) = 1"
    by (simp_all add: example_kvs_def from_vector_def key_quota_def example_worker_def example_po_sizes SArray0_def example_customer_def)
  obtain c1 k1 where pull: "Pull_impl i32_type (DefaultSlicer 4) 0 (kv_keys example_kvs) 7 None 3 (Some 2)
      (example_customer, example_worker) = Inr ((c1, k1), 1)"
    and c1: "1 < length (cu_tracker c1)" "tr_count (cu_tracker c1 ! 1) = po_num_servers (kw_first k1)"
    using Pull_total [OF example_worker_ready keys(1-4), of i32_type 4 0 None 3 "Some 2" example_customer] keys(5) by auto
  obtain c2 where c2: "DirectProcess (KVWorker_Process i32_type no_handles_w) (response_msg 1) (c1, k1) = Inr (c2, k1)"
    "1 < length (cu_tracker c2)" "tr_count (cu_tracker c2 ! 1) = po_num_servers (kw_first k1)"
    using response_step [OF c1, of i32_type no_handles_w] c1 by auto
  obtain c3 where c3: "DirectProcess (KVWorker_Process i32_type no_handles_w) (response_msg 1) (c2, k1) = Inr (c3, k1)"
    using response_step [OF c2(2,3), of i32_type no_handles_w] by auto
  have run: "foldR (DirectProcess (KVWorker_Process i32_type no_handles_w)) [response_msg 1, response_msg 1] (c1, k1) = Inr (c3, k1)"
    using c2(1) c3 by simp
  have all: "all_servers (example_customer, example_worker)"
    by (simp add: all_servers_def example_customer_def example_worker_def example_po_sizes)
  have plain: "\<forall>m\<in>set [response_msg 1, response_msg 1]. \<not> m_simple_app (msg_meta m)"
    by (simp add: response_msg_def Message0_def Meta0_def)
  from pull_callback_never_runs [OF example_worker_ready all keys(2) pull plain run] pull run show ?thesis
    by (intro exI [of _ c1] exI [of _ k1] exI [of _ c3] exI [of _ k1]) (simp add: example_worker_def)
qed

end
