(* ===== verification/AFTensor.thy ===== *)
theory AFTensor
  imports KV
begin

text \<open>
  \<^verbatim>\<open>include/ps/af_tensor_app.h\<close>: the tensor application.  A worker turns a batch of pushes and
  pulls into a sequence of key-value messages whose command marks the start, the middle and the
  end of the batch; a server gathers the messages of a batch, calls the request handle once the
  batch is complete, and answers from a response queue.  Tensors come from another library and
  are described by what the code reads of them.  The two worker threads are the functions that
  process one element of their queue.
\<close>

section \<open>Tensors and events\<close>

record tensor =
  tn_data_ptr :: "64 word"
  tn_bytes :: "byte list"
  tn_dtype :: int
  tn_shape :: "int list"

record key_tensor =
  kt_key :: key
  kt_val :: "tensor option"

definition AF_FLAG_BATCH_START :: int where "AF_FLAG_BATCH_START = 1"
definition AF_FLAG_BATCH_MIDDLE :: int where "AF_FLAG_BATCH_MIDDLE = 2"
definition AF_FLAG_BATCH_END :: int where "AF_FLAG_BATCH_END = 3"
definition kDefaultEventBufferSize :: nat where "kDefaultEventBufferSize = 16"

definition char_type :: "byte valtype" where
  "char_type = \<lparr>vt_cxx = Ty_char, vt_enc = byte_bytes, vt_dec = hd, vt_width = 1\<rparr>"

text \<open>The array over a tensor's memory; its deleter keeps the tensor alive and frees nothing.\<close>

definition tensor_array :: "tensor \<Rightarrow> byte sarray" where
  "tensor_array t = SArray0\<lparr>s_elems := tn_bytes t, s_addr := tn_data_ptr t\<rparr>"

text \<open>\<^verbatim>\<open>SArray<Key> key(1)\<close> with the key written to it, allocated at \<open>ka\<close>.\<close>

definition key_array :: "64 word \<Rightarrow> key \<Rightarrow> key sarray" where
  "key_array ka key = SArray0\<lparr>s_elems := [key], s_addr := ka\<rparr>"

text \<open>
  \<^verbatim>\<open>GetEvent\<close>: the first event that can be occupied, or a new one; an event is known by its
  position in \<^verbatim>\<open>events_\<close>.
\<close>

fun GetEvent :: "tensor_event list \<Rightarrow> tensor_event list \<times> nat" where
  "GetEvent [] = ([fst (te_Occupy TensorEvent0)], 0)"
| "GetEvent (ev # evs) =
     (let (ev', occupied) = te_Occupy ev
      in if occupied then (ev' # evs, 0)
         else let (evs', i) = GetEvent evs in (ev' # evs', i + 1))"

section \<open>The worker\<close>

record af_request =
  rq_push :: "key_tensor list"
  rq_pull :: "key_tensor list"
  rq_push_timestamps :: "int list"
  rq_pull_timestamps :: "int list"
  rq_event :: "nat option"

record af_worker =
  aw_customer :: customer
  aw_kv :: "byte kvworker"
  aw_batch_timestamps :: "(int, int list) umap"
  aw_events :: "tensor_event list"
  aw_queue :: "af_request list"

definition AFTensorWorker_new :: "environment \<Rightarrow> customer \<times> byte kvworker \<Rightarrow> af_worker res" where
  "AFTensorWorker_new e = (\<lambda>(c, k).
     let gpu = fst (env_find_int e ''STEPMESH_GPU'' (-1))
     in PS_CHECK (gpu \<ge> 0) ''STEPMESH_GPU is not set''
        (Inr \<lparr>aw_customer = c, aw_kv = k, aw_batch_timestamps = [],
              aw_events = replicate kDefaultEventBufferSize TensorEvent0, aw_queue = []\<rparr>))"

text \<open>\<^verbatim>\<open>Postoffice::GetWorker(instance_id_)->GetServerKeyRanges().size()\<close>.\<close>

definition server_count :: "byte kvworker \<Rightarrow> byte kvworker \<times> nat" where
  "server_count k =
     (let (po, ranges) = GetServerKeyRanges (kw_po k) in (k\<lparr>kw_po := po\<rparr>, length ranges))"

text \<open>The timestamps of \<open>n\<close> calls of \<^verbatim>\<open>AllocTimestamp\<close>; \<open>clock\<close> gives the time of each call.\<close>

fun alloc_timestamps ::
  "(nat \<Rightarrow> 64 word) \<Rightarrow> nat \<Rightarrow> customer \<times> byte kvworker \<Rightarrow> ((customer \<times> byte kvworker) \<times> int list) res" where
  "alloc_timestamps clock 0 s = Inr (s, [])"
| "alloc_timestamps clock (Suc n) s =
     bindR (AllocTimestamp (clock 0) s) (\<lambda>(s1, ts).
     bindR (alloc_timestamps (\<lambda>i. clock (Suc i)) n s1) (\<lambda>(s2, tss). Inr (s2, ts # tss)))"

text \<open>
  \<^verbatim>\<open>ZBatchPushPull\<close>.  The first timestamp of the batch is the handle that is returned (0 if there
  is none); the others are remembered under it.  \<^verbatim>\<open>emplace_unique\<close> does not look for the key.
\<close>

definition ZBatchPushPull ::
  "(nat \<Rightarrow> 64 word) \<Rightarrow> bool \<Rightarrow> key_tensor list \<Rightarrow> key_tensor list \<Rightarrow> bool \<Rightarrow> af_worker \<Rightarrow> (af_worker \<times> int) res" where
  "ZBatchPushPull clock record_ok push_tensors pull_tensors need_event w =
     (let (k1, servers) = server_count (aw_kv w)
      in PS_CHECK (servers > 0) ''zero servers and cannot pushpull''
       (bindR (alloc_timestamps clock (length push_tensors) (aw_customer w, k1)) (\<lambda>(s1, push_ts).
        bindR (alloc_timestamps (\<lambda>i. clock (length push_tensors + i)) (length pull_tensors div servers) s1) (\<lambda>((c, k), pull_ts).
        let all_ts = push_ts @ pull_ts;
            start_ts = (case all_ts of [] \<Rightarrow> 0 | ts # _ \<Rightarrow> ts);
            timestamps = tl all_ts;
            (evs, ev) = (if need_event
                         then let (evs1, i) = GetEvent (aw_events w) in (evs1[i := te_Record record_ok (evs1 ! i)], Some i)
                         else (aw_events w, None));
            req = \<lparr>rq_push = push_tensors, rq_pull = pull_tensors, rq_push_timestamps = push_ts,
                   rq_pull_timestamps = pull_ts, rq_event = ev\<rparr>
        in Inr (w\<lparr>aw_customer := c, aw_kv := k, aw_events := evs, aw_queue := aw_queue w @ [req],
                  aw_batch_timestamps := (start_ts, timestamps) # aw_batch_timestamps w\<rparr>, start_ts)))))"

text \<open>\<^verbatim>\<open>Wait\<close>; \<open>obs ts\<close> are the polls of the spin loop for the timestamp \<open>ts\<close>.\<close>

fun wait_all :: "64 word \<Rightarrow> (int \<Rightarrow> (int \<times> 64 word) list) \<Rightarrow> customer \<Rightarrow> int list \<Rightarrow> unit res option" where
  "wait_all timeout_ms obs c [] = Some (Inr ())"
| "wait_all timeout_ms obs c (ts # tss) =
     (case WaitRequest ts timeout_ms (obs ts) c of
        Some (Inr _) \<Rightarrow> wait_all timeout_ms obs c tss
      | r \<Rightarrow> r)"

definition AF_Wait ::
  "int \<Rightarrow> 64 word \<Rightarrow> (int \<Rightarrow> (int \<times> 64 word) list) \<Rightarrow> af_worker \<Rightarrow> af_worker res option" where
  "AF_Wait timestamp timeout_ms obs w =
     (case WaitRequest timestamp timeout_ms (obs timestamp) (aw_customer w) of
        None \<Rightarrow> None
      | Some (Inl err) \<Rightarrow> Some (Inl err)
      | Some (Inr _) \<Rightarrow>
          (case umap_find (aw_batch_timestamps w) timestamp of
             None \<Rightarrow> Some (Inr w)
           | Some v \<Rightarrow>
               (case wait_all timeout_ms obs (aw_customer w) v of
                  None \<Rightarrow> None
                | Some (Inl err) \<Rightarrow> Some (Inl err)
                | Some (Inr _) \<Rightarrow>
                    Some (Inr (w\<lparr>aw_batch_timestamps := umap_erase timestamp (aw_batch_timestamps w)\<rparr>)))))"

definition GetAllHandlers :: "int \<Rightarrow> af_worker \<Rightarrow> int list" where
  "GetAllHandlers timestamp w =
     timestamp # (case umap_find (aw_batch_timestamps w) timestamp of None \<Rightarrow> [] | Some v \<Rightarrow> v)"

subsection \<open>Messages of a batch\<close>

definition tensor_msg :: "64 word \<Rightarrow> int \<Rightarrow> bool \<Rightarrow> int \<Rightarrow> key \<Rightarrow> tensor \<Rightarrow> message res" where
  "tensor_msg ka ts push cmd key t =
     bindR (AddData Ty_uint64 (to_chars u64_bytes (key_array ka key))
        (upd_meta (\<lambda>m. m\<lparr>m_request := True, m_head := cmd, m_push := push, m_timestamp := ts,
           m_addr := tn_data_ptr t, m_val_len := to_int32 (int (length (tn_bytes t))), m_key := key,
           m_is_tensor := 1, m_dtype := tn_dtype t, m_shape := tn_shape t\<rparr>) Message0)) (\<lambda>m1.
     AddData Ty_char (to_chars byte_bytes (tensor_array t)) m1)"

text \<open>A moved-from or default tensor has no storage; using it is undefined here.\<close>

definition ZPush_impl ::
  "64 word \<Rightarrow> int \<Rightarrow> key_tensor \<Rightarrow> int \<Rightarrow> customer \<times> byte kvworker \<Rightarrow> (customer \<times> byte kvworker) res" where
  "ZPush_impl ka ts kt cmd = (\<lambda>(c, k).
     case kt_val kt of
       None \<Rightarrow> Inl (Undefined ''undefined tensor'')
     | Some t \<Rightarrow>
         bindR (tensor_msg ka ts True cmd (kt_key kt) t) (\<lambda>msg.
         let (k1, servers) = server_count k
         in Inr (fold (\<lambda>i. KVWorker_SendMsg msg (int i)) [0..<servers] (c, k1))))"

fun zpull_loop ::
  "64 word \<Rightarrow> int \<Rightarrow> key_tensor list \<Rightarrow> nat \<Rightarrow> nat \<Rightarrow> int \<Rightarrow> nat list \<Rightarrow> customer \<times> byte kvworker \<Rightarrow>
     (customer \<times> byte kvworker) res" where
  "zpull_loop ka ts pull_tensors pull_batch_size index cmd [] s = Inr s"
| "zpull_loop ka ts pull_tensors pull_batch_size index cmd (i # is) s =
     bindR (vec_get pull_tensors (int (i * pull_batch_size + index))) (\<lambda>kt.
     case kt_val kt of
       None \<Rightarrow> Inl (Undefined ''undefined tensor'')
     | Some t \<Rightarrow>
         bindR (tensor_msg ka ts False cmd (kt_key kt) t) (\<lambda>msg.
         let (c, k) = KVWorker_SendMsg msg (int i) s
         in zpull_loop ka ts pull_tensors pull_batch_size index cmd is (c, AddCallback ts (Some (EraseCb ts)) k)))"

definition ZPull_impl ::
  "64 word \<Rightarrow> int \<Rightarrow> key_tensor list \<Rightarrow> nat \<Rightarrow> int \<Rightarrow> customer \<times> byte kvworker \<Rightarrow> (customer \<times> byte kvworker) res" where
  "ZPull_impl ka ts pull_tensors index cmd = (\<lambda>(c, k).
     let (k1, servers) = server_count k;
         pull_batch_size = length pull_tensors div servers
     in zpull_loop ka ts pull_tensors pull_batch_size index cmd [0..<servers] (c, k1))"

fun push_loop ::
  "64 word \<Rightarrow> key_tensor list \<Rightarrow> int list \<Rightarrow> bool \<Rightarrow> nat list \<Rightarrow> customer \<times> byte kvworker \<Rightarrow>
     (customer \<times> byte kvworker) res" where
  "push_loop ka push_tensors push_ts pull_empty [] s = Inr s"
| "push_loop ka push_tensors push_ts pull_empty (i # is) s =
     bindR (vec_get push_ts (int i)) (\<lambda>ts.
     bindR (ZPush_impl ka ts (push_tensors ! i)
        (if i = 0 then AF_FLAG_BATCH_START
         else if pull_empty \<and> i = length push_tensors - 1 then AF_FLAG_BATCH_END
         else AF_FLAG_BATCH_MIDDLE) s) (\<lambda>s1.
       push_loop ka push_tensors push_ts pull_empty is s1))"

fun pull_loop ::
  "64 word \<Rightarrow> key_tensor list \<Rightarrow> int list \<Rightarrow> bool \<Rightarrow> nat \<Rightarrow> nat list \<Rightarrow> customer \<times> byte kvworker \<Rightarrow>
     (customer \<times> byte kvworker) res" where
  "pull_loop ka pull_tensors pull_ts first pull_batch_size [] s = Inr s"
| "pull_loop ka pull_tensors pull_ts first pull_batch_size (i # is) s =
     bindR (vec_get pull_ts (int i)) (\<lambda>ts.
     bindR (ZPull_impl ka ts pull_tensors i
        (if first \<and> i = 0 then AF_FLAG_BATCH_START
         else if i = pull_batch_size - 1 then AF_FLAG_BATCH_END
         else AF_FLAG_BATCH_MIDDLE) s) (\<lambda>s1.
       pull_loop ka pull_tensors pull_ts first pull_batch_size is s1))"

definition ZBatchPushPull_impl ::
  "64 word \<Rightarrow> key_tensor list \<Rightarrow> int list \<Rightarrow> key_tensor list \<Rightarrow> int list \<Rightarrow> customer \<times> byte kvworker \<Rightarrow>
     (customer \<times> byte kvworker) res" where
  "ZBatchPushPull_impl ka push_tensors push_ts pull_tensors pull_ts = (\<lambda>(c, k).
     PS_CHECK (length push_tensors + length pull_tensors \<ge> 1) ''push_tensors.size() + pull_tensors.size()''
      (let (k1, servers) = server_count k
       in PS_CHECK (servers > 0) ''zero servers and cannot pushpull''
          (if length push_tensors + length pull_tensors = 1
           then (if length push_tensors = 1
                 then bindR (vec_get push_ts 0) (\<lambda>ts. ZPush_impl ka ts (push_tensors ! 0) 0 (c, k1))
                 else bindR (vec_get pull_ts 0) (\<lambda>ts. ZPull_impl ka ts pull_tensors 0 0 (c, k1)))
           else bindR (push_loop ka push_tensors push_ts (pull_tensors = []) [0..<length push_tensors] (c, k1)) (\<lambda>s1.
                let pull_batch_size = length pull_tensors div servers
                in pull_loop ka pull_tensors pull_ts (push_tensors = []) pull_batch_size [0..<pull_batch_size] s1))))"

text \<open>One turn of \<^verbatim>\<open>PushPullWorker\<close> on the request at the head of the queue.\<close>

definition PushPullWorker_turn :: "64 word \<Rightarrow> af_worker \<Rightarrow> af_worker option res" where
  "PushPullWorker_turn ka w =
     (case aw_queue w of
        [] \<Rightarrow> Inr None
      | req # rest \<Rightarrow>
          (let evs = (case rq_event req of
                        None \<Rightarrow> aw_events w
                      | Some i \<Rightarrow> (aw_events w)[i := te_Release (te_Sync (aw_events w ! i))])
           in bindR (ZBatchPushPull_impl ka (rq_push req) (rq_push_timestamps req) (rq_pull req)
                       (rq_pull_timestamps req) (aw_customer w, aw_kv w)) (\<lambda>(c, k).
              Inr (Some (w\<lparr>aw_customer := c, aw_kv := k, aw_events := evs, aw_queue := rest\<rparr>)))))"

section \<open>The server\<close>

record af_meta =
  am_sender :: int
  am_sender_rank :: int
  am_single :: bool
  am_last_timestamp :: int
  am_push_metas :: "kvmeta list"
  am_push_tensors :: "key_tensor list"
  am_pull_metas :: "kvmeta list"
  am_pull_tensors :: "key_tensor list"

definition AFTensorMeta0 :: af_meta where
  "AFTensorMeta0 = \<lparr>am_sender = 0, am_sender_rank = 0, am_single = False, am_last_timestamp = 0,
     am_push_metas = [], am_push_tensors = [], am_pull_metas = [], am_pull_tensors = []\<rparr>"

definition AFTensorMeta_Add :: "kvmeta \<Rightarrow> key_tensor \<Rightarrow> af_meta \<Rightarrow> af_meta" where
  "AFTensorMeta_Add kv_meta tensor m =
     (let m1 = m\<lparr>am_last_timestamp := km_timestamp kv_meta\<rparr>
      in if km_push kv_meta
         then m1\<lparr>am_push_tensors := am_push_tensors m1 @ [tensor], am_push_metas := am_push_metas m1 @ [kv_meta]\<rparr>
         else m1\<lparr>am_pull_tensors := am_pull_tensors m1 @ [tensor], am_pull_metas := am_pull_metas m1 @ [kv_meta]\<rparr>)"

record af_response =
  rs_kv_meta :: kvmeta
  rs_kv_pair :: "byte kvpairs"
  rs_event :: "nat option"

text \<open>
  The part of the server that a request handle works on (it gets the server and can call
  \<^verbatim>\<open>Response\<close>), with the application's own state in the handle of the key-value server; and the
  part only the server itself uses.  An \<^verbatim>\<open>AFTensorMeta\<close> is owned by the one place that points to
  it, so the pointers are the values they point to; a null pointer is \<open>None\<close>.
\<close>

record 'u af_io =
  io_customer :: customer
  io_kv :: "'u kvserver"
  io_events :: "tensor_event list"
  io_queue :: "af_response list"

record 'u af_server =
  as_io :: "'u af_io"
  as_batch_data :: "(int, af_meta option) umap"
  as_reorder_buffer :: "af_meta list"

type_synonym 'u af_handle = "af_meta \<Rightarrow> 'u af_io \<Rightarrow> 'u af_io res"

definition AFTensorServer_new :: "customer \<times> 'u kvserver \<Rightarrow> 'u af_server" where
  "AFTensorServer_new = (\<lambda>(c, s).
     \<lparr>as_io = \<lparr>io_customer = c, io_kv = s, io_events = replicate 64 TensorEvent0, io_queue = []\<rparr>,
      as_batch_data = [], as_reorder_buffer = []\<rparr>)"

definition SetRequestHandle :: "'u af_handle option \<Rightarrow> 'u af_handle option res" where
  "SetRequestHandle request_handle =
     PS_CHECK (request_handle \<noteq> None) ''invalid request handle for AF server'' (Inr request_handle)"

definition kv_Response :: "kvmeta \<Rightarrow> byte kvpairs \<Rightarrow> 'u af_io \<Rightarrow> 'u af_io res" where
  "kv_Response req reply io =
     bindR (KV.Response char_type req reply (io_customer io, io_kv io)) (\<lambda>(c, s).
       Inr (io\<lparr>io_customer := c, io_kv := s\<rparr>))"

definition tensor_pairs :: "64 word \<Rightarrow> key \<Rightarrow> tensor \<Rightarrow> byte kvpairs" where
  "tensor_pairs ka key t = KVPairs0\<lparr>kv_keys := key_array ka key, kv_vals := tensor_array t\<rparr>"

text \<open>The tensor of a result; calling \<^verbatim>\<open>data_ptr\<close> on an undefined tensor is an error of its library.\<close>

definition tensor_of :: "key_tensor \<Rightarrow> tensor res" where
  "tensor_of kt = (case kt_val kt of None \<Rightarrow> Inl (Undefined ''undefined tensor'') | Some t \<Rightarrow> Inr t)"

subsection \<open>Answering\<close>

definition find_key :: "key \<Rightarrow> key_tensor list \<Rightarrow> key_tensor option" where
  "find_key key tensors = List.find (\<lambda>kt. kt_key kt = key) tensors"

definition respond_one ::
  "64 word \<Rightarrow> bool \<Rightarrow> bool \<Rightarrow> key_tensor list \<Rightarrow> kvmeta \<Rightarrow> 'u af_io \<Rightarrow> 'u af_io res" where
  "respond_one ka record_ok need_event tensors kv_meta io =
     (case find_key (km_key kv_meta) tensors of
        None \<Rightarrow> Inr io
      | Some res_kv \<Rightarrow>
          bindR (tensor_of res_kv) (\<lambda>t.
          let (evs, ev) = (if need_event
                           then let (evs1, i) = GetEvent (io_events io) in (evs1[i := te_Record record_ok (evs1 ! i)], Some i)
                           else (io_events io, None))
          in Inr (io\<lparr>io_events := evs,
                     io_queue := io_queue io @ [\<lparr>rs_kv_meta = kv_meta, rs_kv_pair = tensor_pairs ka (kt_key res_kv) t, rs_event = ev\<rparr>]\<rparr>)))"

definition AF_Response ::
  "64 word \<Rightarrow> bool \<Rightarrow> af_meta \<Rightarrow> key_tensor list \<Rightarrow> bool \<Rightarrow> 'u af_io \<Rightarrow> 'u af_io res" where
  "AF_Response ka record_ok meta tensors need_event io =
     (if am_single meta
      then (if length (am_pull_tensors meta) = 1
            then bindR (vec_get tensors 0) (\<lambda>kt.
                 bindR (tensor_of kt) (\<lambda>t.
                 bindR (vec_get (am_pull_metas meta) 0) (\<lambda>pm.
                 let (evs, _) = GetEvent (io_events io)
                 in kv_Response pm (tensor_pairs ka (kt_key kt) t) (io\<lparr>io_events := evs\<rparr>))))
            else if length (am_push_metas meta) = 1
            then kv_Response (am_push_metas meta ! 0) KVPairs0 io
            else Inr io)
      else foldR (respond_one ka record_ok need_event tensors)
             (take (length (am_pull_tensors meta)) (am_pull_metas meta)) io)"

text \<open>One turn of \<^verbatim>\<open>ResponseWorker\<close>; \<open>stop\<close> is what it reads of \<^verbatim>\<open>response_stop_\<close> after the pop.\<close>

definition ResponseWorker_turn :: "bool \<Rightarrow> 'u af_io \<Rightarrow> 'u af_io option res" where
  "ResponseWorker_turn stop io =
     (case io_queue io of
        [] \<Rightarrow> Inr None
      | rsp # rest \<Rightarrow>
          (let io1 = io\<lparr>io_queue := rest\<rparr>
           in if stop then Inr None
              else let io2 = (case rs_event rsp of
                                None \<Rightarrow> io1
                              | Some i \<Rightarrow> io1\<lparr>io_events := (io_events io1)[i := te_Release (te_Sync (io_events io1 ! i))]\<rparr>)
                   in bindR (kv_Response (rs_kv_meta rsp) (rs_kv_pair rsp) io2) (\<lambda>io3. Inr (Some io3))))"

subsection \<open>Gathering batches\<close>

text \<open>\<open>blob\<close> is the library call \<^verbatim>\<open>at::from_blob\<close> on an array, an element type and a shape.\<close>

definition FromBlob :: "(byte sarray \<Rightarrow> int \<Rightarrow> int list \<Rightarrow> tensor) \<Rightarrow> kvmeta \<Rightarrow> byte kvpairs \<Rightarrow> key_tensor res" where
  "FromBlob blob req_meta req_data =
     no_ub (s_elems (kv_keys req_data) \<noteq> []) ''keys[0]''
      (Inr \<lparr>kt_key = hd (s_elems (kv_keys req_data)),
            kt_val = (if km_push req_meta then Some (blob (kv_vals req_data) (km_dtype req_meta) (km_shape req_meta)) else None)\<rparr>)"

text \<open>The position in the reorder buffer of the batch that the message continues.\<close>

fun find_reorder :: "kvmeta \<Rightarrow> af_meta list \<Rightarrow> nat option" where
  "find_reorder req_meta [] = None"
| "find_reorder req_meta (m # ms) =
     (if am_sender m = km_sender req_meta \<and> km_timestamp req_meta = am_last_timestamp m + 1 then Some 0
      else map_option Suc (find_reorder req_meta ms))"

definition run_handle :: "'u af_handle option \<Rightarrow> af_meta \<Rightarrow> 'u af_server \<Rightarrow> 'u af_server res" where
  "run_handle request_handle m s =
     (case request_handle of
        None \<Rightarrow> Inl (OutOfRange ''bad_function_call'')
      | Some h \<Rightarrow> bindR (h m (as_io s)) (\<lambda>io. Inr (s\<lparr>as_io := io\<rparr>)))"

definition start_batch :: "kvmeta \<Rightarrow> 'u af_server \<Rightarrow> 'u af_server" where
  "start_batch req_meta s =
     (let m = AFTensorMeta0\<lparr>am_sender := km_sender req_meta, am_sender_rank := IDtoRank (km_sender req_meta), am_single := False\<rparr>;
          reorder = (case umap_find (as_batch_data s) (km_sender req_meta) of
                       Some (Some old) \<Rightarrow> as_reorder_buffer s @ [old]
                     | _ \<Rightarrow> as_reorder_buffer s)
      in s\<lparr>as_reorder_buffer := reorder,
           as_batch_data := umap_set (km_sender req_meta) (Some m) (as_batch_data s)\<rparr>)"

text \<open>
  The message joins the batch at position \<open>i\<close> of the reorder buffer, or the current batch of its
  sender; at the end of the batch the handle runs and the batch is dropped from its place.
\<close>

definition join_reorder ::
  "'u af_handle option \<Rightarrow> kvmeta \<Rightarrow> key_tensor \<Rightarrow> nat \<Rightarrow> 'u af_server \<Rightarrow> 'u af_server res" where
  "join_reorder request_handle req_meta tensor i s =
     (let m = AFTensorMeta_Add req_meta tensor (as_reorder_buffer s ! i)
      in if km_cmd req_meta = AF_FLAG_BATCH_END
         then bindR (run_handle request_handle m s) (\<lambda>s1.
              Inr (s1\<lparr>as_reorder_buffer := take i (as_reorder_buffer s) @ drop (Suc i) (as_reorder_buffer s)\<rparr>))
         else Inr (s\<lparr>as_reorder_buffer := (as_reorder_buffer s)[i := m]\<rparr>))"

definition join_current ::
  "'u af_handle option \<Rightarrow> kvmeta \<Rightarrow> key_tensor \<Rightarrow> 'u af_server \<Rightarrow> 'u af_server res" where
  "join_current request_handle req_meta tensor s =
     (case umap_index None (as_batch_data s) (km_sender req_meta) of
        None \<Rightarrow> Inl (Undefined ''null batch'')
      | Some m0 \<Rightarrow>
          (let m = AFTensorMeta_Add req_meta tensor m0
           in if km_cmd req_meta = AF_FLAG_BATCH_END
              then bindR (run_handle request_handle m s) (\<lambda>s1.
                   Inr (s1\<lparr>as_batch_data := umap_set (km_sender req_meta) None (as_batch_data s)\<rparr>))
              else Inr (s\<lparr>as_batch_data := umap_set (km_sender req_meta) (Some m) (as_batch_data s)\<rparr>)))"

definition KVHandler ::
  "(byte sarray \<Rightarrow> int \<Rightarrow> int list \<Rightarrow> tensor) \<Rightarrow> 'u af_handle option \<Rightarrow> kvmeta \<Rightarrow> byte kvpairs \<Rightarrow> 'u af_server \<Rightarrow>
     'u af_server res" where
  "KVHandler blob request_handle req_meta req_data s =
     (if km_cmd req_meta = 0
      then bindR (FromBlob blob req_meta req_data) (\<lambda>tensor.
           let m = AFTensorMeta_Add req_meta tensor (AFTensorMeta0\<lparr>am_sender := km_sender req_meta\<rparr>)
           in run_handle request_handle (m\<lparr>am_single := True, am_sender_rank := IDtoRank (km_sender req_meta)\<rparr>) s)
      else bindR (if km_push req_meta then kv_Response req_meta KVPairs0 (as_io s) else Inr (as_io s)) (\<lambda>io.
           let s0 = s\<lparr>as_io := io\<rparr>
           in bindR (FromBlob blob req_meta req_data) (\<lambda>tensor.
              if km_cmd req_meta = AF_FLAG_BATCH_START
              then join_current request_handle req_meta tensor (start_batch req_meta s0)
              else case find_reorder req_meta (as_reorder_buffer s0) of
                     Some i \<Rightarrow> join_reorder request_handle req_meta tensor i s0
                   | None \<Rightarrow> join_current request_handle req_meta tensor s0)))"

text \<open>\<^verbatim>\<open>KVServer::Process\<close> with the request handle that the constructor installs.\<close>

definition AFTensorServer_Process ::
  "(byte sarray \<Rightarrow> int \<Rightarrow> int list \<Rightarrow> tensor) \<Rightarrow> 'u af_server simple_handles \<Rightarrow> 'u af_handle option \<Rightarrow> message \<Rightarrow>
     'u af_server \<Rightarrow> 'u af_server res" where
  "AFTensorServer_Process blob hs request_handle msg s =
     (if m_simple_app (msg_meta msg) then simple_Process hs msg s
      else bindR (server_data char_type msg) (\<lambda>data.
           KVHandler blob request_handle (request_meta (ks_po (io_kv (as_io s))) (msg_meta msg)) data s))"

subsection \<open>Registering receive buffers\<close>

definition AF_RegisterRecvBuffer ::
  "64 word \<Rightarrow> 64 word \<Rightarrow> int \<Rightarrow> key \<Rightarrow> 64 word \<Rightarrow> byte list \<Rightarrow> int \<Rightarrow> 'u af_io \<Rightarrow> 'u af_io res" where
  "AF_RegisterRecvBuffer ka la worker_rank k data contents data_len io =
     bindR (RegisterRecvBufferWithRank char_type worker_rank (key_array ka k)
              (SArray0\<lparr>s_elems := contents, s_addr := data\<rparr>) (SArray0\<lparr>s_elems := [data_len], s_addr := la\<rparr>) 0 (io_kv io)) (\<lambda>s.
       Inr (io\<lparr>io_kv := s\<rparr>))"

text \<open>The loop over the ranks; a chunk is that part of the tensor's memory.\<close>

fun register_chunks ::
  "64 word \<Rightarrow> 64 word \<Rightarrow> tensor \<Rightarrow> int \<Rightarrow> nat \<Rightarrow> (int \<times> key) list \<Rightarrow> 'u af_io \<Rightarrow> 'u af_io res" where
  "register_chunks ka la tensor chunk_size i [] io = Inr io"
| "register_chunks ka la tensor chunk_size i ((rank, key) # rks) io =
     bindR (AF_RegisterRecvBuffer ka la rank key (tn_data_ptr tensor + word_of_int (chunk_size * int i))
              (take (nat chunk_size) (drop (nat chunk_size * i) (tn_bytes tensor))) chunk_size io) (\<lambda>io1.
       register_chunks ka la tensor chunk_size (Suc i) rks io1)"

definition RegisterRecvTensor ::
  "64 word \<Rightarrow> 64 word \<Rightarrow> tensor \<Rightarrow> int list \<Rightarrow> key list \<Rightarrow> 'u af_io \<Rightarrow> 'u af_io res" where
  "RegisterRecvTensor ka la tensor worker_ranks keys io =
     PS_CHECK (length worker_ranks > 0) ''ranks or keys should not be empty''
      (PS_CHECK (length worker_ranks = length keys) ''rank list and key list have unequal size''
        (let data_size = length (tn_bytes tensor);
             chunk_size = to_int32 (int (data_size div length worker_ranks))
         in PS_CHECK (data_size mod length worker_ranks = 0) ''tensor data size cannot be evenly chunked to different ranks''
              (register_chunks ka la tensor chunk_size 0 (zip worker_ranks keys) io)))"

end
