(* ===== verification/AFBatches.thy ===== *)
theory AFBatches
  imports AFTensor KVProps
begin

text \<open>
  How the tensor server gathers batches.  Abstractly the open batches are a map: a batch is found
  by its sender and the timestamp its next message must have.  The server keeps the newest open
  batch of each sender in \<^verbatim>\<open>batch_data_\<close> and the overtaken ones in \<^verbatim>\<open>reorder_buffer_\<close>; its
  handler implements the abstract steps.
\<close>

section \<open>The abstract batches\<close>

type_synonym batches = "int \<times> int \<rightharpoonup> af_meta"

definition new_batch :: "kvmeta \<Rightarrow> af_meta" where
  "new_batch req = AFTensorMeta0\<lparr>am_sender := km_sender req, am_sender_rank := IDtoRank (km_sender req), am_single := False\<rparr>"

text \<open>
  One message: the batches that stay open and the batch that is complete, if any.  \<open>None\<close>: the
  message continues no open batch, or another batch already waits for the same timestamp.
\<close>

definition spec_step :: "kvmeta \<Rightarrow> key_tensor \<Rightarrow> batches \<Rightarrow> (batches \<times> af_meta list) option" where
  "spec_step req t \<sigma> =
     (let here = (km_sender req, km_timestamp req); after = (km_sender req, km_timestamp req + 1)
      in if km_cmd req = AF_FLAG_BATCH_START
         then if \<sigma> after \<noteq> None then None else Some (\<sigma>(after \<mapsto> AFTensorMeta_Add req t (new_batch req)), [])
         else case \<sigma> here of
                None \<Rightarrow> None
              | Some m \<Rightarrow>
                  if km_cmd req = AF_FLAG_BATCH_END then Some (\<sigma>(here := None), [AFTensorMeta_Add req t m])
                  else if \<sigma> after \<noteq> None then None
                  else Some (\<sigma>(here := None, after \<mapsto> AFTensorMeta_Add req t m), []))"

fun spec_run :: "(kvmeta \<times> key_tensor) list \<Rightarrow> batches \<Rightarrow> (batches \<times> af_meta list) option" where
  "spec_run [] \<sigma> = Some (\<sigma>, [])"
| "spec_run ((req, t) # rs) \<sigma> =
     (case spec_step req t \<sigma> of
        None \<Rightarrow> None
      | Some (\<sigma>1, out1) \<Rightarrow> map_option (\<lambda>(\<sigma>2, out2). (\<sigma>2, out1 @ out2)) (spec_run rs \<sigma>1))"

section \<open>Abstraction\<close>

definition batch_key :: "af_meta \<Rightarrow> int \<times> int" where
  "batch_key m = (am_sender m, am_last_timestamp m + 1)"

definition reorder_map :: "af_meta list \<Rightarrow> batches" where
  "reorder_map ms = map_of (map (\<lambda>m. (batch_key m, m)) ms)"

definition current_map :: "(int, af_meta option) umap \<Rightarrow> batches" where
  "current_map bd q =
     (case umap_index None bd (fst q) of None \<Rightarrow> None | Some m \<Rightarrow> if batch_key m = q then Some m else None)"

definition open_batches :: "'u af_server \<Rightarrow> batches" where
  "open_batches s = current_map (as_batch_data s) ++ reorder_map (as_reorder_buffer s)"

definition batches_ok :: "'u af_server \<Rightarrow> bool" where
  "batches_ok s \<longleftrightarrow> distinct (map batch_key (as_reorder_buffer s)) \<and>
     (\<forall>k m. umap_index None (as_batch_data s) k = Some m \<longrightarrow> am_sender m = k \<and> reorder_map (as_reorder_buffer s) (batch_key m) = None)"

lemma reorder_map_None: "reorder_map ms q = None \<longleftrightarrow> q \<notin> batch_key ` set ms"
  by (simp add: reorder_map_def map_of_eq_None_iff image_image)

lemma reorder_map_snoc:
  "reorder_map ms (batch_key m) = None \<Longrightarrow> reorder_map (ms @ [m]) = (reorder_map ms)(batch_key m \<mapsto> m)"
  by (rule ext) (auto simp: reorder_map_def map_add_def split: option.split)

lemma reorder_map_split:
  assumes "distinct (map batch_key (xs @ x # ys))"
  shows "reorder_map (xs @ ys) = (reorder_map (xs @ x # ys))(batch_key x := None)"
    and "reorder_map (xs @ x # ys) (batch_key x) = Some x"
proof -
  have none: "reorder_map xs (batch_key x) = None" "reorder_map ys (batch_key x) = None"
    using assms by (auto simp: reorder_map_None)
  then show "reorder_map (xs @ ys) = (reorder_map (xs @ x # ys))(batch_key x := None)"
    by (intro ext) (auto simp: reorder_map_def map_add_def split: option.split)
  show "reorder_map (xs @ x # ys) (batch_key x) = Some x"
    using none by (simp add: reorder_map_def map_add_def)
qed

lemma reorder_map_insert:
  assumes "reorder_map (xs @ ys) (batch_key m) = None"
  shows "reorder_map (xs @ m # ys) = (reorder_map (xs @ ys))(batch_key m \<mapsto> m)"
  using assms by (intro ext) (auto simp: reorder_map_def map_add_def split: option.splits)

lemma batch_key_Add: "batch_key (AFTensorMeta_Add req t m) = (am_sender m, km_timestamp req + 1)"
  by (simp add: batch_key_def AFTensorMeta_Add_def Let_def)

lemma sender_Add [simp]: "am_sender (AFTensorMeta_Add req t m) = am_sender m"
  by (simp add: AFTensorMeta_Add_def Let_def)

lemma find_reorder_Some:
  "find_reorder req ms = Some i \<Longrightarrow> i < length ms \<and> batch_key (ms ! i) = (km_sender req, km_timestamp req)"
proof (induction ms arbitrary: i)
  case (Cons m ms)
  then show ?case by (auto simp: batch_key_def split: if_splits)
qed simp

lemma find_reorder_None:
  "find_reorder req ms = None \<Longrightarrow> reorder_map ms (km_sender req, km_timestamp req) = None"
  by (induction ms) (auto simp: reorder_map_None batch_key_def split: if_splits)

lemma umap_index_find_set [simp]: "umap_index d (umap_set k v m) = (umap_index d m)(k := v)"
  by (rule ext) simp

section \<open>The steps\<close>

text \<open>The abstract effect of replacing the current batch of a sender.\<close>

lemma current_map_set:
  assumes "am_sender m = k"
  shows "current_map (umap_set k (Some m) bd) =
    (\<lambda>q. if fst q = k then (if batch_key m = q then Some m else None) else current_map bd q)"
  by (rule ext) (simp add: current_map_def)

lemma current_map_clear:
  "current_map (umap_set k None bd) = (\<lambda>q. if fst q = k then None else current_map bd q)"
  by (rule ext) (simp add: current_map_def)

lemma current_map_sender: "current_map bd q = Some m \<Longrightarrow> batch_key m = q"
  by (auto simp: current_map_def split: option.splits if_splits)

lemma fst_batch_key [simp]: "fst (batch_key m) = am_sender m"
  by (simp add: batch_key_def)

definition logs :: "'u af_handle \<Rightarrow> (af_meta \<Rightarrow> 'u af_io \<Rightarrow> 'u af_io) \<Rightarrow> bool" where
  "logs h f \<longleftrightarrow> (\<forall>m io. h m io = Inr (f m io))"

text \<open>A message that starts a batch.\<close>

lemma start_batch_step:
  assumes ok: "batches_ok s" and start: "km_cmd req = AF_FLAG_BATCH_START"
    and spec: "spec_step req t (open_batches s) = Some (\<sigma>', out)"
  shows "\<exists>s'. join_current h req t (start_batch req s) = Inr s' \<and> batches_ok s' \<and> open_batches s' = \<sigma>' \<and>
    out = [] \<and> as_io s' = as_io s"
proof -
  let ?k = "km_sender req" and ?q = "(km_sender req, km_timestamp req + 1)"
  let ?m = "AFTensorMeta_Add req t (new_batch req)"
  let ?bd = "as_batch_data s" and ?ro = "as_reorder_buffer s"
  have free: "open_batches s ?q = None" and res: "\<sigma>' = (open_batches s)(?q \<mapsto> ?m)" "out = []"
    using spec start by (auto simp: spec_step_def Let_def split: if_splits)
  have m: "am_sender ?m = ?k" "batch_key ?m = ?q" by (simp_all add: batch_key_Add new_batch_def)
  define ro where "ro = (case umap_index None ?bd ?k of Some old \<Rightarrow> ?ro @ [old] | None \<Rightarrow> ?ro)"
  define s' where "s' = s\<lparr>as_reorder_buffer := ro, as_batch_data := umap_set ?k (Some ?m) (umap_set ?k (Some (new_batch req)) ?bd)\<rparr>"
  have run: "join_current h req t (start_batch req s) = Inr s'"
    using start by (simp add: join_current_def start_batch_def Let_def s'_def ro_def new_batch_def
        AF_FLAG_BATCH_START_def AF_FLAG_BATCH_END_def umap_index_def split: option.splits)
  have cur: "current_map (as_batch_data s') = (\<lambda>p. if fst p = ?k then (if ?q = p then Some ?m else None) else current_map ?bd p)"
    using m by (simp add: s'_def current_map_set fun_eq_iff)
  have freero: "reorder_map ?ro ?q = None" and freecur: "current_map ?bd ?q = None"
    using free by (auto simp: open_batches_def map_add_None)
  have ro: "reorder_map ro = (case umap_index None ?bd ?k of Some old \<Rightarrow> (reorder_map ?ro)(batch_key old \<mapsto> old) | None \<Rightarrow> reorder_map ?ro)"
    and dro: "distinct (map batch_key ro)"
    using ok by (auto simp: ro_def batches_ok_def reorder_map_snoc reorder_map_None split: option.split)
  have oldq: "umap_index None ?bd ?k = Some old \<Longrightarrow> batch_key old \<noteq> ?q" for old
    using freecur by (auto simp: current_map_def)
  have "batches_ok s'"
    unfolding batches_ok_def
  proof (intro conjI allI impI)
    show "distinct (map batch_key (as_reorder_buffer s'))" using dro by (simp add: s'_def)
    fix a x assume x: "umap_index None (as_batch_data s') a = Some x"
    show "am_sender x = a" using x ok m by (auto simp: s'_def batches_ok_def split: if_splits)
    show "reorder_map (as_reorder_buffer s') (batch_key x) = None"
    proof (cases "a = ?k")
      case True
      then have "x = ?m" using x by (simp add: s'_def)
      then show ?thesis using m freero oldq by (auto simp: s'_def ro split: option.split)
    next
      case False
      then have x': "umap_index None ?bd a = Some x" using x by (simp add: s'_def)
      have "batch_key x \<noteq> batch_key old" if "umap_index None ?bd ?k = Some old" for old
        using ok that x' False by (auto simp: batches_ok_def batch_key_def)
      moreover have "reorder_map ?ro (batch_key x) = None" using ok x' by (simp add: batches_ok_def)
      ultimately show ?thesis by (auto simp: s'_def ro split: option.split)
    qed
  qed
  moreover have "open_batches s' = \<sigma>'"
  proof (rule ext)
    fix p
    show "open_batches s' p = \<sigma>' p"
      using ok freero oldq unfolding res open_batches_def map_add_def cur
      by (cases "umap_index None ?bd ?k")
        (auto simp: s'_def ro current_map_def batches_ok_def split: option.split)
  qed
  ultimately show ?thesis using run res by (intro exI [of _ s']) (simp add: s'_def)
qed

text \<open>A message that continues the current batch of its sender.\<close>

lemma join_current_step:
  assumes ok: "batches_ok s" and go: "km_cmd req \<noteq> AF_FLAG_BATCH_START" and h: "logs h f"
    and spec: "spec_step req t (open_batches s) = Some (\<sigma>', out)"
    and here: "reorder_map (as_reorder_buffer s) (km_sender req, km_timestamp req) = None"
  shows "\<exists>s'. join_current (Some h) req t s = Inr s' \<and> batches_ok s' \<and> open_batches s' = \<sigma>' \<and> as_io s' = fold f out (as_io s)"
proof -
  let ?k = "km_sender req" and ?p = "(km_sender req, km_timestamp req)" and ?q = "(km_sender req, km_timestamp req + 1)"
  let ?bd = "as_batch_data s" and ?ro = "as_reorder_buffer s"
  obtain m where "open_batches s ?p = Some m" using spec go by (auto simp: spec_step_def Let_def split: option.splits)
  with here have "current_map ?bd ?p = Some m" by (simp add: open_batches_def map_add_def)
  then have m: "umap_index None ?bd ?k = Some m" "batch_key m = ?p" by (auto simp: current_map_def split: option.splits if_splits)
  then have sm: "am_sender m = ?k" by (simp add: batch_key_def)
  let ?m = "AFTensorMeta_Add req t m"
  have key: "batch_key ?m = ?q" using sm by (simp add: batch_key_Add)
  have om: "open_batches s ?p = Some m" using m here by (simp add: open_batches_def map_add_def current_map_def)
  show ?thesis
  proof (cases "km_cmd req = AF_FLAG_BATCH_END")
    case True
    let ?s = "s\<lparr>as_io := f ?m (as_io s), as_batch_data := umap_set ?k None ?bd\<rparr>"
    have res: "\<sigma>' = (open_batches s)(?p := None)" "out = [?m]"
      using spec go True om by (auto simp: spec_step_def Let_def)
    have "join_current (Some h) req t s = Inr ?s"
      using m(1) True h by (simp add: join_current_def run_handle_def Let_def logs_def)
    moreover have "batches_ok ?s" using ok by (auto simp: batches_ok_def split: if_splits)
    moreover have "open_batches ?s = \<sigma>'"
    proof (rule ext)
      fix x
      show "open_batches ?s x = \<sigma>' x"
        using m here unfolding res open_batches_def map_add_def
        by (cases x) (auto simp: current_map_clear current_map_def split: option.split)
    qed
    ultimately show ?thesis using res by (intro exI [of _ ?s]) simp
  next
    case False
    let ?s = "s\<lparr>as_batch_data := umap_set ?k (Some ?m) ?bd\<rparr>"
    have free: "open_batches s ?q = None" and res: "\<sigma>' = (open_batches s)(?p := None, ?q \<mapsto> ?m)" "out = []"
      using spec go False om by (auto simp: spec_step_def Let_def split: if_splits)
    then have freero: "reorder_map ?ro ?q = None" by (auto simp: open_batches_def map_add_None)
    have "join_current (Some h) req t s = Inr ?s" using m(1) False by (simp add: join_current_def Let_def)
    moreover have "batches_ok ?s" using ok freero key sm by (auto simp: batches_ok_def)
    moreover have "open_batches ?s = \<sigma>'"
    proof (rule ext)
      fix x
      show "open_batches ?s x = \<sigma>' x"
        using m here freero key sm unfolding res open_batches_def map_add_def
        by (cases x) (auto simp: current_map_set current_map_def split: option.split)
    qed
    ultimately show ?thesis using res by (intro exI [of _ ?s]) simp
  qed
qed

text \<open>A message that continues an overtaken batch.\<close>

lemma join_reorder_step:
  assumes ok: "batches_ok s" and go: "km_cmd req \<noteq> AF_FLAG_BATCH_START" and h: "logs h f"
    and spec: "spec_step req t (open_batches s) = Some (\<sigma>', out)"
    and here: "find_reorder req (as_reorder_buffer s) = Some i"
  shows "\<exists>s'. join_reorder (Some h) req t i s = Inr s' \<and> batches_ok s' \<and> open_batches s' = \<sigma>' \<and> as_io s' = fold f out (as_io s)"
proof -
  let ?p = "(km_sender req, km_timestamp req)" and ?q = "(km_sender req, km_timestamp req + 1)"
  let ?bd = "as_batch_data s" and ?ro = "as_reorder_buffer s"
  define m where "m = ?ro ! i"
  have i: "i < length ?ro" "batch_key m = ?p" using find_reorder_Some [OF here] by (simp_all add: m_def)
  let ?xs = "take i ?ro" and ?ys = "drop (Suc i) ?ro"
  have ro: "?ro = ?xs @ m # ?ys" using i(1) by (simp add: m_def id_take_nth_drop)
  have dist: "distinct (map batch_key (?xs @ m # ?ys))" using ok ro by (simp add: batches_ok_def)
  note split = reorder_map_split [OF dist, folded ro]
  have sm: "am_sender m = km_sender req" using i(2) by (simp add: batch_key_def)
  let ?m = "AFTensorMeta_Add req t m"
  have key: "batch_key ?m = ?q" using sm by (simp add: batch_key_Add)
  have om: "open_batches s ?p = Some m" using split(2) i(2) by (simp add: open_batches_def map_add_def)
  have curp: "current_map ?bd ?p = None"
    using ok split(2) i(2) by (fastforce simp: batches_ok_def current_map_def split: option.split)
  show ?thesis
  proof (cases "km_cmd req = AF_FLAG_BATCH_END")
    case True
    let ?s = "s\<lparr>as_io := f ?m (as_io s), as_reorder_buffer := ?xs @ ?ys\<rparr>"
    have res: "\<sigma>' = (open_batches s)(?p := None)" "out = [?m]"
      using spec go True om by (auto simp: spec_step_def Let_def)
    have "join_reorder (Some h) req t i s = Inr ?s"
      using True h by (simp add: join_reorder_def run_handle_def Let_def logs_def m_def)
    moreover have "batches_ok ?s" using ok dist split(1) by (auto simp: batches_ok_def)
    moreover have "open_batches ?s = \<sigma>'"
      using curp i(2) unfolding res open_batches_def map_add_def by (auto simp: split(1) fun_eq_iff split: option.split)
    ultimately show ?thesis using res by (intro exI [of _ ?s]) simp
  next
    case False
    let ?s = "s\<lparr>as_reorder_buffer := ?xs @ ?m # ?ys\<rparr>"
    have free: "open_batches s ?q = None" and res: "\<sigma>' = (open_batches s)(?p := None, ?q \<mapsto> ?m)" "out = []"
      using spec go False om by (auto simp: spec_step_def Let_def split: if_splits)
    then have freero: "reorder_map ?ro ?q = None" and freecur: "current_map ?bd ?q = None" by (auto simp: open_batches_def map_add_None)
    have none: "reorder_map (?xs @ ?ys) (batch_key ?m) = None" using freero key split(1) i(2) by simp
    note ins = reorder_map_insert [OF none]
    have "join_reorder (Some h) req t i s = Inr ?s"
      using False i(1) by (simp add: join_reorder_def Let_def m_def upd_conv_take_nth_drop)
    moreover have "batches_ok ?s"
      unfolding batches_ok_def
    proof (intro conjI allI impI)
      show "distinct (map batch_key (as_reorder_buffer ?s))" using dist none by (auto simp: reorder_map_None)
      fix a x assume x: "umap_index None (as_batch_data ?s) a = Some x"
      then show "am_sender x = a" using ok by (simp add: batches_ok_def)
      then have "batch_key x \<noteq> ?q" using x freecur by (auto simp: current_map_def batch_key_def)
      then show "reorder_map (as_reorder_buffer ?s) (batch_key x) = None"
        using ok x key by (simp add: batches_ok_def ins split(1))
    qed
    moreover have "open_batches ?s = \<sigma>'"
      using curp i(2) key unfolding res open_batches_def map_add_def by (auto simp: ins split(1) fun_eq_iff split: option.split)
    ultimately show ?thesis using res by (intro exI [of _ ?s]) simp
  qed
qed

section \<open>Refinement\<close>

text \<open>The acknowledgement of a push goes out before anything else happens.\<close>

definition acked :: "kvmeta \<Rightarrow> 'u af_io \<Rightarrow> 'u af_io" where
  "acked req io = (if km_push req then case kv_Response req KVPairs0 io of Inr io' \<Rightarrow> io' | Inl _ \<Rightarrow> io else io)"

lemma kv_Response_ack:
  "(if km_push req then kv_Response req KVPairs0 io else Inr io) = Inr (acked req io)"
  by (auto simp: acked_def kv_Response_def KV.Response_def Let_def add_kvs_def)

lemma handle_step:
  assumes ok: "batches_ok s" and h: "logs h f" and cmd: "km_cmd req \<noteq> 0"
    and blob: "FromBlob blob req data = Inr t"
    and spec: "spec_step req t (open_batches s) = Some (\<sigma>', out)"
  shows "\<exists>s'. KVHandler blob (Some h) req data s = Inr s' \<and> batches_ok s' \<and> open_batches s' = \<sigma>' \<and>
    as_io s' = fold f out (acked req (as_io s))"
proof -
  define s0 where "s0 = s\<lparr>as_io := acked req (as_io s)\<rparr>"
  have s0: "batches_ok s0" "open_batches s0 = open_batches s" "as_io s0 = acked req (as_io s)"
    using ok by (simp_all add: s0_def batches_ok_def open_batches_def)
  have run: "KVHandler blob (Some h) req data s =
      (if km_cmd req = AF_FLAG_BATCH_START then join_current (Some h) req t (start_batch req s0)
       else case find_reorder req (as_reorder_buffer s0) of
              Some i \<Rightarrow> join_reorder (Some h) req t i s0 | None \<Rightarrow> join_current (Some h) req t s0)"
    using cmd blob unfolding KVHandler_def by (simp add: kv_Response_ack s0_def Let_def split: option.split)
  note spec' = spec [folded s0(2)]
  show ?thesis
  proof (cases "km_cmd req = AF_FLAG_BATCH_START")
    case True
    then show ?thesis using run start_batch_step [OF s0(1) True spec', of "Some h"] s0(3) by auto
  next
    case False
    show ?thesis
    proof (cases "find_reorder req (as_reorder_buffer s0)")
      case None
      then show ?thesis using run False join_current_step [OF s0(1) False h spec' find_reorder_None [OF None]] s0(3) by simp
    next
      case (Some i)
      then show ?thesis using run False join_reorder_step [OF s0(1) False h spec' Some] s0(3) by simp
    qed
  qed
qed

text \<open>A handle that records the batches it is called with in the application's state.\<close>

definition recording :: "af_meta \<Rightarrow> af_meta list af_io \<Rightarrow> af_meta list af_io" where
  "recording m io = io\<lparr>io_kv := (io_kv io)\<lparr>ks_handle := ks_handle (io_kv io) @ [m]\<rparr>\<rparr>"

abbreviation recorded :: "af_meta list af_server \<Rightarrow> af_meta list" where
  "recorded s \<equiv> ks_handle (io_kv (as_io s))"

text \<open>
  The acknowledgement of a message: an empty response with the fields of the request, to the instance of the
  sender's group that has the instance index of the server.
\<close>

definition ack_of :: "'u af_io \<Rightarrow> kvmeta \<Rightarrow> message" where
  "ack_of io req =
     Message0\<lparr>msg_meta := (msg_meta Message0)\<lparr>m_app_id := cu_app_id (io_customer io), m_customer_id := km_customer_id req,
        m_request := False, m_push := km_push req, m_head := km_cmd req, m_timestamp := km_timestamp req,
        m_recver := GroupWorkerRankToInstanceID (ks_po (io_kv io)) (IDtoRank (km_sender req)) (ks_instance_idx (io_kv io)),
        m_key := km_key req, m_addr := km_addr req, m_val_len := km_val_len req, m_option := km_option req\<rparr>\<rparr>"

lemma acked_eq:
  "acked req io = (if km_push req then io\<lparr>io_kv := (io_kv io)\<lparr>ks_sent := ks_sent (io_kv io) @ [ack_of io req]\<rparr>\<rparr> else io)"
  by (simp add: acked_def kv_Response_def KV.Response_def Let_def add_kvs_def ack_of_def)

lemma acked_handle: "ks_handle (io_kv (acked req io)) = ks_handle (io_kv io)"
  by (simp add: acked_eq)

lemma recording_fold:
  "ks_handle (io_kv (fold recording ms io)) = ks_handle (io_kv io) @ ms"
  "ks_sent (io_kv (fold recording ms io)) = ks_sent (io_kv io)"
  "ack_of (fold recording ms io) = ack_of io"
  by (induction ms arbitrary: io) (simp_all add: recording_def ack_of_def fun_eq_iff)

lemma ack_of_acked: "ack_of (acked req io) = ack_of io"
  by (simp add: acked_eq ack_of_def fun_eq_iff)

abbreviation acks :: "'u af_server \<Rightarrow> (kvmeta \<times> byte kvpairs \<times> key_tensor) list \<Rightarrow> message list" where
  "acks s reqs \<equiv> map (ack_of (as_io s)) (filter km_push (map fst reqs))"

lemma handle_run:
  assumes "batches_ok s" and "\<forall>(req, data, t)\<in>set reqs. km_cmd req \<noteq> 0 \<and> FromBlob blob req data = Inr t"
    and "spec_run (map (\<lambda>(req, data, t). (req, t)) reqs) (open_batches s) = Some (\<sigma>', out)"
  shows "\<exists>s'. foldR (\<lambda>(req, data, t). KVHandler blob (Some (\<lambda>m io. Inr (recording m io))) req data) reqs s = Inr s' \<and>
    batches_ok s' \<and> open_batches s' = \<sigma>' \<and> recorded s' = recorded s @ out \<and>
    ks_sent (io_kv (as_io s')) = ks_sent (io_kv (as_io s)) @ acks s reqs"
  using assms
proof (induction reqs arbitrary: s out)
  case Nil
  then show ?case by simp
next
  case (Cons r reqs)
  obtain req data t where r: "r = (req, data, t)" by (cases r)
  obtain \<sigma>1 out1 out2 where step: "spec_step req t (open_batches s) = Some (\<sigma>1, out1)"
    and rest: "spec_run (map (\<lambda>(req, data, t). (req, t)) reqs) \<sigma>1 = Some (\<sigma>', out2)" and out: "out = out1 @ out2"
    using Cons.prems(3) by (auto simp: r split: option.splits)
  have h: "logs (\<lambda>m io. Inr (recording m io)) recording" by (simp add: logs_def)
  from handle_step [OF Cons.prems(1) h _ _ step] Cons.prems(2) obtain s1 where
    s1: "KVHandler blob (Some (\<lambda>m io. Inr (recording m io))) req data s = Inr s1" "batches_ok s1" "open_batches s1 = \<sigma>1"
      "as_io s1 = fold recording out1 (acked req (as_io s))"
    by (auto simp: r)
  have "recorded s1 = recorded s @ out1" "ack_of (as_io s1) = ack_of (as_io s)"
    "ks_sent (io_kv (as_io s1)) = ks_sent (io_kv (as_io s)) @ (if km_push req then [ack_of (as_io s) req] else [])"
    by (simp_all add: s1(4) recording_fold acked_handle ack_of_acked) (simp add: acked_eq)
  with Cons.IH [OF s1(2)] Cons.prems(2) rest s1(1,3) out show ?case by (auto simp: r)
qed

text \<open>
  C4: the tensor server refines the abstract batches.  Take any sequence of batch messages, from
  any number of senders and with batches overtaking each other, that the abstract step relation
  accepts: each message either starts a batch or continues the open batch of its sender that waits
  for its timestamp; a sender may have several batches open.  Then \<^verbatim>\<open>KVHandler\<close> processes it without error, its two buffers represent
  exactly the batches that are abstractly open, and the request handle has been called exactly once
  for each completed batch, in the order of their last messages, with all tensors of the batch.
  Of the messages it acknowledges exactly the pushes, in the order of their arrival, each with an
  empty response to an instance of the sender's group.
\<close>

theorem server_refines_batches:
  assumes "batches_ok s" and "\<forall>(req, data, t)\<in>set reqs. km_cmd req \<noteq> 0 \<and> FromBlob blob req data = Inr t"
    and "spec_run (map (\<lambda>(req, data, t). (req, t)) reqs) (open_batches s) = Some (\<sigma>', out)"
  shows "\<exists>s'. foldR (\<lambda>(req, data, t). KVHandler blob (Some (\<lambda>m io. Inr (recording m io))) req data) reqs s = Inr s' \<and>
    batches_ok s' \<and> open_batches s' = \<sigma>' \<and> recorded s' = recorded s @ out \<and>
    ks_sent (io_kv (as_io s')) = ks_sent (io_kv (as_io s)) @ map (ack_of (as_io s)) (filter km_push (map fst reqs))"
  using assms by (rule handle_run)

text \<open>Two batches of one sender; the second starts before the first one ends.\<close>

definition example_req :: "bool \<Rightarrow> int \<Rightarrow> int \<Rightarrow> kvmeta" where
  "example_req push cmd ts = \<lparr>km_cmd = cmd, km_push = push, km_sender = 9, km_timestamp = ts, km_customer_id = 0,
     km_key = 7, km_addr = 0, km_val_len = 4, km_option = 0, km_is_tensor = 1, km_dtype = 0, km_shape = [1]\<rparr>"

definition example_af_server :: "af_meta list af_server" where
  "example_af_server = AFTensorServer_new (example_customer,
     \<lparr>ks_instance_idx = 0, ks_po = example_po, ks_sent = [], ks_registered = [], ks_handle = []\<rparr>)"

definition example_blob :: "byte sarray \<Rightarrow> int \<Rightarrow> int list \<Rightarrow> tensor" where
  "example_blob a dt sh = \<lparr>tn_data_ptr = s_addr a, tn_bytes = s_elems a, tn_dtype = dt, tn_shape = sh\<rparr>"

definition example_reqs :: "(kvmeta \<times> byte kvpairs \<times> key_tensor) list" where
  "example_reqs = map (\<lambda>(push, cmd, ts). (example_req push cmd ts, KVPairs0\<lparr>kv_keys := key_array 0 7\<rparr>,
       \<lparr>kt_key = 7, kt_val = if push then Some (example_blob SArray0 0 [1]) else None\<rparr>))
     [(True, 1, 0), (True, 1, 5), (False, 3, 1), (False, 3, 6)]"

theorem server_refines_batches_witness:
  "\<exists>s'. foldR (\<lambda>(req, data, t). KVHandler example_blob (Some (\<lambda>m io. Inr (recording m io))) req data)
       example_reqs example_af_server = Inr s' \<and>
     map (\<lambda>m. (am_last_timestamp m, length (am_pull_metas m))) (recorded s') = [(1, 1), (6, 1)] \<and>
     map (\<lambda>m. (m_request (msg_meta m), m_timestamp (msg_meta m))) (ks_sent (io_kv (as_io s'))) = [(False, 0), (False, 5)]"
proof -
  have ok: "batches_ok example_af_server" and empty: "open_batches example_af_server = Map.empty" and none: "recorded example_af_server = []"
    and unsent: "ks_sent (io_kv (as_io example_af_server)) = []"
    by (simp_all add: batches_ok_def open_batches_def example_af_server_def AFTensorServer_new_def umap_index_def
        reorder_map_def current_map_def fun_eq_iff)
  have blob: "\<forall>(req, data, t)\<in>set example_reqs. km_cmd req \<noteq> 0 \<and> FromBlob example_blob req data = Inr t"
    by (simp add: example_reqs_def example_req_def FromBlob_def key_array_def KVPairs0_def)
  have run: "\<exists>\<sigma> out. spec_run (map (\<lambda>(req, data, t). (req, t)) example_reqs) Map.empty = Some (\<sigma>, out) \<and>
      map (\<lambda>m. (am_last_timestamp m, length (am_pull_metas m))) out = [(1, 1), (6, 1)]"
    by (simp add: example_reqs_def example_req_def spec_step_def Let_def AF_FLAG_BATCH_START_def AF_FLAG_BATCH_END_def
        AFTensorMeta_Add_def new_batch_def AFTensorMeta0_def)
  obtain \<sigma> out where "spec_run (map (\<lambda>(req, data, t). (req, t)) example_reqs) (open_batches example_af_server) = Some (\<sigma>, out)"
    "map (\<lambda>m. (am_last_timestamp m, length (am_pull_metas m))) out = [(1, 1), (6, 1)]"
    using run by (elim exE conjE) (simp add: empty)
  with server_refines_batches [OF ok blob this(1)] none unsent show ?thesis
    by (auto simp: example_reqs_def example_req_def ack_of_def)
qed

end
