(* ===== verification/AFWorker.thy ===== *)
theory AFWorker
  imports AFTensor KVProps
begin

text \<open>
  The messages of a batch.  Each server of the group gets the same sequence of commands, start,
  middle and end, with the timestamps that were allocated for the batch.
\<close>

section \<open>Broadcasts\<close>

text \<open>What a message says of its tensor: key, bytes, element type and shape.\<close>

type_synonym payload = "key \<times> byte list \<times> int \<times> int list"

definition payload_of :: "message \<Rightarrow> payload" where
  "payload_of m = (m_key (msg_meta m), (case server_data char_type m of Inr d \<Rightarrow> s_elems (kv_vals d) | Inl _ \<Rightarrow> []),
     m_dtype (msg_meta m), m_shape (msg_meta m))"

definition tensor_payload :: "key_tensor \<Rightarrow> payload" where
  "tensor_payload kt =
     (kt_key kt, case kt_val kt of None \<Rightarrow> ([], 0, []) | Some t \<Rightarrow> (tn_bytes t, tn_dtype t, tn_shape t))"

definition msg_view :: "message \<Rightarrow> int \<times> int \<times> bool \<times> payload" where
  "msg_view m = (m_head (msg_meta m), m_timestamp (msg_meta m), m_push (msg_meta m), payload_of m)"

text \<open>A request from which the server decodes the key it carries.\<close>

definition msg_ok :: "message \<Rightarrow> bool" where
  "msg_ok m \<longleftrightarrow> \<not> m_simple_app (msg_meta m) \<and> m_request (msg_meta m) \<and>
     (\<exists>d. server_data char_type m = Inr d \<and> s_elems (kv_keys d) = [m_key (msg_meta m)])"

text \<open>A worker with \<open>n\<close> server groups, groups of size \<open>g\<close> and instance \<open>idx\<close>.\<close>

definition worker_at :: "nat \<Rightarrow> int \<Rightarrow> int \<Rightarrow> byte kvworker \<Rightarrow> bool" where
  "worker_at n g idx k \<longleftrightarrow> length (snd (GetServerKeyRanges (kw_po k))) = n \<and> po_group_size (kw_po k) = g \<and> kw_instance_idx k = idx"

definition server_id :: "int \<Rightarrow> int \<Rightarrow> nat \<Rightarrow> int" where
  "server_id g idx j = ServerRankToID (int j * g + idx)"

lemma server_id_inj: "g \<noteq> 0 \<Longrightarrow> server_id g idx i = server_id g idx j \<longleftrightarrow> i = j"
  by (simp add: server_id_def)

text \<open>The messages sent between two states: for each server \<open>j\<close>, the sequence \<open>V j\<close>.\<close>

definition sends :: "nat \<Rightarrow> int \<Rightarrow> int \<Rightarrow> byte kvworker \<Rightarrow> byte kvworker \<Rightarrow> (nat \<Rightarrow> (int \<times> int \<times> bool \<times> payload) list) \<Rightarrow> bool" where
  "sends n g idx k k' V \<longleftrightarrow> worker_at n g idx k' \<and>
     (\<exists>new. kw_sent k' = kw_sent k @ new \<and> (\<forall>m\<in>set new. msg_ok m) \<and>
        (\<forall>j<n. map msg_view (filter (\<lambda>m. m_recver (msg_meta m) = server_id g idx j) new) = V j))"

lemma sends_refl: "worker_at n g idx k \<Longrightarrow> sends n g idx k k (\<lambda>_. [])"
  by (auto simp: sends_def intro: exI [of _ "[]"])

lemma sends_trans:
  assumes "sends n g idx k k1 V1" and "sends n g idx k1 k2 V2"
  shows "sends n g idx k k2 (\<lambda>j. V1 j @ V2 j)"
proof -
  obtain a where "kw_sent k1 = kw_sent k @ a" "\<forall>m\<in>set a. msg_ok m"
    "\<forall>j<n. map msg_view (filter (\<lambda>m. m_recver (msg_meta m) = server_id g idx j) a) = V1 j"
    using assms(1) by (auto simp: sends_def)
  moreover obtain b where "kw_sent k2 = kw_sent k1 @ b" "worker_at n g idx k2" "\<forall>m\<in>set b. msg_ok m"
    "\<forall>j<n. map msg_view (filter (\<lambda>m. m_recver (msg_meta m) = server_id g idx j) b) = V2 j"
    using assms(2) by (auto simp: sends_def)
  ultimately show ?thesis unfolding sends_def by (intro conjI exI [of _ "a @ b"]) (auto simp: Ball_def)
qed

lemma GetServerKeyRanges_idem:
  "GetServerKeyRanges (fst (GetServerKeyRanges po)) = GetServerKeyRanges po"
  by (auto simp: GetServerKeyRanges_def Let_def)

lemma server_count_at:
  assumes "worker_at n g idx k"
  shows "\<exists>k1. server_count k = (k1, n) \<and> worker_at n g idx k1 \<and> kw_sent k1 = kw_sent k"
proof -
  let ?po = "fst (GetServerKeyRanges (kw_po k))"
  have "po_group_size ?po = po_group_size (kw_po k)" by (simp add: GetServerKeyRanges_def Let_def)
  with assms show ?thesis
    by (intro exI [of _ "k\<lparr>kw_po := ?po\<rparr>"])
      (simp add: server_count_def worker_at_def GetServerKeyRanges_idem split_def)
qed

lemma filter_by_rank:
  assumes "map (\<lambda>m. (r m, v m)) new = map (\<lambda>i. (f i, w i)) is" and "inj_on f (set is)" and "distinct is"
  shows "j \<in> set is \<Longrightarrow> map v (filter (\<lambda>m. r m = f j) new) = [w j]"
  using assms
proof (induction "is" arbitrary: new)
  case (Cons i "is")
  obtain m new' where new: "new = m # new'" "r m = f i" "v m = w i" and rest: "map (\<lambda>m. (r m, v m)) new' = map (\<lambda>i. (f i, w i)) is"
    using Cons.prems(2) by (cases new) auto
  show ?case
  proof (cases "i = j")
    case True
    have "r x \<noteq> f j" if "x \<in> set new'" for x
    proof -
      have "(r x, v x) \<in> set (map (\<lambda>i. (f i, w i)) is)" using that rest by (metis (no_types, lifting) image_eqI set_map)
      then obtain i' where "i' \<in> set is" "r x = f i'" by auto
      then show ?thesis using Cons.prems(3,4) True by (auto simp: inj_on_def)
    qed
    then have "filter (\<lambda>m. r m = f j) new' = []" by (simp add: filter_empty_conv)
    then show ?thesis using new True by simp
  next
    case False
    then have "f i \<noteq> f j" using Cons.prems(1,3) by (auto simp: inj_on_def)
    with False Cons.prems new rest show ?thesis
      using Cons.IH [OF _ rest] by simp
  qed
qed simp

lemma sends_each:
  assumes "worker_at n g idx k'" and "kw_sent k' = kw_sent k @ new" and "g \<noteq> 0" and "\<forall>m\<in>set new. msg_ok m"
    and "map (\<lambda>m. (m_recver (msg_meta m), msg_view m)) new = map (\<lambda>i. (server_id g idx i, w i)) [0..<n]"
  shows "sends n g idx k k' (\<lambda>j. [w j])"
proof -
  have "inj_on (server_id g idx) (set [0..<n])" using assms(3) by (simp add: inj_on_def server_id_inj)
  from filter_by_rank [OF assms(5) this] assms(1,2,4) show ?thesis by (auto simp: sends_def)
qed

lemma char_type_ok: "vt_ok char_type (\<lambda>_. True)"
  using octet.fixed_codec_axioms by (simp add: vt_ok_def char_type_def)

text \<open>A tensor message carries one key and the bytes of the tensor.\<close>

lemma tensor_msg_view:
  "\<exists>m. tensor_msg ka ts push cmd key t = Inr m \<and> 
    msg_view m = (cmd, ts, push, key, tn_bytes t, tn_dtype t, tn_shape t) \<and> msg_ok m"
proof -
  let ?kvs = "\<lparr>kv_keys = key_array ka key, kv_vals = tensor_array t, kv_lens = SArray0\<rparr>"
  let ?m = "upd_meta (\<lambda>m. m\<lparr>m_request := True, m_head := cmd, m_push := push, m_timestamp := ts,
           m_addr := tn_data_ptr t, m_val_len := to_int32 (int (length (tn_bytes t))), m_key := key,
           m_is_tensor := 1, m_dtype := tn_dtype t, m_shape := tn_shape t\<rparr>) Message0"
  have "kvs_typed (\<lambda>_. True) ?kvs" "s_elems (kv_keys ?kvs) \<noteq> []" "no_data ?m"
    by (simp_all add: kvs_typed_def SArray0_def key_array_def no_data_def Message0_def Meta0_def list_all_iff)
  from add_kvs_decode [OF char_type_ok this] obtain m d where m: "add_kvs char_type ?kvs ?m = Inr m" "header_of m = header_of ?m"
    "decode_kvs char_type m = Inr d" "same_kvs d ?kvs" "length (msg_data m) = 2"
    by (auto simp: SArray0_def)
  have "tensor_msg ka ts push cmd key t = add_kvs char_type ?kvs ?m"
    by (simp add: tensor_msg_def add_kvs_def key_array_def SArray0_def char_type_def)
      (auto simp: bindR_def split: sum.split)
  moreover have "server_data char_type m = Inr d" using m(3,5) by (auto simp: server_data_def Let_def)
  moreover have "s_elems (kv_keys d) = [key]" "s_elems (kv_vals d) = tn_bytes t"
    using m(4) by (simp_all add: same_kvs_def key_array_def tensor_array_def)
  ultimately show ?thesis
    using m(1,2) by (simp add: msg_view_def payload_of_def msg_ok_def header_of_def Let_def Message0_def Meta0_def)
qed

lemma SendMsg_at:
  assumes "worker_at n g idx k"
  shows "\<exists>k' m. KVWorker_SendMsg msg (int i) (c, k) = (c, k') \<and> worker_at n g idx k' \<and> kw_sent k' = kw_sent k @ [m] \<and>
    m_recver (msg_meta m) = server_id g idx i \<and> msg_view m = msg_view msg \<and> (msg_ok msg \<longrightarrow> msg_ok m)"
  using assms
  by (simp add: KVWorker_SendMsg_def Let_def worker_at_def server_id_def GroupServerRankToInstanceID_def msg_view_def payload_of_def
      msg_ok_def server_data_def decode_kvs_def)

section \<open>One tensor\<close>

lemma broadcast_at:
  assumes "worker_at n g idx k" and "msg_ok msg"
  shows "\<exists>k' new. fold (\<lambda>i. KVWorker_SendMsg msg (int i)) is (c, k) = (c, k') \<and> worker_at n g idx k' \<and>
    kw_sent k' = kw_sent k @ new \<and> (\<forall>m\<in>set new. msg_ok m) \<and>
    map (\<lambda>m. (m_recver (msg_meta m), msg_view m)) new = map (\<lambda>i. (server_id g idx i, msg_view msg)) is"
  using assms(1)
proof (induction "is" arbitrary: k)
  case (Cons i "is")
  obtain k1 m where 1: "KVWorker_SendMsg msg (int i) (c, k) = (c, k1)" "worker_at n g idx k1" "kw_sent k1 = kw_sent k @ [m]"
    "m_recver (msg_meta m) = server_id g idx i" "msg_view m = msg_view msg" "msg_ok m"
    using SendMsg_at [OF Cons.prems] assms(2) by blast
  obtain k' new where "fold (\<lambda>i. KVWorker_SendMsg msg (int i)) is (c, k1) = (c, k')" "worker_at n g idx k'"
    "kw_sent k' = kw_sent k1 @ new" "\<forall>m\<in>set new. msg_ok m" "map (\<lambda>m. (m_recver (msg_meta m), msg_view m)) new = map (\<lambda>i. (server_id g idx i, msg_view msg)) is"
    using Cons.IH [OF 1(2)] by blast
  with 1 show ?case by (intro exI [of _ k'] exI [of _ "m # new"]) simp
qed simp

lemma ZPush_sends:
  assumes "worker_at n g idx k" and "g \<noteq> 0" and "kt_val kt \<noteq> None"
  shows "\<exists>k'. ZPush_impl ka ts kt cmd (c, k) = Inr (c, k') \<and> sends n g idx k k' (\<lambda>_. [(cmd, ts, True, tensor_payload kt)])"
proof -
  obtain t where t: "kt_val kt = Some t" using assms(3) by auto
  obtain msg where msg: "tensor_msg ka ts True cmd (kt_key kt) t = Inr msg" "msg_view msg = (cmd, ts, True, tensor_payload kt)" "msg_ok msg"
    using tensor_msg_view [of ka ts _ cmd _ t] t by (auto simp: tensor_payload_def)
  obtain k1 where k1: "server_count k = (k1, n)" "worker_at n g idx k1" "kw_sent k1 = kw_sent k"
    using server_count_at [OF assms(1)] by blast
  obtain k' new where k': "fold (\<lambda>i. KVWorker_SendMsg msg (int i)) [0..<n] (c, k1) = (c, k')" "worker_at n g idx k'"
    "kw_sent k' = kw_sent k @ new" "\<forall>m\<in>set new. msg_ok m" "map (\<lambda>m. (m_recver (msg_meta m), msg_view m)) new = map (\<lambda>i. (server_id g idx i, msg_view msg)) [0..<n]"
    using broadcast_at [OF k1(2) msg(3), of "[0..<n]" c] k1(3) by auto
  show ?thesis
    using sends_each [OF k'(2,3) assms(2) k'(4,5)] t msg k1(1) k'(1) by (simp add: ZPush_impl_def)
qed

lemma zpull_loop_sends:
  assumes "worker_at n g idx k" and "\<forall>i\<in>set is. i * q + index < length pulls \<and> kt_val (pulls ! (i * q + index)) \<noteq> None"
  shows "\<exists>k' new. zpull_loop ka ts pulls q index cmd is (c, k) = Inr (c, k') \<and> worker_at n g idx k' \<and>
    kw_sent k' = kw_sent k @ new \<and> (\<forall>m\<in>set new. msg_ok m) \<and>
    map (\<lambda>m. (m_recver (msg_meta m), msg_view m)) new = map (\<lambda>i. (server_id g idx i, (cmd, ts, False, tensor_payload (pulls ! (i * q + index))))) is"
  using assms
proof (induction "is" arbitrary: k)
  case (Cons i "is")
  let ?kt = "pulls ! (i * q + index)"
  obtain t where t: "kt_val ?kt = Some t" using Cons.prems(2) by auto
  have get: "vec_get pulls (int (i * q + index)) = Inr ?kt" using Cons.prems(2) by (intro vec_get_int) simp
  obtain msg where msg: "tensor_msg ka ts False cmd (kt_key ?kt) t = Inr msg" "msg_view msg = (cmd, ts, False, tensor_payload ?kt)" "msg_ok msg"
    using tensor_msg_view [of ka ts _ cmd _ t] t by (auto simp: tensor_payload_def)
  obtain k1 m where 1: "KVWorker_SendMsg msg (int i) (c, k) = (c, k1)" "worker_at n g idx k1" "kw_sent k1 = kw_sent k @ [m]"
    "m_recver (msg_meta m) = server_id g idx i" "msg_view m = msg_view msg" "msg_ok m"
    using SendMsg_at [OF Cons.prems(1)] msg(3) by blast
  let ?k = "AddCallback ts (Some (EraseCb ts)) k1"
  have k2: "worker_at n g idx ?k" "kw_sent ?k = kw_sent k @ [m]" using 1 by (simp_all add: AddCallback_def worker_at_def)
  obtain k' new where "zpull_loop ka ts pulls q index cmd is (c, ?k) = Inr (c, k')" "worker_at n g idx k'" "kw_sent k' = kw_sent ?k @ new" "\<forall>m\<in>set new. msg_ok m"
    "map (\<lambda>m. (m_recver (msg_meta m), msg_view m)) new = map (\<lambda>i. (server_id g idx i, (cmd, ts, False, tensor_payload (pulls ! (i * q + index))))) is"
    using Cons.IH [OF k2(1)] Cons.prems(2) by auto
  then show ?case
    using get t msg 1 k2(2) unfolding zpull_loop.simps
    by (intro exI [of _ k'] exI [of _ "m # new"]) (simp del: of_nat_add of_nat_mult)
qed simp

lemma ZPull_sends:
  assumes "worker_at n g idx k" and "g \<noteq> 0" and "\<forall>i<n. i * (length pulls div n) + index < length pulls \<and> kt_val (pulls ! (i * (length pulls div n) + index)) \<noteq> None"
  shows "\<exists>k'. ZPull_impl ka ts pulls index cmd (c, k) = Inr (c, k') \<and>
    sends n g idx k k' (\<lambda>j. [(cmd, ts, False, tensor_payload (pulls ! (j * (length pulls div n) + index)))])"
proof -
  obtain k1 where k1: "server_count k = (k1, n)" "worker_at n g idx k1" "kw_sent k1 = kw_sent k"
    using server_count_at [OF assms(1)] by blast
  from zpull_loop_sends [OF k1(2), of "[0..<n]" "length pulls div n" index pulls ka ts cmd c] assms(3)
  obtain k' new where k': "zpull_loop ka ts pulls (length pulls div n) index cmd [0..<n] (c, k1) = Inr (c, k')" "worker_at n g idx k'"
    "kw_sent k' = kw_sent k @ new" "\<forall>m\<in>set new. msg_ok m" "map (\<lambda>m. (m_recver (msg_meta m), msg_view m)) new =
       map (\<lambda>i. (server_id g idx i, (cmd, ts, False, tensor_payload (pulls ! (i * (length pulls div n) + index))))) [0..<n]"
    by (auto simp: k1(3))
  show ?thesis using sends_each [OF k'(2,3) assms(2) k'(4,5)] k1(1) k'(1) by (simp add: ZPull_impl_def)
qed

section \<open>A batch\<close>

text \<open>The commands of a batch of \<open>p\<close> pushes and \<open>l\<close> pulls, \<open>q\<close> of them per server.\<close>

definition push_flag :: "nat \<Rightarrow> nat \<Rightarrow> nat \<Rightarrow> int" where
  "push_flag p l i = (if i = 0 then AF_FLAG_BATCH_START else if l = 0 \<and> i = p - 1 then AF_FLAG_BATCH_END else AF_FLAG_BATCH_MIDDLE)"

definition pull_flag :: "nat \<Rightarrow> nat \<Rightarrow> nat \<Rightarrow> int" where
  "pull_flag p q i = (if p = 0 \<and> i = 0 then AF_FLAG_BATCH_START else if i = q - 1 then AF_FLAG_BATCH_END else AF_FLAG_BATCH_MIDDLE)"

lemma push_loop_Cons:
  "i < length push_ts \<Longrightarrow> push_loop ka pushes push_ts (pulls = []) (i # is) s =
     bindR (ZPush_impl ka (push_ts ! i) (pushes ! i) (push_flag (length pushes) (length pulls) i) s)
       (push_loop ka pushes push_ts (pulls = []) is)"
  by (simp add: push_flag_def)

lemma pull_loop_Cons:
  "i < length pull_ts \<Longrightarrow> pull_loop ka pulls pull_ts (pushes = []) q (i # is) s =
     bindR (ZPull_impl ka (pull_ts ! i) pulls i (pull_flag (length pushes) q i) s)
       (pull_loop ka pulls pull_ts (pushes = []) q is)"
  by (simp add: pull_flag_def)

lemma push_loop_sends:
  assumes "worker_at n g idx k" and "g \<noteq> 0" and "\<forall>i\<in>set is. i < length pushes" and "length push_ts = length pushes"
    and "\<forall>kt\<in>set pushes. kt_val kt \<noteq> None"
  shows "\<exists>k'. push_loop ka pushes push_ts (pulls = []) is (c, k) = Inr (c, k') \<and>
    sends n g idx k k' (\<lambda>_. map (\<lambda>i. (push_flag (length pushes) (length pulls) i, push_ts ! i, True, tensor_payload (pushes ! i))) is)"
  using assms(1,3)
proof (induction "is" arbitrary: k)
  case Nil
  then show ?case by (simp add: sends_refl)
next
  case (Cons i "is")
  have i: "i < length push_ts" "kt_val (pushes ! i) \<noteq> None" using Cons.prems(2) assms(4,5) by auto
  obtain k1 where k1: "ZPush_impl ka (push_ts ! i) (pushes ! i) (push_flag (length pushes) (length pulls) i) (c, k) = Inr (c, k1)"
    "sends n g idx k k1 (\<lambda>_. [(push_flag (length pushes) (length pulls) i, push_ts ! i, True, tensor_payload (pushes ! i))])"
    using ZPush_sends [OF Cons.prems(1) assms(2) i(2)] by blast
  then have "worker_at n g idx k1" by (simp add: sends_def)
  then obtain k' where k': "push_loop ka pushes push_ts (pulls = []) is (c, k1) = Inr (c, k')"
    "sends n g idx k1 k' (\<lambda>_. map (\<lambda>i. (push_flag (length pushes) (length pulls) i, push_ts ! i, True, tensor_payload (pushes ! i))) is)"
    using Cons.IH Cons.prems(2) by auto
  show ?case
    using sends_trans [OF k1(2) k'(2)] k1(1) k'(1) unfolding push_loop_Cons [OF i(1)] by simp
qed

lemma pull_loop_sends:
  assumes "worker_at n g idx k" and "g \<noteq> 0" and q: "q = length pulls div n" and "\<forall>i\<in>set is. i < q" and "length pull_ts = q"
    and "\<forall>kt\<in>set pulls. kt_val kt \<noteq> None"
  shows "\<exists>k'. pull_loop ka pulls pull_ts (pushes = []) q is (c, k) = Inr (c, k') \<and>
    sends n g idx k k' (\<lambda>j. map (\<lambda>i. (pull_flag (length pushes) q i, pull_ts ! i, False, tensor_payload (pulls ! (j * q + i)))) is)"
  using assms(1,4)
proof (induction "is" arbitrary: k)
  case Nil
  then show ?case by (simp add: sends_refl)
next
  case (Cons i "is")
  have i: "i < q" using Cons.prems(2) by simp
  have "j * q + i < length pulls" if "j < n" for j
  proof -
    have "j * q + i < (j + 1) * q" using i by simp
    also have "\<dots> \<le> n * q" using that by (intro mult_le_mono1) simp
    also have "\<dots> \<le> length pulls" by (simp add: q)
    finally show ?thesis .
  qed
  then have "\<forall>j<n. j * (length pulls div n) + i < length pulls \<and> kt_val (pulls ! (j * (length pulls div n) + i)) \<noteq> None"
    using assms(6) by (auto simp: q)
  from ZPull_sends [OF Cons.prems(1) assms(2) this] obtain k1 where
    k1: "ZPull_impl ka (pull_ts ! i) pulls i (pull_flag (length pushes) q i) (c, k) = Inr (c, k1)"
      "sends n g idx k k1 (\<lambda>j. [(pull_flag (length pushes) q i, pull_ts ! i, False, tensor_payload (pulls ! (j * q + i)))])"
    unfolding q by blast
  then have "worker_at n g idx k1" by (simp add: sends_def)
  then obtain k' where k': "pull_loop ka pulls pull_ts (pushes = []) q is (c, k1) = Inr (c, k')"
    "sends n g idx k1 k' (\<lambda>j. map (\<lambda>i. (pull_flag (length pushes) q i, pull_ts ! i, False, tensor_payload (pulls ! (j * q + i)))) is)"
    using Cons.IH Cons.prems(2) by auto
  show ?case
    using sends_trans [OF k1(2) k'(2)] k1(1) k'(1) unfolding pull_loop_Cons [OF i [folded assms(5)]] by simp
qed

definition complete_flags :: "nat \<Rightarrow> int list" where
  "complete_flags n = AF_FLAG_BATCH_START # replicate (n - 2) AF_FLAG_BATCH_MIDDLE @ [AF_FLAG_BATCH_END]"

lemma complete_flagsI:
  assumes "2 \<le> length F" and "\<forall>i < length F. F ! i =
      (if i = 0 then AF_FLAG_BATCH_START else if i = length F - 1 then AF_FLAG_BATCH_END else AF_FLAG_BATCH_MIDDLE)"
  shows "F = complete_flags (length F)"
proof (rule nth_equalityI)
  show "length F = length (complete_flags (length F))" using assms(1) by (simp add: complete_flags_def)
  fix i assume "i < length F"
  then show "F ! i = complete_flags (length F) ! i"
    using assms by (cases i) (auto simp: complete_flags_def nth_append)
qed

definition batch_flags :: "nat \<Rightarrow> nat \<Rightarrow> nat \<Rightarrow> int list" where
  "batch_flags p l n = map (push_flag p l) [0..<p] @ map (pull_flag p (l div n)) [0..<l div n]"

lemma batch_flags_complete:
  assumes "2 \<le> p + l" and "0 < n" and "if p = 0 then 2 * n \<le> l else l = 0 \<or> n \<le> l"
  shows "batch_flags p l n = complete_flags (p + l div n)"
proof -
  have len: "length (batch_flags p l n) = p + l div n" by (simp add: batch_flags_def)
  have q: "p = 0 \<Longrightarrow> 2 \<le> l div n" "p \<noteq> 0 \<Longrightarrow> l \<noteq> 0 \<Longrightarrow> 1 \<le> l div n"
    using assms(2,3) by (auto simp: less_eq_div_iff_mult_less_eq div_greater_zero_iff)
  then have two: "2 \<le> p + l div n" using assms(1) by (cases "l = 0"; cases "p = 0") auto
  have "\<forall>i < length (batch_flags p l n). batch_flags p l n ! i =
      (if i = 0 then AF_FLAG_BATCH_START else if i = length (batch_flags p l n) - 1 then AF_FLAG_BATCH_END else AF_FLAG_BATCH_MIDDLE)"
    unfolding len using q two assms(2) by (auto simp: batch_flags_def nth_append push_flag_def pull_flag_def)
  from complete_flagsI [OF _ this] two show ?thesis by (simp add: len)
qed

lemma batch_flags_incomplete:
  assumes "\<not> (if p = 0 then 2 * n \<le> l else l = 0 \<or> n \<le> l)"
  shows "AF_FLAG_BATCH_END \<notin> set (batch_flags p l n)"
proof -
  have "p = 0 \<Longrightarrow> l div n \<le> 1" "p \<noteq> 0 \<Longrightarrow> l \<noteq> 0 \<and> l div n = 0"
    using assms by (auto simp: div_less_mono less_mult_imp_div_less simp flip: less_Suc_eq_le)
  then show ?thesis
    by (cases "p = 0") (auto simp: batch_flags_def push_flag_def pull_flag_def AF_FLAG_BATCH_START_def AF_FLAG_BATCH_MIDDLE_def AF_FLAG_BATCH_END_def)
qed

text \<open>What a server gets of a batch: commands, timestamps, directions and keys.\<close>

definition batch_sequence ::
  "key_tensor list \<Rightarrow> int list \<Rightarrow> key_tensor list \<Rightarrow> int list \<Rightarrow> nat \<Rightarrow> nat \<Rightarrow> (int \<times> int \<times> bool \<times> payload) list" where
  "batch_sequence pushes push_ts pulls pull_ts n j =
     map (\<lambda>i. (push_flag (length pushes) (length pulls) i, push_ts ! i, True, tensor_payload (pushes ! i))) [0..<length pushes] @
     map (\<lambda>i. (pull_flag (length pushes) (length pulls div n) i, pull_ts ! i, False, tensor_payload (pulls ! (j * (length pulls div n) + i))))
       [0..<length pulls div n]"

lemma batch_sequence_parts:
  assumes "length push_ts = length pushes" and "length pull_ts = length pulls div n"
  shows "map fst (batch_sequence pushes push_ts pulls pull_ts n j) = batch_flags (length pushes) (length pulls) n"
    and "map (\<lambda>v. fst (snd v)) (batch_sequence pushes push_ts pulls pull_ts n j) = push_ts @ pull_ts"
  using map_nth [of push_ts] map_nth [of pull_ts] assms
  by (simp_all add: batch_sequence_def batch_flags_def comp_def)

lemma batch_sends:
  assumes at: "worker_at n g idx k" "g \<noteq> 0" "0 < n" and two: "2 \<le> length pushes + length pulls"
    and ts: "length push_ts = length pushes" "length pull_ts = length pulls div n"
    and defd: "\<forall>kt\<in>set (pushes @ pulls). kt_val kt \<noteq> None"
  shows "\<exists>k'. ZBatchPushPull_impl ka pushes push_ts pulls pull_ts (c, k) = Inr (c, k') \<and>
    sends n g idx k k' (batch_sequence pushes push_ts pulls pull_ts n)"
proof -
  let ?q = "length pulls div n"
  obtain k1 where k1: "server_count k = (k1, n)" "worker_at n g idx k1" "kw_sent k1 = kw_sent k"
    using server_count_at [OF at(1)] by blast
  from push_loop_sends [OF k1(2) at(2) _ ts(1), of "[0..<length pushes]" ka pulls c] defd obtain k2 where
    k2: "push_loop ka pushes push_ts (pulls = []) [0..<length pushes] (c, k1) = Inr (c, k2)"
      "sends n g idx k1 k2 (\<lambda>_. map (\<lambda>i. (push_flag (length pushes) (length pulls) i, push_ts ! i, True, tensor_payload (pushes ! i))) [0..<length pushes])"
    by auto
  then have "worker_at n g idx k2" by (simp add: sends_def)
  from pull_loop_sends [OF this at(2) refl _ ts(2), of "[0..<?q]" ka pushes c] defd obtain k' where
    k': "pull_loop ka pulls pull_ts (pushes = []) ?q [0..<?q] (c, k2) = Inr (c, k')"
      "sends n g idx k2 k' (\<lambda>j. map (\<lambda>i. (pull_flag (length pushes) ?q i, pull_ts ! i, False, tensor_payload (pulls ! (j * ?q + i)))) [0..<?q])"
    by auto
  have "ZBatchPushPull_impl ka pushes push_ts pulls pull_ts (c, k) = Inr (c, k')"
    using k1(1) k2(1) k'(1) two at(3) by (simp add: ZBatchPushPull_impl_def)
  moreover have "sends n g idx k k' (batch_sequence pushes push_ts pulls pull_ts n)"
    using sends_trans [OF k2(2) k'(2)] k1(3) by (simp add: sends_def batch_sequence_def)
  ultimately show ?thesis by blast
qed

text \<open>
  C26: the messages of a batch.  For a batch of at least two tensors with the timestamps that
  \<^verbatim>\<open>ZBatchPushPull\<close> allocates, every server gets one message per pushed tensor and one per
  tensor it is asked for, with exactly those timestamps in order.  The commands are a start, middles
  and an end if there are pushes and either no pulls or at least one pull per server, or if there
  are no pushes and at least two pulls per server.  In every other case no message of the batch
  carries the end command.
\<close>

theorem worker_batch_messages:
  assumes at: "worker_at n g idx k" "g \<noteq> 0" "0 < n"
    and two: "2 \<le> length pushes + length pulls"
    and ts: "length push_ts = length pushes" "length pull_ts = length pulls div n"
    and defd: "\<forall>kt\<in>set (pushes @ pulls). kt_val kt \<noteq> None"
  shows "\<exists>k'. ZBatchPushPull_impl ka pushes push_ts pulls pull_ts (c, k) = Inr (c, k') \<and>
    sends n g idx k k' (batch_sequence pushes push_ts pulls pull_ts n) \<and>
    (\<forall>j. map (\<lambda>v. fst (snd v)) (batch_sequence pushes push_ts pulls pull_ts n j) = push_ts @ pull_ts) \<and>
    (\<forall>j. if (if pushes = [] then 2 * n \<le> length pulls else pulls = [] \<or> n \<le> length pulls)
         then map fst (batch_sequence pushes push_ts pulls pull_ts n j) = complete_flags (length push_ts + length pull_ts)
         else AF_FLAG_BATCH_END \<notin> fst ` set (batch_sequence pushes push_ts pulls pull_ts n j))"
proof -
  note parts = batch_sequence_parts [OF ts]
  show ?thesis
    using batch_sends [OF at two ts defd] batch_flags_complete [OF two at(3)]
      batch_flags_incomplete [of "length pushes" n "length pulls"] parts
    by (auto simp: ts simp flip: set_map split: if_splits)
qed

definition example_tensor :: "key \<Rightarrow> key_tensor" where
  "example_tensor key = \<lparr>kt_key = key, kt_val = Some \<lparr>tn_data_ptr = 64, tn_bytes = [1, 2, 3, 4], tn_dtype = 0, tn_shape = [4]\<rparr>\<rparr>"

definition example_byte_worker :: "byte kvworker" where
  "example_byte_worker = \<lparr>kw_is_worker_zpull = False, kw_recv_kvs = [], kw_callbacks = [], kw_instance_idx = 1,
     kw_po = example_po, kw_first = example_po, kw_sent = [], kw_vals = (\<lambda>_. SArray0), kw_lens = (\<lambda>_. SArray0),
     kw_called = []\<rparr>"

lemma example_byte_worker_at: "worker_at 2 2 1 example_byte_worker"
  by (simp add: worker_at_def example_byte_worker_def GetServerKeyRanges_def Let_def example_po_ranges example_po_sizes)

theorem worker_batch_messages_witness:
  "\<exists>k'. ZBatchPushPull_impl 0 [example_tensor 5] [3] [example_tensor 6, example_tensor 7] [4] (example_customer, example_byte_worker) =
      Inr (example_customer, k') \<and>
     sends 2 2 1 example_byte_worker k' (batch_sequence [example_tensor 5] [3] [example_tensor 6, example_tensor 7] [4] 2) \<and>
     map fst (batch_sequence [example_tensor 5] [3] [example_tensor 6, example_tensor 7] [4] 2 0) = [AF_FLAG_BATCH_START, AF_FLAG_BATCH_END]"
proof -
  have "2 \<le> length [example_tensor 5] + length [example_tensor 6, example_tensor 7]" "length [3::int] = length [example_tensor 5]"
    "length [4::int] = length [example_tensor 6, example_tensor 7] div 2"
    "\<forall>kt\<in>set ([example_tensor 5] @ [example_tensor 6, example_tensor 7]). kt_val kt \<noteq> None"
    by (simp_all add: example_tensor_def)
  from worker_batch_messages [OF example_byte_worker_at _ _ this, of 0 example_customer]
  obtain k' where "ZBatchPushPull_impl 0 [example_tensor 5] [3] [example_tensor 6, example_tensor 7] [4] (example_customer, example_byte_worker) =
      Inr (example_customer, k')"
    "sends 2 2 1 example_byte_worker k' (batch_sequence [example_tensor 5] [3] [example_tensor 6, example_tensor 7] [4] 2)"
    "map fst (batch_sequence [example_tensor 5] [3] [example_tensor 6, example_tensor 7] [4] 2 0) = complete_flags 2"
    by (auto simp: numeral_2_eq_2)
  then show ?thesis by (auto simp: complete_flags_def)
qed

end
