(* ===== verification/AFEndToEnd.thy ===== *)
theory AFEndToEnd
  imports AFBatches AFWorker
begin

text \<open>
  A batch from the worker's call to the server's request handle: the timestamps are allocated in
  \<^verbatim>\<open>ZBatchPushPull\<close>, the worker thread sends the messages, and a server that processes those
  addressed to it calls its handle once, with the batch.
\<close>

section \<open>The server's side\<close>

text \<open>A message as the transport of the receiver hands it up, with the sender filled in.\<close>

definition arrives :: "int \<Rightarrow> message \<Rightarrow> message" where
  "arrives w m = upd_meta (\<lambda>mt. mt\<lparr>m_sender := w\<rparr>) m"

text \<open>The worker group that the server takes the sender for.\<close>

definition worker_group :: "postoffice \<Rightarrow> int \<Rightarrow> int" where
  "worker_group po w = WorkerRankToID (InstanceIDtoGroupRank po w)"

text \<open>What the server makes of a message.\<close>

definition read_tensor :: "(byte sarray \<Rightarrow> int \<Rightarrow> int list \<Rightarrow> tensor) \<Rightarrow> message \<Rightarrow> key_tensor" where
  "read_tensor blob m =
     \<lparr>kt_key = m_key (msg_meta m),
      kt_val = (if m_push (msg_meta m)
                then case server_data char_type m of
                       Inr d \<Rightarrow> Some (blob (kv_vals d) (m_dtype (msg_meta m)) (m_shape (msg_meta m)))
                     | Inl _ \<Rightarrow> None
                else None)\<rparr>"

definition read_batch :: "(byte sarray \<Rightarrow> int \<Rightarrow> int list \<Rightarrow> tensor) \<Rightarrow> postoffice \<Rightarrow> message list \<Rightarrow> (kvmeta \<times> key_tensor) list" where
  "read_batch blob po ms = map (\<lambda>m. (request_meta po (msg_meta m), read_tensor blob m)) ms"

lemma recording_po: "ks_po (io_kv (fold recording ms (acked req io))) = ks_po (io_kv io)"
proof -
  have "ks_po (io_kv (fold recording ms io)) = ks_po (io_kv io)" for io
    by (induction ms arbitrary: io) (simp_all add: recording_def)
  then show ?thesis by (simp add: acked_eq)
qed

lemma recording_log: "ks_handle (io_kv (fold recording ms (acked req io))) = ks_handle (io_kv io) @ ms"
  by (simp add: recording_fold acked_handle)

lemma process_run:
  assumes "batches_ok s" and "ks_po (io_kv (as_io s)) = po" and "\<forall>m\<in>set ms. msg_ok m \<and> m_head (msg_meta m) \<noteq> 0"
    and "spec_run (read_batch blob po ms) (open_batches s) = Some (\<sigma>', out)"
  shows "\<exists>s'. foldR (AFTensorServer_Process blob hs (Some (\<lambda>m io. Inr (recording m io)))) ms s = Inr s' \<and>
    batches_ok s' \<and> open_batches s' = \<sigma>' \<and> recorded s' = recorded s @ out"
  using assms
proof (induction ms arbitrary: s out)
  case Nil
  then show ?case by (simp add: read_batch_def)
next
  case (Cons m ms)
  let ?req = "request_meta po (msg_meta m)" and ?h = "\<lambda>m io. Inr (recording m io)"
  obtain d where d: "server_data char_type m = Inr d" "s_elems (kv_keys d) = [m_key (msg_meta m)]" "\<not> m_simple_app (msg_meta m)"
    using Cons.prems(3) by (auto simp: msg_ok_def)
  have blob: "FromBlob blob ?req d = Inr (read_tensor blob m)"
    using d by (simp add: FromBlob_def read_tensor_def request_meta_def Let_def)
  have cmd: "km_cmd ?req \<noteq> 0" using Cons.prems(3) by (simp add: request_meta_def Let_def)
  obtain \<sigma>1 out1 out2 where step: "spec_step ?req (read_tensor blob m) (open_batches s) = Some (\<sigma>1, out1)"
    and rest: "spec_run (read_batch blob po ms) \<sigma>1 = Some (\<sigma>', out2)" and out: "out = out1 @ out2"
    using Cons.prems(4) by (auto simp: read_batch_def split: option.splits)
  have "logs ?h recording" by (simp add: logs_def)
  from handle_step [OF Cons.prems(1) this cmd blob step] obtain s1 where
    s1: "KVHandler blob (Some ?h) ?req d s = Inr s1" "batches_ok s1" "open_batches s1 = \<sigma>1"
      "as_io s1 = fold recording out1 (acked ?req (as_io s))"
    by blast
  have "AFTensorServer_Process blob hs (Some ?h) m s = Inr s1"
    using d(1,3) s1(1) Cons.prems(2) by (simp add: AFTensorServer_Process_def)
  moreover have "ks_po (io_kv (as_io s1)) = po" "recorded s1 = recorded s @ out1"
    using Cons.prems(2) by (simp_all add: s1(4) recording_po recording_log)
  ultimately show ?case using Cons.IH [OF s1(2)] Cons.prems(3) rest s1(3) out by auto
qed

section \<open>A complete batch of one sender\<close>

definition consecutive :: "int \<Rightarrow> (kvmeta \<times> key_tensor) list \<Rightarrow> bool" where
  "consecutive t reqs \<longleftrightarrow> map (\<lambda>r. km_timestamp (fst r)) reqs = map (\<lambda>i. t + int i) [0..<length reqs]"

lemma consecutive_Cons: "consecutive t (r # reqs) \<longleftrightarrow> km_timestamp (fst r) = t \<and> consecutive (t + 1) reqs"
proof -
  have "map (\<lambda>i. t + int i) [0..<Suc n] = t # map (\<lambda>i. t + 1 + int i) [0..<n]" for n
    by (simp add: upt_conv_Cons map_Suc_upt [symmetric] comp_def algebra_simps del: upt_Suc)
  then show ?thesis by (simp add: consecutive_def del: upt_Suc)
qed

definition add_all :: "(kvmeta \<times> key_tensor) list \<Rightarrow> af_meta \<Rightarrow> af_meta" where
  "add_all reqs m = fold (\<lambda>(req, t). AFTensorMeta_Add req t) reqs m"

lemma spec_run_rest:
  assumes "consecutive t reqs" and "\<forall>r\<in>set reqs. km_sender (fst r) = w"
    and "map (\<lambda>r. km_cmd (fst r)) reqs = replicate k AF_FLAG_BATCH_MIDDLE @ [AF_FLAG_BATCH_END]"
    and "\<And>t. \<sigma> (w, t) = None"
  shows "spec_run reqs (\<sigma>((w, t) \<mapsto> m)) = Some (\<sigma>, [add_all reqs m])"
  using assms(1-3)
proof (induction k arbitrary: reqs t m)
  case 0
  then obtain r where "reqs = [r]" by (cases reqs) auto
  with 0 assms(4) show ?case
    by (cases r) (auto simp: consecutive_Cons spec_step_def Let_def add_all_def AF_FLAG_BATCH_START_def AF_FLAG_BATCH_END_def fun_eq_iff)
next
  case (Suc k)
  then obtain req x rest where reqs: "reqs = (req, x) # rest" by (cases reqs) auto
  have step: "spec_step req x (\<sigma>((w, t) \<mapsto> m)) = Some (\<sigma>((w, t + 1) \<mapsto> AFTensorMeta_Add req x m), [])"
    using Suc.prems assms(4)
    by (auto simp: reqs consecutive_Cons spec_step_def Let_def AF_FLAG_BATCH_START_def AF_FLAG_BATCH_END_def AF_FLAG_BATCH_MIDDLE_def fun_eq_iff)
  have "spec_run rest (\<sigma>((w, t + 1) \<mapsto> AFTensorMeta_Add req x m)) = Some (\<sigma>, [add_all rest (AFTensorMeta_Add req x m)])"
    using Suc.IH Suc.prems by (simp add: reqs consecutive_Cons del: fun_upd_apply)
  then show ?case unfolding reqs spec_run.simps step by (simp add: add_all_def del: fun_upd_apply)
qed

lemma spec_run_batch:
  assumes "consecutive t reqs" and "\<forall>r\<in>set reqs. km_sender (fst r) = w"
    and "map (\<lambda>r. km_cmd (fst r)) reqs = complete_flags n" and "\<And>t. \<sigma> (w, t) = None"
  shows "spec_run reqs \<sigma> = Some (\<sigma>, [add_all reqs (new_batch (fst (hd reqs)))])"
proof -
  obtain req x rest where reqs: "reqs = (req, x) # rest" using assms(3) by (cases reqs) (auto simp: complete_flags_def)
  have "spec_step req x \<sigma> = Some (\<sigma>((w, t + 1) \<mapsto> AFTensorMeta_Add req x (new_batch req)), [])"
    using assms by (simp add: reqs consecutive_Cons spec_step_def Let_def complete_flags_def)
  with spec_run_rest [of "t + 1" rest w "n - 2" \<sigma>, OF _ _ _ assms(4)] assms(1-3) show ?thesis
    by (simp add: reqs consecutive_Cons add_all_def complete_flags_def)
qed

lemma add_all_fields:
  "am_sender (add_all reqs m) = am_sender m \<and>
   am_push_tensors (add_all reqs m) = am_push_tensors m @ map snd (filter (\<lambda>r. km_push (fst r)) reqs) \<and>
   am_pull_tensors (add_all reqs m) = am_pull_tensors m @ map snd (filter (\<lambda>r. \<not> km_push (fst r)) reqs) \<and>
   am_push_metas (add_all reqs m) = am_push_metas m @ map fst (filter (\<lambda>r. km_push (fst r)) reqs) \<and>
   am_pull_metas (add_all reqs m) = am_pull_metas m @ map fst (filter (\<lambda>r. \<not> km_push (fst r)) reqs)"
proof (induction reqs arbitrary: m)
  case (Cons r reqs)
  then show ?case by (cases r) (simp add: add_all_def AFTensorMeta_Add_def Let_def)
qed (simp add: add_all_def)

section \<open>The worker's side\<close>

lemma worker_ready_idle:
  "worker_ready k \<Longrightarrow> worker_ready (fst (server_count k))"
  by (auto simp: server_count_def worker_ready_def GetServerKeyRanges_def Let_def node_ids_ready_def node_id_entry_def
      num_server_instances_def num_worker_instances_def)

lemma alloc_ready:
  assumes "worker_ready k"
  shows "\<exists>c'. alloc_timestamps clock n (c, k) =
      Inr ((c', k), map (\<lambda>i. int (length (cu_tracker c) + i)) [0..<n]) \<and>
    length (cu_tracker c') = length (cu_tracker c) + n"
proof (induction n arbitrary: c clock)
  case (Suc n)
  obtain c1 where c1: "NewRequest (kw_po k) (clock 0) kServerGroup c = Inr (c1, int (length (cu_tracker c)))"
    "length (cu_tracker c1) = Suc (length (cu_tracker c))"
    using NewRequest_ready [OF assms] by blast
  obtain c' where "alloc_timestamps (\<lambda>i. clock (Suc i)) n (c1, k) =
      Inr ((c', k), map (\<lambda>i. int (length (cu_tracker c1) + i)) [0..<n])" "length (cu_tracker c') = length (cu_tracker c1) + n"
    using Suc.IH by blast
  moreover have "map (\<lambda>i. int (length (cu_tracker c) + i)) [0..<Suc n] =
      int (length (cu_tracker c)) # map (\<lambda>i. int (length (cu_tracker c1) + i)) [0..<n]"
    by (simp add: upt_conv_Cons map_Suc_upt [symmetric] comp_def c1(2) del: upt_Suc)
  ultimately show ?case using c1 by (simp add: AllocTimestamp_def del: upt_Suc)
qed simp

text \<open>One call and one turn of the worker thread on an idle worker.\<close>

lemma batch_call:
  fixes c pushes pulls n
  defines "push_ts \<equiv> map (\<lambda>i. int (length (cu_tracker c) + i)) [0..<length pushes]"
    and "pull_ts \<equiv> map (\<lambda>i. int (length (cu_tracker c) + length pushes + i)) [0..<length pulls div n]"
  assumes w: "aw_customer w = c" "worker_ready (aw_kv w)" "worker_at n g idx (aw_kv w)" "aw_queue w = []"
    and g: "g \<noteq> 0" "0 < n" and two: "2 \<le> length pushes + length pulls" and nonempty: "push_ts @ pull_ts \<noteq> []"
    and defd: "\<forall>kt\<in>set (pushes @ pulls). kt_val kt \<noteq> None"
  shows "\<exists>w1 w2. ZBatchPushPull clock record_ok pushes pulls need_event w = Inr (w1, hd (push_ts @ pull_ts)) \<and>
    PushPullWorker_turn ka w1 = Inr (Some w2) \<and> aw_queue w2 = [] \<and>
    GetAllHandlers (hd (push_ts @ pull_ts)) w2 = push_ts @ pull_ts \<and>
    sends n g idx (aw_kv w) (aw_kv w2) (batch_sequence pushes push_ts pulls pull_ts n)"
proof -
  obtain k1 where k1: "server_count (aw_kv w) = (k1, n)" "worker_at n g idx k1" "kw_sent k1 = kw_sent (aw_kv w)"
    using server_count_at [OF w(3)] by blast
  have ready: "worker_ready k1" using worker_ready_idle [OF w(2)] by (simp add: k1(1))
  obtain c1 where c1: "alloc_timestamps clock (length pushes) (c, k1) = Inr ((c1, k1), push_ts)"
    "length (cu_tracker c1) = length (cu_tracker c) + length pushes"
    using alloc_ready [OF ready] unfolding push_ts_def by blast
  obtain c2 where c2: "alloc_timestamps (\<lambda>i. clock (length pushes + i)) (length pulls div n) (c1, k1) = Inr ((c2, k1), pull_ts)"
    using alloc_ready [OF ready, of _ _ c1] unfolding pull_ts_def c1(2) by blast
  have len: "length push_ts = length pushes" "length pull_ts = length pulls div n"
    by (simp_all add: push_ts_def pull_ts_def)
  obtain k' where k': "ZBatchPushPull_impl ka pushes push_ts pulls pull_ts (c2, k1) = Inr (c2, k')"
    "sends n g idx k1 k' (batch_sequence pushes push_ts pulls pull_ts n)"
    using batch_sends [OF k1(2) g two len defd] by blast
  have start: "(case push_ts @ pull_ts of [] \<Rightarrow> 0 | ts # _ \<Rightarrow> ts) = hd (push_ts @ pull_ts)"
    using nonempty by (cases "push_ts @ pull_ts") auto
  have "sends n g idx (aw_kv w) k' (batch_sequence pushes push_ts pulls pull_ts n)"
    using k'(2) k1(3) by (simp add: sends_def)
  then show ?thesis
    using w(1,4) k1(1) c1(1) c2 k'(1) g(2) nonempty
    by (simp add: ZBatchPushPull_def start Let_def split_def PushPullWorker_turn_def GetAllHandlers_def umap_find_def)
qed

section \<open>From the call to the handle\<close>

text \<open>What the code relies on of \<^verbatim>\<open>at::from_blob\<close>: the tensor has the bytes, element type and shape it is given.\<close>

definition blob_ok :: "(byte sarray \<Rightarrow> int \<Rightarrow> int list \<Rightarrow> tensor) \<Rightarrow> bool" where
  "blob_ok blob \<longleftrightarrow> (\<forall>a dt sh. tn_bytes (blob a dt sh) = s_elems a \<and> tn_dtype (blob a dt sh) = dt \<and> tn_shape (blob a dt sh) = sh)"

lemma arrives_fields [simp]:
  "m_head (msg_meta (arrives w m)) = m_head (msg_meta m)" "m_timestamp (msg_meta (arrives w m)) = m_timestamp (msg_meta m)"
  "m_push (msg_meta (arrives w m)) = m_push (msg_meta m)" "m_key (msg_meta (arrives w m)) = m_key (msg_meta m)"
  "m_dtype (msg_meta (arrives w m)) = m_dtype (msg_meta m)" "m_shape (msg_meta (arrives w m)) = m_shape (msg_meta m)"
  "m_simple_app (msg_meta (arrives w m)) = m_simple_app (msg_meta m)" "m_request (msg_meta (arrives w m)) = m_request (msg_meta m)"
  "m_sender (msg_meta (arrives w m)) = w" "msg_data (arrives w m) = msg_data m"
  by (simp_all add: arrives_def)

lemma arrives_data [simp]: "server_data vt (arrives w m) = server_data vt m"
proof -
  have data: "decode_kvs vt (arrives w m) = decode_kvs vt m" by (simp add: decode_kvs_def)
  show ?thesis unfolding server_data_def arrives_fields data ..
qed

lemma arrives_ok [simp]: "msg_ok (arrives w m) = msg_ok m"
  by (simp add: msg_ok_def)

lemma request_meta_fields [simp]:
  "km_cmd (request_meta po mt) = m_head mt" "km_push (request_meta po mt) = m_push mt"
  "km_timestamp (request_meta po mt) = m_timestamp mt" "km_sender (request_meta po mt) = worker_group po (m_sender mt)"
  by (simp_all add: request_meta_def worker_group_def Let_def)

lemma read_batch_views:
  assumes "map msg_view ms = V"
  shows "map (\<lambda>r. km_cmd (fst r)) (read_batch blob po (map (arrives w) ms)) = map fst V"
    and "map (\<lambda>r. km_timestamp (fst r)) (read_batch blob po (map (arrives w) ms)) = map (\<lambda>v. fst (snd v)) V"
    and "\<forall>r\<in>set (read_batch blob po (map (arrives w) ms)). km_sender (fst r) = worker_group po w"
  by (auto simp: read_batch_def comp_def msg_view_def simp flip: assms)

lemma read_push:
  assumes "blob_ok blob" and "msg_ok m" and "m_push (msg_meta m)"
  shows "tensor_payload (read_tensor blob (arrives w m)) = payload_of m"
  using assms by (auto simp: tensor_payload_def read_tensor_def payload_of_def msg_ok_def blob_ok_def)

lemma read_pull: "kt_key (read_tensor blob (arrives w m)) = fst (payload_of m)"
  by (simp add: read_tensor_def payload_of_def)

lemma filter_views:
  assumes "\<forall>m\<in>set ms. msg_ok m" and "blob_ok blob"
  shows "map (\<lambda>r. tensor_payload (snd r)) (filter (\<lambda>r. km_push (fst r)) (read_batch blob po (map (arrives w) ms))) =
      map (\<lambda>v. snd (snd (snd v))) (filter (\<lambda>v. fst (snd (snd v))) (map msg_view ms))"
    and "map (\<lambda>r. kt_key (snd r)) (filter (\<lambda>r. \<not> km_push (fst r)) (read_batch blob po (map (arrives w) ms))) =
      map (\<lambda>v. fst (snd (snd (snd v)))) (filter (\<lambda>v. \<not> fst (snd (snd v))) (map msg_view ms))"
    and "map (\<lambda>r. km_timestamp (fst r)) (filter (\<lambda>r. km_push (fst r) = b) (read_batch blob po (map (arrives w) ms))) =
      map (\<lambda>v. fst (snd v)) (filter (\<lambda>v. fst (snd (snd v)) = b) (map msg_view ms))"
  using assms by (induction ms) (auto simp: read_batch_def msg_view_def read_push read_pull)

lemma sequence_parts:
  assumes "length push_ts = length pushes" and "length pull_ts = length pulls div n" and "j < n"
  shows "map (\<lambda>v. snd (snd (snd v))) (filter (\<lambda>v. fst (snd (snd v))) (batch_sequence pushes push_ts pulls pull_ts n j)) =
      map tensor_payload pushes"
    and "map (\<lambda>v. fst (snd (snd (snd v)))) (filter (\<lambda>v. \<not> fst (snd (snd v))) (batch_sequence pushes push_ts pulls pull_ts n j)) =
      map kt_key (take (length pulls div n) (drop (j * (length pulls div n)) pulls))"
    and "map (\<lambda>v. fst (snd v)) (filter (\<lambda>v. fst (snd (snd v)) = True) (batch_sequence pushes push_ts pulls pull_ts n j)) = push_ts"
    and "map (\<lambda>v. fst (snd v)) (filter (\<lambda>v. fst (snd (snd v)) = False) (batch_sequence pushes push_ts pulls pull_ts n j)) = pull_ts"
proof -
  have "j * (length pulls div n) + length pulls div n \<le> n * (length pulls div n)"
    using mult_le_mono1 [of "Suc j" n "length pulls div n"] assms(3) by simp
  also have "\<dots> \<le> length pulls" by simp
  finally have q: "j * (length pulls div n) + length pulls div n \<le> length pulls" .
  have "map (\<lambda>i. kt_key (pulls ! (j * (length pulls div n) + i))) [0..<length pulls div n] =
      map kt_key (take (length pulls div n) (drop (j * (length pulls div n)) pulls))"
    using q by (intro nth_equalityI) auto
  moreover have "map (\<lambda>i. tensor_payload (pushes ! i)) [0..<length pushes] = map tensor_payload pushes"
    by (intro nth_equalityI) auto
  ultimately show "map (\<lambda>v. snd (snd (snd v))) (filter (\<lambda>v. fst (snd (snd v))) (batch_sequence pushes push_ts pulls pull_ts n j)) =
      map tensor_payload pushes"
    "map (\<lambda>v. fst (snd (snd (snd v)))) (filter (\<lambda>v. \<not> fst (snd (snd v))) (batch_sequence pushes push_ts pulls pull_ts n j)) =
      map kt_key (take (length pulls div n) (drop (j * (length pulls div n)) pulls))"
    by (simp_all add: batch_sequence_def filter_map comp_def tensor_payload_def)
  show "map (\<lambda>v. fst (snd v)) (filter (\<lambda>v. fst (snd (snd v)) = True) (batch_sequence pushes push_ts pulls pull_ts n j)) = push_ts"
    "map (\<lambda>v. fst (snd v)) (filter (\<lambda>v. fst (snd (snd v)) = False) (batch_sequence pushes push_ts pulls pull_ts n j)) = pull_ts"
    using map_nth [of push_ts] map_nth [of pull_ts] assms(1,2) by (simp_all add: batch_sequence_def filter_map comp_def)
qed

text \<open>A server that gets the messages of a complete batch.\<close>

lemma server_gets_batch:
  assumes ok: "batches_ok s" "\<And>t. open_batches s (worker_group (ks_po (io_kv (as_io s))) w, t) = None"
    and ms: "\<forall>m\<in>set ms. msg_ok m" "map msg_view ms = V"
    and flags: "map fst V = complete_flags l" and ts: "map (\<lambda>v. fst (snd v)) V = map (\<lambda>i. t0 + int i) [0..<length V]"
    and blob: "blob_ok blob"
  shows "\<exists>s' m. foldR (AFTensorServer_Process blob hs (Some (\<lambda>m io. Inr (recording m io)))) (map (arrives w) ms) s = Inr s' \<and>
    batches_ok s' \<and> open_batches s' = open_batches s \<and> recorded s' = recorded s @ [m] \<and>
    am_sender m = worker_group (ks_po (io_kv (as_io s))) w \<and>
    map tensor_payload (am_push_tensors m) = map (\<lambda>v. snd (snd (snd v))) (filter (\<lambda>v. fst (snd (snd v))) V) \<and>
    map kt_key (am_pull_tensors m) = map (\<lambda>v. fst (snd (snd (snd v)))) (filter (\<lambda>v. \<not> fst (snd (snd v))) V) \<and>
    map km_timestamp (am_push_metas m) = map (\<lambda>v. fst (snd v)) (filter (\<lambda>v. fst (snd (snd v)) = True) V) \<and>
    map km_timestamp (am_pull_metas m) = map (\<lambda>v. fst (snd v)) (filter (\<lambda>v. fst (snd (snd v)) = False) V)"
proof -
  let ?po = "ks_po (io_kv (as_io s))"
  define reqs where "reqs = read_batch blob ?po (map (arrives w) ms)"
  note views = read_batch_views [OF ms(2), of blob ?po w, folded reqs_def]
  have len: "length reqs = length V" by (simp add: reqs_def read_batch_def flip: ms(2))
  have "consecutive t0 reqs" using views(2) ts by (simp add: consecutive_def len)
  note run = spec_run_batch [where \<sigma> = "open_batches s", OF this views(3) views(1) [unfolded flags] ok(2)]
  have "0 \<notin> set (map fst V)"
    by (auto simp: flags complete_flags_def AF_FLAG_BATCH_START_def AF_FLAG_BATCH_MIDDLE_def AF_FLAG_BATCH_END_def)
  then have "\<forall>m\<in>set (map (arrives w) ms). msg_ok m \<and> m_head (msg_meta m) \<noteq> 0"
    using ms(1) by (auto simp: msg_view_def simp flip: ms(2))
  from process_run [OF ok(1) refl this run [unfolded reqs_def]] obtain s' where
    s': "foldR (AFTensorServer_Process blob hs (Some (\<lambda>m io. Inr (recording m io)))) (map (arrives w) ms) s = Inr s'"
      "batches_ok s'" "open_batches s' = open_batches s" "recorded s' = recorded s @ [add_all reqs (new_batch (fst (hd reqs)))]"
    unfolding reqs_def by blast
  have "reqs \<noteq> []" using flags len by (cases V) (auto simp: complete_flags_def)
  then have "am_sender (new_batch (fst (hd reqs))) = worker_group ?po w"
    using views(3) by (simp add: new_batch_def)
  moreover note add_all_fields [of reqs "new_batch (fst (hd reqs))"]
    filter_views(1,2) [OF ms(1) blob, where po = ?po and w = w, folded reqs_def]
    filter_views(3) [OF ms(1) blob, where po = ?po and w = w and b = True, folded reqs_def]
    filter_views(3) [OF ms(1) blob, where po = ?po and w = w and b = False, folded reqs_def]
  ultimately show ?thesis
    using s' by (auto simp: new_batch_def AFTensorMeta0_def ms(2) comp_def)
qed

text \<open>
  C2: a batch, end to end.  An idle worker calls \<^verbatim>\<open>ZBatchPushPull\<close> with at least two tensors,
  enough of them for every server to get a complete batch, and its thread takes the request.  Then
  the returned handle stands for exactly the allocated timestamps, and if the messages addressed to
  a server reach it in order, while it has no batch of this worker open, the server calls its
  request handle exactly once: with the worker's group as the sender, with the pushed tensors (key,
  bytes, element type and shape) in order, with the keys of this server's share of the pulls, and
  with the timestamps the worker waits for.  Afterwards the server has the same open batches as before.
\<close>

theorem batch_reaches_handle:
  assumes w: "worker_ready (aw_kv w)" "worker_at n g idx (aw_kv w)" "aw_queue w = []" "g \<noteq> 0"
    and two: "2 \<le> length pushes + length pulls" and defd: "\<forall>kt\<in>set (pushes @ pulls). kt_val kt \<noteq> None"
    and enough: "if pushes = [] then 2 * n \<le> length pulls else pulls = [] \<or> n \<le> length pulls"
    and j: "j < n" and blob: "blob_ok blob"
    and s: "batches_ok s" "\<forall>t. open_batches s (worker_group (ks_po (io_kv (as_io s))) wid, t) = None"
  shows "\<exists>w1 h w2 sent s' m.
    ZBatchPushPull clock record_ok pushes pulls need_event w = Inr (w1, h) \<and>
    PushPullWorker_turn ka w1 = Inr (Some w2) \<and> kw_sent (aw_kv w2) = kw_sent (aw_kv w) @ sent \<and>
    foldR (AFTensorServer_Process blob hs (Some (\<lambda>m io. Inr (recording m io))))
      (map (arrives wid) (filter (\<lambda>m. m_recver (msg_meta m) = server_id g idx j) sent)) s = Inr s' \<and>
    recorded s' = recorded s @ [m] \<and> open_batches s' = open_batches s \<and>
    am_sender m = worker_group (ks_po (io_kv (as_io s))) wid \<and>
    map tensor_payload (am_push_tensors m) = map tensor_payload pushes \<and>
    map kt_key (am_pull_tensors m) = map kt_key (take (length pulls div n) (drop (j * (length pulls div n)) pulls)) \<and>
    GetAllHandlers h w2 = map km_timestamp (am_push_metas m @ am_pull_metas m)"
proof -
  let ?c = "cu_tracker (aw_customer w)" and ?q = "length pulls div n"
  define pu where "pu = map (\<lambda>i. int (length ?c + i)) [0..<length pushes]"
  define pl where "pl = map (\<lambda>i. int (length ?c + length pushes + i)) [0..<?q]"
  let ?V = "batch_sequence pushes pu pulls pl n"
  have len: "length pu = length pushes" "length pl = ?q" by (simp_all add: pu_def pl_def)
  have n: "0 < n" using j by simp
  have flags: "map fst (?V j) = complete_flags (length pushes + ?q)"
    using batch_flags_complete [OF two n] enough by (simp add: batch_sequence_parts(1) [OF len])
  have "pu @ pl = map (\<lambda>i. int (length ?c) + int i) [0..<length pushes + ?q]"
    by (rule nth_equalityI) (auto simp: pu_def pl_def nth_append)
  then have ts: "map (\<lambda>v. fst (snd v)) (?V j) = map (\<lambda>i. int (length ?c) + int i) [0..<length (?V j)]"
    by (simp add: batch_sequence_parts(2) [OF len]) (simp add: batch_sequence_def)
  have ne: "pu @ pl \<noteq> []" using flags len by (auto simp: complete_flags_def batch_sequence_def)
  obtain w1 w2 where run: "ZBatchPushPull clock record_ok pushes pulls need_event w = Inr (w1, hd (pu @ pl))"
      "PushPullWorker_turn ka w1 = Inr (Some w2)" "GetAllHandlers (hd (pu @ pl)) w2 = pu @ pl"
    and sends: "sends n g idx (aw_kv w) (aw_kv w2) ?V"
    using batch_call [OF refl w(1-3) w(4) n two ne [unfolded pu_def pl_def] defd] unfolding pu_def pl_def by blast
  obtain sent where sent: "kw_sent (aw_kv w2) = kw_sent (aw_kv w) @ sent" "\<forall>m\<in>set sent. msg_ok m"
    "map msg_view (filter (\<lambda>m. m_recver (msg_meta m) = server_id g idx j) sent) = ?V j"
    using sends j by (auto simp: sends_def)
  have "\<forall>m\<in>set (filter (\<lambda>m. m_recver (msg_meta m) = server_id g idx j) sent). msg_ok m" using sent(2) by simp
  from server_gets_batch [OF s(1) _ this sent(3) flags ts blob, of wid hs] s(2) run sent(1) sequence_parts [OF len j]
  show ?thesis by fastforce
qed

definition example_af_worker :: af_worker where
  "example_af_worker = \<lparr>aw_customer = example_customer, aw_kv = example_byte_worker, aw_batch_timestamps = [],
     aw_events = replicate kDefaultEventBufferSize TensorEvent0, aw_queue = []\<rparr>"

definition no_af_handles :: "af_meta list af_server simple_handles" where
  "no_af_handles = \<lparr>sh_request = None, sh_response = None\<rparr>"

theorem batch_reaches_handle_witness:
  "\<exists>w1 h w2 sent s' m.
    ZBatchPushPull (\<lambda>_. 0) True [example_tensor 5] [example_tensor 6, example_tensor 7] False example_af_worker = Inr (w1, h) \<and>
    PushPullWorker_turn 0 w1 = Inr (Some w2) \<and> kw_sent (aw_kv w2) = sent \<and>
    foldR (AFTensorServer_Process example_blob no_af_handles (Some (\<lambda>m io. Inr (recording m io))))
      (map (arrives 9) (filter (\<lambda>m. m_recver (msg_meta m) = server_id 2 1 1) sent)) example_af_server = Inr s' \<and>
    recorded s' = [m] \<and> map tensor_payload (am_push_tensors m) = [(5, [1, 2, 3, 4], 0, [4])] \<and>
    map kt_key (am_pull_tensors m) = [7]"
proof -
  have w: "worker_ready (aw_kv example_af_worker)" "worker_at 2 2 1 (aw_kv example_af_worker)" "aw_queue example_af_worker = []"
    using example_po_ready example_byte_worker_at
    by (simp_all add: example_af_worker_def worker_ready_def example_byte_worker_def example_po_sizes example_po_ranges)
  have blob: "blob_ok example_blob" by (simp add: blob_ok_def example_blob_def)
  have s: "batches_ok example_af_server" "\<forall>t. open_batches example_af_server (worker_group (ks_po (io_kv (as_io example_af_server))) 9, t) = None"
    "recorded example_af_server = []"
    by (simp_all add: batches_ok_def open_batches_def example_af_server_def AFTensorServer_new_def umap_index_def
        reorder_map_def current_map_def)
  have t: "\<forall>kt\<in>set ([example_tensor 5] @ [example_tensor 6, example_tensor 7]). kt_val kt \<noteq> None"
    by (simp add: example_tensor_def)
  have new: "kw_sent (aw_kv example_af_worker) = []" by (simp add: example_af_worker_def example_byte_worker_def)
  have share: "map kt_key (take 1 (drop 1 [example_tensor 6, example_tensor 7])) = [7]"
    and pushed: "map tensor_payload [example_tensor 5] = [(5, [1, 2, 3, 4], 0, [4])]"
    by (simp_all add: example_tensor_def tensor_payload_def)
  from batch_reaches_handle [OF w _ _ t _ _ blob s(1,2), of 1 "\<lambda>_. 0" True False 0 no_af_handles] share pushed s(3) new
  show ?thesis by (simp, elim exE conjE, intro exI conjI) assumption+
qed

end
