(* ===== verification/Ring.thy ===== *)
theory Ring
  imports Prelude
begin

text \<open>
  Index arithmetic modulo the size of a ring, shared by the ring buffers of the queues and the
  probing of the hash table.
\<close>

section \<open>Ring buffers\<close>

text \<open>
  The elements between a read index and a write index of a ring of \<open>cap\<close> slots.  The index values
  always stay below the capacity, so the modelled \<^verbatim>\<open>size_t\<close> arithmetic does not wrap.
\<close>

definition ring_elems :: "(nat \<Rightarrow> 'a) \<Rightarrow> nat \<Rightarrow> nat \<Rightarrow> nat \<Rightarrow> 'a list" where
  "ring_elems b cap rd wr = map (\<lambda>i. b ((rd + i) mod cap)) [0..<(wr + cap - rd) mod cap]"

lemma next_index: "x < cap \<Longrightarrow> Suc x mod cap = (if Suc x = cap then 0 else Suc x)"
  by simp

lemma next_index_less: "x < cap \<Longrightarrow> Suc x mod cap < cap"
  by (rule mod_less_divisor) simp

lemma ring_distance: "rd < cap \<Longrightarrow> wr < cap \<Longrightarrow> (wr + cap - rd) mod cap = (if rd \<le> wr then wr - rd else wr + cap - rd)"
  for cap :: nat
  by (simp add: le_mod_geq)

lemma ring_index: "rd < cap \<Longrightarrow> i < cap \<Longrightarrow> (rd + i) mod cap = (if rd + i < cap then rd + i else rd + i - cap)"
  for cap :: nat
  by (simp add: le_mod_geq)

lemma ring_distance_less: "wr < cap \<Longrightarrow> (wr + cap - rd) mod cap < cap"
  for cap :: nat
  by simp

lemma ring_distance_Suc:
  assumes "rd < cap" and "wr < cap" and "(wr + 1) mod cap \<noteq> rd"
  shows "((wr + 1) mod cap + cap - rd) mod cap = Suc ((wr + cap - rd) mod cap)"
proof -
  have "(wr + 1) mod cap < cap" using assms(1) by simp
  then show ?thesis using assms by (auto simp: ring_distance next_index split: if_splits)
qed

lemma ring_distance_pred:
  assumes "rd < cap" and "wr < (cap :: nat)" and "rd \<noteq> wr"
  shows "(wr + cap - rd) mod cap = Suc ((wr + cap - (rd + 1) mod cap) mod cap)"
proof -
  have "(rd + 1) mod cap < cap" using assms(1) by simp
  then show ?thesis using assms by (auto simp: ring_distance next_index split: if_splits)
qed

lemma length_ring_elems [simp]: "length (ring_elems b cap rd wr) = (wr + cap - rd) mod cap"
  by (simp add: ring_elems_def)

lemma ring_empty: "rd < cap \<Longrightarrow> wr < cap \<Longrightarrow> ring_elems b cap rd wr = [] \<longleftrightarrow> rd = wr"
  by (auto simp: ring_elems_def ring_distance)

lemma ring_full:
  "rd < cap \<Longrightarrow> wr < cap \<Longrightarrow> (wr + 1) mod cap = rd \<longleftrightarrow> length (ring_elems b cap rd wr) = cap - 1"
  by (auto simp: ring_distance next_index split: if_splits)

text \<open>The slot at the write index is outside the ring, unless the ring is full in a way the code excludes.\<close>

lemma ring_write:
  assumes "rd < cap" and "wr < cap"
  shows "ring_elems (b(wr := v)) cap rd wr = ring_elems b cap rd wr"
proof -
  have "(rd + i) mod cap \<noteq> wr" if "i < (wr + cap - rd) mod cap" for i
    using assms that ring_distance_less [of wr cap rd] by (auto simp: ring_index ring_distance split: if_splits)
  then show ?thesis by (simp add: ring_elems_def)
qed

lemma ring_push:
  assumes "rd < cap" and "wr < cap" and "(wr + 1) mod cap \<noteq> rd" and "b wr = v"
  shows "ring_elems b cap rd ((wr + 1) mod cap) = ring_elems b cap rd wr @ [v]"
proof -
  have "(rd + (wr + cap - rd) mod cap) mod cap = wr"
    using assms(1,2) ring_distance_less [of wr cap rd] by (auto simp: ring_index ring_distance split: if_splits)
  then show ?thesis unfolding ring_elems_def ring_distance_Suc [OF assms(1-3)] by (simp add: assms(4))
qed

lemma ring_pop:
  assumes "rd < cap" and "wr < cap" and "rd \<noteq> wr"
  shows "ring_elems b cap rd wr = b rd # ring_elems b cap ((rd + 1) mod cap) wr"
proof -
  have "map (\<lambda>i. b ((rd + i) mod cap)) [0..<Suc n] = b rd # map (\<lambda>i. b (((rd + 1) mod cap + i) mod cap)) [0..<n]" for n
    using assms(1)
    by (simp add: upt_conv_Cons map_Suc_upt [symmetric] comp_def mod_add_left_eq del: upt_Suc)
  then show ?thesis unfolding ring_elems_def ring_distance_pred [OF assms] .
qed

text \<open>The slot that was read last is outside the ring.\<close>

lemma ring_popped:
  assumes "rd < cap" and "wr < cap" and "rd \<noteq> wr" and "i < (wr + cap - Suc rd mod cap) mod cap"
  shows "(Suc rd mod cap + i) mod cap \<noteq> rd"
  using assms ring_distance_pred [of rd cap wr] ring_distance_less [of wr cap "Suc rd mod cap"]
  by (auto simp: next_index ring_index ring_distance split: if_splits)

end
