(* ===== verification/Queues.thy ===== *)
theory Queues
  imports Ring Env
begin

text \<open>
  The queues between the threads: the mutex queue and the ring buffer of \<^verbatim>\<open>ThreadsafeQueue\<close> and
  the ring buffer \<^verbatim>\<open>rigtorp::SPSCQueue\<close>.  Used one operation at a time they are first-in
  first-out queues; the interface \<open>fifo_queue\<close> states this once for all three.  The lock-free ring is
  then opened up into the single loads and stores of its threads, interleaved in any order.
\<close>

section \<open>SPSCQueue\<close>

text \<open>
  A slot of raw memory holds an object or not; \<open>sq_padding\<close> is \<^verbatim>\<open>kPadding\<close>, which depends on the
  size of an element.
\<close>

record 'a spsc =
  sq_capacity :: nat
  sq_padding :: nat
  sq_slots :: "'a option list"
  sq_head :: nat
  sq_tail :: nat

definition SPSCQueue_new :: "nat \<Rightarrow> nat \<Rightarrow> 'a spsc res" where
  "SPSCQueue_new padding capacity =
     (if capacity < 2 then Inl (OutOfRange ''size < 2'')
      else Inr \<lparr>sq_capacity = capacity, sq_padding = padding, sq_slots = replicate (capacity + 2 * padding) None,
                sq_head = 0, sq_tail = 0\<rparr>)"

definition spsc_next :: "'a spsc \<Rightarrow> nat \<Rightarrow> nat" where
  "spsc_next q i = (if i + 1 = sq_capacity q then 0 else i + 1)"

text \<open>\<open>emplace\<close> is \<open>None\<close> when the queue is full: it spins until another thread pops.\<close>

definition try_emplace :: "'a \<Rightarrow> 'a spsc \<Rightarrow> 'a spsc \<times> bool" where
  "try_emplace v q =
     (let head = sq_head q; nextHead = spsc_next q head
      in if nextHead = sq_tail q then (q, False)
         else (q\<lparr>sq_slots := (sq_slots q)[head + sq_padding q := Some v], sq_head := nextHead\<rparr>, True))"

definition emplace :: "'a \<Rightarrow> 'a spsc \<Rightarrow> 'a spsc option" where
  "emplace v q =
     (let head = sq_head q; nextHead = spsc_next q head
      in if nextHead = sq_tail q then None
         else Some (q\<lparr>sq_slots := (sq_slots q)[head + sq_padding q := Some v], sq_head := nextHead\<rparr>))"

definition spsc_front :: "'a spsc \<Rightarrow> 'a option res" where
  "spsc_front q =
     (if sq_head q = sq_tail q then Inr None
      else case sq_slots q ! (sq_tail q + sq_padding q) of
             None \<Rightarrow> Inl (Undefined ''no object in slot'')
           | Some v \<Rightarrow> Inr (Some v))"

definition spsc_pop :: "'a spsc \<Rightarrow> 'a spsc res" where
  "spsc_pop q =
     PS_CHECK (sq_head q \<noteq> sq_tail q) ''head_.load(std::memory_order_acquire) != tail''
       (Inr (q\<lparr>sq_slots := (sq_slots q)[sq_tail q + sq_padding q := None], sq_tail := spsc_next q (sq_tail q)\<rparr>))"

definition spsc_size :: "'a spsc \<Rightarrow> int" where
  "spsc_size q =
     (let diff = int (sq_head q) - int (sq_tail q) in if diff < 0 then diff + int (sq_capacity q) else diff)"

text \<open>The loop of the destructor.\<close>

partial_function (option) spsc_drain :: "'a spsc \<Rightarrow> 'a spsc res option" where
  "spsc_drain q =
     (case spsc_front q of
        Inl err \<Rightarrow> Some (Inl err)
      | Inr None \<Rightarrow> Some (Inr q)
      | Inr (Some v) \<Rightarrow>
          (case spsc_pop q of
             Inl err \<Rightarrow> Some (Inl err)
           | Inr q' \<Rightarrow> spsc_drain q'))"

section \<open>ThreadsafeQueue\<close>

record 'a tsqueue =
  tq_lockless :: int
  tq_queue :: "'a list"
  tq_spsc :: "'a spsc"
  tq_buffer :: "'a list"
  tq_head :: nat
  tq_tail :: nat
  tq_capacity :: nat

text \<open>\<open>d\<close> is the default element that fills the array \<^verbatim>\<open>buffer_\<close>.\<close>

definition ThreadsafeQueue_new :: "environment \<Rightarrow> nat \<Rightarrow> 'a \<Rightarrow> 'a tsqueue res" where
  "ThreadsafeQueue_new e padding d =
     bindR (SPSCQueue_new padding 32768) (\<lambda>sq.
       Inr \<lparr>tq_lockless = fst (env_find_int e ''STEPAF_BUSY_POLL_ENABLE'' 1), tq_queue = [], tq_spsc = sq,
            tq_buffer = replicate 32768 d, tq_head = 0, tq_tail = 0, tq_capacity = 32768\<rparr>)"

text \<open>A call that would wait for another thread is \<open>None\<close>.\<close>

definition PushAtomic :: "'a \<Rightarrow> 'a tsqueue \<Rightarrow> 'a tsqueue option" where
  "PushAtomic v q =
     (let current_tail = tq_tail q; next_tail = (current_tail + 1) mod tq_capacity q
      in if next_tail = tq_head q then None
         else Some (q\<lparr>tq_buffer := (tq_buffer q)[current_tail := v], tq_tail := next_tail\<rparr>))"

definition WaitAndPopAtomic :: "'a tsqueue \<Rightarrow> ('a \<times> 'a tsqueue) option" where
  "WaitAndPopAtomic q =
     (let current_head = tq_head q
      in if current_head = tq_tail q then None
         else Some (tq_buffer q ! current_head, q\<lparr>tq_head := (current_head + 1) mod tq_capacity q\<rparr>))"

definition SizeAtomic :: "'a tsqueue \<Rightarrow> int" where
  "SizeAtomic q =
     (if tq_head q \<le> tq_tail q then to_int32 (int (tq_tail q - tq_head q))
      else to_int32 (int (tq_capacity q - (tq_head q - tq_tail q))))"

definition ts_Push :: "'a \<Rightarrow> 'a tsqueue \<Rightarrow> 'a tsqueue option" where
  "ts_Push v q = (if tq_lockless q \<noteq> 0 then PushAtomic v q else Some (q\<lparr>tq_queue := tq_queue q @ [v]\<rparr>))"

definition WaitAndPop :: "'a tsqueue \<Rightarrow> ('a \<times> 'a tsqueue) option" where
  "WaitAndPop q =
     (if tq_lockless q \<noteq> 0 then WaitAndPopAtomic q
      else case tq_queue q of [] \<Rightarrow> None | v # vs \<Rightarrow> Some (v, q\<lparr>tq_queue := vs\<rparr>))"

definition Size :: "'a tsqueue \<Rightarrow> int" where
  "Size q = (if tq_lockless q \<noteq> 0 then SizeAtomic q else to_int32 (int (length (tq_queue q))))"

definition PushLockless :: "'a \<Rightarrow> 'a tsqueue \<Rightarrow> 'a tsqueue option" where
  "PushLockless v q = map_option (\<lambda>sq. q\<lparr>tq_spsc := sq\<rparr>) (emplace v (tq_spsc q))"

definition WaitAndPopLockless :: "'a tsqueue \<Rightarrow> ('a \<times> 'a tsqueue) res option" where
  "WaitAndPopLockless q =
     (case spsc_front (tq_spsc q) of
        Inl err \<Rightarrow> Some (Inl err)
      | Inr None \<Rightarrow> None
      | Inr (Some v) \<Rightarrow> Some (bindR (spsc_pop (tq_spsc q)) (\<lambda>sq. Inr (v, q\<lparr>tq_spsc := sq\<rparr>))))"

definition SizeLockless :: "'a tsqueue \<Rightarrow> int" where
  "SizeLockless q = to_int32 (spsc_size (tq_spsc q))"

section \<open>First in, first out\<close>

datatype 'a qop = QPush 'a | QPop

text \<open>A sequence of operations; \<open>None\<close> if one of them would wait.\<close>

fun run_ops :: "('a \<Rightarrow> 'q \<Rightarrow> 'q option) \<Rightarrow> ('q \<Rightarrow> ('a \<times> 'q) option) \<Rightarrow> 'a qop list \<Rightarrow> 'q \<Rightarrow> ('q \<times> 'a list) option" where
  "run_ops ps pp [] q = Some (q, [])"
| "run_ops ps pp (QPush v # os) q = (case ps v q of None \<Rightarrow> None | Some q' \<Rightarrow> run_ops ps pp os q')"
| "run_ops ps pp (QPop # os) q =
     (case pp q of None \<Rightarrow> None | Some (v, q') \<Rightarrow> map_option (\<lambda>(q'', out). (q'', v # out)) (run_ops ps pp os q'))"

text \<open>A list with an optional bound on its length.\<close>

definition list_push :: "nat option \<Rightarrow> 'a \<Rightarrow> 'a list \<Rightarrow> 'a list option" where
  "list_push bound v xs = (if bound = Some (length xs) then None else Some (xs @ [v]))"

definition list_pop :: "'a list \<Rightarrow> ('a \<times> 'a list) option" where
  "list_pop xs = (case xs of [] \<Rightarrow> None | x # xs' \<Rightarrow> Some (x, xs'))"

lemma list_pop_simps [simp]: "list_pop [] = None" "list_pop (x # xs) = Some (x, xs)"
  by (simp_all add: list_pop_def)

locale fifo_queue =
  fixes inv :: "'q \<Rightarrow> bool" and elems :: "'q \<Rightarrow> 'a list" and bound :: "'q \<Rightarrow> nat option"
    and push :: "'a \<Rightarrow> 'q \<Rightarrow> 'q option" and pop :: "'q \<Rightarrow> ('a \<times> 'q) option"
  assumes push_waits: "inv q \<Longrightarrow> push v q = None \<longleftrightarrow> bound q = Some (length (elems q))"
    and push_adds: "inv q \<Longrightarrow> push v q = Some q' \<Longrightarrow> inv q' \<and> elems q' = elems q @ [v] \<and> bound q' = bound q"
    and pop_waits: "inv q \<Longrightarrow> pop q = None \<longleftrightarrow> elems q = []"
    and pop_takes: "inv q \<Longrightarrow> pop q = Some (v, q') \<Longrightarrow> inv q' \<and> elems q = v # elems q' \<and> bound q' = bound q"
begin

lemma refines:
  "inv q \<Longrightarrow> map_option (\<lambda>(q', out). (elems q', out)) (run_ops push pop ops q) = run_ops (list_push (bound q)) list_pop ops (elems q)"
proof (induction ops arbitrary: q)
  case Nil
  then show ?case by simp
next
  case (Cons a ops)
  show ?case
  proof (cases a)
    case (QPush v)
    then show ?thesis
      using Cons.IH push_waits [OF Cons.prems] push_adds [OF Cons.prems]
      by (cases "push v q") (auto simp: list_push_def)
  next
    case QPop
    show ?thesis
    proof (cases "pop q")
      case None
      then show ?thesis using pop_waits [OF Cons.prems] QPop by simp
    next
      case (Some r)
      obtain v q' where r: "r = (v, q')" by (cases r)
      note t = pop_takes [OF Cons.prems Some [unfolded r]]
      have "run_ops (list_push (bound q)) list_pop ops (elems q') = map_option (\<lambda>(q', out). (elems q', out)) (run_ops push pop ops q')"
        using Cons.IH [of q'] t by simp
      then show ?thesis using t Some QPop by (simp add: r option.map_comp comp_def split_def)
    qed
  qed
qed

end

subsection \<open>ThreadsafeQueue\<close>

definition tq_ok :: "'a tsqueue \<Rightarrow> bool" where
  "tq_ok q \<longleftrightarrow> 2 \<le> tq_capacity q \<and> tq_capacity q = length (tq_buffer q) \<and> tq_head q < tq_capacity q \<and> tq_tail q < tq_capacity q"

abbreviation tq_ring :: "'a tsqueue \<Rightarrow> 'a list" where
  "tq_ring q \<equiv> ring_elems ((!) (tq_buffer q)) (tq_capacity q) (tq_head q) (tq_tail q)"

definition tq_elems :: "'a tsqueue \<Rightarrow> 'a list" where
  "tq_elems q = (if tq_lockless q \<noteq> 0 then tq_ring q else tq_queue q)"

definition tq_bound :: "'a tsqueue \<Rightarrow> nat option" where
  "tq_bound q = (if tq_lockless q \<noteq> 0 then Some (tq_capacity q - 1) else None)"

lemma nth_update_fun: "i < length xs \<Longrightarrow> (!) (xs[i := v]) = ((!) xs)(i := v)"
  by (rule ext) (simp add: nth_list_update)

lemma ring_store:
  assumes "rd < cap" and "wr < cap" and "Suc wr mod cap \<noteq> rd" and "wr < length xs"
  shows "ring_elems ((!) (xs[wr := v])) cap rd (Suc wr mod cap) = ring_elems ((!) xs) cap rd wr @ [v]"
  using ring_push [of rd cap wr "((!) xs)(wr := v)" v] ring_write [of rd cap wr "(!) xs" v] assms
  by (simp add: nth_update_fun)

lemma PushAtomic_elems:
  assumes "tq_ok q" and "PushAtomic v q = Some q'"
  shows "tq_ok q'" and "tq_ring q' = tq_ring q @ [v]" and "tq_lockless q' = tq_lockless q" and "tq_capacity q' = tq_capacity q"
  using assms by (auto simp: PushAtomic_def Let_def tq_ok_def ring_store next_index_less split: if_splits)

lemma WaitAndPopAtomic_elems:
  assumes "tq_ok q" and "WaitAndPopAtomic q = Some (v, q')"
  shows "tq_ok q'" and "tq_ring q = v # tq_ring q'" and "tq_lockless q' = tq_lockless q" and "tq_capacity q' = tq_capacity q"
  using assms by (auto simp: WaitAndPopAtomic_def Let_def tq_ok_def ring_pop next_index_less split: if_splits)

interpretation tq: fifo_queue tq_ok tq_elems tq_bound ts_Push WaitAndPop
proof
  fix q q' :: "'a tsqueue" and v
  assume q: "tq_ok q"
  show "ts_Push v q = None \<longleftrightarrow> tq_bound q = Some (length (tq_elems q))"
    using q ring_full [of "tq_head q" "tq_capacity q" "tq_tail q" "(!) (tq_buffer q)"]
    by (auto simp: ts_Push_def PushAtomic_def Let_def tq_bound_def tq_elems_def tq_ok_def)
  show "ts_Push v q = Some q' \<Longrightarrow> tq_ok q' \<and> tq_elems q' = tq_elems q @ [v] \<and> tq_bound q' = tq_bound q"
    using PushAtomic_elems [OF q, of v q'] q
    by (auto simp: ts_Push_def tq_elems_def tq_bound_def tq_ok_def split: if_splits)
  show "WaitAndPop q = None \<longleftrightarrow> tq_elems q = []"
    using q by (auto simp: WaitAndPop_def WaitAndPopAtomic_def Let_def tq_elems_def tq_ok_def ring_empty split: list.split)
  show "WaitAndPop q = Some (v, q') \<Longrightarrow> tq_ok q' \<and> tq_elems q = v # tq_elems q' \<and> tq_bound q' = tq_bound q"
    using WaitAndPopAtomic_elems [OF q, of v q'] q
    by (auto simp: WaitAndPop_def tq_elems_def tq_bound_def tq_ok_def split: if_splits list.splits)
qed

lemma Size_elems:
  assumes "tq_ok q" and "length (tq_elems q) < 2 ^ 31"
  shows "Size q = int (length (tq_elems q))"
  using assms
  by (auto simp: Size_def SizeAtomic_def tq_elems_def tq_ok_def ring_distance int32_def to_int32_id split: if_splits)

subsection \<open>SPSCQueue\<close>

abbreviation spsc_ring :: "'a spsc \<Rightarrow> 'a option list" where
  "spsc_ring q \<equiv> ring_elems (\<lambda>i. sq_slots q ! (i + sq_padding q)) (sq_capacity q) (sq_tail q) (sq_head q)"

definition spsc_ok :: "'a spsc \<Rightarrow> bool" where
  "spsc_ok q \<longleftrightarrow> 2 \<le> sq_capacity q \<and> sq_capacity q + 2 * sq_padding q = length (sq_slots q) \<and>
     sq_head q < sq_capacity q \<and> sq_tail q < sq_capacity q \<and> None \<notin> set (spsc_ring q)"

definition spsc_elems :: "'a spsc \<Rightarrow> 'a list" where
  "spsc_elems q = map the (spsc_ring q)"

definition spsc_bound :: "'a spsc \<Rightarrow> nat option" where
  "spsc_bound q = Some (sq_capacity q - 1)"

text \<open>Taking an element, as \<^verbatim>\<open>WaitAndPopLockless\<close> does; \<open>None\<close> if there is none.\<close>

definition spsc_take :: "'a spsc \<Rightarrow> ('a \<times> 'a spsc) option" where
  "spsc_take q =
     (case spsc_front q of
        Inr (Some v) \<Rightarrow> (case spsc_pop q of Inr q' \<Rightarrow> Some (v, q') | Inl _ \<Rightarrow> None)
      | _ \<Rightarrow> None)"

lemma spsc_next_mod: "spsc_ok q \<Longrightarrow> i < sq_capacity q \<Longrightarrow> spsc_next q i = Suc i mod sq_capacity q"
  by (simp add: spsc_next_def next_index)

lemma emplace_elems:
  assumes q: "spsc_ok q" and "emplace v q = Some q'"
  shows "spsc_ok q'" and "spsc_elems q' = spsc_elems q @ [v]" and "sq_capacity q' = sq_capacity q"
proof -
  let ?b = "\<lambda>i. sq_slots q ! (i + sq_padding q)"
  have lt: "sq_head q < sq_capacity q" "sq_tail q < sq_capacity q" using q by (auto simp: spsc_ok_def)
  have ne: "Suc (sq_head q) mod sq_capacity q \<noteq> sq_tail q" and
    q': "q' = q\<lparr>sq_slots := (sq_slots q)[sq_head q + sq_padding q := Some v], sq_head := Suc (sq_head q) mod sq_capacity q\<rparr>"
    using assms(2) lt by (auto simp: emplace_def Let_def spsc_next_mod [OF q] split: if_splits)
  have "(\<lambda>i. sq_slots q' ! (i + sq_padding q')) = ?b(sq_head q := Some v)"
    using q by (auto simp: q' spsc_ok_def nth_list_update fun_eq_iff)
  then have "spsc_ring q' = spsc_ring q @ [Some v]"
    using ring_push [of "sq_tail q" "sq_capacity q" "sq_head q" "?b(sq_head q := Some v)" "Some v"] lt ne
      ring_write [of "sq_tail q" "sq_capacity q" "sq_head q" ?b "Some v"]
    by (simp add: q')
  then show "spsc_ok q'" "spsc_elems q' = spsc_elems q @ [v]" "sq_capacity q' = sq_capacity q"
    using q by (auto simp: spsc_ok_def spsc_elems_def q')
qed

lemma spsc_take_elems:
  assumes q: "spsc_ok q" and ne: "sq_head q \<noteq> sq_tail q"
  obtains v q' where "spsc_front q = Inr (Some v)" "spsc_pop q = Inr q'" "spsc_ok q'" "spsc_elems q = v # spsc_elems q'"
    "sq_capacity q' = sq_capacity q"
proof -
  let ?b = "\<lambda>i. sq_slots q ! (i + sq_padding q)" and ?t = "Suc (sq_tail q) mod sq_capacity q"
  have lt: "sq_head q < sq_capacity q" "sq_tail q < sq_capacity q" using q by (auto simp: spsc_ok_def)
  have ring: "spsc_ring q = ?b (sq_tail q) # ring_elems ?b (sq_capacity q) ?t (sq_head q)"
    using ring_pop [of "sq_tail q" "sq_capacity q" "sq_head q" ?b] lt ne by simp
  then have "?b (sq_tail q) \<noteq> None" using q by (metis list.set_intros(1) spsc_ok_def)
  then obtain v where v: "?b (sq_tail q) = Some v" by blast
  define q' where "q' = q\<lparr>sq_slots := (sq_slots q)[sq_tail q + sq_padding q := None], sq_tail := ?t\<rparr>"
  have pop: "spsc_pop q = Inr q'" using ne lt by (simp add: spsc_pop_def q'_def spsc_next_mod [OF q])
  have slots: "(\<lambda>i. sq_slots q' ! (i + sq_padding q')) = ?b(sq_tail q := None)"
    using q by (auto simp: q'_def spsc_ok_def nth_list_update fun_eq_iff)
  have "spsc_ring q' = ring_elems ?b (sq_capacity q) ?t (sq_head q)"
  proof -
    have "(?t + i) mod sq_capacity q \<noteq> sq_tail q" if "i < (sq_head q + sq_capacity q - ?t) mod sq_capacity q" for i
      using ring_popped [OF lt(2,1) ne [symmetric] that] .
    then show ?thesis by (simp add: ring_elems_def slots) (simp add: q'_def)
  qed
  then show ?thesis
    using that [OF _ pop] ring v ne q lt by (auto simp: spsc_front_def spsc_ok_def spsc_elems_def q'_def)
qed

interpretation sq: fifo_queue spsc_ok spsc_elems spsc_bound emplace spsc_take
proof
  fix q q' :: "'a spsc" and v
  assume q: "spsc_ok q"
  then have lt: "sq_head q < sq_capacity q" "sq_tail q < sq_capacity q" by (auto simp: spsc_ok_def)
  show "emplace v q = None \<longleftrightarrow> spsc_bound q = Some (length (spsc_elems q))"
    using lt ring_full [of "sq_tail q" "sq_capacity q" "sq_head q" "\<lambda>i. sq_slots q ! (i + sq_padding q)"]
    by (auto simp: emplace_def Let_def spsc_next_mod [OF q] spsc_bound_def spsc_elems_def)
  show "emplace v q = Some q' \<Longrightarrow> spsc_ok q' \<and> spsc_elems q' = spsc_elems q @ [v] \<and> spsc_bound q' = spsc_bound q"
    using emplace_elems [OF q, of v q'] by (simp add: spsc_bound_def)
  have empty: "spsc_elems q = [] \<longleftrightarrow> sq_head q = sq_tail q"
    using lt by (auto simp: spsc_elems_def ring_empty)
  show "spsc_take q = None \<longleftrightarrow> spsc_elems q = []"
  proof (cases "sq_head q = sq_tail q")
    case True
    then show ?thesis unfolding empty by (simp add: spsc_take_def spsc_front_def)
  next
    case False
    from spsc_take_elems [OF q this] obtain v q' where "spsc_front q = Inr (Some v)" "spsc_pop q = Inr q'" by blast
    with False show ?thesis unfolding empty by (simp add: spsc_take_def)
  qed
  show "spsc_ok q' \<and> spsc_elems q = v # spsc_elems q' \<and> spsc_bound q' = spsc_bound q" if take: "spsc_take q = Some (v, q')"
  proof -
    have "sq_head q \<noteq> sq_tail q" using take by (auto simp: spsc_take_def spsc_front_def)
    from spsc_take_elems [OF q this] obtain x p where "spsc_front q = Inr (Some x)" "spsc_pop q = Inr p" "spsc_ok p"
      "spsc_elems q = x # spsc_elems p" "sq_capacity p = sq_capacity q" by blast
    with take show ?thesis by (simp add: spsc_take_def spsc_bound_def)
  qed
qed

lemma new_spsc_ok: "2 \<le> cap \<Longrightarrow> \<exists>q. SPSCQueue_new padding cap = Inr q \<and> spsc_ok q \<and> spsc_elems q = [] \<and> spsc_bound q = Some (cap - 1)"
  by (auto simp: SPSCQueue_new_def spsc_ok_def spsc_elems_def spsc_bound_def ring_elems_def)

text \<open>
  C9: a queue that is used one call at a time behaves as a list.  In the ring buffer mode the
  list holds at most 32767 elements and a call of \<^verbatim>\<open>Push\<close> waits exactly if it is full; in the mutex
  mode it is unbounded.  \<^verbatim>\<open>WaitAndPop\<close> waits exactly if the queue is empty and otherwise returns the
  elements in the order of their insertion.  The same holds of \<^verbatim>\<open>SPSCQueue\<close>, which takes one element
  less than its capacity.
\<close>

theorem queue_refines_list:
  "(\<exists>q :: 'a tsqueue. ThreadsafeQueue_new e padding d = Inr q \<and>
      (\<forall>ops. map_option (\<lambda>(q', out). (tq_elems q', out)) (run_ops ts_Push WaitAndPop ops q) =
         run_ops (list_push (if fst (env_find_int e ''STEPAF_BUSY_POLL_ENABLE'' 1) \<noteq> 0 then Some 32767 else None)) list_pop ops [])) \<and>
   (if cap < 2 then SPSCQueue_new padding cap = (Inl (OutOfRange ''size < 2'') :: 'a spsc res)
    else \<exists>q :: 'a spsc. SPSCQueue_new padding cap = Inr q \<and>
      (\<forall>ops. map_option (\<lambda>(q', out). (spsc_elems q', out)) (run_ops emplace spsc_take ops q) =
         run_ops (list_push (Some (cap - 1))) list_pop ops []))"
proof (intro conjI)
  obtain sq :: "'a spsc" where sq: "SPSCQueue_new padding 32768 = Inr sq" using new_spsc_ok [of 32768 padding] by auto
  let ?q = "\<lparr>tq_lockless = fst (env_find_int e ''STEPAF_BUSY_POLL_ENABLE'' 1), tq_queue = [], tq_spsc = sq,
            tq_buffer = replicate 32768 d, tq_head = 0, tq_tail = 0, tq_capacity = 32768\<rparr>"
  have "tq_ok ?q" by (simp add: tq_ok_def)
  from tq.refines [OF this] show "\<exists>q :: 'a tsqueue. ThreadsafeQueue_new e padding d = Inr q \<and>
      (\<forall>ops. map_option (\<lambda>(q', out). (tq_elems q', out)) (run_ops ts_Push WaitAndPop ops q) =
         run_ops (list_push (if fst (env_find_int e ''STEPAF_BUSY_POLL_ENABLE'' 1) \<noteq> 0 then Some 32767 else None)) list_pop ops [])"
    by (intro exI [of _ ?q]) (simp add: ThreadsafeQueue_new_def sq tq_bound_def tq_elems_def ring_elems_def)
next
  show "if cap < 2 then SPSCQueue_new padding cap = (Inl (OutOfRange ''size < 2'') :: 'a spsc res)
    else \<exists>q :: 'a spsc. SPSCQueue_new padding cap = Inr q \<and>
      (\<forall>ops. map_option (\<lambda>(q', out). (spsc_elems q', out)) (run_ops emplace spsc_take ops q) =
         run_ops (list_push (Some (cap - 1))) list_pop ops [])"
    using sq.refines new_spsc_ok [of cap padding, where ?'a = 'a] by (force simp: SPSCQueue_new_def)
qed

text \<open>The slots that hold an object are exactly those of the ring.\<close>

definition spsc_clean :: "'a spsc \<Rightarrow> bool" where
  "spsc_clean q \<longleftrightarrow> (\<forall>i < length (sq_slots q).
     sq_slots q ! i \<noteq> None \<longleftrightarrow> i \<in> (\<lambda>p. p + sq_padding q) ` set (ring_elems (\<lambda>i. i) (sq_capacity q) (sq_tail q) (sq_head q)))"

lemma emplace_clean:
  assumes "spsc_ok q" and "spsc_clean q" and "emplace v q = Some q'"
  shows "spsc_clean q'"
proof -
  have lt: "sq_head q < sq_capacity q" "sq_tail q < sq_capacity q" using assms(1) by (auto simp: spsc_ok_def)
  have ne: "Suc (sq_head q) mod sq_capacity q \<noteq> sq_tail q" and
    q': "q' = q\<lparr>sq_slots := (sq_slots q)[sq_head q + sq_padding q := Some v], sq_head := Suc (sq_head q) mod sq_capacity q\<rparr>"
    using assms(3) lt by (auto simp: emplace_def Let_def spsc_next_mod [OF assms(1)] split: if_splits)
  have len: "sq_head q + sq_padding q < length (sq_slots q)" using assms(1) lt by (simp add: spsc_ok_def)
  have ring: "ring_elems (\<lambda>i. i) (sq_capacity q) (sq_tail q) (Suc (sq_head q) mod sq_capacity q) =
      ring_elems (\<lambda>i. i) (sq_capacity q) (sq_tail q) (sq_head q) @ [sq_head q]"
    using ring_push [of "sq_tail q" "sq_capacity q" "sq_head q" "\<lambda>i. i"] lt ne by simp
  show ?thesis
    using assms(2) len by (auto simp: spsc_clean_def q' nth_list_update ring)
qed

lemma spsc_pop_clean:
  assumes "spsc_ok q" and "spsc_clean q" and "spsc_pop q = Inr q'"
  shows "spsc_clean q'"
proof -
  let ?t = "Suc (sq_tail q) mod sq_capacity q"
  have lt: "sq_head q < sq_capacity q" "sq_tail q < sq_capacity q" using assms(1) by (auto simp: spsc_ok_def)
  have ne: "sq_tail q \<noteq> sq_head q" and q': "q' = q\<lparr>sq_slots := (sq_slots q)[sq_tail q + sq_padding q := None], sq_tail := ?t\<rparr>"
    using assms(3) lt by (auto simp: spsc_pop_def PS_CHECK_def spsc_next_mod [OF assms(1)] split: if_splits)
  have "sq_tail q \<notin> set (ring_elems (\<lambda>i. i) (sq_capacity q) ?t (sq_head q))"
    using ring_popped [OF lt(2,1) ne] by (fastforce simp: ring_elems_def)
  moreover have ring: "ring_elems (\<lambda>i. i) (sq_capacity q) (sq_tail q) (sq_head q) =
      sq_tail q # ring_elems (\<lambda>i. i) (sq_capacity q) ?t (sq_head q)"
    using ring_pop [of "sq_tail q" "sq_capacity q" "sq_head q" "\<lambda>i. i"] lt ne by simp
  moreover have "sq_tail q + sq_padding q < length (sq_slots q)" using assms(1) lt by (simp add: spsc_ok_def)
  ultimately show ?thesis
    using assms(2) by (auto simp: spsc_clean_def q' nth_list_update)
qed

lemma spsc_run_clean:
  "spsc_ok q \<Longrightarrow> spsc_clean q \<Longrightarrow> run_ops emplace spsc_take ops q = Some (q', out) \<Longrightarrow> spsc_ok q' \<and> spsc_clean q'"
proof (induction ops arbitrary: q out)
  case (Cons a ops)
  show ?case
  proof (cases a)
    case (QPush v)
    then obtain p where p: "emplace v q = Some p" "run_ops emplace spsc_take ops p = Some (q', out)"
      using Cons.prems(3) by (auto split: option.splits)
    show ?thesis by (rule Cons.IH [OF emplace_elems(1) [OF Cons.prems(1) p(1)] emplace_clean [OF Cons.prems(1,2) p(1)] p(2)])
  next
    case QPop
    then obtain v p out' where p: "spsc_take q = Some (v, p)" "run_ops emplace spsc_take ops p = Some (q', out')"
      using Cons.prems(3) by (auto split: option.splits)
    then have "spsc_pop q = Inr p" by (auto simp: spsc_take_def split: sum.splits option.splits)
    moreover have "spsc_ok p" using sq.pop_takes [OF Cons.prems(1) p(1)] by simp
    ultimately show ?thesis using Cons.IH [OF _ spsc_pop_clean [OF Cons.prems(1,2)] p(2)] by simp
  qed
qed simp

lemma spsc_drain_run:
  "spsc_ok q \<Longrightarrow> spsc_clean q \<Longrightarrow> \<exists>q'. spsc_drain q = Some (Inr q') \<and> spsc_clean q' \<and> sq_head q' = sq_tail q'"
proof (induction "length (spsc_elems q)" arbitrary: q)
  case 0
  then have "sq_head q = sq_tail q" by (simp add: spsc_elems_def spsc_ok_def ring_distance split: if_splits)
  then have "spsc_drain q = Some (Inr q)" by (subst spsc_drain.simps) (simp add: spsc_front_def)
  with 0 \<open>sq_head q = sq_tail q\<close> show ?case by auto
next
  case (Suc n)
  then have "sq_head q \<noteq> sq_tail q" by (auto simp: spsc_elems_def spsc_ok_def)
  from spsc_take_elems [OF Suc.prems(1) this] obtain v q' where
    q': "spsc_front q = Inr (Some v)" "spsc_pop q = Inr q'" "spsc_ok q'" "spsc_elems q = v # spsc_elems q'" .
  have "spsc_drain q = spsc_drain q'" by (subst spsc_drain.simps) (simp add: q')
  with Suc.hyps(1) [of q'] Suc.hyps(2) q' spsc_pop_clean [OF Suc.prems q'(2)] show ?case by auto
qed

text \<open>
  C39: the destructor of \<^verbatim>\<open>SPSCQueue\<close> terminates.  After any sequence of operations on a new queue its
  loop ends, and then no slot of the raw memory holds an object that was not destroyed.
\<close>

theorem spsc_destructor_ends:
  assumes "SPSCQueue_new padding cap = Inr q0" and "run_ops emplace spsc_take ops q0 = Some (q, out)"
  shows "\<exists>q'. spsc_drain q = Some (Inr q') \<and> (\<forall>slot\<in>set (sq_slots q'). slot = None)"
proof -
  have "spsc_ok q0 \<and> spsc_clean q0"
    using assms(1) by (auto simp: SPSCQueue_new_def spsc_ok_def spsc_clean_def ring_elems_def split: if_splits)
  then have "spsc_ok q" "spsc_clean q" using spsc_run_clean assms(2) by blast+
  from spsc_drain_run [OF this] obtain q' where "spsc_drain q = Some (Inr q')" "spsc_clean q'" "sq_head q' = sq_tail q'" by blast
  then show ?thesis by (auto simp: spsc_clean_def ring_elems_def in_set_conv_nth)
qed

theorem spsc_destructor_ends_witness:
  "\<exists>q0 q :: nat spsc. SPSCQueue_new 1 3 = Inr q0 \<and> run_ops emplace spsc_take [QPush 4, QPush 5, QPop] q0 = Some (q, [4]) \<and>
     sq_slots q \<noteq> replicate 5 None \<and> (\<exists>q'. spsc_drain q = Some (Inr q') \<and> (\<forall>slot\<in>set (sq_slots q'). slot = None))"
proof -
  let ?new = "\<lparr>sq_capacity = 3, sq_padding = 1, sq_slots = replicate 5 None, sq_head = 0, sq_tail = 0\<rparr> :: nat spsc"
  let ?q = "\<lparr>sq_capacity = 3, sq_padding = 1, sq_slots = [None, None, Some 5, None, None], sq_head = 2, sq_tail = 1\<rparr> :: nat spsc"
  have "SPSCQueue_new 1 3 = Inr ?new" "run_ops emplace spsc_take [QPush 4, QPush 5, QPop] ?new = Some (?q, [4])" "sq_slots ?q \<noteq> replicate 5 None"
    by code_simp+
  with spsc_destructor_ends [OF this(1,2)] show ?thesis by - (rule exI [of _ ?new], rule exI [of _ ?q], intro conjI)
qed

section \<open>The ring under interleaving\<close>

text \<open>
  The single loads and stores of \<^verbatim>\<open>PushAtomic\<close> and \<^verbatim>\<open>WaitAndPopAtomic\<close>, by any number of threads
  \<open>i\<close>.  Each step is one access to shared memory; the release stores and acquire loads order them,
  so the steps of the threads interleave.  \<open>qs_pushed\<close> and \<open>qs_popped\<close> log the values of the calls
  of \<^verbatim>\<open>Push\<close> in the order they begin and of \<^verbatim>\<open>WaitAndPop\<close> in the order they return.
\<close>

datatype 'a producer = P_idle | P_spin 'a nat | P_write 'a nat | P_publish nat

datatype 'a consumer = C_idle | C_spin nat nat | C_read nat | C_publish nat 'a

record 'a qsys =
  qs_queue :: "'a tsqueue"
  qs_prod :: "nat \<Rightarrow> 'a producer"
  qs_cons :: "nat \<Rightarrow> 'a consumer"
  qs_pushed :: "'a list"
  qs_popped :: "'a list"

definition max_count :: nat where
  "max_count = 5000"

abbreviation next_slot :: "'a tsqueue \<Rightarrow> nat \<Rightarrow> nat" where
  "next_slot q i \<equiv> (i + 1) mod tq_capacity q"

inductive producer_step :: "nat \<Rightarrow> 'a qsys \<Rightarrow> 'a qsys \<Rightarrow> bool" where
  load_tail: "qs_prod s i = P_idle \<Longrightarrow>
    producer_step i s (s\<lparr>qs_prod := (qs_prod s)(i := P_spin v (tq_tail (qs_queue s))), qs_pushed := qs_pushed s @ [v]\<rparr>)"
| full: "qs_prod s i = P_spin v t \<Longrightarrow> next_slot (qs_queue s) t = tq_head (qs_queue s) \<Longrightarrow> producer_step i s s"
| not_full: "qs_prod s i = P_spin v t \<Longrightarrow> next_slot (qs_queue s) t \<noteq> tq_head (qs_queue s) \<Longrightarrow>
    producer_step i s (s\<lparr>qs_prod := (qs_prod s)(i := P_write v t)\<rparr>)"
| store_value: "qs_prod s i = P_write v t \<Longrightarrow>
    producer_step i s (s\<lparr>qs_prod := (qs_prod s)(i := P_publish t),
      qs_queue := (qs_queue s)\<lparr>tq_buffer := (tq_buffer (qs_queue s))[t := v]\<rparr>\<rparr>)"
| store_tail: "qs_prod s i = P_publish t \<Longrightarrow>
    producer_step i s (s\<lparr>qs_prod := (qs_prod s)(i := P_idle),
      qs_queue := (qs_queue s)\<lparr>tq_tail := next_slot (qs_queue s) t\<rparr>\<rparr>)"

inductive consumer_step :: "nat \<Rightarrow> 'a qsys \<Rightarrow> 'a qsys \<Rightarrow> bool" where
  load_head: "qs_cons s i = C_idle \<Longrightarrow>
    consumer_step i s (s\<lparr>qs_cons := (qs_cons s)(i := C_spin (tq_head (qs_queue s)) 0)\<rparr>)"
| empty: "qs_cons s i = C_spin h n \<Longrightarrow> h = tq_tail (qs_queue s) \<Longrightarrow> n + 1 \<le> max_count \<Longrightarrow>
    consumer_step i s (s\<lparr>qs_cons := (qs_cons s)(i := C_spin h (n + 1))\<rparr>)"
| reload: "qs_cons s i = C_spin h n \<Longrightarrow> h = tq_tail (qs_queue s) \<Longrightarrow> n + 1 > max_count \<Longrightarrow>
    consumer_step i s (s\<lparr>qs_cons := (qs_cons s)(i := C_spin (tq_head (qs_queue s)) 0)\<rparr>)"
| not_empty: "qs_cons s i = C_spin h n \<Longrightarrow> h \<noteq> tq_tail (qs_queue s) \<Longrightarrow>
    consumer_step i s (s\<lparr>qs_cons := (qs_cons s)(i := C_read h)\<rparr>)"
| load_value: "qs_cons s i = C_read h \<Longrightarrow>
    consumer_step i s (s\<lparr>qs_cons := (qs_cons s)(i := C_publish h (tq_buffer (qs_queue s) ! h))\<rparr>)"
| store_head: "qs_cons s i = C_publish h v \<Longrightarrow>
    consumer_step i s (s\<lparr>qs_cons := (qs_cons s)(i := C_idle), qs_popped := qs_popped s @ [v],
      qs_queue := (qs_queue s)\<lparr>tq_head := next_slot (qs_queue s) h\<rparr>\<rparr>)"

text \<open>The states that the producers \<open>P\<close> and the consumers \<open>C\<close> reach from a new queue.\<close>

definition qs_start :: "'a tsqueue \<Rightarrow> 'a qsys" where
  "qs_start q = \<lparr>qs_queue = q, qs_prod = (\<lambda>_. P_idle), qs_cons = (\<lambda>_. C_idle), qs_pushed = [], qs_popped = []\<rparr>"

inductive reached :: "nat set \<Rightarrow> nat set \<Rightarrow> 'a tsqueue \<Rightarrow> 'a qsys \<Rightarrow> bool" for P C q where
  start: "reached P C q (qs_start q)"
| produce: "reached P C q s \<Longrightarrow> i \<in> P \<Longrightarrow> producer_step i s s' \<Longrightarrow> reached P C q s'"
| consume: "reached P C q s \<Longrightarrow> i \<in> C \<Longrightarrow> consumer_step i s s' \<Longrightarrow> reached P C q s'"

inductive_simps producer_step_iff: "producer_step i s s'"
inductive_simps consumer_step_iff: "consumer_step i s s'"

subsection \<open>One producer and one consumer\<close>

text \<open>Values whose \<^verbatim>\<open>Push\<close> has begun but is not yet visible; and whose \<^verbatim>\<open>WaitAndPop\<close> has read it.\<close>

fun in_flight :: "'a producer \<Rightarrow> 'a tsqueue \<Rightarrow> 'a list" where
  "in_flight P_idle q = []"
| "in_flight (P_spin v t) q = [v]"
| "in_flight (P_write v t) q = [v]"
| "in_flight (P_publish t) q = [tq_buffer q ! t]"

text \<open>What a thread in the middle of a call knows of the queue, if no other thread does the same.\<close>

fun producer_ok :: "'a producer \<Rightarrow> 'a tsqueue \<Rightarrow> bool" where
  "producer_ok P_idle q = True"
| "producer_ok (P_spin v t) q = (t = tq_tail q)"
| "producer_ok (P_write v t) q = (t = tq_tail q \<and> next_slot q t \<noteq> tq_head q)"
| "producer_ok (P_publish t) q = (t = tq_tail q \<and> next_slot q t \<noteq> tq_head q)"

fun consumer_ok :: "'a consumer \<Rightarrow> 'a tsqueue \<Rightarrow> bool" where
  "consumer_ok C_idle q = True"
| "consumer_ok (C_spin h n) q = (h = tq_head q)"
| "consumer_ok (C_read h) q = (h = tq_head q \<and> h \<noteq> tq_tail q)"
| "consumer_ok (C_publish h v) q = (h = tq_head q \<and> h \<noteq> tq_tail q \<and> v = tq_buffer q ! h)"

definition spsc_inv :: "nat \<Rightarrow> nat \<Rightarrow> 'a qsys \<Rightarrow> bool" where
  "spsc_inv i j s \<longleftrightarrow> tq_ok (qs_queue s) \<and> producer_ok (qs_prod s i) (qs_queue s) \<and> consumer_ok (qs_cons s j) (qs_queue s) \<and>
     qs_pushed s = qs_popped s @ tq_ring (qs_queue s) @ in_flight (qs_prod s i) (qs_queue s)"

lemma next_index_inj: "x < cap \<Longrightarrow> y < cap \<Longrightarrow> Suc x mod cap = Suc y mod cap \<longleftrightarrow> x = y"
  by (auto simp: next_index)

lemma producer_keeps:
  assumes inv: "spsc_inv i j s" and step: "producer_step i s s'"
  shows "spsc_inv i j s'"
  using step
proof cases
  case (store_value v t)
  have q: "tq_ok (qs_queue s)" "t = tq_tail (qs_queue s)" using inv store_value by (auto simp: spsc_inv_def)
  then have "tq_ring (qs_queue s') = tq_ring (qs_queue s)"
    using ring_write [of "tq_head (qs_queue s)" "tq_capacity (qs_queue s)" t "(!) (tq_buffer (qs_queue s))" v]
    by (simp add: store_value tq_ok_def nth_update_fun)
  moreover have "consumer_ok (qs_cons s j) (qs_queue s')"
    using inv q by (cases "qs_cons s j") (auto simp: spsc_inv_def store_value)
  ultimately show ?thesis using inv q by (auto simp: spsc_inv_def store_value tq_ok_def)
next
  case (store_tail t)
  have q: "tq_ok (qs_queue s)" "t = tq_tail (qs_queue s)" "next_slot (qs_queue s) t \<noteq> tq_head (qs_queue s)"
    using inv store_tail by (auto simp: spsc_inv_def)
  then have "tq_ring (qs_queue s') = tq_ring (qs_queue s) @ [tq_buffer (qs_queue s) ! t]"
    using ring_push [of "tq_head (qs_queue s)" "tq_capacity (qs_queue s)" t "(!) (tq_buffer (qs_queue s))"]
    by (simp add: store_tail tq_ok_def)
  moreover have "consumer_ok (qs_cons s j) (qs_queue s')"
    using inv q by (cases "qs_cons s j") (auto simp: spsc_inv_def store_tail)
  ultimately show ?thesis using inv q by (auto simp: spsc_inv_def store_tail tq_ok_def next_index_less)
qed (use inv in \<open>auto simp: spsc_inv_def\<close>)

lemma consumer_keeps:
  assumes inv: "spsc_inv i j s" and step: "consumer_step j s s'"
  shows "spsc_inv i j s'"
  using step
proof cases
  case (store_head h v)
  have q: "tq_ok (qs_queue s)" "h = tq_head (qs_queue s)" "h \<noteq> tq_tail (qs_queue s)" "v = tq_buffer (qs_queue s) ! h"
    using inv store_head by (auto simp: spsc_inv_def)
  then have "tq_ring (qs_queue s) = v # tq_ring (qs_queue s')"
    using ring_pop [of h "tq_capacity (qs_queue s)" "tq_tail (qs_queue s)" "(!) (tq_buffer (qs_queue s))"]
    by (simp add: store_head tq_ok_def)
  moreover have "producer_ok (qs_prod s i) (qs_queue s')" "in_flight (qs_prod s i) (qs_queue s') = in_flight (qs_prod s i) (qs_queue s)"
    using inv q by (cases "qs_prod s i"; auto simp: spsc_inv_def store_head tq_ok_def next_index_inj)+
  ultimately show ?thesis using inv q by (auto simp: spsc_inv_def store_head tq_ok_def next_index_less)
qed (use inv in \<open>auto simp: spsc_inv_def\<close>)

lemma reached_spsc_inv:
  assumes "reached {i} {j} q s" and "tq_ok q" and "tq_head q = tq_tail q"
  shows "spsc_inv i j s"
  using assms(1)
proof induction
  case start
  then show ?case using assms(2,3) by (auto simp: spsc_inv_def qs_start_def ring_elems_def tq_ok_def)
next
  case (produce s k s')
  then show ?case using producer_keeps [of i j s s'] by simp
next
  case (consume s k s')
  then show ?case using consumer_keeps [of i j s s'] by simp
qed

text \<open>
  C7: with one producer and one consumer the ring loses, duplicates and reorders nothing, under
  every interleaving.  The values returned so far are a prefix of the values pushed so far, and the
  rest is in the ring, in order, with at most one value whose \<^verbatim>\<open>Push\<close> is still running.  A waiting
  producer finds the ring full exactly if it holds one element less than its capacity, and a waiting
  consumer finds it empty exactly if it is.
\<close>

theorem ring_single_producer_fifo:
  assumes "reached {i} {j} q s" and "tq_ok q" and "tq_head q = tq_tail q"
  shows "qs_pushed s = qs_popped s @ tq_ring (qs_queue s) @ in_flight (qs_prod s i) (qs_queue s) \<and>
    length (tq_ring (qs_queue s)) < tq_capacity (qs_queue s) \<and>
    (\<forall>v t. qs_prod s i = P_spin v t \<longrightarrow>
       (next_slot (qs_queue s) t = tq_head (qs_queue s) \<longleftrightarrow> length (tq_ring (qs_queue s)) = tq_capacity (qs_queue s) - 1)) \<and>
    (\<forall>h n. qs_cons s j = C_spin h n \<longrightarrow> (h = tq_tail (qs_queue s) \<longleftrightarrow> tq_ring (qs_queue s) = []))"
proof -
  note inv = reached_spsc_inv [OF assms]
  then have q: "tq_ok (qs_queue s)" by (simp add: spsc_inv_def)
  have lt: "tq_head (qs_queue s) < tq_capacity (qs_queue s)" "tq_tail (qs_queue s) < tq_capacity (qs_queue s)"
    using q by (simp_all add: tq_ok_def)
  note full = ring_full [OF lt, of "(!) (tq_buffer (qs_queue s))"] and empty = ring_empty [OF lt, of "(!) (tq_buffer (qs_queue s))"]
  have less: "length (tq_ring (qs_queue s)) < tq_capacity (qs_queue s)" using lt by simp
  have "qs_prod s i = P_spin v t \<Longrightarrow> t = tq_tail (qs_queue s)" "qs_cons s j = C_spin h n \<Longrightarrow> h = tq_head (qs_queue s)" for v t h n
    using inv by (simp_all add: spsc_inv_def)
  then show ?thesis using inv full empty less unfolding spsc_inv_def by metis
qed

definition example_tq :: "nat tsqueue" where
  "example_tq = \<lparr>tq_lockless = 1, tq_queue = [],
     tq_spsc = \<lparr>sq_capacity = 2, sq_padding = 1, sq_slots = replicate 4 None, sq_head = 0, sq_tail = 0\<rparr>,
     tq_buffer = [0, 0, 0], tq_head = 0, tq_tail = 0, tq_capacity = 3\<rparr>"

lemma example_tq_ok: "tq_ok example_tq" "tq_head example_tq = tq_tail example_tq"
  by (simp_all add: example_tq_def tq_ok_def)

lemma reached_load:
  assumes "reached P C q s" and "i \<in> P" and "qs_prod s i = P_idle"
  shows "reached P C q (s\<lparr>qs_prod := (qs_prod s)(i := P_spin v (tq_tail (qs_queue s))), qs_pushed := qs_pushed s @ [v]\<rparr>)"
  by (rule reached.produce [OF assms(1,2) producer_step.load_tail [OF assms(3)]])

lemma reached_not_full:
  assumes "reached P C q s" and "i \<in> P" and "qs_prod s i = P_spin v t" and "next_slot (qs_queue s) t \<noteq> tq_head (qs_queue s)"
  shows "reached P C q (s\<lparr>qs_prod := (qs_prod s)(i := P_write v t)\<rparr>)"
  by (rule reached.produce [OF assms(1,2) producer_step.not_full [OF assms(3,4)]])

lemma reached_store:
  assumes "reached P C q s" and "i \<in> P" and "qs_prod s i = P_write v t"
  shows "reached P C q (s\<lparr>qs_prod := (qs_prod s)(i := P_publish t),
      qs_queue := (qs_queue s)\<lparr>tq_buffer := (tq_buffer (qs_queue s))[t := v]\<rparr>\<rparr>)"
  by (rule reached.produce [OF assms(1,2) producer_step.store_value [OF assms(3)]])

lemma reached_publish:
  assumes "reached P C q s" and "i \<in> P" and "qs_prod s i = P_publish t"
  shows "reached P C q (s\<lparr>qs_prod := (qs_prod s)(i := P_idle),
      qs_queue := (qs_queue s)\<lparr>tq_tail := next_slot (qs_queue s) t\<rparr>\<rparr>)"
  by (rule reached.produce [OF assms(1,2) producer_step.store_tail [OF assms(3)]])

theorem ring_single_producer_fifo_witness:
  "\<exists>s. reached {0} {0} example_tq s \<and> qs_prod s 0 = P_spin 7 0 \<and> qs_pushed s = [7] \<and> qs_popped s @ tq_ring (qs_queue s) = []"
proof -
  have "reached {0} {0} example_tq (qs_start example_tq)" by (rule reached.start)
  from reached_load [OF this, of 0 7] have r: "reached {0} {0} example_tq
      ((qs_start example_tq)\<lparr>qs_prod := (qs_prod (qs_start example_tq))(0 := P_spin 7 (tq_tail (qs_queue (qs_start example_tq)))),
        qs_pushed := qs_pushed (qs_start example_tq) @ [7]\<rparr>)" (is "reached _ _ _ ?s")
    by (simp add: qs_start_def)
  have s: "qs_prod ?s 0 = P_spin 7 0" "qs_pushed ?s = [7]" by (simp_all add: qs_start_def example_tq_def)
  have "qs_popped ?s @ tq_ring (qs_queue ?s) = []"
    using ring_single_producer_fifo [OF r example_tq_ok] s by simp
  with r s show ?thesis by blast
qed

subsection \<open>Two producers\<close>

text \<open>
  with two producers the ring loses values.  On every empty ring two threads that push \<open>a\<close>
  and \<open>b\<close> at the same time can both return from \<^verbatim>\<open>Push\<close> while the ring holds \<open>b\<close> only: both load the
  same tail, both store into the slot there and both publish the same next tail.
\<close>

theorem ring_two_producers_lose:
  assumes "tq_ok q" and "tq_head q = tq_tail q" and "i \<noteq> k"
  shows "\<exists>s. reached {i, k} {} q s \<and> (\<forall>p. qs_prod s p = P_idle) \<and> qs_pushed s = [a, b] \<and> qs_popped s = [] \<and>
    tq_ring (qs_queue s) = [b]"
proof -
  define t where "t = tq_tail q"
  define n where "n = Suc t mod tq_capacity q"
  have t: "t < tq_capacity q" "t < length (tq_buffer q)" "n \<noteq> t" "n < tq_capacity q"
    using assms(1) by (auto simp: tq_ok_def t_def n_def next_index next_index_less)
  let ?S = "\<lambda>buf tl pi pk. \<lparr>qs_queue = q\<lparr>tq_buffer := buf, tq_tail := tl\<rparr>, qs_prod = (\<lambda>_. P_idle)(i := pi, k := pk),
    qs_cons = (\<lambda>_. C_idle), qs_pushed = [a, b], qs_popped = []\<rparr>"
  have swap: "q\<lparr>tq_tail := tl, tq_buffer := buf\<rparr> = q\<lparr>tq_buffer := buf, tq_tail := tl\<rparr>" for tl buf by (cases q) simp
  have nf: "next_slot (q\<lparr>tq_buffer := buf, tq_tail := tl\<rparr>) t \<noteq> tq_head (q\<lparr>tq_buffer := buf, tq_tail := tl\<rparr>)" for buf tl
    using t(3) assms(2) by (simp add: n_def t_def)
  have "reached {i, k} {} q (qs_start q)" by (rule reached.start)
  from reached_load [OF reached_load [OF this, of i a], of k b] assms(3)
  have 1: "reached {i, k} {} q (?S (tq_buffer q) t (P_spin a t) (P_spin b t))" by (simp add: qs_start_def t_def)
  from reached_not_full [OF reached_not_full [OF 1, of i a t], of k b t] nf assms(3)
  have 2: "reached {i, k} {} q (?S (tq_buffer q) t (P_write a t) (P_write b t))" by (simp add: fun_upd_twist)
  from reached_store [OF reached_store [OF 2, of i a t], of k b t] assms(3)
  have 3: "reached {i, k} {} q (?S ((tq_buffer q)[t := b]) t (P_publish t) (P_publish t))" by (simp add: fun_upd_twist swap)
  from reached_publish [OF reached_publish [OF 3, of i t], of k t] assms(3)
  have 4: "reached {i, k} {} q (?S ((tq_buffer q)[t := b]) n P_idle P_idle)" by (simp add: fun_upd_twist n_def)
  have "ring_elems ((!) ((tq_buffer q)[t := b])) (tq_capacity q) t n = [b]"
    using ring_store [of t "tq_capacity q" t "tq_buffer q" b] t by (simp add: n_def) (simp add: ring_elems_def)
  with assms(2) show ?thesis by (intro exI [of _ "?S ((tq_buffer q)[t := b]) n P_idle P_idle"] conjI 4) (simp_all add: t_def)
qed

theorem ring_two_producers_lose_witness:
  "\<exists>s. reached {0, 1} {} example_tq s \<and> (\<forall>p. qs_prod s p = P_idle) \<and> qs_pushed s = [7, 8] \<and> qs_popped s = [] \<and>
    tq_ring (qs_queue s) = [8]"
  by (rule ring_two_producers_lose [OF example_tq_ok]) simp

end
