(* ===== verification/HashTable.thy ===== *)
theory HashTable
  imports Prelude "HOL-Library.Word"
begin

text \<open>
  \<^verbatim>\<open>emhash8::HashMap\<close>, in the configuration the repository builds it: 32-bit \<^verbatim>\<open>size_type\<close>, no
  \<^verbatim>\<open>EMH_HIGH_LOAD\<close>, no \<^verbatim>\<open>EMH_PACK_TAIL\<close>, no \<^verbatim>\<open>EMH_QUADRATIC\<close>, no \<^verbatim>\<open>EMH_SORT\<close>.  The pairs lie densely
  in an array; an index of buckets links the pairs of equal main bucket into chains, which may
  pass through any bucket.  A link of the index packs the slot of its pair and the upper bits of
  the key's hash into one word.
\<close>

unbundle bit_operations_syntax

section \<open>State\<close>

record link =
  ix_next :: nat
  ix_slot :: "32 word"

text \<open>
  \<open>hm_pairs\<close> are the constructed objects at the front of \<^verbatim>\<open>_pairs\<close>; their number is
  \<^verbatim>\<open>_num_filled\<close>.  Bucket and slot numbers are below \<open>2 ^ 31\<close>, so they are natural numbers;
  \<^verbatim>\<open>INACTIVE\<close> is the largest 32-bit number.  \<open>h\<close> is the hash function \<^verbatim>\<open>_hasher\<close>.
\<close>

record ('k, 'v) hashmap =
  hm_index :: "link list"
  hm_pairs :: "('k \<times> 'v) list"
  hm_mlf :: nat
  hm_mask :: "32 word"
  hm_num_buckets :: nat
  hm_last :: nat
  hm_etail :: nat

definition INACTIVE :: nat where
  "INACTIVE = 2 ^ 32 - 1"

definition max_size :: nat where
  "max_size = 2 ^ 31"

abbreviation num_filled :: "('k, 'v) hashmap \<Rightarrow> nat" where
  "num_filled m \<equiv> length (hm_pairs m)"

definition EMH_EMPTY :: "('k, 'v) hashmap \<Rightarrow> nat \<Rightarrow> bool" where
  "EMH_EMPTY m n \<longleftrightarrow> 2 ^ 31 \<le> ix_next (hm_index m ! n)"

definition EMH_EQHASH :: "('k, 'v) hashmap \<Rightarrow> nat \<Rightarrow> 64 word \<Rightarrow> bool" where
  "EMH_EQHASH m n key_hash \<longleftrightarrow> (ucast key_hash AND NOT (hm_mask m)) = (ix_slot (hm_index m ! n) AND NOT (hm_mask m))"

text \<open>A number cut to a bucket; the bucket of a hash; the slot of a link; the word of a link.\<close>

definition masked :: "('k, 'v) hashmap \<Rightarrow> nat \<Rightarrow> nat" where
  "masked m x = unat (of_nat x AND hm_mask m)"

definition bucket_of :: "('k, 'v) hashmap \<Rightarrow> 64 word \<Rightarrow> nat" where
  "bucket_of m key_hash = unat (ucast key_hash AND hm_mask m)"

definition slot_at :: "('k, 'v) hashmap \<Rightarrow> nat \<Rightarrow> nat" where
  "slot_at m n = unat (ix_slot (hm_index m ! n) AND hm_mask m)"

definition slot_word :: "('k, 'v) hashmap \<Rightarrow> nat \<Rightarrow> 64 word \<Rightarrow> 32 word" where
  "slot_word m slot key_hash = of_nat slot OR (ucast key_hash AND NOT (hm_mask m))"

definition set_link :: "nat \<Rightarrow> link \<Rightarrow> ('k, 'v) hashmap \<Rightarrow> ('k, 'v) hashmap" where
  "set_link n l m = m\<lparr>hm_index := (hm_index m)[n := l]\<rparr>"

definition set_next :: "nat \<Rightarrow> nat \<Rightarrow> ('k, 'v) hashmap \<Rightarrow> ('k, 'v) hashmap" where
  "set_next n b m = set_link n ((hm_index m ! n)\<lparr>ix_next := b\<rparr>) m"

definition EMH_NEW :: "'k \<Rightarrow> 'v \<Rightarrow> nat \<Rightarrow> 64 word \<Rightarrow> ('k, 'v) hashmap \<Rightarrow> ('k, 'v) hashmap" where
  "EMH_NEW key val bucket key_hash m =
     (set_link bucket \<lparr>ix_next = bucket, ix_slot = slot_word m (num_filled m) key_hash\<rparr> m)
       \<lparr>hm_pairs := hm_pairs m @ [(key, val)], hm_etail := bucket\<rparr>"

definition hash_bucket :: "('k \<Rightarrow> 64 word) \<Rightarrow> ('k, 'v) hashmap \<Rightarrow> 'k \<Rightarrow> nat" where
  "hash_bucket h m key = bucket_of m (h key)"

definition hash_main :: "('k \<Rightarrow> 64 word) \<Rightarrow> ('k, 'v) hashmap \<Rightarrow> nat \<Rightarrow> nat" where
  "hash_main h m bucket = bucket_of m (h (fst (hm_pairs m ! slot_at m bucket)))"

section \<open>Searching\<close>

text \<open>The loops over a chain may not end on a damaged index: \<open>None\<close>.\<close>

partial_function (option) find_bucket_loop :: "('k, 'v) hashmap \<Rightarrow> 'k \<Rightarrow> 64 word \<Rightarrow> nat \<Rightarrow> nat option" where
  "find_bucket_loop m key key_hash next_bucket =
     (if EMH_EQHASH m next_bucket key_hash \<and> key = fst (hm_pairs m ! slot_at m next_bucket) then Some next_bucket
      else let nbucket = ix_next (hm_index m ! next_bucket)
           in if nbucket = next_bucket then Some INACTIVE
              else find_bucket_loop m key key_hash nbucket)"

definition find_filled_bucket :: "('k, 'v) hashmap \<Rightarrow> 'k \<Rightarrow> 64 word \<Rightarrow> nat option" where
  "find_filled_bucket m key key_hash =
     (let bucket = bucket_of m key_hash; next_bucket = ix_next (hm_index m ! bucket)
      in if 2 ^ 31 \<le> next_bucket then Some INACTIVE
         else if EMH_EQHASH m bucket key_hash \<and> key = fst (hm_pairs m ! slot_at m bucket) then Some bucket
         else if next_bucket = bucket then Some INACTIVE
         else find_bucket_loop m key key_hash next_bucket)"

partial_function (option) find_slot_loop :: "('k, 'v) hashmap \<Rightarrow> 'k \<Rightarrow> 64 word \<Rightarrow> nat \<Rightarrow> nat option" where
  "find_slot_loop m key key_hash next_bucket =
     (if EMH_EQHASH m next_bucket key_hash \<and> key = fst (hm_pairs m ! slot_at m next_bucket) then Some (slot_at m next_bucket)
      else let nbucket = ix_next (hm_index m ! next_bucket)
           in if nbucket = next_bucket then Some (num_filled m)
              else find_slot_loop m key key_hash nbucket)"

definition find_filled_slot :: "('k \<Rightarrow> 64 word) \<Rightarrow> ('k, 'v) hashmap \<Rightarrow> 'k \<Rightarrow> nat option" where
  "find_filled_slot h m key =
     (let key_hash = h key; bucket = bucket_of m key_hash; next_bucket = ix_next (hm_index m ! bucket)
      in if 2 ^ 31 \<le> next_bucket then Some (num_filled m)
         else if EMH_EQHASH m bucket key_hash \<and> key = fst (hm_pairs m ! slot_at m bucket) then Some (slot_at m bucket)
         else if next_bucket = bucket then Some (num_filled m)
         else find_slot_loop m key key_hash next_bucket)"

partial_function (option) find_slot_bucket_loop :: "('k, 'v) hashmap \<Rightarrow> nat \<Rightarrow> nat \<Rightarrow> nat option" where
  "find_slot_bucket_loop m slot next_bucket =
     (if slot = slot_at m next_bucket then Some next_bucket
      else find_slot_bucket_loop m slot (ix_next (hm_index m ! next_bucket)))"

text \<open>The bucket and the main bucket of a slot.\<close>

definition find_slot_bucket :: "('k \<Rightarrow> 64 word) \<Rightarrow> ('k, 'v) hashmap \<Rightarrow> nat \<Rightarrow> (nat \<times> nat) option" where
  "find_slot_bucket h m slot =
     (let bucket = bucket_of m (h (fst (hm_pairs m ! slot)))
      in if slot = slot_at m bucket then Some (bucket, bucket)
         else map_option (\<lambda>b. (b, bucket)) (find_slot_bucket_loop m slot (ix_next (hm_index m ! bucket))))"

partial_function (option) find_last_loop :: "('k, 'v) hashmap \<Rightarrow> nat \<Rightarrow> nat option" where
  "find_last_loop m next_bucket =
     (let nbucket = ix_next (hm_index m ! next_bucket)
      in if nbucket = next_bucket then Some next_bucket else find_last_loop m nbucket)"

definition find_last_bucket :: "('k, 'v) hashmap \<Rightarrow> nat \<Rightarrow> nat option" where
  "find_last_bucket m main_bucket =
     (let next_bucket = ix_next (hm_index m ! main_bucket)
      in if next_bucket = main_bucket then Some main_bucket else find_last_loop m next_bucket)"

partial_function (option) find_prev_loop :: "('k, 'v) hashmap \<Rightarrow> nat \<Rightarrow> nat \<Rightarrow> nat option" where
  "find_prev_loop m bucket next_bucket =
     (let nbucket = ix_next (hm_index m ! next_bucket)
      in if nbucket = bucket then Some next_bucket else find_prev_loop m bucket nbucket)"

definition find_prev_bucket :: "('k, 'v) hashmap \<Rightarrow> nat \<Rightarrow> nat \<Rightarrow> nat option" where
  "find_prev_bucket m main_bucket bucket =
     (let next_bucket = ix_next (hm_index m ! main_bucket)
      in if next_bucket = bucket then Some main_bucket else find_prev_loop m bucket next_bucket)"

section \<open>Finding an empty bucket\<close>

text \<open>The three quadratic probes, with \<open>step\<close> 3, 4 and 5.\<close>

fun quadratic_probe :: "('k, 'v) hashmap \<Rightarrow> nat \<Rightarrow> nat \<Rightarrow> nat list \<Rightarrow> nat option" where
  "quadratic_probe m bucket_from offset [] = None"
| "quadratic_probe m bucket_from offset (step # steps) =
     (let bucket = masked m (bucket_from + offset)
      in if EMH_EMPTY m bucket then Some bucket
         else if EMH_EMPTY m (bucket + 1) then Some (bucket + 1)
         else quadratic_probe m bucket_from (offset + step) steps)"

partial_function (option) last_probe :: "('k, 'v) hashmap \<Rightarrow> (('k, 'v) hashmap \<times> nat) option" where
  "last_probe m =
     (let l = masked m (hm_last m) + 1; m1 = m\<lparr>hm_last := l\<rparr>; medium = masked m (hm_num_buckets m div 2 + l)
      in if EMH_EMPTY m l then Some (m1, l)
         else if EMH_EMPTY m medium then Some (m1, medium)
         else last_probe m1)"

definition find_empty_bucket :: "('k, 'v) hashmap \<Rightarrow> nat \<Rightarrow> nat \<Rightarrow> (('k, 'v) hashmap \<times> nat) option" where
  "find_empty_bucket m bucket_from csize =
     (if EMH_EMPTY m (bucket_from + 1) then Some (m, bucket_from + 1)
      else if EMH_EMPTY m (bucket_from + 2) then Some (m, bucket_from + 2)
      else case quadratic_probe m bucket_from (1 + csize) [3, 4, 5] of
             Some bucket \<Rightarrow> Some (m, bucket)
           | None \<Rightarrow> last_probe m)"

section \<open>Allocating a bucket\<close>

definition kickout_bucket :: "('k, 'v) hashmap \<Rightarrow> nat \<Rightarrow> nat \<Rightarrow> (('k, 'v) hashmap \<times> nat) option" where
  "kickout_bucket m kmain bucket =
     (let next_bucket = ix_next (hm_index m ! bucket)
      in Option.bind (find_empty_bucket m next_bucket 2) (\<lambda>(m1, new_bucket).
         map_option (\<lambda>prev_bucket.
           let last = (if next_bucket = bucket then new_bucket else next_bucket);
               m2 = set_link new_bucket \<lparr>ix_next = last, ix_slot = ix_slot (hm_index m1 ! bucket)\<rparr> m1;
               m3 = set_next prev_bucket new_bucket m2
           in (set_next bucket INACTIVE m3, bucket)) (find_prev_bucket m1 kmain bucket)))"

text \<open>The walk of \<^verbatim>\<open>find_or_allocate\<close>: the bucket of the key, or the last bucket and the length of the chain.\<close>

partial_function (option) allocate_loop ::
  "('k, 'v) hashmap \<Rightarrow> 'k \<Rightarrow> 64 word \<Rightarrow> nat \<Rightarrow> nat \<Rightarrow> (nat + nat \<times> nat) option" where
  "allocate_loop m key key_hash next_bucket csize =
     (if EMH_EQHASH m next_bucket key_hash \<and> key = fst (hm_pairs m ! slot_at m next_bucket) then Some (Inl next_bucket)
      else let csize' = csize + 1; nbucket = ix_next (hm_index m ! next_bucket)
           in if nbucket = next_bucket then Some (Inr (next_bucket, csize'))
              else allocate_loop m key key_hash nbucket csize')"

definition find_or_allocate ::
  "('k \<Rightarrow> 64 word) \<Rightarrow> ('k, 'v) hashmap \<Rightarrow> 'k \<Rightarrow> 64 word \<Rightarrow> (('k, 'v) hashmap \<times> nat) option" where
  "find_or_allocate h m key key_hash =
     (let bucket = bucket_of m key_hash; next_bucket = ix_next (hm_index m ! bucket)
      in if 2 ^ 31 \<le> next_bucket then Some (m, bucket)
         else let slot = slot_at m bucket
              in if EMH_EQHASH m bucket key_hash \<and> key = fst (hm_pairs m ! slot) then Some (m, bucket)
                 else let kmain = hash_bucket h m (fst (hm_pairs m ! slot))
                      in if kmain \<noteq> bucket then kickout_bucket m kmain bucket
                         else if next_bucket = bucket
                         then map_option (\<lambda>(m1, b). (set_next next_bucket b m1, b)) (find_empty_bucket m next_bucket 1)
                         else Option.bind (allocate_loop m key key_hash next_bucket 1) (\<lambda>r.
                              case r of
                                Inl found \<Rightarrow> Some (m, found)
                              | Inr (last_bucket, csize) \<Rightarrow>
                                  map_option (\<lambda>(m1, b). (set_next last_bucket b m1, b)) (find_empty_bucket m last_bucket csize)))"

definition find_unique_bucket ::
  "('k \<Rightarrow> 64 word) \<Rightarrow> ('k, 'v) hashmap \<Rightarrow> 64 word \<Rightarrow> (('k, 'v) hashmap \<times> nat) option" where
  "find_unique_bucket h m key_hash =
     (let bucket = bucket_of m key_hash; next_bucket = ix_next (hm_index m ! bucket)
      in if 2 ^ 31 \<le> next_bucket then Some (m, bucket)
         else let kmain = hash_main h m bucket
              in if kmain \<noteq> bucket then kickout_bucket m kmain bucket
                 else Option.bind (if next_bucket \<noteq> bucket then find_last_bucket m next_bucket else Some next_bucket) (\<lambda>last_bucket.
                      map_option (\<lambda>(m1, b). (set_next last_bucket b m1, b)) (find_empty_bucket m last_bucket 2)))"

section \<open>Growing\<close>

partial_function (option) grow_buckets :: "nat \<Rightarrow> nat \<Rightarrow> nat option" where
  "grow_buckets num_buckets required_buckets =
     (if num_buckets < required_buckets then grow_buckets (num_buckets * 2) required_buckets else Some num_buckets)"

text \<open>\<^verbatim>\<open>rebuild\<close>: a new index, every byte set, with two guard links behind it; the pairs move.\<close>

definition rebuild :: "nat \<Rightarrow> ('k, 'v) hashmap \<Rightarrow> ('k, 'v) hashmap" where
  "rebuild num_buckets m =
     m\<lparr>hm_index := replicate num_buckets \<lparr>ix_next = INACTIVE, ix_slot = - 1\<rparr> @ replicate 2 \<lparr>ix_next = 0, ix_slot = 0\<rparr>\<rparr>"

fun place_slots :: "('k \<Rightarrow> 64 word) \<Rightarrow> nat list \<Rightarrow> ('k, 'v) hashmap \<Rightarrow> ('k, 'v) hashmap option" where
  "place_slots h [] m = Some m"
| "place_slots h (slot # slots) m =
     (let key_hash = h (fst (hm_pairs m ! slot))
      in Option.bind (find_unique_bucket h m key_hash) (\<lambda>(m1, bucket).
         place_slots h slots (set_link bucket \<lparr>ix_next = bucket, ix_slot = slot_word m1 slot key_hash\<rparr> m1)))"

text \<open>\<^verbatim>\<open>rehash\<close>; \<open>None\<close>: the call does not return, because a loop does not end or the assertion fails.\<close>

definition rehash :: "('k \<Rightarrow> 64 word) \<Rightarrow> nat \<Rightarrow> ('k, 'v) hashmap \<Rightarrow> ('k, 'v) hashmap option" where
  "rehash h required_buckets m =
     (if required_buckets < num_filled m then Some m
      else if \<not> required_buckets < max_size then None
      else Option.bind (grow_buckets (if num_filled m > 2 ^ 16 then 2 ^ 16 else 4) required_buckets) (\<lambda>num_buckets.
           let m1 = rebuild num_buckets (m\<lparr>hm_last := 0, hm_mask := of_nat (num_buckets - 1), hm_num_buckets := num_buckets\<rparr>)
           in place_slots h [0..<num_filled m] (m1\<lparr>hm_etail := INACTIVE\<rparr>)))"

definition reserve :: "('k \<Rightarrow> 64 word) \<Rightarrow> nat \<Rightarrow> ('k, 'v) hashmap \<Rightarrow> ('k, 'v) hashmap option" where
  "reserve h num_elems m =
     (let required_buckets = (num_elems * hm_mlf m) div 2 ^ 27
      in if required_buckets < unat (hm_mask m) then Some m else rehash h (required_buckets + 2) m)"

definition check_expand_need :: "('k \<Rightarrow> 64 word) \<Rightarrow> ('k, 'v) hashmap \<Rightarrow> ('k, 'v) hashmap option" where
  "check_expand_need h m = reserve h (num_filled m) m"

text \<open>\<^verbatim>\<open>shrink_to_fit\<close> with its default factor, a fifth: the load is compared exactly.\<close>

definition shrink_to_fit :: "('k \<Rightarrow> 64 word) \<Rightarrow> ('k, 'v) hashmap \<Rightarrow> ('k, 'v) hashmap option" where
  "shrink_to_fit h m =
     (if 5 * num_filled m < hm_num_buckets m \<and> 10 < hm_num_buckets m then rehash h (num_filled m + 1) m else Some m)"

text \<open>\<open>mlf\<close> is the load factor as \<^verbatim>\<open>_mlf\<close> keeps it, \<open>2 ^ 27\<close> divided by the factor.\<close>

definition HashMap_new :: "('k \<Rightarrow> 64 word) \<Rightarrow> nat \<Rightarrow> nat \<Rightarrow> ('k, 'v) hashmap option" where
  "HashMap_new h bucket mlf =
     rehash h bucket \<lparr>hm_index = [], hm_pairs = [], hm_mlf = mlf, hm_mask = 0, hm_num_buckets = 0, hm_last = 0, hm_etail = INACTIVE\<rparr>"

section \<open>Operations\<close>

text \<open>An iterator is the slot it points to; \<^verbatim>\<open>end()\<close> is the slot \<^verbatim>\<open>_num_filled\<close>.\<close>

definition find_hm :: "('k \<Rightarrow> 64 word) \<Rightarrow> 'k \<Rightarrow> ('k, 'v) hashmap \<Rightarrow> nat option" where
  "find_hm h key m = find_filled_slot h m key"

definition contains :: "('k \<Rightarrow> 64 word) \<Rightarrow> 'k \<Rightarrow> ('k, 'v) hashmap \<Rightarrow> bool option" where
  "contains h key m = map_option (\<lambda>slot. slot \<noteq> num_filled m) (find_filled_slot h m key)"

definition try_get :: "('k \<Rightarrow> 64 word) \<Rightarrow> 'k \<Rightarrow> ('k, 'v) hashmap \<Rightarrow> 'v option option" where
  "try_get h key m =
     map_option (\<lambda>slot. if slot \<noteq> num_filled m then Some (snd (hm_pairs m ! slot)) else None) (find_filled_slot h m key)"

definition set_value :: "nat \<Rightarrow> 'v \<Rightarrow> ('k, 'v) hashmap \<Rightarrow> ('k, 'v) hashmap" where
  "set_value slot val m = m\<lparr>hm_pairs := (hm_pairs m)[slot := (fst (hm_pairs m ! slot), val)]\<rparr>"

definition try_set :: "('k \<Rightarrow> 64 word) \<Rightarrow> 'k \<Rightarrow> 'v \<Rightarrow> ('k, 'v) hashmap \<Rightarrow> (('k, 'v) hashmap \<times> bool) option" where
  "try_set h key val m =
     map_option (\<lambda>slot. if slot = num_filled m then (m, False) else (set_value slot val m, True)) (find_filled_slot h m key)"

definition do_insert :: "('k \<Rightarrow> 64 word) \<Rightarrow> 'k \<Rightarrow> 'v \<Rightarrow> ('k, 'v) hashmap \<Rightarrow> (('k, 'v) hashmap \<times> nat \<times> bool) option" where
  "do_insert h key val m =
     map_option (\<lambda>(m1, bucket).
       let bempty = EMH_EMPTY m1 bucket;
           m2 = (if bempty then EMH_NEW key val bucket (h key) m1 else m1)
       in (m2, slot_at m2 bucket, bempty)) (find_or_allocate h m key (h key))"

definition insert_hm :: "('k \<Rightarrow> 64 word) \<Rightarrow> 'k \<Rightarrow> 'v \<Rightarrow> ('k, 'v) hashmap \<Rightarrow> (('k, 'v) hashmap \<times> nat \<times> bool) option" where
  "insert_hm h key val m = Option.bind (check_expand_need h m) (do_insert h key val)"

definition do_assign :: "('k \<Rightarrow> 64 word) \<Rightarrow> 'k \<Rightarrow> 'v \<Rightarrow> ('k, 'v) hashmap \<Rightarrow> (('k, 'v) hashmap \<times> nat \<times> bool) option" where
  "do_assign h key val m =
     Option.bind (check_expand_need h m) (\<lambda>m0.
     map_option (\<lambda>(m1, bucket).
       let bempty = EMH_EMPTY m1 bucket;
           m2 = (if bempty then EMH_NEW key val bucket (h key) m1 else set_value (slot_at m1 bucket) val m1)
       in (m2, slot_at m2 bucket, bempty)) (find_or_allocate h m0 key (h key)))"

text \<open>\<^verbatim>\<open>operator[]\<close> gives the slot of the value, constructing \<open>d\<close> there if the key is new.\<close>

definition index_op :: "('k \<Rightarrow> 64 word) \<Rightarrow> 'v \<Rightarrow> 'k \<Rightarrow> ('k, 'v) hashmap \<Rightarrow> (('k, 'v) hashmap \<times> nat) option" where
  "index_op h d key m =
     Option.bind (check_expand_need h m) (\<lambda>m0.
     map_option (\<lambda>(m1, bucket).
       let m2 = (if EMH_EMPTY m1 bucket then EMH_NEW key d bucket (h key) m1 else m1)
       in (m2, slot_at m2 bucket)) (find_or_allocate h m0 key (h key)))"

definition insert_unique :: "('k \<Rightarrow> 64 word) \<Rightarrow> 'k \<Rightarrow> 'v \<Rightarrow> ('k, 'v) hashmap \<Rightarrow> (('k, 'v) hashmap \<times> nat) option" where
  "insert_unique h key val m =
     Option.bind (check_expand_need h m) (\<lambda>m0.
     map_option (\<lambda>(m1, bucket). (EMH_NEW key val bucket (h key) m1, bucket)) (find_unique_bucket h m0 (h key)))"

subsection \<open>Erasing\<close>

text \<open>Unlinks a bucket from its chain; the result is the bucket that becomes free.\<close>

definition erase_bucket :: "nat \<Rightarrow> nat \<Rightarrow> ('k, 'v) hashmap \<Rightarrow> (('k, 'v) hashmap \<times> nat) option" where
  "erase_bucket bucket main_bucket m =
     (let next_bucket = ix_next (hm_index m ! bucket)
      in if bucket = main_bucket
         then (if main_bucket \<noteq> next_bucket
               then let nbucket = ix_next (hm_index m ! next_bucket)
                    in Some (set_link main_bucket
                         \<lparr>ix_next = (if nbucket = next_bucket then main_bucket else nbucket),
                          ix_slot = ix_slot (hm_index m ! next_bucket)\<rparr> m, next_bucket)
               else Some (m, next_bucket))
         else map_option (\<lambda>prev_bucket.
                (set_next prev_bucket (if bucket = next_bucket then prev_bucket else next_bucket) m, bucket))
              (find_prev_bucket m main_bucket bucket))"

definition erase_slot :: "('k \<Rightarrow> 64 word) \<Rightarrow> nat \<Rightarrow> nat \<Rightarrow> ('k, 'v) hashmap \<Rightarrow> ('k, 'v) hashmap option" where
  "erase_slot h sbucket main_bucket m =
     (let slot = slot_at m sbucket
      in Option.bind (erase_bucket sbucket main_bucket m) (\<lambda>(m1, ebucket).
         let last_slot = num_filled m1 - 1
         in map_option (\<lambda>m2. (set_link ebucket \<lparr>ix_next = INACTIVE, ix_slot = 0\<rparr> m2)
                               \<lparr>hm_pairs := take last_slot (hm_pairs m2), hm_etail := INACTIVE\<rparr>)
            (if slot \<noteq> last_slot
             then map_option (\<lambda>last_bucket.
                    let m2 = m1\<lparr>hm_pairs := (hm_pairs m1)[slot := hm_pairs m1 ! last_slot]\<rparr>
                    in set_link last_bucket ((hm_index m2 ! last_bucket)
                         \<lparr>ix_slot := of_nat slot OR (ix_slot (hm_index m2 ! last_bucket) AND NOT (hm_mask m2))\<rparr>) m2)
                  (if hm_etail m1 = INACTIVE \<or> ebucket = hm_etail m1
                   then map_option fst (find_slot_bucket h m1 last_slot) else Some (hm_etail m1))
             else Some m1)))"

definition erase :: "('k \<Rightarrow> 64 word) \<Rightarrow> 'k \<Rightarrow> ('k, 'v) hashmap \<Rightarrow> (('k, 'v) hashmap \<times> nat) option" where
  "erase h key m =
     Option.bind (find_filled_bucket m key (h key)) (\<lambda>sbucket.
       if sbucket = INACTIVE then Some (m, 0)
       else map_option (\<lambda>m1. (m1, 1)) (erase_slot h sbucket (bucket_of m (h key)) m))"

text \<open>Erasing at an iterator; the result is the same slot, where the last pair now is.\<close>

definition erase_at :: "('k \<Rightarrow> 64 word) \<Rightarrow> nat \<Rightarrow> ('k, 'v) hashmap \<Rightarrow> (('k, 'v) hashmap \<times> nat) option" where
  "erase_at h slot m =
     Option.bind (find_slot_bucket h m slot) (\<lambda>(sbucket, main_bucket).
       map_option (\<lambda>m1. (m1, slot)) (erase_slot h sbucket main_bucket m))"

partial_function (option) erase_if_loop ::
  "('k \<Rightarrow> 64 word) \<Rightarrow> ('k \<times> 'v \<Rightarrow> bool) \<Rightarrow> nat \<Rightarrow> ('k, 'v) hashmap \<Rightarrow> ('k, 'v) hashmap option" where
  "erase_if_loop h pred it m =
     (if it = num_filled m then Some m
      else if pred (hm_pairs m ! it) then Option.bind (erase_at h it m) (\<lambda>(m1, it1). erase_if_loop h pred it1 m1)
      else erase_if_loop h pred (it + 1) m)"

definition erase_if :: "('k \<Rightarrow> 64 word) \<Rightarrow> ('k \<times> 'v \<Rightarrow> bool) \<Rightarrow> ('k, 'v) hashmap \<Rightarrow> (('k, 'v) hashmap \<times> nat) option" where
  "erase_if h pred m = map_option (\<lambda>m1. (m1, num_filled m - num_filled m1)) (erase_if_loop h pred 0 m)"

text \<open>
  \<open>trivial\<close>: the pairs need no destructor.  Otherwise \<^verbatim>\<open>clearkv\<close> counts \<^verbatim>\<open>_num_filled\<close> down past zero,
  so that the index is always reset.
\<close>

definition clear :: "bool \<Rightarrow> ('k, 'v) hashmap \<Rightarrow> ('k, 'v) hashmap" where
  "clear trivial m =
     m\<lparr>hm_index := (if trivial \<and> num_filled m = 0 then hm_index m
                    else replicate (hm_num_buckets m) \<lparr>ix_next = INACTIVE, ix_slot = - 1\<rparr> @ drop (hm_num_buckets m) (hm_index m)),
       hm_pairs := [], hm_last := 0, hm_etail := INACTIVE\<rparr>"

end
