(* ===== verification/HashChains.thy ===== *)
theory HashChains
  imports HashTable
begin

text \<open>
  The shape of the index of \<^verbatim>\<open>emhash8::HashMap\<close>: the used buckets split into chains, one for each
  main bucket that has pairs, and what the updates of the index do to one chain.
\<close>

section \<open>Linked lists in a next function\<close>

text \<open>The last bucket of a chain links to itself.\<close>

fun linked :: "(nat \<Rightarrow> nat) \<Rightarrow> nat list \<Rightarrow> bool" where
  "linked N [] = True"
| "linked N [b] = (N b = b)"
| "linked N (b # c # bs) = (N b = c \<and> linked N (c # bs))"

lemma linked_cong: "(\<And>b. b \<in> set bs \<Longrightarrow> N' b = N b) \<Longrightarrow> linked N' bs = linked N bs"
  by (induction N bs rule: linked.induct) auto

lemma linked_drop: "linked N (xs @ ys) \<Longrightarrow> linked N ys"
proof (induction xs)
  case (Cons x xs)
  then show ?case by (cases "xs @ ys") auto
qed simp

lemma linked_next: "linked N (xs @ b # c # ys) \<Longrightarrow> N b = c"
  using linked_drop [of N xs] by fastforce

lemma linked_last: "linked N (xs @ [b]) \<Longrightarrow> N b = b"
  using linked_drop [of N xs] by fastforce

lemma linked_self:
  assumes "linked N (xs @ b # ys)" and "distinct (xs @ b # ys)"
  shows "N b = b \<longleftrightarrow> ys = []"
  using assms linked_last [of N xs b] linked_next [of N xs b] by (cases ys) auto

text \<open>Replacing the rest of a chain behind a bucket whose link is redirected.\<close>

lemma linked_redirect:
  assumes "linked N (xs @ p # ys)" and "linked N' (c # zs)" and "N' p = c" and "\<And>b. b \<in> set xs \<Longrightarrow> N' b = N b"
  shows "linked N' (xs @ p # c # zs)"
  using assms
proof (induction xs)
  case (Cons x xs)
  then show ?case by (cases xs) auto
qed simp

lemma linked_cut:
  assumes "linked N (xs @ p # ys)" and "N' p = p" and "\<And>b. b \<in> set xs \<Longrightarrow> N' b = N b"
  shows "linked N' (xs @ [p])"
  using assms
proof (induction xs)
  case (Cons x xs)
  then show ?case by (cases xs) auto
qed simp

lemma linked_snoc:
  assumes "linked N (xs @ [l])" and "distinct (xs @ [l])" and "new \<notin> set (xs @ [l])"
  shows "linked (N(l := new, new := new)) (xs @ [l, new])"
  by (rule linked_redirect [OF assms(1)]) (use assms in auto)

lemma linked_replace:
  assumes "linked N (xs @ p # b # ys)" and d: "distinct (xs @ p # b # ys)" and new: "new \<notin> set (xs @ p # b # ys)"
    and N': "N' new = (if N b = b then new else N b)" "N' p = new" "\<And>x. x \<noteq> new \<Longrightarrow> x \<noteq> p \<Longrightarrow> x \<noteq> b \<Longrightarrow> N' x = N x"
  shows "linked N' (xs @ p # new # ys)"
proof (rule linked_redirect [OF assms(1)])
  have self: "N b = b \<longleftrightarrow> ys = []" using linked_self [of N "xs @ [p]" b ys] assms(1) d by simp
  show "linked N' (new # ys)"
  proof (cases ys)
    case Nil
    then show ?thesis using N'(1) self by simp
  next
    case (Cons c zs)
    have "N b = c" using linked_next [of N "xs @ [p]" b c zs] assms(1) by (simp add: Cons)
    moreover have "linked N (c # zs)" using linked_drop [of N "xs @ [p, b]"] assms(1) by (simp add: Cons)
    moreover have "linked N' (c # zs) = linked N (c # zs)" using d new by (intro linked_cong N'(3)) (auto simp: Cons)
    ultimately show ?thesis using N'(1) self by (simp add: Cons)
  qed
  show "N' x = N x" if "x \<in> set xs" for x using d new that by (intro N'(3)) auto
qed (rule N'(2))

lemma linked_remove:
  assumes "linked N (xs @ p # b # ys)" and d: "distinct (xs @ p # b # ys)"
    and N': "N' p = (if N b = b then p else N b)" "\<And>x. x \<noteq> p \<Longrightarrow> x \<noteq> b \<Longrightarrow> N' x = N x"
  shows "linked N' (xs @ p # ys)"
proof -
  have self: "N b = b \<longleftrightarrow> ys = []" using linked_self [of N "xs @ [p]" b ys] assms(1) d by simp
  have same: "N' x = N x" if "x \<in> set xs" for x using d that by (intro N'(2)) auto
  show ?thesis
  proof (cases ys)
    case Nil
    then show ?thesis using linked_cut [OF assms(1) _ same] N'(1) self by simp
  next
    case (Cons c zs)
    have "N b = c" using linked_next [of N "xs @ [p]" b c zs] assms(1) by (simp add: Cons)
    moreover have "linked N (c # zs)" using linked_drop [of N "xs @ [p, b]"] assms(1) by (simp add: Cons)
    moreover have "linked N' (c # zs) = linked N (c # zs)" using d by (intro linked_cong N'(2)) (auto simp: Cons)
    ultimately have "linked N' (c # zs)" "N' p = c" using N'(1) self by (simp_all add: Cons)
    from linked_redirect [OF assms(1) this same] show ?thesis by (simp add: Cons)
  qed
qed

section \<open>A family of chains\<close>

definition chained :: "nat \<Rightarrow> (nat \<Rightarrow> nat) \<Rightarrow> (nat \<Rightarrow> nat list) \<Rightarrow> bool" where
  "chained n N ch \<longleftrightarrow>
     (\<forall>c<n. linked N (ch c) \<and> distinct (ch c) \<and> set (ch c) \<subseteq> {..<n} \<and> (ch c = [] \<or> hd (ch c) = c)) \<and>
     (\<forall>c<n. \<forall>d<n. c \<noteq> d \<longrightarrow> set (ch c) \<inter> set (ch d) = {}) \<and>
     (\<forall>b<n. N b < 2 ^ 31 \<longleftrightarrow> (\<exists>c<n. b \<in> set (ch c)))"

lemma chained_facts:
  assumes "chained n N ch" and "c < n"
  shows "linked N (ch c)" and "distinct (ch c)" and "set (ch c) \<subseteq> {..<n}" and "ch c = [] \<or> hd (ch c) = c"
  using assms by (simp_all add: chained_def)

lemma chained_used: "chained n N ch \<Longrightarrow> b < n \<Longrightarrow> N b < 2 ^ 31 \<longleftrightarrow> (\<exists>c<n. b \<in> set (ch c))"
  by (simp add: chained_def)

lemma chained_disjoint:
  assumes "chained n N ch" and "c < n" and "d < n" and "b \<in> set (ch c)" and "b \<in> set (ch d)"
  shows "c = d"
  using assms unfolding chained_def by (metis disjoint_iff)

lemma chained_upd:
  assumes ch: "chained n N ch" and c: "c < n"
    and xs: "linked N' xs" "distinct xs" "set xs \<subseteq> {..<n}" "xs = [] \<or> hd xs = c"
    and other: "\<And>d. d < n \<Longrightarrow> d \<noteq> c \<Longrightarrow> set xs \<inter> set (ch d) = {}"
    and same: "\<And>b. b < n \<Longrightarrow> b \<notin> set (ch c) \<Longrightarrow> b \<notin> set xs \<Longrightarrow> N' b = N b"
    and used: "\<And>b. b \<in> set xs \<Longrightarrow> N' b < 2 ^ 31" "\<And>b. b \<in> set (ch c) \<Longrightarrow> b \<notin> set xs \<Longrightarrow> 2 ^ 31 \<le> N' b"
  shows "chained n N' (ch(c := xs))"
  unfolding chained_def
proof (intro conjI allI impI)
  note dis = chained_disjoint [OF ch]
  fix d assume d: "d < n"
  show "linked N' ((ch(c := xs)) d)"
  proof (cases "d = c")
    case False
    have "linked N' (ch d) = linked N (ch d)"
    proof (rule linked_cong)
      fix b assume b: "b \<in> set (ch d)"
      moreover have "b < n" using chained_facts(3) [OF ch d] b by auto
      moreover have "b \<notin> set (ch c)" using dis [OF d c b] False by auto
      moreover have "b \<notin> set xs" using other [OF d False] b by auto
      ultimately show "N' b = N b" using same by blast
    qed
    then show ?thesis using chained_facts(1) [OF ch d] False by simp
  qed (simp add: xs)
  show "distinct ((ch(c := xs)) d)" "set ((ch(c := xs)) d) \<subseteq> {..<n}" "(ch(c := xs)) d = [] \<or> hd ((ch(c := xs)) d) = d"
    using xs chained_facts [OF ch d] by auto
  fix e assume e: "e < n" "d \<noteq> e"
  show "set ((ch(c := xs)) d) \<inter> set ((ch(c := xs)) e) = {}"
    using other [OF d] other [OF e(1)] dis [OF d e(1)] e(2) by (cases "d = c"; cases "e = c") auto
next
  fix b assume b: "b < n"
  consider "b \<in> set xs" | "b \<notin> set xs" "b \<in> set (ch c)" | "b \<notin> set xs" "b \<notin> set (ch c)" by blast
  then show "N' b < 2 ^ 31 \<longleftrightarrow> (\<exists>d<n. b \<in> set ((ch(c := xs)) d))"
  proof cases
    case 1
    then have "\<exists>d<n. b \<in> set ((ch(c := xs)) d)" using c by (intro exI [of _ c]) simp
    then show ?thesis using used(1) [OF 1] by blast
  next
    case 2
    have "\<not> (\<exists>d<n. b \<in> set ((ch(c := xs)) d))"
      using 2 chained_disjoint [OF ch _ c _ 2(2)] by (auto split: if_splits)
    then show ?thesis using used(2) [OF 2(2,1)] by (simp add: not_less)
  next
    case 3
    then have "(\<exists>d<n. b \<in> set ((ch(c := xs)) d)) \<longleftrightarrow> (\<exists>d<n. b \<in> set (ch d))" by auto
    then show ?thesis using same [OF b 3(2,1)] chained_used [OF ch b] by simp
  qed
qed

end
