(* ===== verification/HashIndex.thy ===== *)
theory HashIndex
  imports HashChains Ring
begin

text \<open>
  The invariant of the index of \<^verbatim>\<open>emhash8::HashMap\<close> and the searches on it.
\<close>

section \<open>Words\<close>

lemma unat_and_mask: "k \<le> 32 \<Longrightarrow> unat (w AND mask k :: 32 word) = unat w mod 2 ^ k"
  by (simp only: take_bit_eq_mask [symmetric] unsigned_take_bit_eq) (simp add: take_bit_eq_mod)

lemma slot_word_slot:
  fixes w :: "32 word"
  assumes "s < 2 ^ k" and "k \<le> 31"
  shows "unat ((of_nat s OR (w AND NOT (mask k))) AND mask k) = s"
proof -
  have "(of_nat s OR (w AND NOT (mask k))) AND mask k = (of_nat s AND mask k :: 32 word)"
    by (rule bit_word_eqI) (auto simp: bit_simps)
  moreover have "s < 2 ^ 32" using assms power_increasing [of k 32 "2 :: nat"] by simp
  ultimately show ?thesis using assms by (simp add: unat_and_mask unat_of_nat take_bit_eq_mod)
qed

lemma slot_word_tag:
  fixes w :: "32 word"
  assumes "s < 2 ^ k" and "k \<le> 31"
  shows "(of_nat s OR (w AND NOT (mask k))) AND NOT (mask k) = w AND NOT (mask k)"
proof -
  have "(of_nat s :: 32 word) AND mask k = of_nat s"
    using assms(1) by (simp only: take_bit_eq_mask [symmetric] take_bit_of_nat take_bit_nat_eq_self)
  then have "bit (of_nat s :: 32 word) n \<Longrightarrow> n < k" for n by (metis bit_and_iff bit_mask_iff)
  then show ?thesis by (intro bit_word_eqI) (auto simp: bit_simps)
qed

section \<open>The invariant\<close>

definition shape :: "nat \<Rightarrow> ('k, 'v) hashmap \<Rightarrow> bool" where
  "shape k m \<longleftrightarrow> 2 \<le> k \<and> k \<le> 31 \<and> hm_num_buckets m = 2 ^ k \<and> hm_mask m = mask k \<and>
     length (hm_index m) = 2 ^ k + 2 \<and> ix_next (hm_index m ! (2 ^ k)) = 0 \<and> ix_next (hm_index m ! (2 ^ k + 1)) = 0"

abbreviation nexts :: "('k, 'v) hashmap \<Rightarrow> nat \<Rightarrow> nat" where
  "nexts m \<equiv> \<lambda>b. ix_next (hm_index m ! b)"

definition used :: "('k, 'v) hashmap \<Rightarrow> nat set" where
  "used m = {b. b < hm_num_buckets m \<and> nexts m b < 2 ^ 31}"

abbreviation key_at :: "('k, 'v) hashmap \<Rightarrow> nat \<Rightarrow> 'k" where
  "key_at m b \<equiv> fst (hm_pairs m ! slot_at m b)"

text \<open>The first \<open>nf\<close> slots have a bucket, in the chain of the key's main bucket, tagged with its hash.\<close>

definition index_ok :: "('k \<Rightarrow> 64 word) \<Rightarrow> ('k, 'v) hashmap \<Rightarrow> nat \<Rightarrow> (nat \<Rightarrow> nat list) \<Rightarrow> bool" where
  "index_ok h m nf ch \<longleftrightarrow> nf \<le> num_filled m \<and> chained (hm_num_buckets m) (nexts m) ch \<and>
     bij_betw (slot_at m) (used m) {..<nf} \<and>
     (\<forall>b\<in>used m. b \<in> set (ch (hash_main h m b)) \<and> EMH_EQHASH m b (h (key_at m b)))"

lemma bucket_less: "shape k m \<Longrightarrow> bucket_of m kh < hm_num_buckets m"
  by (simp add: bucket_of_def shape_def unat_and_mask)

lemma hash_main_less: "shape k m \<Longrightarrow> hash_main h m b < hm_num_buckets m"
  by (simp add: hash_main_def bucket_less)

lemma masked_mod:
  assumes "shape k m"
  shows "masked m x = x mod hm_num_buckets m"
proof -
  have "(2 :: nat) ^ k dvd 2 ^ 32" using assms by (intro le_imp_power_dvd) (simp add: shape_def)
  then show ?thesis using assms by (simp add: masked_def shape_def unat_and_mask unat_of_nat take_bit_eq_mod mod_mod_cancel)
qed

lemma used_chain:
  assumes "shape k m" and "index_ok h m nf ch"
  shows "b \<in> used m \<longleftrightarrow> (\<exists>c<hm_num_buckets m. b \<in> set (ch c))"
proof -
  have ch: "chained (hm_num_buckets m) (nexts m) ch" using assms(2) by (simp add: index_ok_def)
  show ?thesis
    using chained_used [OF ch] chained_facts(3) [OF ch] by (auto simp: used_def)
qed

text \<open>A bucket of a chain holds a key whose main bucket is the head of the chain.\<close>

lemma chain_main:
  assumes "shape k m" and "index_ok h m nf ch" and "c < hm_num_buckets m" and "b \<in> set (ch c)"
  shows "hash_main h m b = c"
proof -
  have ch: "chained (hm_num_buckets m) (nexts m) ch" using assms(2) by (simp add: index_ok_def)
  have "b \<in> used m" using used_chain [OF assms(1,2)] assms(3,4) by blast
  then have "b \<in> set (ch (hash_main h m b))" using assms(2) by (simp add: index_ok_def)
  from chained_disjoint [OF ch hash_main_less [OF assms(1)] assms(3) this assms(4)] show ?thesis .
qed

lemma chain_suffix:
  assumes "chained n N ch" and "c < n" and "b \<in> set (ch c)"
  obtains xs ys where "ch c = xs @ b # ys" "linked N (b # ys)" "distinct (b # ys)"
proof -
  obtain xs ys where "ch c = xs @ b # ys" using assms(3) by (auto simp: in_set_conv_decomp)
  with chained_facts(1,2) [OF assms(1,2)] linked_drop [of N xs] show ?thesis by (intro that [of xs ys]) auto
qed

section \<open>Walking a chain\<close>

lemma find_bucket_loop_chain:
  assumes "linked (nexts m) (b # bs)" and "distinct (b # bs)" and "\<forall>x\<in>set (b # bs). EMH_EQHASH m x (h (key_at m x))"
  shows "find_bucket_loop m key (h key) b =
    Some (case List.find (\<lambda>x. key = key_at m x) (b # bs) of Some x \<Rightarrow> x | None \<Rightarrow> INACTIVE)"
  using assms
proof (induction bs arbitrary: b)
  case Nil
  then show ?case by (subst find_bucket_loop.simps) (auto simp: Let_def)
next
  case (Cons c bs)
  then show ?case by (subst find_bucket_loop.simps) (auto simp: Let_def)
qed

lemma find_slot_loop_chain:
  assumes "linked (nexts m) (b # bs)" and "distinct (b # bs)" and "\<forall>x\<in>set (b # bs). EMH_EQHASH m x (h (key_at m x))"
  shows "find_slot_loop m key (h key) b =
    Some (case List.find (\<lambda>x. key = key_at m x) (b # bs) of Some x \<Rightarrow> slot_at m x | None \<Rightarrow> num_filled m)"
  using assms
proof (induction bs arbitrary: b)
  case Nil
  then show ?case by (subst find_slot_loop.simps) (auto simp: Let_def)
next
  case (Cons c bs)
  then show ?case by (subst find_slot_loop.simps) (auto simp: Let_def)
qed

lemma allocate_loop_chain:
  assumes "linked (nexts m) (b # bs)" and "distinct (b # bs)" and "\<forall>x\<in>set (b # bs). EMH_EQHASH m x (h (key_at m x))"
  shows "allocate_loop m key (h key) b csize =
    Some (case List.find (\<lambda>x. key = key_at m x) (b # bs) of
            Some x \<Rightarrow> Inl x | None \<Rightarrow> Inr (last (b # bs), csize + length (b # bs)))"
  using assms
proof (induction bs arbitrary: b csize)
  case Nil
  then show ?case by (subst allocate_loop.simps) (auto simp: Let_def)
next
  case (Cons c bs)
  then show ?case by (subst allocate_loop.simps) (auto simp: Let_def split: option.split)
qed

lemma find_last_loop_chain:
  assumes "linked (nexts m) (b # bs)" and "distinct (b # bs)"
  shows "find_last_loop m b = Some (last (b # bs))"
  using assms
proof (induction bs arbitrary: b)
  case Nil
  then show ?case by (subst find_last_loop.simps) (auto simp: Let_def)
next
  case (Cons c bs)
  then show ?case by (subst find_last_loop.simps) (auto simp: Let_def)
qed

lemma find_prev_loop_chain:
  assumes "linked (nexts m) (xs @ p # b # ys)" and "distinct (xs @ p # b # ys)"
  shows "find_prev_loop m b (hd (xs @ [p])) = Some p"
  using assms
proof (induction xs)
  case Nil
  then show ?case by (subst find_prev_loop.simps) (auto simp: Let_def)
next
  case (Cons x xs)
  have "linked (nexts m) (xs @ p # b # ys)" "nexts m x = hd (xs @ [p])"
    using Cons.prems(1) by (cases xs; auto)+
  moreover have "hd (xs @ [p]) \<noteq> b" using Cons.prems(2) by (cases xs) auto
  ultimately show ?case using Cons by (subst find_prev_loop.simps) (auto simp: Let_def)
qed

lemma find_prev_chain:
  assumes "linked (nexts m) (xs @ p # b # ys)" and "distinct (xs @ p # b # ys)" and "hd (xs @ [p]) = c"
  shows "find_prev_bucket m c b = Some p"
proof (cases xs)
  case Nil
  have "c = p" "nexts m p = b" using assms(1,3) by (simp_all add: Nil)
  then show ?thesis by (simp add: find_prev_bucket_def)
next
  case (Cons x zs)
  have c: "c = x" and l: "linked (nexts m) (x # zs @ p # b # ys)" and d: "distinct (zs @ p # b # ys)"
    using assms by (simp_all add: Cons)
  have "linked (nexts m) (zs @ p # b # ys)" "nexts m x = hd (zs @ [p])" using l by (cases zs; simp)+
  moreover have "hd (zs @ [p]) \<noteq> b" using d by (cases zs) auto
  ultimately show ?thesis
    using find_prev_loop_chain [of m zs p b ys] d by (simp add: find_prev_bucket_def Let_def c)
qed

lemma find_slot_bucket_loop_chain:
  assumes "linked (nexts m) (b # bs)" and "distinct (b # bs)" and "x \<in> set (b # bs)" and "slot_at m x = slot"
    and "\<And>y. y \<in> set (b # bs) \<Longrightarrow> slot_at m y = slot \<Longrightarrow> y = x"
  shows "find_slot_bucket_loop m slot b = Some x"
  using assms
proof (induction bs arbitrary: b)
  case Nil
  then show ?case by (subst find_slot_bucket_loop.simps) auto
next
  case (Cons c bs)
  show ?case
  proof (cases "slot_at m b = slot")
    case True
    then have "b = x" using Cons.prems(5) [of b] by simp
    then show ?thesis using True by (subst find_slot_bucket_loop.simps) simp
  next
    case False
    then have x: "x \<in> set (c # bs)" using Cons.prems(3,4) by auto
    have l: "linked (nexts m) (c # bs)" "nexts m b = c" using Cons.prems(1) by simp_all
    have "find_slot_bucket_loop m slot c = Some x"
      by (rule Cons.IH [OF l(1) _ x Cons.prems(4)]) (use Cons.prems(2) in simp, rule Cons.prems(5), simp_all)
    then show ?thesis using False l(2) by (subst find_slot_bucket_loop.simps) simp
  qed
qed

section \<open>Looking for a key\<close>

lemma used_less: "shape k m \<Longrightarrow> b \<in> used m \<Longrightarrow> b < 2 ^ 31"
proof -
  assume "shape k m" "b \<in> used m"
  then have "b < 2 ^ k" "k \<le> 31" by (simp_all add: shape_def used_def)
  then show ?thesis using power_increasing [of k 31 "2 :: nat"] by simp
qed

lemma INACTIVE_unused: "shape k m \<Longrightarrow> INACTIVE \<notin> used m"
  using used_less [of k m INACTIVE] by (auto simp: INACTIVE_def)

text \<open>A search starts at the main bucket: from there a walk meets every bucket with the key.\<close>

lemma search_start:
  assumes m: "shape k m" "index_ok h m nf ch" and c: "c = bucket_of m (h key)"
  shows "c \<notin> used m \<Longrightarrow> \<forall>x\<in>used m. key_at m x \<noteq> key"
    and "c \<in> used m \<Longrightarrow> \<exists>ys. linked (nexts m) (c # ys) \<and> distinct (c # ys) \<and> set (c # ys) \<subseteq> used m \<and>
      (\<forall>x\<in>used m. key_at m x = key \<longrightarrow> x \<in> set (c # ys))"
proof -
  note ch = m(2) [unfolded index_ok_def, THEN conjunct2, THEN conjunct1]
  have c': "c < hm_num_buckets m" by (simp add: c bucket_less [OF m(1)])
  have own: "x \<in> set (ch c) \<and> hd (ch c) = c \<and> c \<in> used m" if "x \<in> used m" "key_at m x = key" for x
  proof -
    have x: "x \<in> set (ch c)" using m(2) that by (auto simp: index_ok_def hash_main_def c)
    then have hd: "hd (ch c) = c" using chained_facts(4) [OF ch c'] by auto
    then have "c \<in> set (ch c)" using x by (metis empty_iff empty_set hd_in_set)
    then show ?thesis using x hd used_chain [OF m] c' by blast
  qed
  then show "c \<notin> used m \<Longrightarrow> \<forall>x\<in>used m. key_at m x \<noteq> key" by blast
  assume "c \<in> used m"
  then obtain d where d: "d < hm_num_buckets m" "c \<in> set (ch d)" using used_chain [OF m] by blast
  from chain_suffix [OF ch this] obtain xs ys where ys: "ch d = xs @ c # ys" "linked (nexts m) (c # ys)" "distinct (c # ys)" .
  have "set (c # ys) \<subseteq> used m" 
  proof
    fix x assume "x \<in> set (c # ys)"
    then have "x \<in> set (ch d)" unfolding ys(1) by auto
    then show "x \<in> used m" using used_chain [OF m] d(1) by blast
  qed
  moreover have "x \<in> set (c # ys)" if "x \<in> used m" "key_at m x = key" for x
  proof -
    note o = own [OF that]
    have "c \<in> set (ch c)" using o by (metis empty_iff empty_set hd_in_set)
    then have dc: "d = c" using chained_disjoint [OF ch d(1) c' d(2)] by simp
    have "distinct (xs @ c # ys)" "hd (xs @ c # ys) = c" using chained_facts(2) [OF ch c'] o ys(1) dc by simp_all
    then have "xs = []" by (cases xs) auto
    then show ?thesis using o ys(1) dc by simp
  qed
  ultimately show "\<exists>ys. linked (nexts m) (c # ys) \<and> distinct (c # ys) \<and> set (c # ys) \<subseteq> used m \<and>
      (\<forall>x\<in>used m. key_at m x = key \<longrightarrow> x \<in> set (c # ys))" using ys by blast
qed

lemma search_walk:
  assumes m: "shape k m" "index_ok h m nf ch" and c: "bucket_of m (h key) \<in> used m"
  obtains ys where "linked (nexts m) (bucket_of m (h key) # ys)" "distinct (bucket_of m (h key) # ys)"
    "\<forall>x\<in>set (bucket_of m (h key) # ys). EMH_EQHASH m x (h (key_at m x))" "set (bucket_of m (h key) # ys) \<subseteq> used m"
    "case List.find (\<lambda>x. key = key_at m x) (bucket_of m (h key) # ys) of
       None \<Rightarrow> \<forall>x\<in>used m. key_at m x \<noteq> key | Some x \<Rightarrow> x \<in> used m \<and> key_at m x = key"
proof -
  define c where "c = bucket_of m (h key)"
  obtain ys where ys: "linked (nexts m) (c # ys)" "distinct (c # ys)" "set (c # ys) \<subseteq> used m"
    "\<forall>x\<in>used m. key_at m x = key \<longrightarrow> x \<in> set (c # ys)"
    using search_start(2) [OF m c_def] c by (auto simp only: c_def)
  have eq: "\<forall>x\<in>set (c # ys). EMH_EQHASH m x (h (key_at m x))" using ys(3) m(2) by (auto simp: index_ok_def)
  have "case List.find (\<lambda>x. key = key_at m x) (c # ys) of
       None \<Rightarrow> \<forall>x\<in>used m. key_at m x \<noteq> key | Some x \<Rightarrow> x \<in> used m \<and> key_at m x = key"
  proof (cases "List.find (\<lambda>x. key = key_at m x) (c # ys)")
    case None
    then have "\<forall>x\<in>set (c # ys). key_at m x \<noteq> key" unfolding find_None_iff by blast
    then have "\<forall>x\<in>used m. key_at m x \<noteq> key" using ys(4) by blast
    then show ?thesis unfolding None by simp
  next
    case (Some x)
    then obtain i where i: "i < length (c # ys)" "key = key_at m ((c # ys) ! i)" "x = (c # ys) ! i"
      unfolding find_Some_iff by blast
    then have "x \<in> set (c # ys)" "key_at m x = key" using nth_mem [OF i(1)] by (simp_all only:)
    then show ?thesis using ys(3) unfolding Some by auto
  qed
  from that [folded c_def, OF ys(1,2) eq ys(3) this] show ?thesis .
qed

lemma find_filled_bucket_ok:
  assumes m: "shape k m" "index_ok h m nf ch"
  shows "\<exists>b. find_filled_bucket m key (h key) = Some b \<and>
    (if b = INACTIVE then \<forall>x\<in>used m. key_at m x \<noteq> key else b \<in> used m \<and> key_at m b = key)"
proof (cases "bucket_of m (h key) \<in> used m")
  case False
  then have "find_filled_bucket m key (h key) = Some INACTIVE"
    using bucket_less [OF m(1), of "h key"] by (simp add: find_filled_bucket_def used_def Let_def)
  then show ?thesis using search_start(1) [OF m refl False] by auto
next
  case True
  have start: "find_filled_bucket m key (h key) = find_bucket_loop m key (h key) (bucket_of m (h key))"
    using True by (subst find_bucket_loop.simps) (simp add: find_filled_bucket_def used_def Let_def)
  from search_walk [OF m True] obtain ys where ys: "linked (nexts m) (bucket_of m (h key) # ys)" "distinct (bucket_of m (h key) # ys)"
    "\<forall>x\<in>set (bucket_of m (h key) # ys). EMH_EQHASH m x (h (key_at m x))"
    "case List.find (\<lambda>x. key = key_at m x) (bucket_of m (h key) # ys) of
       None \<Rightarrow> \<forall>x\<in>used m. key_at m x \<noteq> key | Some x \<Rightarrow> x \<in> used m \<and> key_at m x = key" .
  show ?thesis
    using ys(4) INACTIVE_unused [OF m(1)] unfolding start find_bucket_loop_chain [OF ys(1-3)]
    by (cases "List.find (\<lambda>x. key = key_at m x) (bucket_of m (h key) # ys)") (auto simp del: find.simps)
qed

lemma find_filled_slot_ok:
  assumes m: "shape k m" "index_ok h m nf ch"
  shows "\<exists>s. find_filled_slot h m key = Some s \<and>
    ((s = num_filled m \<and> (\<forall>x\<in>used m. key_at m x \<noteq> key)) \<or> (\<exists>b\<in>used m. s = slot_at m b \<and> key_at m b = key))"
proof (cases "bucket_of m (h key) \<in> used m")
  case False
  then have "find_filled_slot h m key = Some (num_filled m)"
    using bucket_less [OF m(1), of "h key"] by (simp add: find_filled_slot_def used_def Let_def)
  then show ?thesis using search_start(1) [OF m refl False] by auto
next
  case True
  have start: "find_filled_slot h m key = find_slot_loop m key (h key) (bucket_of m (h key))"
    using True by (subst find_slot_loop.simps) (simp add: find_filled_slot_def used_def Let_def)
  from search_walk [OF m True] obtain ys where ys: "linked (nexts m) (bucket_of m (h key) # ys)" "distinct (bucket_of m (h key) # ys)"
    "\<forall>x\<in>set (bucket_of m (h key) # ys). EMH_EQHASH m x (h (key_at m x))"
    "case List.find (\<lambda>x. key = key_at m x) (bucket_of m (h key) # ys) of
       None \<Rightarrow> \<forall>x\<in>used m. key_at m x \<noteq> key | Some x \<Rightarrow> x \<in> used m \<and> key_at m x = key" .
  show ?thesis
    using ys(4) unfolding start find_slot_loop_chain [OF ys(1-3)]
    by (cases "List.find (\<lambda>x. key = key_at m x) (bucket_of m (h key) # ys)") (auto simp del: find.simps)
qed

section \<open>Finding an empty bucket\<close>

lemma guards_used:
  assumes "shape k m"
  shows "\<not> EMH_EMPTY m (hm_num_buckets m)" and "\<not> EMH_EMPTY m (hm_num_buckets m + 1)"
  using assms by (simp_all add: shape_def EMH_EMPTY_def)

lemma quadratic_probe_ok:
  assumes "shape k m"
  shows "quadratic_probe m bucket_from offset steps = Some b \<Longrightarrow> b < hm_num_buckets m \<and> EMH_EMPTY m b"
proof (induction steps arbitrary: offset)
  case (Cons step steps)
  have lt: "masked m (bucket_from + offset) < hm_num_buckets m"
    using assms by (simp add: masked_mod) (simp add: shape_def)
  have "EMH_EMPTY m (masked m (bucket_from + offset) + 1) \<Longrightarrow> masked m (bucket_from + offset) + 1 < hm_num_buckets m"
    using lt guards_used(1) [OF assms] by (metis Suc_eq_plus1 Suc_lessI)
  then show ?case using Cons lt by (auto simp: Let_def split: if_splits)
qed simp

text \<open>
  The last probe visits the buckets \<open>l\<close> in order and the opposite buckets; the opposite one of some
  \<open>l\<close> is the free bucket \<open>b\<close>.
\<close>

definition opposite :: "('k, 'v) hashmap \<Rightarrow> nat" where
  "opposite m = (hm_num_buckets m div 2 + hm_last m + 1) mod hm_num_buckets m"

lemma last_probe_step:
  assumes "shape k m"
  defines "l \<equiv> hm_last m mod hm_num_buckets m + 1"
  shows "last_probe m =
      (if EMH_EMPTY m l then Some (m\<lparr>hm_last := l\<rparr>, l)
       else if EMH_EMPTY m (opposite m) then Some (m\<lparr>hm_last := l\<rparr>, opposite m)
       else last_probe (m\<lparr>hm_last := l\<rparr>))"
    and "opposite (m\<lparr>hm_last := l\<rparr>) = Suc (opposite m) mod hm_num_buckets m"
    and "EMH_EMPTY m l \<Longrightarrow> l < hm_num_buckets m"
proof -
  have l: "masked m (hm_last m) + 1 = l" by (simp add: l_def masked_mod [OF assms(1)])
  have opp: "masked m (hm_num_buckets m div 2 + l) = opposite m"
    by (simp add: masked_mod [OF assms(1)] opposite_def l_def) (metis add_Suc mod_add_right_eq)
  show "last_probe m =
      (if EMH_EMPTY m l then Some (m\<lparr>hm_last := l\<rparr>, l)
       else if EMH_EMPTY m (opposite m) then Some (m\<lparr>hm_last := l\<rparr>, opposite m)
       else last_probe (m\<lparr>hm_last := l\<rparr>))"
    by (subst last_probe.simps) (simp only: l opp Let_def)
  show "opposite (m\<lparr>hm_last := l\<rparr>) = Suc (opposite m) mod hm_num_buckets m"
    by (simp add: opposite_def l_def mod_simps) (metis add_Suc mod_add_right_eq)
  have "hm_last m mod hm_num_buckets m < hm_num_buckets m" using assms(1) by (simp add: shape_def)
  then show "EMH_EMPTY m l \<Longrightarrow> l < hm_num_buckets m"
    using guards_used(1) [OF assms(1)] by (cases "l = hm_num_buckets m") (auto simp: l_def)
qed

lemma last_probe_ok:
  assumes "shape k m" and "b < hm_num_buckets m" and "EMH_EMPTY m b"
  shows "\<exists>m' e. last_probe m = Some (m', e) \<and> e < hm_num_buckets m \<and> EMH_EMPTY m e \<and> m' = m\<lparr>hm_last := hm_last m'\<rparr>"
  using assms
proof (induction "(b + hm_num_buckets m - opposite m) mod hm_num_buckets m" arbitrary: m)
  case (0 m)
  have "opposite m < hm_num_buckets m" using 0(2) by (simp add: opposite_def shape_def)
  then have "opposite m = b" using 0(1,3) by (auto simp: ring_distance split: if_splits)
  then show ?case using last_probe_step [OF 0(2)] 0(3,4) by auto
next
  case (Suc d m)
  let ?m = "m\<lparr>hm_last := hm_last m mod hm_num_buckets m + 1\<rparr>"
  have opp: "opposite m < hm_num_buckets m" using Suc(3) by (simp add: opposite_def shape_def)
  note step = last_probe_step [OF Suc(3)]
  have "opposite m \<noteq> b" using Suc(2) opp by auto
  then have "d = (b + hm_num_buckets ?m - opposite ?m) mod hm_num_buckets ?m"
    using ring_distance_pred [OF opp Suc(4)] Suc(2) step(2) by simp
  from Suc(1) [OF this] Suc(3-5) obtain m' e where
    "last_probe ?m = Some (m', e)" "e < hm_num_buckets m" "EMH_EMPTY m e" "m' = m\<lparr>hm_last := hm_last m'\<rparr>"
    by (auto simp: shape_def EMH_EMPTY_def)
  then show ?case using step opp by auto
qed

lemma find_empty_ok:
  assumes m: "shape k m" and "fw < hm_num_buckets m" and b: "b < hm_num_buckets m" "EMH_EMPTY m b"
  shows "\<exists>l e. find_empty_bucket m fw csize = Some (m\<lparr>hm_last := l\<rparr>, e) \<and> e < hm_num_buckets m \<and> EMH_EMPTY m e"
proof -
  have one: "EMH_EMPTY m (fw + 1) \<Longrightarrow> fw + 1 < hm_num_buckets m"
    using guards_used(1) [OF m] assms(2) by (metis Suc_eq_plus1 Suc_lessI)
  have two: "EMH_EMPTY m (fw + 2) \<Longrightarrow> fw + 2 < hm_num_buckets m"
    using guards_used [OF m] assms(2) by (cases "fw + 2 = hm_num_buckets m"; cases "fw + 1 = hm_num_buckets m") auto
  consider "EMH_EMPTY m (fw + 1)" | "\<not> EMH_EMPTY m (fw + 1)" "EMH_EMPTY m (fw + 2)"
    | "\<not> EMH_EMPTY m (fw + 1)" "\<not> EMH_EMPTY m (fw + 2)" by blast
  then show ?thesis
  proof cases
    case 1
    then show ?thesis using one by (intro exI [of _ "hm_last m"] exI [of _ "fw + 1"]) (simp add: find_empty_bucket_def)
  next
    case 2
    then show ?thesis using two by (intro exI [of _ "hm_last m"] exI [of _ "fw + 2"]) (simp add: find_empty_bucket_def)
  next
    case 3
    show ?thesis
    proof (cases "quadratic_probe m fw (1 + csize) [3, 4, 5]")
      case None
      obtain m' e where "last_probe m = Some (m', e)" "e < hm_num_buckets m" "EMH_EMPTY m e" "m' = m\<lparr>hm_last := hm_last m'\<rparr>"
        using last_probe_ok [OF m b] by blast
      with None 3 show ?thesis
        by (intro exI [of _ "hm_last m'"] exI [of _ e]) (simp add: find_empty_bucket_def del: quadratic_probe.simps)
    next
      case (Some e)
      with 3 quadratic_probe_ok [OF m Some] show ?thesis
        by (intro exI [of _ "hm_last m"] exI [of _ e]) (simp add: find_empty_bucket_def del: quadratic_probe.simps)
    qed
  qed
qed

end
