(* ===== verification/HashInsert.thy ===== *)
theory HashInsert
  imports HashIndex
begin

text \<open>
  Allocating a bucket in \<^verbatim>\<open>emhash8::HashMap\<close>: whichever way \<^verbatim>\<open>find_unique_bucket\<close> or
  \<^verbatim>\<open>find_or_allocate\<close> finds a place, writing the new link there keeps the index well-formed.
\<close>

section \<open>Updates of a link\<close>

lemma set_link_fields [simp]:
  "hm_pairs (set_link b l m) = hm_pairs m" "hm_mlf (set_link b l m) = hm_mlf m" "hm_mask (set_link b l m) = hm_mask m"
  "hm_num_buckets (set_link b l m) = hm_num_buckets m" "hm_last (set_link b l m) = hm_last m" "hm_etail (set_link b l m) = hm_etail m"
  "length (hm_index (set_link b l m)) = length (hm_index m)"
  by (simp_all add: set_link_def)

lemma set_next_fields [simp]:
  "hm_pairs (set_next b v m) = hm_pairs m" "hm_mlf (set_next b v m) = hm_mlf m" "hm_mask (set_next b v m) = hm_mask m"
  "hm_num_buckets (set_next b v m) = hm_num_buckets m" "hm_last (set_next b v m) = hm_last m" "hm_etail (set_next b v m) = hm_etail m"
  "length (hm_index (set_next b v m)) = length (hm_index m)"
  by (simp_all add: set_next_def)

lemma set_link_at:
  assumes "b < length (hm_index m)"
  shows "hm_index (set_link b l m) ! x = (if x = b then l else hm_index m ! x)"
  using assms by (simp add: set_link_def)

lemma set_next_at:
  assumes "b < length (hm_index m)"
  shows "nexts (set_next b v m) x = (if x = b then v else nexts m x)"
    and "slot_at (set_next b v m) x = slot_at m x" and "EMH_EQHASH (set_next b v m) x kh = EMH_EQHASH m x kh"
  using assms by (simp_all add: set_next_def set_link_at slot_at_def EMH_EQHASH_def)

lemma bucket_of_fields [simp]:
  "bucket_of (set_link b l m) = bucket_of m" "bucket_of (set_next b v m) = bucket_of m"
  "bucket_of (m\<lparr>hm_pairs := ps\<rparr>) = bucket_of m" "bucket_of (m\<lparr>hm_last := x\<rparr>) = bucket_of m" "bucket_of (m\<lparr>hm_etail := x\<rparr>) = bucket_of m"
  by (simp_all add: bucket_of_def fun_eq_iff)

lemma slot_at_fields [simp]:
  "slot_at (m\<lparr>hm_pairs := ps\<rparr>) = slot_at m" "slot_at (m\<lparr>hm_last := x\<rparr>) = slot_at m" "slot_at (m\<lparr>hm_etail := x\<rparr>) = slot_at m"
  "EMH_EQHASH (m\<lparr>hm_pairs := ps\<rparr>) = EMH_EQHASH m" "EMH_EQHASH (m\<lparr>hm_last := x\<rparr>) = EMH_EQHASH m" "EMH_EQHASH (m\<lparr>hm_etail := x\<rparr>) = EMH_EQHASH m"
  by (simp_all add: slot_at_def EMH_EQHASH_def fun_eq_iff)

lemma empty_fields [simp]:
  "EMH_EMPTY (m\<lparr>hm_pairs := ps\<rparr>) = EMH_EMPTY m" "EMH_EMPTY (m\<lparr>hm_last := x\<rparr>) = EMH_EMPTY m" "EMH_EMPTY (m\<lparr>hm_etail := x\<rparr>) = EMH_EMPTY m"
  "used (m\<lparr>hm_pairs := ps\<rparr>) = used m" "used (m\<lparr>hm_last := x\<rparr>) = used m" "used (m\<lparr>hm_etail := x\<rparr>) = used m"
  by (simp_all add: EMH_EMPTY_def used_def fun_eq_iff)

lemma shape_upd:
  "shape k (m\<lparr>hm_pairs := ps\<rparr>) = shape k m" "shape k (m\<lparr>hm_last := x\<rparr>) = shape k m" "shape k (m\<lparr>hm_etail := x\<rparr>) = shape k m"
  "shape k m \<Longrightarrow> b < hm_num_buckets m \<Longrightarrow> shape k (set_link b l m)"
  "shape k m \<Longrightarrow> b < hm_num_buckets m \<Longrightarrow> shape k (set_next b v m)"
  by (auto simp: shape_def set_next_def set_link_def)

lemma shape_index: "shape k m \<Longrightarrow> b < hm_num_buckets m \<Longrightarrow> b < length (hm_index m)"
  by (simp add: shape_def)

lemma unused_iff: "b < hm_num_buckets m \<Longrightarrow> EMH_EMPTY m b \<longleftrightarrow> b \<notin> used m"
  by (auto simp: EMH_EMPTY_def used_def)

section \<open>Writing the new link\<close>

text \<open>\<open>b\<close> is a place for slot \<open>s\<close>: with the link written there the index covers one slot more.\<close>

definition takes :: "('k \<Rightarrow> 64 word) \<Rightarrow> nat \<Rightarrow> 64 word \<Rightarrow> ('k, 'v) hashmap \<Rightarrow> nat \<Rightarrow> bool" where
  "takes h s kh m b \<longleftrightarrow> b < hm_num_buckets m \<and> EMH_EMPTY m b \<and>
     (\<forall>ps. take s ps = take s (hm_pairs m) \<and> s < length ps \<and> h (fst (ps ! s)) = kh \<longrightarrow>
        (\<exists>ch. index_ok h (set_link b \<lparr>ix_next = b, ix_slot = slot_word m s kh\<rparr> (m\<lparr>hm_pairs := ps\<rparr>)) (Suc s) ch))"

lemma bucket_of_mask: "shape k m \<Longrightarrow> shape k F \<Longrightarrow> bucket_of F = bucket_of m"
  by (simp add: shape_def bucket_of_def fun_eq_iff)

text \<open>
  A new index \<open>F\<close> whose used buckets are \<open>b\<close>, with the slot \<open>s\<close>, and the buckets that \<open>q\<close> takes back
  to those of \<open>m\<close> with the same content.
\<close>

lemma index_extend:
  assumes m: "shape k m" "index_ok h m s ch" and F: "shape k F" "take s (hm_pairs F) = take s (hm_pairs m)" "s < num_filled F"
    and ch': "chained (hm_num_buckets F) (nexts F) ch'"
    and b: "b \<in> used F" "slot_at F b = s" "EMH_EQHASH F b (h (fst (hm_pairs F ! s)))" "b \<in> set (ch' (bucket_of F (h (fst (hm_pairs F ! s)))))"
    and q: "bij_betw q (used F - {b}) (used m)" "\<And>x. x \<in> used F - {b} \<Longrightarrow> slot_at F x = slot_at m (q x)"
      "\<And>x kh. x \<in> used F - {b} \<Longrightarrow> EMH_EQHASH F x kh = EMH_EQHASH m (q x) kh"
      "\<And>x c. x \<in> used F - {b} \<Longrightarrow> c < hm_num_buckets m \<Longrightarrow> q x \<in> set (ch c) \<Longrightarrow> x \<in> set (ch' c)"
  shows "index_ok h F (Suc s) ch'"
  unfolding index_ok_def
proof (intro conjI ballI)
  have nf: "s \<le> num_filled m" and bij: "bij_betw (slot_at m) (used m) {..<s}"
    and old: "\<And>x. x \<in> used m \<Longrightarrow> x \<in> set (ch (hash_main h m x)) \<and> EMH_EQHASH m x (h (key_at m x))"
    using m(2) by (simp_all add: index_ok_def)
  have "bij_betw (slot_at F) (used F - {b}) {..<s}"
    using bij_betw_trans [OF q(1) bij] bij_betw_cong [of "used F - {b}" "slot_at F" "slot_at m \<circ> q" "{..<s}"] q(2) by simp
  then have "bij_betw (slot_at F) (used F - {b} \<union> {b}) ({..<s} \<union> {s})"
    using notIn_Un_bij_betw [of b "used F - {b}" "slot_at F" "{..<s}"] b(2) by simp
  moreover have "used F - {b} \<union> {b} = used F" "{..<s} \<union> {s} = {..<Suc s}" using b(1) by auto
  ultimately show "bij_betw (slot_at F) (used F) {..<Suc s}" by simp
  fix x assume x: "x \<in> used F"
  have "x \<in> set (ch' (hash_main h F x)) \<and> EMH_EQHASH F x (h (key_at F x))"
  proof (cases "x = b")
    case True
    then show ?thesis using b by (simp add: hash_main_def)
  next
    case False
    then have x': "x \<in> used F - {b}" using x by simp
    then have qx: "q x \<in> used m" using q(1) by (auto simp: bij_betw_def)
    then have "slot_at m (q x) < s" using bij by (auto simp: bij_betw_def)
    then have "hm_pairs F ! slot_at m (q x) = hm_pairs m ! slot_at m (q x)" using F(2) by (metis nth_take)
    then have key: "key_at F x = key_at m (q x)" using q(2) [OF x'] by simp
    then have "hash_main h F x = hash_main h m (q x)" using bucket_of_mask [OF m(1) F(1)] by (simp add: hash_main_def)
    with old [OF qx] key q(3,4) [OF x'] hash_main_less [OF m(1)] show ?thesis by simp
  qed
  then show "x \<in> set (ch' (hash_main h F x))" "EMH_EQHASH F x (h (key_at F x))" by simp_all
qed (use F(3) ch' in simp_all)

lemma slot_word_at:
  assumes "shape k m" and "s < hm_num_buckets m"
  shows "unat (slot_word m s kh AND hm_mask m) = s" and "slot_word m s kh AND NOT (hm_mask m) = ucast kh AND NOT (hm_mask m)"
  using slot_word_slot [of s k] slot_word_tag [of s k] assms by (simp_all add: slot_word_def shape_def)

section \<open>The three ways to find a place\<close>

text \<open>A link written over \<open>m1\<close>, which has the same sizes as \<open>m\<close>.\<close>

lemma takesI:
  assumes m: "shape k m1" and b: "b < hm_num_buckets m1" "EMH_EMPTY m1 b" and s: "s < hm_num_buckets m1"
    and ok: "\<And>F. shape k F \<Longrightarrow> take s (hm_pairs F) = take s (hm_pairs m1) \<Longrightarrow> s < num_filled F \<Longrightarrow> h (fst (hm_pairs F ! s)) = kh \<Longrightarrow>
      nexts F = (nexts m1)(b := b) \<Longrightarrow> slot_at F = (slot_at m1)(b := s) \<Longrightarrow>
      (\<forall>x. x \<noteq> b \<longrightarrow> EMH_EQHASH F x = EMH_EQHASH m1 x) \<Longrightarrow> EMH_EQHASH F b kh \<Longrightarrow> \<exists>ch'. index_ok h F (Suc s) ch'"
  shows "takes h s kh m1 b"
  unfolding takes_def
proof (intro conjI allI impI b)
  fix ps assume ps: "take s ps = take s (hm_pairs m1) \<and> s < length ps \<and> h (fst (ps ! s)) = kh"
  let ?F = "set_link b \<lparr>ix_next = b, ix_slot = slot_word m1 s kh\<rparr> (m1\<lparr>hm_pairs := ps\<rparr>)"
  have idx: "hm_index ?F ! x = (if x = b then \<lparr>ix_next = b, ix_slot = slot_word m1 s kh\<rparr> else hm_index m1 ! x)" for x
    using shape_index [OF m b(1)] by (simp add: set_link_def)
  have "shape k ?F" using m b(1) by (simp add: shape_upd)
  moreover have "nexts ?F = (nexts m1)(b := b)" by (auto simp: idx)
  moreover have "slot_at ?F = (slot_at m1)(b := s)" using slot_word_at(1) [OF m s] by (auto simp: slot_at_def idx)
  moreover have "\<forall>x. x \<noteq> b \<longrightarrow> EMH_EQHASH ?F x = EMH_EQHASH m1 x" by (auto simp: EMH_EQHASH_def idx fun_eq_iff)
  moreover have "EMH_EQHASH ?F b kh" using slot_word_at(2) [OF m s] by (simp add: EMH_EQHASH_def idx)
  ultimately show "\<exists>ch. index_ok h ?F (Suc s) ch" using ok [of ?F] ps by simp
qed

lemma bucket_small: "shape k m \<Longrightarrow> b < hm_num_buckets m \<Longrightarrow> b < 2 ^ 31"
  using power_increasing [of k 31 "2 :: nat"] by (auto simp: shape_def)

lemma same_buckets: "shape k m \<Longrightarrow> shape k F \<Longrightarrow> hm_num_buckets F = hm_num_buckets m"
  by (simp add: shape_def)

lemma head_used:
  assumes m: "shape k m" "index_ok h m s ch" and c: "c < hm_num_buckets m" "ch c \<noteq> []"
  shows "hd (ch c) = c" and "c \<in> set (ch c)" and "c \<in> used m"
proof -
  have "chained (hm_num_buckets m) (nexts m) ch" using m(2) by (simp add: index_ok_def)
  then show hd: "hd (ch c) = c" using chained_facts(4) c by blast
  then show "c \<in> set (ch c)" using c(2) by (metis hd_in_set)
  then show "c \<in> used m" using used_chain [OF m] c(1) by blast
qed

text \<open>The main bucket is empty.\<close>

lemma takes_main:
  assumes m: "shape k m" "index_ok h m s ch" and s: "s < hm_num_buckets m"
    and c: "c = bucket_of m kh" "c < hm_num_buckets m" "c \<notin> used m"
  shows "takes h s kh m c"
proof (rule takesI [OF m(1) c(2)])
  show "EMH_EMPTY m c" using c by (simp add: unused_iff)
  have ch: "chained (hm_num_buckets m) (nexts m) ch" using m(2) by (simp add: index_ok_def)
  have empty: "ch c = []" using head_used(3) [OF m c(2)] c(3) by blast
  fix F assume F: "shape k F" "take s (hm_pairs F) = take s (hm_pairs m)" "s < num_filled F" "h (fst (hm_pairs F ! s)) = kh"
    "nexts F = (nexts m)(c := c)" "slot_at F = (slot_at m)(c := s)" "\<forall>x. x \<noteq> c \<longrightarrow> EMH_EQHASH F x = EMH_EQHASH m x" "EMH_EQHASH F c kh"
  note nb = same_buckets [OF m(1) F(1)]
  have used: "used F = Set.insert c (used m)"
    using c(2) bucket_small [OF m(1) c(2)] fun_cong [OF F(5)] by (auto simp: used_def nb split: if_splits)
  have "chained (hm_num_buckets F) (nexts F) (ch(c := [c]))"
    unfolding nb F(5)
    using c(2,3) bucket_small [OF m(1) c(2)] used_chain [OF m] by (intro chained_upd [OF ch c(2)]) (auto simp: empty)
  then have "index_ok h F (Suc s) (ch(c := [c]))"
  proof (rule index_extend [OF m F(1-3), of _ c "\<lambda>x. x"])
    show "bij_betw (\<lambda>x. x) (used F - {c}) (used m)" using c(3) by (simp add: used bij_betw_def inj_on_def)
  qed (use F used c empty bucket_of_mask [OF m(1) F(1)] in auto)
  then show "\<exists>ch'. index_ok h F (Suc s) ch'" by blast
qed (rule s)

text \<open>The chain of the main bucket is extended by an empty bucket.\<close>

lemma takes_append:
  assumes m: "shape k m" "index_ok h m s ch" and s: "s < hm_num_buckets m"
    and c: "c = bucket_of m kh" "c < hm_num_buckets m" and xs: "ch c = xs @ [l]" and e: "e < hm_num_buckets m" "e \<notin> used m"
  shows "takes h s kh (set_next l e (m\<lparr>hm_last := v\<rparr>)) e" (is "takes h s kh ?m e")
proof -
  have ch: "chained (hm_num_buckets m) (nexts m) ch" using m(2) by (simp add: index_ok_def)
  have l: "l < hm_num_buckets m" "l \<in> used m" using chained_facts(3) [OF ch c(2)] used_chain [OF m] c(2) by (auto simp: xs)
  have le: "l \<noteq> e" using l(2) e(2) by blast
  have ll: "l < length (hm_index (m\<lparr>hm_last := v\<rparr>))" using shape_index [OF m(1) l(1)] by simp
  have "shape k ?m" using m(1) l(1) by (simp add: shape_upd)
  then show ?thesis
  proof (rule takesI)
    show "e < hm_num_buckets ?m" "s < hm_num_buckets ?m" using e(1) s by simp_all
    show "EMH_EMPTY ?m e" using e le by (simp add: EMH_EMPTY_def set_next_at [OF ll]) (simp add: used_def)
    fix F assume F: "shape k F" "take s (hm_pairs F) = take s (hm_pairs ?m)" "s < num_filled F" "h (fst (hm_pairs F ! s)) = kh"
      "nexts F = (nexts ?m)(e := e)" "slot_at F = (slot_at ?m)(e := s)" "\<forall>x. x \<noteq> e \<longrightarrow> EMH_EQHASH F x = EMH_EQHASH ?m x" "EMH_EQHASH F e kh"
    note nb = same_buckets [OF m(1) F(1)]
    have N: "nexts F = (nexts m)(l := e, e := e)" unfolding F(5) by (auto simp: set_next_at [OF ll])
    have slot: "slot_at F = (slot_at m)(e := s)" unfolding F(6) by (auto simp: set_next_at [OF ll])
    have eq: "x \<noteq> e \<Longrightarrow> EMH_EQHASH F x kh = EMH_EQHASH m x kh" for x kh using F(7) by (simp add: set_next_at [OF ll])
    have used: "used F = Set.insert e (used m)"
      using e(1) l bucket_small [OF m(1) e(1)] fun_cong [OF N] by (auto simp: used_def nb split: if_splits)
    note facts = chained_facts [OF ch c(2), unfolded xs]
    have sub: "set (ch c) \<subseteq> used m" using used_chain [OF m] c(2) by blast
    have fresh: "e \<notin> set (xs @ [l])" using sub e(2) by (auto simp: xs)
    have "chained (hm_num_buckets m) (nexts F) (ch(c := xs @ [l, e]))"
    proof (rule chained_upd [OF ch c(2)])
      show "linked (nexts F) (xs @ [l, e])" unfolding N by (rule linked_snoc [OF facts(1,2) fresh])
      show "distinct (xs @ [l, e])" "set (xs @ [l, e]) \<subseteq> {..<hm_num_buckets m}" "xs @ [l, e] = [] \<or> hd (xs @ [l, e]) = c"
        using facts fresh e(1) by (auto simp: hd_append)
      show "set (xs @ [l, e]) \<inter> set (ch d) = {}" if "d < hm_num_buckets m" "d \<noteq> c" for d
        using chained_disjoint [OF ch c(2) that(1)] that(2) e(2) used_chain [OF m] that(1) by (auto simp: xs)
      show "nexts F b = nexts m b" if "b \<notin> set (ch c)" "b \<notin> set (xs @ [l, e])" for b using that fun_cong [OF N, of b] by auto
      show "nexts F b < 2 ^ 31" if "b \<in> set (xs @ [l, e])" for b
        using that sub used e(1) unfolding xs by (auto simp: used_def)
    qed (auto simp: xs)
    then have "chained (hm_num_buckets F) (nexts F) (ch(c := xs @ [l, e]))" by (simp add: nb)
    then have "index_ok h F (Suc s) (ch(c := xs @ [l, e]))"
    proof (rule index_extend [OF m F(1) F(2) [simplified] F(3), of _ e "\<lambda>x. x"])
      show "bij_betw (\<lambda>x. x) (used F - {e}) (used m)" using e(2) by (simp add: used bij_betw_def inj_on_def)
      show "e \<in> set ((ch(c := xs @ [l, e])) (bucket_of F (h (fst (hm_pairs F ! s)))))"
        using bucket_of_mask [OF m(1) F(1)] by (simp add: F(4) c(1))
      show "x \<in> set ((ch(c := xs @ [l, e])) d)" if "x \<in> set (ch d)" for x d using that by (auto simp: xs)
      show "slot_at F x = slot_at m x" "EMH_EQHASH F x kh = EMH_EQHASH m x kh" if "x \<in> used F - {e}" for x kh
        using that slot eq by simp_all
      show "e \<in> used F" "slot_at F e = s" "EMH_EQHASH F e (h (fst (hm_pairs F ! s)))" using F(4,8) slot used by simp_all
    qed
    then show "\<exists>ch'. index_ok h F (Suc s) ch'" by blast
  qed
qed

text \<open>
  The main bucket is occupied by a pair of another chain, \<open>xs @ p # c # ys\<close>: that pair moves to an
  empty bucket \<open>e\<close> and its chain goes through \<open>e\<close> instead.
\<close>

lemma takes_kickout:
  assumes m: "shape k m" "index_ok h m s ch" and s: "s < hm_num_buckets m"
    and c: "c = bucket_of m kh" "c < hm_num_buckets m" and d: "d < hm_num_buckets m" "d \<noteq> c" "ch d = xs @ p # c # ys"
    and e: "e < hm_num_buckets m" "e \<notin> used m"
    and m1: "m1 = set_next c INACTIVE (set_next p e (set_link e
      \<lparr>ix_next = (if nexts m c = c then e else nexts m c), ix_slot = ix_slot (hm_index m ! c)\<rparr> (m\<lparr>hm_last := v\<rparr>)))"
  shows "takes h s kh m1 c"
proof -
  have ch: "chained (hm_num_buckets m) (nexts m) ch" using m(2) by (simp add: index_ok_def)
  note facts = chained_facts [OF ch d(1), unfolded d(3)]
  have sub: "set (xs @ p # c # ys) \<subseteq> used m" using used_chain [OF m] d(1) by (auto simp: d(3) [symmetric])
  then have p: "p < hm_num_buckets m" "p \<noteq> e" "p \<noteq> c" "c \<noteq> e" and cu: "c \<in> used m"
    using facts(2,3) e(2) by auto
  have fresh: "e \<notin> set (xs @ p # c # ys)" using sub e(2) by blast
  have empty: "ch c = []"
    using head_used(2) [OF m c(2)] chained_disjoint [OF ch d(1) c(2), of c] d(2,3) by auto
  have idx: "hm_index m1 ! x = (if x = c then (hm_index m ! c)\<lparr>ix_next := INACTIVE\<rparr> else if x = p then (hm_index m ! p)\<lparr>ix_next := e\<rparr>
      else if x = e then \<lparr>ix_next = (if nexts m c = c then e else nexts m c), ix_slot = ix_slot (hm_index m ! c)\<rparr> else hm_index m ! x)" for x
    using shape_index [OF m(1)] p e(1) c(2) by (auto simp: m1 set_next_def set_link_def nth_list_update)
  have mm: "hm_pairs m1 = hm_pairs m" "hm_mask m1 = hm_mask m" "hm_num_buckets m1 = hm_num_buckets m" by (simp_all add: m1)
  have "shape k m1" using m(1) p(1) e(1) c(2) by (simp add: m1 shape_upd)
  then show ?thesis
  proof (rule takesI)
    show "c < hm_num_buckets m1" "s < hm_num_buckets m1" using c(2) s by (simp_all add: mm)
    show "EMH_EMPTY m1 c" by (simp add: EMH_EMPTY_def idx INACTIVE_def)
    fix F assume F: "shape k F" "take s (hm_pairs F) = take s (hm_pairs m1)" "s < num_filled F" "h (fst (hm_pairs F ! s)) = kh"
      "nexts F = (nexts m1)(c := c)" "slot_at F = (slot_at m1)(c := s)" "\<forall>x. x \<noteq> c \<longrightarrow> EMH_EQHASH F x = EMH_EQHASH m1 x" "EMH_EQHASH F c kh"
    note nb = same_buckets [OF m(1) F(1)]
    define N where "N = nexts m1"
    have N: "N x = (if x = c then INACTIVE else if x = p then e else if x = e then (if nexts m c = c then e else nexts m c) else nexts m x)" for x
      by (simp add: N_def idx)
    have NF: "nexts F = N(c := c)" by (simp add: F(5) N_def)
    have slot: "x \<noteq> c \<Longrightarrow> slot_at F x = slot_at m (if x = e then c else x)" for x
      using p by (auto simp: F(6) slot_at_def idx mm)
    have eq: "x \<noteq> c \<Longrightarrow> EMH_EQHASH F x kh = EMH_EQHASH m (if x = e then c else x) kh" for x kh
      using p F(7) by (auto simp: EMH_EQHASH_def idx mm)
    have small: "nexts m c < 2 ^ 31" using cu by (simp add: used_def)
    have used: "used F = Set.insert e (used m)"
      using e(1) c(2) p sub small bucket_small [OF m(1) e(1)] bucket_small [OF m(1) c(2)] fun_cong [OF NF]
      by (auto simp: used_def nb N split: if_splits)
    have 1: "chained (hm_num_buckets m) N (ch(d := xs @ p # e # ys))"
    proof (rule chained_upd [OF ch d(1)])
      show "linked N (xs @ p # e # ys)" by (rule linked_replace [OF facts(1,2) fresh]) (use p in \<open>auto simp: N\<close>)
      show "distinct (xs @ p # e # ys)" "set (xs @ p # e # ys) \<subseteq> {..<hm_num_buckets m}"
        "xs @ p # e # ys = [] \<or> hd (xs @ p # e # ys) = d"
        using facts fresh e(1) by (auto simp: hd_append)
      show "set (xs @ p # e # ys) \<inter> set (ch b) = {}" if "b < hm_num_buckets m" "b \<noteq> d" for b
        using chained_disjoint [OF ch d(1) that(1)] that e(2) used_chain [OF m] by (auto simp: d(3))
      show "N b < 2 ^ 31" if "b \<in> set (xs @ p # e # ys)" for b
        using that facts(2) sub small p bucket_small [OF m(1) e(1)] by (auto simp: N used_def)
    qed (auto simp: N d(3) INACTIVE_def)
    have "chained (hm_num_buckets m) (nexts F) ((ch(d := xs @ p # e # ys))(c := [c]))"
    proof (rule chained_upd [OF 1 c(2)])
      show "set [c] \<inter> set ((ch(d := xs @ p # e # ys)) b) = {}" if "b < hm_num_buckets m" "b \<noteq> c" for b
        using chained_disjoint [OF ch d(1) that(1), of c] facts(2) p by (auto simp: d(3))
    qed (use bucket_small [OF m(1) c(2)] c(2) d(2) empty in \<open>auto simp: fun_cong [OF NF]\<close>)
    then have "chained (hm_num_buckets F) (nexts F) ((ch(d := xs @ p # e # ys))(c := [c]))" by (simp add: nb)
    then have "index_ok h F (Suc s) ((ch(d := xs @ p # e # ys))(c := [c]))"
    proof (rule index_extend [OF m F(1) F(2) [unfolded mm] F(3), of _ c "\<lambda>x. if x = e then c else x"])
      show "bij_betw (\<lambda>x. if x = e then c else x) (used F - {c}) (used m)"
        using cu e(2) p by (auto simp: used bij_betw_def inj_on_def image_iff)
      show "c \<in> set (((ch(d := xs @ p # e # ys))(c := [c])) (bucket_of F (h (fst (hm_pairs F ! s)))))"
        using bucket_of_mask [OF m(1) F(1)] by (simp add: F(4) c(1))
      show "x \<in> set (((ch(d := xs @ p # e # ys))(c := [c])) b)"
        if "x \<in> used F - {c}" "b < hm_num_buckets m" "(if x = e then c else x) \<in> set (ch b)" for x b
      proof -
        have "b \<noteq> c" using that(3) empty by auto
        moreover have "x \<in> set ((ch(d := xs @ p # e # ys)) b)"
        proof (cases "x = e")
          case True
          then have "b = d" using chained_disjoint [OF ch d(1) that(2), of c] that(3) by (simp add: d(3))
          then show ?thesis using True by simp
        next
          case False
          then show ?thesis using that(1,3) by (cases "b = d") (auto simp: d(3))
        qed
        ultimately show ?thesis by simp
      qed
      show "slot_at F x = slot_at m (if x = e then c else x)" "EMH_EQHASH F x kh = EMH_EQHASH m (if x = e then c else x) kh"
        if "x \<in> used F - {c}" for x kh using that slot eq by simp_all
      show "c \<in> used F" "slot_at F c = s" "EMH_EQHASH F c (h (fst (hm_pairs F ! s)))" using F(4,6,8) cu used by simp_all
    qed
    then show "\<exists>ch'. index_ok h F (Suc s) ch'" by blast
  qed
qed

section \<open>Allocation\<close>

definition frame :: "('k, 'v) hashmap \<Rightarrow> ('k, 'v) hashmap \<Rightarrow> bool" where
  "frame m m1 \<longleftrightarrow> hm_pairs m1 = hm_pairs m \<and> hm_mlf m1 = hm_mlf m \<and> hm_mask m1 = hm_mask m \<and> hm_num_buckets m1 = hm_num_buckets m \<and>
     hm_etail m1 = hm_etail m"

lemma empty_exists:
  assumes "index_ok h m s ch" and "s < hm_num_buckets m"
  obtains b where "b < hm_num_buckets m" "b \<notin> used m"
proof -
  have "card (used m) = s" using assms(1) bij_betw_same_card [of "slot_at m" "used m" "{..<s}"] by (simp add: index_ok_def)
  moreover have "used m \<subseteq> {..<hm_num_buckets m}" by (auto simp: used_def)
  ultimately have "used m \<noteq> {..<hm_num_buckets m}" using assms(2) by (metis card_lessThan less_irrefl)
  then show ?thesis using that \<open>used m \<subseteq> _\<close> by blast
qed

lemma find_empty_used:
  assumes m: "shape k m" "index_ok h m s ch" "s < hm_num_buckets m" and "fw < hm_num_buckets m"
  obtains l e where "find_empty_bucket m fw csize = Some (m\<lparr>hm_last := l\<rparr>, e)" "e < hm_num_buckets m" "e \<notin> used m"
proof -
  from empty_exists [OF m(2,3)] obtain b where b: "b < hm_num_buckets m" "b \<notin> used m" .
  then have "EMH_EMPTY m b" by (simp add: unused_iff)
  from find_empty_ok [OF m(1) assms(4) b(1) this, of csize] obtain l e where
    "find_empty_bucket m fw csize = Some (m\<lparr>hm_last := l\<rparr>, e)" "e < hm_num_buckets m" "EMH_EMPTY m e" by blast
  then show ?thesis using that by (simp add: unused_iff)
qed

lemma kickout_ok:
  assumes m: "shape k m" "index_ok h m s ch" "s < hm_num_buckets m"
    and c: "c = bucket_of m kh" "c \<in> used m" "hash_main h m c \<noteq> c"
  shows "\<exists>m1. kickout_bucket m (hash_main h m c) c = Some (m1, c) \<and> takes h s kh m1 c \<and> shape k m1 \<and> frame m m1"
proof -
  define d where "d = hash_main h m c"
  have c': "c < hm_num_buckets m" and next_small: "nexts m c < 2 ^ 31" using c(2) by (simp_all add: used_def)
  have ch: "chained (hm_num_buckets m) (nexts m) ch" using m(2) by (simp add: index_ok_def)
  have d: "d < hm_num_buckets m" "c \<in> set (ch d)" "d \<noteq> c"
    using m(2) c(2,3) by (simp_all add: d_def hash_main_less [OF m(1)] index_ok_def)
  have hd: "hd (ch d) = d" using head_used(1) [OF m(1,2) d(1)] d(2) by fastforce
  obtain zs ys where "ch d = zs @ c # ys" using d(2) by (auto simp: in_set_conv_decomp)
  moreover have "zs \<noteq> []" using hd d(3) calculation by auto
  ultimately obtain xs p where chd: "ch d = xs @ p # c # ys" by (cases zs rule: rev_cases) auto
  note facts = chained_facts [OF ch d(1), unfolded chd]
  have nx: "nexts m c < hm_num_buckets m"
  proof (cases ys)
    case Nil
    then show ?thesis using linked_self [of "nexts m" "xs @ [p]" c ys] facts(1,2) c' by simp
  next
    case (Cons y zs)
    then show ?thesis using linked_next [of "nexts m" "xs @ [p]" c y zs] facts(1,3) by simp
  qed
  from find_empty_used [OF m nx] obtain l e where
    e: "find_empty_bucket m (nexts m c) 2 = Some (m\<lparr>hm_last := l\<rparr>, e)" "e < hm_num_buckets m" "e \<notin> used m" .
  have "hd (xs @ [p]) = d" using hd by (cases xs) (simp_all add: chd)
  then have prev: "find_prev_bucket (m\<lparr>hm_last := l\<rparr>) d c = Some p"
    using facts(1,2) by (intro find_prev_chain [where xs = xs and ys = ys]) simp_all
  define m1 where "m1 = set_next c INACTIVE (set_next p e (set_link e
      \<lparr>ix_next = (if nexts m c = c then e else nexts m c), ix_slot = ix_slot (hm_index m ! c)\<rparr> (m\<lparr>hm_last := l\<rparr>)))"
  have "kickout_bucket m d c = Some (m1, c)" using e(1) prev by (simp add: kickout_bucket_def Let_def m1_def)
  moreover have "takes h s kh m1 c"
    by (rule takes_kickout [OF m c(1) c' d(1,3) chd e(2,3) m1_def])
  moreover have "p < hm_num_buckets m" using facts(3) by simp
  then have "shape k m1" using m(1) c' e(2) by (simp add: m1_def shape_upd)
  moreover have "frame m m1" by (simp add: frame_def m1_def)
  ultimately show ?thesis by (auto simp: d_def)
qed

lemma append_ok:
  assumes m: "shape k m" "index_ok h m s ch" "s < hm_num_buckets m" and c: "c = bucket_of m kh" "c < hm_num_buckets m" and xs: "ch c = xs @ [l]"
  shows "\<exists>m1 b. map_option (\<lambda>(m1, b). (set_next l b m1, b)) (find_empty_bucket m l csize) = Some (m1, b) \<and>
    takes h s kh m1 b \<and> shape k m1 \<and> frame m m1"
proof -
  have ch: "chained (hm_num_buckets m) (nexts m) ch" using m(2) by (simp add: index_ok_def)
  have l: "l < hm_num_buckets m" using chained_facts(3) [OF ch c(2)] by (simp add: xs)
  from find_empty_used [OF m l] obtain v e where
    e: "find_empty_bucket m l csize = Some (m\<lparr>hm_last := v\<rparr>, e)" "e < hm_num_buckets m" "e \<notin> used m" .
  show ?thesis
    using e(1) takes_append [OF m c xs e(2,3)] m(1) l by (auto simp: shape_upd frame_def)
qed

text \<open>The chain of a main bucket that holds one of its own pairs.\<close>

lemma own_chain:
  assumes m: "shape k m" "index_ok h m s ch" and c: "c \<in> used m" "hash_main h m c = c"
  obtains ys where "ch c = c # ys" "linked (nexts m) (c # ys)" "distinct (c # ys)"
proof -
  have c': "c < hm_num_buckets m" using c(1) by (simp add: used_def)
  have ch: "chained (hm_num_buckets m) (nexts m) ch" using m(2) by (simp add: index_ok_def)
  have "c \<in> set (ch c)" using m(2) c by (auto simp: index_ok_def)
  moreover from this have "hd (ch c) = c" using head_used(1) [OF m c'] by fastforce
  ultimately obtain ys where "ch c = c # ys" by (cases "ch c") auto
  with chained_facts(1,2) [OF ch c'] show ?thesis using that by simp
qed

lemma find_unique_ok:
  assumes m: "shape k m" "index_ok h m s ch" "s < hm_num_buckets m"
  shows "\<exists>m1 b. find_unique_bucket h m kh = Some (m1, b) \<and> takes h s kh m1 b \<and> shape k m1 \<and> frame m m1"
proof -
  define c where "c = bucket_of m kh"
  have c: "c < hm_num_buckets m" by (simp add: c_def bucket_less [OF m(1)])
  consider "c \<notin> used m" | "c \<in> used m" "hash_main h m c \<noteq> c" | "c \<in> used m" "hash_main h m c = c" by blast
  then show ?thesis
  proof cases
    case 1
    then have "find_unique_bucket h m kh = Some (m, c)" using c by (simp add: find_unique_bucket_def used_def c_def Let_def)
    then show ?thesis using takes_main [OF m c_def c 1] m(1) by (auto simp: frame_def)
  next
    case 2
    then have "find_unique_bucket h m kh = kickout_bucket m (hash_main h m c) c"
      by (simp add: find_unique_bucket_def used_def c_def Let_def)
    then show ?thesis using kickout_ok [OF m c_def 2] by auto
  next
    case 3
    from own_chain [OF m(1,2) 3] obtain ys where ys: "ch c = c # ys" "linked (nexts m) (c # ys)" "distinct (c # ys)" .
    have last: "(if nexts m c \<noteq> c then find_last_bucket m (nexts m c) else Some (nexts m c)) = Some (last (c # ys))"
    proof (cases ys)
      case Nil
      then show ?thesis using ys(2) by simp
    next
      case (Cons y zs)
      then have y: "nexts m c = y" "y \<noteq> c" "linked (nexts m) (y # zs)" "distinct (y # zs)" using ys(2,3) by auto
      have "find_last_bucket m y = find_last_loop m y"
        by (subst find_last_loop.simps) (simp add: find_last_bucket_def Let_def)
      then show ?thesis using find_last_loop_chain [OF y(3,4)] y(1,2) by (simp add: Cons)
    qed
    have "ch c = butlast (c # ys) @ [last (c # ys)]" by (simp only: ys(1) append_butlast_last_id list.distinct not_False_eq_True)
    from append_ok [OF m c_def c this, of 2] obtain m1 b where
      "map_option (\<lambda>(m1, b). (set_next (last (c # ys)) b m1, b)) (find_empty_bucket m (last (c # ys)) 2) = Some (m1, b)"
      "takes h s kh m1 b \<and> shape k m1 \<and> frame m m1" by blast
    moreover have "find_unique_bucket h m kh =
        map_option (\<lambda>(m1, b). (set_next (last (c # ys)) b m1, b)) (find_empty_bucket m (last (c # ys)) 2)"
      using 3 last by (simp add: find_unique_bucket_def used_def c_def [symmetric] Let_def del: last.simps)
    ultimately show ?thesis by auto
  qed
qed

lemma key_in_main_chain:
  assumes m: "shape k m" "index_ok h m s ch" and x: "x \<in> used m" "key_at m x = key"
  shows "x \<in> set (ch (bucket_of m (h key)))" and "hash_main h m (bucket_of m (h key)) = bucket_of m (h key)"
    and "bucket_of m (h key) \<in> used m"
proof -
  let ?c = "bucket_of m (h key)"
  show xc: "x \<in> set (ch ?c)" using m(2) x by (auto simp: index_ok_def hash_main_def)
  note head = head_used [OF m bucket_less [OF m(1)], of "h key"]
  have ne: "ch ?c \<noteq> []" using xc by auto
  show "hash_main h m ?c = ?c" by (rule chain_main [OF m bucket_less [OF m(1)] head(2) [OF ne]])
  show "?c \<in> used m" by (rule head(3) [OF ne])
qed

lemma find_or_allocate_ok:
  assumes m: "shape k m" "index_ok h m s ch" "s < hm_num_buckets m"
  shows "\<exists>m1 b. find_or_allocate h m key (h key) = Some (m1, b) \<and> shape k m1 \<and> frame m m1 \<and>
    (if \<exists>x\<in>used m. key_at m x = key then m1 = m \<and> b \<in> used m \<and> key_at m b = key else takes h s (h key) m1 b)"
proof -
  define c where "c = bucket_of m (h key)"
  have c: "c < hm_num_buckets m" by (simp add: c_def bucket_less [OF m(1)])
  note own = key_in_main_chain [OF m(1,2), of _ key, folded c_def]
  consider "c \<notin> used m" | "c \<in> used m" "hash_main h m c \<noteq> c" | "c \<in> used m" "hash_main h m c = c" by blast
  then show ?thesis
  proof cases
    case 1
    then have "find_or_allocate h m key (h key) = Some (m, c)" using c by (simp add: find_or_allocate_def used_def c_def Let_def)
    moreover have "\<not> (\<exists>x\<in>used m. key_at m x = key)" using own(3) 1 by blast
    ultimately show ?thesis using takes_main [OF m c_def c 1] m(1) by (auto simp: frame_def)
  next
    case 2
    have none: "\<not> (\<exists>x\<in>used m. key_at m x = key)" using own(2) 2(2) by blast
    then have "key \<noteq> key_at m c" using 2(1) by blast
    then have "find_or_allocate h m key (h key) = kickout_bucket m (hash_main h m c) c"
      using 2 by (simp add: find_or_allocate_def used_def c_def [symmetric] Let_def hash_main_def hash_bucket_def)
    moreover obtain m1 where "kickout_bucket m (hash_main h m c) c = Some (m1, c)" "takes h s (h key) m1 c" "shape k m1" "frame m m1"
      using kickout_ok [OF m c_def 2] by blast
    ultimately show ?thesis using none by auto
  next
    case 3
    from own_chain [OF m(1,2) 3] obtain ys where ys: "ch c = c # ys" "linked (nexts m) (c # ys)" "distinct (c # ys)" .
    have sub: "set (c # ys) \<subseteq> used m" unfolding ys(1) [symmetric] using used_chain [OF m(1,2)] c by blast
    then have eq: "\<forall>x\<in>set (c # ys). EMH_EQHASH m x (h (key_at m x))" using m(2) by (auto simp: index_ok_def)
    have run: "find_or_allocate h m key (h key) = Option.bind (allocate_loop m key (h key) c 0) (\<lambda>r.
        case r of Inl found \<Rightarrow> Some (m, found)
        | Inr (l, csize) \<Rightarrow> map_option (\<lambda>(m1, b). (set_next l b m1, b)) (find_empty_bucket m l csize))"
    proof (cases "EMH_EQHASH m c (h key) \<and> key = key_at m c")
      case True
      have "allocate_loop m key (h key) c 0 = Some (Inl c)" by (subst allocate_loop.simps) (rule if_P [OF True])
      moreover have "find_or_allocate h m key (h key) = Some (m, c)"
        using 3(1) unfolding find_or_allocate_def c_def [symmetric] Let_def if_P [OF True] by (simp add: used_def)
      ultimately show ?thesis by simp
    next
      case False
      have "allocate_loop m key (h key) c 0 =
          (if nexts m c = c then Some (Inr (c, 1)) else allocate_loop m key (h key) (nexts m c) 1)"
        by (subst allocate_loop.simps) (simp only: if_not_P [OF False] Let_def add_0)
      moreover have "find_or_allocate h m key (h key) =
          (if nexts m c = c then map_option (\<lambda>(m1, b). (set_next c b m1, b)) (find_empty_bucket m c 1)
           else Option.bind (allocate_loop m key (h key) (nexts m c) 1) (\<lambda>r.
             case r of Inl found \<Rightarrow> Some (m, found)
             | Inr (l, csize) \<Rightarrow> map_option (\<lambda>(m1, b). (set_next l b m1, b)) (find_empty_bucket m l csize)))"
        using 3 unfolding find_or_allocate_def c_def [symmetric] Let_def if_not_P [OF False] hash_bucket_def hash_main_def [symmetric]
        by (simp add: used_def)
      ultimately show ?thesis by simp
    qed
    show ?thesis
    proof (cases "List.find (\<lambda>x. key = key_at m x) (c # ys)")
      case None
      then have "\<forall>x\<in>set (ch c). key_at m x \<noteq> key" unfolding ys(1) find_None_iff by blast
      then have none: "\<not> (\<exists>x\<in>used m. key_at m x = key)" using own(1) by blast
      have "ch c = butlast (c # ys) @ [last (c # ys)]" by (simp only: ys(1) append_butlast_last_id list.distinct not_False_eq_True)
      from append_ok [OF m c_def c this, of "0 + length (c # ys)"] obtain m1 b where
        "map_option (\<lambda>(m1, b). (set_next (last (c # ys)) b m1, b)) (find_empty_bucket m (last (c # ys)) (0 + length (c # ys))) = Some (m1, b)"
        "takes h s (h key) m1 b" "shape k m1" "frame m m1" by blast
      then show ?thesis unfolding run allocate_loop_chain [OF ys(2,3) eq] None using none by auto
    next
      case (Some x)
      then obtain i where i: "i < length (c # ys)" "key = key_at m ((c # ys) ! i)" "x = (c # ys) ! i"
        unfolding find_Some_iff by blast
      then have "x \<in> set (c # ys)" "key_at m x = key" using nth_mem [OF i(1)] by (simp_all only:)
      then have "x \<in> used m" "key_at m x = key" using sub by auto
      then show ?thesis unfolding run allocate_loop_chain [OF ys(2,3) eq] Some using m(1) by (auto simp: frame_def)
    qed
  qed
qed

section \<open>Rebuilding the index\<close>

lemma index_ok_etail [simp]: "index_ok h (m\<lparr>hm_etail := x\<rparr>) nf ch = index_ok h m nf ch"
  by (simp add: index_ok_def hash_main_def)

lemma place_slots_ok:
  assumes "shape k m" and "index_ok h m s ch" and "s + n \<le> num_filled m" and "num_filled m \<le> hm_num_buckets m"
  shows "\<exists>m' ch'. place_slots h [s..<s + n] m = Some m' \<and> shape k m' \<and> frame m m' \<and> index_ok h m' (s + n) ch'"
  using assms
proof (induction n arbitrary: s m ch)
  case 0
  then show ?case by (auto simp: frame_def)
next
  case (Suc n)
  have s: "s < hm_num_buckets m" "s < num_filled m" using Suc.prems(3,4) by simp_all
  let ?kh = "h (fst (hm_pairs m ! s))"
  from find_unique_ok [OF Suc.prems(1,2) s(1)] obtain m1 b where
    m1: "find_unique_bucket h m ?kh = Some (m1, b)" "takes h s ?kh m1 b" "shape k m1" "frame m m1" by blast
  let ?m = "set_link b \<lparr>ix_next = b, ix_slot = slot_word m1 s ?kh\<rparr> m1"
  have fr: "hm_pairs m1 = hm_pairs m" "hm_num_buckets m1 = hm_num_buckets m" using m1(4) by (simp_all add: frame_def)
  have b: "b < hm_num_buckets m1" using m1(2) by (simp add: takes_def)
  obtain ch1 where ch1: "index_ok h (set_link b \<lparr>ix_next = b, ix_slot = slot_word m1 s ?kh\<rparr> (m1\<lparr>hm_pairs := hm_pairs m\<rparr>)) (Suc s) ch1"
    using m1(2) s(2) unfolding takes_def fr(1) by blast
  have "m1\<lparr>hm_pairs := hm_pairs m\<rparr> = m1" by (simp add: fr(1) [symmetric])
  with ch1 have ch1: "index_ok h ?m (Suc s) ch1" by simp
  have "shape k ?m" using m1(3) b by (simp add: shape_upd)
  from Suc.IH [OF this ch1] Suc.prems(3,4) fr obtain m' ch' where
    "place_slots h [Suc s..<Suc s + n] ?m = Some m'" "shape k m'" "frame ?m m'" "index_ok h m' (Suc s + n) ch'" by auto
  moreover have "[s..<s + Suc n] = s # [Suc s..<Suc s + n]" by (simp add: upt_conv_Cons)
  ultimately show ?case using m1(1,4) by (auto simp: Let_def frame_def)
qed

lemma grow_buckets_ok:
  assumes "2 \<le> j" and "j \<le> n" and "required \<le> 2 ^ n"
  shows "\<exists>k. grow_buckets (2 ^ j) required = Some (2 ^ k) \<and> j \<le> k \<and> k \<le> n \<and> required \<le> 2 ^ k"
  using assms(1,2)
proof (induction "n - j" arbitrary: j)
  case 0
  then have "j = n" by simp
  then show ?case using assms(3) by (subst grow_buckets.simps) (auto intro: exI [of _ n])
next
  case (Suc d)
  show ?case
  proof (cases "2 ^ j < required")
    case True
    have "d = n - Suc j" "2 \<le> Suc j" "Suc j \<le> n" using Suc.hyps(2) Suc.prems by simp_all
    from Suc.hyps(1) [OF this] obtain k where "grow_buckets (2 ^ Suc j) required = Some (2 ^ k)" "Suc j \<le> k" "k \<le> n" "required \<le> 2 ^ k"
      by blast
    moreover have "grow_buckets (2 ^ j) required = grow_buckets (2 ^ Suc j) required"
      using True by (subst grow_buckets.simps) (simp add: mult.commute)
    ultimately show ?thesis by auto
  next
    case False
    then show ?thesis using Suc.prems by (subst grow_buckets.simps) auto
  qed
qed

lemma grow_buckets_le:
  assumes "grow_buckets (if full then 2 ^ 16 else 4) required = Some num_buckets" and "required \<le> 2 ^ n" and "16 \<le> n"
  shows "num_buckets \<le> 2 ^ n"
proof -
  define j :: nat where "j = (if full then 16 else 2)"
  have "(if full then 2 ^ 16 else 4) = (2 :: nat) ^ j" "2 \<le> j" "j \<le> n" using assms(3) by (simp_all add: j_def)
  with grow_buckets_ok [OF this(2,3) assms(2)] assms(1) show ?thesis by auto
qed

lemma mask_of_nat: "k \<le> 31 \<Longrightarrow> (of_nat (2 ^ k - 1) :: 32 word) = mask k"
  by (simp add: mask_eq_exp_minus_1 of_nat_diff)

lemma empty_index:
  assumes "hm_index m = replicate (2 ^ k) \<lparr>ix_next = INACTIVE, ix_slot = - 1\<rparr> @ guards" and "hm_num_buckets m = 2 ^ k"
  shows "index_ok h m 0 (\<lambda>_. [])"
proof -
  have next_free: "nexts m b = INACTIVE" if "b < 2 ^ k" for b using that by (simp add: assms(1) nth_append)
  then have "used m = {}" by (auto simp: used_def assms(2) INACTIVE_def)
  moreover have "chained (2 ^ k) (nexts m) (\<lambda>_. [])" using next_free by (simp add: chained_def INACTIVE_def)
  ultimately show ?thesis by (simp add: index_ok_def assms(2) bij_betw_def)
qed

lemma rehash_ok:
  assumes "num_filled m \<le> required" and "required < max_size"
  shows "\<exists>m' k ch. rehash h required m = Some m' \<and> shape k m' \<and> index_ok h m' (num_filled m) ch \<and>
    hm_pairs m' = hm_pairs m \<and> hm_mlf m' = hm_mlf m \<and> hm_etail m' = INACTIVE \<and> required \<le> hm_num_buckets m' \<and>
    grow_buckets (if num_filled m > 2 ^ 16 then 2 ^ 16 else 4) required = Some (hm_num_buckets m')"
proof -
  define j :: nat where "j = (if num_filled m > 2 ^ 16 then 16 else 2)"
  have start: "(if num_filled m > 2 ^ 16 then 2 ^ 16 else 4) = (2 :: nat) ^ j" by (simp add: j_def)
  have "2 \<le> j" "j \<le> 31" "required \<le> 2 ^ 31" using assms(2) by (simp_all add: j_def max_size_def)
  from grow_buckets_ok [OF this] obtain k where
    k: "grow_buckets (2 ^ j) required = Some (2 ^ k)" "j \<le> k" "k \<le> 31" "required \<le> 2 ^ k" by blast
  have k2: "2 \<le> k" using k(2) \<open>2 \<le> j\<close> by simp
  define m1 where "m1 = (rebuild (2 ^ k) (m\<lparr>hm_last := 0, hm_mask := of_nat (2 ^ k - 1), hm_num_buckets := 2 ^ k\<rparr>))\<lparr>hm_etail := INACTIVE\<rparr>"
  have fields: "hm_pairs m1 = hm_pairs m" "hm_mlf m1 = hm_mlf m" "hm_num_buckets m1 = 2 ^ k" "hm_etail m1 = INACTIVE"
    "hm_mask m1 = mask k"
    using mask_of_nat [OF k(3)] by (simp_all add: m1_def rebuild_def)
  have idx: "hm_index m1 = replicate (2 ^ k) \<lparr>ix_next = INACTIVE, ix_slot = - 1\<rparr> @ replicate 2 \<lparr>ix_next = 0, ix_slot = 0\<rparr>"
    by (simp add: m1_def rebuild_def)
  have shape: "shape k m1" unfolding shape_def fields idx using k(3) k2 by (simp add: nth_append)
  have fits: "0 + num_filled m \<le> num_filled m1" "num_filled m1 \<le> hm_num_buckets m1" using assms(1) k(4) by (simp_all add: fields)
  from place_slots_ok [OF shape empty_index [OF idx fields(3)] fits] obtain m' ch' where
    m': "place_slots h [0..<num_filled m] m1 = Some m'" "shape k m'" "frame m1 m'" "index_ok h m' (num_filled m) ch'"
    unfolding add_0 by blast
  have "rehash h required m = place_slots h [0..<num_filled m] m1"
    using assms unfolding rehash_def start Let_def k(1) m1_def by simp
  with m' fields k(1,4) show ?thesis unfolding start by (intro exI [of _ m'] exI [of _ k] exI [of _ ch']) (simp add: frame_def)
qed

end
