(* ===== verification/HashErase.thy ===== *)
theory HashErase
  imports HashInsert
begin

text \<open>
  Erasing from \<^verbatim>\<open>emhash8::HashMap\<close>: unlinking a bucket from its chain, and moving the last pair
  into the slot that became free, keep the index well-formed.
\<close>

section \<open>Unlinking a bucket\<close>

text \<open>
  \<open>erase_bucket\<close> frees the bucket \<open>eb\<close> of \<open>m\<close>, and the link of \<open>sb\<close> is gone: every other bucket has
  the content that the bucket \<open>q\<close> of it had.
\<close>

definition erased :: "('k, 'v) hashmap \<Rightarrow> (nat \<Rightarrow> nat list) \<Rightarrow> nat \<Rightarrow> ('k, 'v) hashmap \<Rightarrow> nat \<Rightarrow> (nat \<Rightarrow> nat list) \<Rightarrow> (nat \<Rightarrow> nat) \<Rightarrow> bool" where
  "erased m ch sb m1 eb ch' q \<longleftrightarrow> frame m m1 \<and> eb \<in> used m \<and>
     chained (hm_num_buckets m) ((nexts m1)(eb := INACTIVE)) ch' \<and> bij_betw q (used m - {eb}) (used m - {sb}) \<and>
     (\<forall>x. x \<noteq> eb \<longrightarrow> (nexts m1 x < 2 ^ 31 \<longleftrightarrow> nexts m x < 2 ^ 31)) \<and>
     (\<forall>x\<in>used m - {eb}. ix_slot (hm_index m1 ! x) = ix_slot (hm_index m ! q x) \<and> (x \<noteq> sb \<longrightarrow> q x = x) \<and>
        (\<forall>c<hm_num_buckets m. q x \<in> set (ch c) \<longrightarrow> x \<in> set (ch' c)))"

lemma erasedI:
  assumes "frame m m1" and "eb \<in> used m" and "chained (hm_num_buckets m) ((nexts m1)(eb := INACTIVE)) ch'"
    and "bij_betw q (used m - {eb}) (used m - {sb})" and "\<And>x. nexts m1 x < 2 ^ 31 \<longleftrightarrow> nexts m x < 2 ^ 31"
    and "\<And>x. ix_slot (hm_index m1 ! x) = ix_slot (hm_index m ! q x)" and "\<And>x. x \<noteq> sb \<Longrightarrow> q x = x"
    and "\<And>x c. x \<in> used m - {eb} \<Longrightarrow> c < hm_num_buckets m \<Longrightarrow> q x \<in> set (ch c) \<Longrightarrow> x \<in> set (ch' c)"
  shows "erased m ch sb m1 eb ch' q"
  unfolding erased_def using assms by blast

lemma chain_shrinks:
  assumes ch: "chained n N ch" and c: "c < n" and eb: "eb \<in> set (ch c)" "2 ^ 31 \<le> N' eb"
    and xs: "linked N' xs" "distinct xs" "set xs = set (ch c) - {eb}" "xs = [] \<or> hd xs = c"
    and same: "\<And>b. b \<notin> set (ch c) \<Longrightarrow> N' b = N b" and small: "\<And>b. b \<in> set xs \<Longrightarrow> N' b < 2 ^ 31"
  shows "chained n N' (ch(c := xs))"
proof (rule chained_upd [OF ch c xs(1,2) _ xs(4)])
  show "set xs \<subseteq> {..<n}" using chained_facts(3) [OF ch c] xs(3) by blast
  show "set xs \<inter> set (ch d) = {}" if "d < n" "d \<noteq> c" for d
    using chained_disjoint [OF ch c that(1)] that(2) xs(3) by blast
qed (use xs(3) same small eb in auto)

lemma chain_used: "shape k m \<Longrightarrow> index_ok h m nf ch \<Longrightarrow> c < hm_num_buckets m \<Longrightarrow> set (ch c) \<subseteq> used m"
  using used_chain by blast

lemma erase_single:
  assumes m: "shape k m" "index_ok h m nf ch" and c: "c \<in> used m" and L: "ch c = [c]"
  shows "erased m ch c m c (ch(c := [])) id"
proof -
  have c': "c < hm_num_buckets m" using c by (simp add: used_def)
  have ch: "chained (hm_num_buckets m) (nexts m) ch" using m(2) by (simp add: index_ok_def)
  have "chained (hm_num_buckets m) ((nexts m)(c := INACTIVE)) (ch(c := []))"
    by (rule chain_shrinks [OF ch c', of c]) (auto simp: L INACTIVE_def)
  with c show ?thesis by (auto simp: erased_def frame_def L)
qed

lemma erase_head:
  assumes m: "shape k m" "index_ok h m nf ch" and c: "c \<in> used m" and L: "ch c = c # y # zs"
    and m1: "m1 = set_link c \<lparr>ix_next = (if nexts m y = y then c else nexts m y), ix_slot = ix_slot (hm_index m ! y)\<rparr> m"
  shows "erased m ch c m1 y (ch(c := c # zs)) (\<lambda>x. if x = c then y else x)"
proof -
  have c': "c < hm_num_buckets m" using c by (simp add: used_def)
  have ch: "chained (hm_num_buckets m) (nexts m) ch" using m(2) by (simp add: index_ok_def)
  note facts = chained_facts [OF ch c', unfolded L]
  have sub: "set (c # y # zs) \<subseteq> used m" using chain_used [OF m c'] by (simp add: L)
  have idx: "hm_index m1 ! x = (if x = c then \<lparr>ix_next = (if nexts m y = y then c else nexts m y), ix_slot = ix_slot (hm_index m ! y)\<rparr>
      else hm_index m ! x)" for x
    using set_link_at [OF shape_index [OF m(1) c']] by (simp add: m1)
  have small: "(if nexts m y = y then c else nexts m y) < 2 ^ 31" using sub bucket_small [OF m(1) c'] by (auto simp: used_def)
  have ne: "c \<noteq> y" "c \<notin> set zs" "y \<notin> set zs" using facts(2) by auto
  show ?thesis
  proof (rule erasedI)
    show "chained (hm_num_buckets m) ((nexts m1)(y := INACTIVE)) (ch(c := c # zs))"
    proof (rule chain_shrinks [OF ch c', of y])
      show "linked ((nexts m1)(y := INACTIVE)) (c # zs)"
        using linked_remove [of "nexts m" "[]" c y zs "(nexts m1)(y := INACTIVE)"] facts(1,2) ne by (simp add: idx)
      show "((nexts m1)(y := INACTIVE)) b < 2 ^ 31" if "b \<in> set (c # zs)" for b
        using that sub small ne by (auto simp: idx used_def)
    qed (use ne facts(2) in \<open>auto simp: L idx INACTIVE_def\<close>)
    show "bij_betw (\<lambda>x. if x = c then y else x) (used m - {y}) (used m - {c})"
      by (rule bij_betw_byWitness [where f' = "\<lambda>x. if x = y then c else x"]) (use sub ne in auto)
    show "x \<in> set ((ch(c := c # zs)) d)" if "x \<in> used m - {y}" "d < hm_num_buckets m" "(if x = c then y else x) \<in> set (ch d)" for x d
    proof (cases "d = c")
      case True
      then show ?thesis using that(1,3) by (auto simp: L split: if_splits)
    next
      case False
      then have "x \<noteq> c" using that(3) chained_disjoint [OF ch c' that(2), of y] by (auto simp: L)
      then show ?thesis using that(3) False by simp
    qed
    show "nexts m1 x < 2 ^ 31 \<longleftrightarrow> nexts m x < 2 ^ 31" for x using c small by (simp add: idx used_def)
  qed (use sub in \<open>simp_all add: frame_def m1 idx [unfolded m1]\<close>)
qed

lemma erase_inner:
  assumes m: "shape k m" "index_ok h m nf ch" and c: "c < hm_num_buckets m" and L: "ch c = xs @ p # b # ys"
    and m1: "m1 = set_next p (if b = nexts m b then p else nexts m b) m"
  shows "erased m ch b m1 b (ch(c := xs @ p # ys)) id"
proof -
  have ch: "chained (hm_num_buckets m) (nexts m) ch" using m(2) by (simp add: index_ok_def)
  note facts = chained_facts [OF ch c, unfolded L]
  have sub: "set (xs @ p # b # ys) \<subseteq> used m" using chain_used [OF m c] by (simp add: L)
  have p: "p < hm_num_buckets m" using facts(3) by auto
  have idx: "hm_index m1 ! x = (if x = p then (hm_index m ! p)\<lparr>ix_next := (if b = nexts m b then p else nexts m b)\<rparr> else hm_index m ! x)" for x
    using shape_index [OF m(1) p] by (simp add: m1 set_next_def set_link_def nth_list_update)
  have small: "(if b = nexts m b then p else nexts m b) < 2 ^ 31" using sub bucket_small [OF m(1) p] by (auto simp: used_def)
  have ne: "p \<noteq> b" "p \<notin> set xs" "b \<notin> set xs" "p \<notin> set ys" "b \<notin> set ys" using facts(2) by auto
  show ?thesis
  proof (rule erasedI)
    show "chained (hm_num_buckets m) ((nexts m1)(b := INACTIVE)) (ch(c := xs @ p # ys))"
    proof (rule chain_shrinks [OF ch c, of b])
      show "linked ((nexts m1)(b := INACTIVE)) (xs @ p # ys)"
        by (rule linked_remove [OF facts(1,2)]) (use ne in \<open>auto simp: idx\<close>)
      show "((nexts m1)(b := INACTIVE)) x < 2 ^ 31" if "x \<in> set (xs @ p # ys)" for x
        using that sub small ne by (auto simp: idx used_def)
      show "xs @ p # ys = [] \<or> hd (xs @ p # ys) = c" using facts(4) by (cases xs) auto
    qed (use ne facts(2) in \<open>auto simp: L idx INACTIVE_def\<close>)
    show "x \<in> set ((ch(c := xs @ p # ys)) d)" if "x \<in> used m - {b}" "id x \<in> set (ch d)" for x d
      using that by (auto simp: L)
    show "nexts m1 x < 2 ^ 31 \<longleftrightarrow> nexts m x < 2 ^ 31" for x using sub small by (simp add: idx used_def)
  qed (use sub in \<open>simp_all add: frame_def m1 idx [unfolded m1]\<close>)
qed

lemma erase_bucket_ok:
  assumes m: "shape k m" "index_ok h m nf ch" and sb: "sb \<in> used m"
  shows "\<exists>m1 eb ch' q. erase_bucket sb (hash_main h m sb) m = Some (m1, eb) \<and> shape k m1 \<and> erased m ch sb m1 eb ch' q"
proof -
  define c where "c = hash_main h m sb"
  have c: "c < hm_num_buckets m" using hash_main_less [OF m(1)] by (simp add: c_def)
  have ch: "chained (hm_num_buckets m) (nexts m) ch" using m(2) by (simp add: index_ok_def)
  have "sb \<in> set (ch c)" using m(2) sb by (simp add: index_ok_def c_def)
  then obtain xs ys where L: "ch c = xs @ sb # ys" by (meson split_list)
  note facts = chained_facts [OF ch c, unfolded L]
  show ?thesis
  proof (cases "sb = c")
    case True
    then have "xs = []" using facts(2,4) by (cases xs) auto
    with L True have L': "ch c = c # ys" by simp
    show ?thesis
    proof (cases ys)
      case Nil
      then have "nexts m c = c" using facts(1) \<open>xs = []\<close> True by simp
      then have "erase_bucket sb c m = Some (m, c)" using True by (simp add: erase_bucket_def)
      moreover have "erased m ch sb m c (ch(c := [])) id" using erase_single [OF m, of c] sb True L' Nil by simp
      ultimately show ?thesis unfolding c_def [symmetric] using m(1) by blast
    next
      case (Cons y zs)
      then have "nexts m c = y" "c \<noteq> y" using facts(1,2) \<open>xs = []\<close> True by auto
      then have "erase_bucket sb c m =
          Some (set_link c \<lparr>ix_next = (if nexts m y = y then c else nexts m y), ix_slot = ix_slot (hm_index m ! y)\<rparr> m, y)"
        using True by (simp add: erase_bucket_def Let_def)
      moreover note erase_head [OF m sb [unfolded True] L' [unfolded Cons] refl, folded True] shape_upd(4) [OF m(1) c]
      ultimately show ?thesis unfolding c_def [symmetric] using True by blast
    qed
  next
    case False
    then obtain us p where xs: "xs = us @ [p]" using facts(4) by (cases xs rule: rev_cases) auto
    have L': "ch c = us @ p # sb # ys" using L xs by simp
    have prev: "find_prev_bucket m c sb = Some p"
      by (rule find_prev_chain [of m us p sb ys]) (use facts(1,2,4) xs in \<open>auto simp: hd_append\<close>)
    have p: "p < hm_num_buckets m" using facts(3) xs by auto
    have "erase_bucket sb c m = Some (set_next p (if sb = nexts m sb then p else nexts m sb) m, sb)"
      using False prev by (simp add: erase_bucket_def Let_def)
    moreover note erase_inner [OF m c L' refl] shape_upd(5) [OF m(1) p]
    ultimately show ?thesis unfolding c_def [symmetric] by blast
  qed
qed

section \<open>Moving the last pair\<close>

lemma used_erased: "erased m ch sb m1 eb ch' q \<Longrightarrow> x < hm_num_buckets m \<Longrightarrow> (((nexts m1)(eb := INACTIVE)) x < 2 ^ 31 \<longleftrightarrow> x \<in> used m - {eb})"
  by (auto simp: erased_def used_def INACTIVE_def)

lemma slot_erased:
  assumes "erased m ch sb m1 eb ch' q" and "x \<in> used m - {eb}"
  shows "slot_at m1 x = slot_at m (q x)" and "EMH_EQHASH m1 x = EMH_EQHASH m (q x)" and "q x \<in> used m - {sb}"
proof -
  have "ix_slot (hm_index m1 ! x) = ix_slot (hm_index m ! q x)" "hm_mask m1 = hm_mask m"
    using assms by (simp_all add: erased_def frame_def)
  then show "slot_at m1 x = slot_at m (q x)" "EMH_EQHASH m1 x = EMH_EQHASH m (q x)"
    by (simp_all add: slot_at_def EMH_EQHASH_def fun_eq_iff)
  show "q x \<in> used m - {sb}" using assms bij_betwE [of q "used m - {eb}" "used m - {sb}"] by (simp add: erased_def)
qed

text \<open>Every slot but that of \<open>sb\<close> keeps its pair, the last one in the slot of \<open>sb\<close>.\<close>

lemma renumber:
  assumes "s < Suc n"
  shows "bij_betw (\<lambda>y. if y = n then s else y) ({..<Suc n} - {s}) {..<n}"
proof (cases "s = n")
  case True
  then show ?thesis by (intro bij_betw_byWitness [where f' = id]) auto
next
  case False
  then show ?thesis using assms by (intro bij_betw_byWitness [where f' = "\<lambda>y. if y = s then n else y"]) auto
qed

lemma index_shrink:
  assumes m: "shape k m" "index_ok h m (num_filled m) ch" and n: "num_filled m = Suc n" and sb: "sb \<in> used m" "s = slot_at m sb"
    and e: "erased m ch sb m1 eb ch' q"
    and F: "shape k F" "hm_pairs F = take n ((hm_pairs m)[s := hm_pairs m ! n])" "nexts F = (nexts m1)(eb := INACTIVE)"
      "\<And>x. x \<in> used m - {eb} \<Longrightarrow> slot_at F x = (if slot_at m (q x) = n then s else slot_at m (q x))"
      "\<And>x kh. x \<in> used m - {eb} \<Longrightarrow> EMH_EQHASH F x kh = EMH_EQHASH m (q x) kh"
  shows "index_ok h F n ch'"
  unfolding index_ok_def
proof (intro conjI ballI)
  note nb = same_buckets [OF m(1) F(1)]
  have used: "used F = used m - {eb}"
  proof (rule set_eqI)
    fix x
    have "x < hm_num_buckets m \<Longrightarrow> nexts F x < 2 ^ 31 \<longleftrightarrow> x \<in> used m - {eb}"
      using used_erased [OF e, of x] unfolding F(3) [THEN fun_cong] by blast
    then show "x \<in> used F \<longleftrightarrow> x \<in> used m - {eb}" by (auto simp: used_def nb)
  qed
  have bij: "bij_betw (slot_at m) (used m) {..<Suc n}" using m(2) by (simp add: index_ok_def n)
  have s: "s < Suc n" using bij_betwE [OF bij] sb by auto
  show "chained (hm_num_buckets F) (nexts F) ch'" using e unfolding erased_def nb F(3) by blast
  show "n \<le> num_filled F" by (simp add: F(2) n)
  have "bij_betw (slot_at m) (used m - {sb}) ({..<Suc n} - {s})"
    using bij_betw_DiffI [OF bij, of "{sb}" "{s}"] sb s by simp
  then have "bij_betw ((\<lambda>y. if y = n then s else y) \<circ> (slot_at m \<circ> q)) (used F) {..<n}"
    using e renumber [OF s] unfolding erased_def used by (blast intro: bij_betw_trans)
  then show "bij_betw (slot_at F) (used F) {..<n}"
    using bij_betw_cong [of "used F" "slot_at F" "(\<lambda>y. if y = n then s else y) \<circ> (slot_at m \<circ> q)" "{..<n}"] F(4) used by simp
  fix x assume "x \<in> used F"
  then have x: "x \<in> used m - {eb}" by (simp add: used)
  have qx: "q x \<in> used m" "q x \<noteq> sb" using slot_erased(3) [OF e x] by auto
  have less: "slot_at m (q x) < Suc n" using bij_betwE [OF bij] qx(1) by auto
  have ne: "slot_at m (q x) \<noteq> s" using bij qx sb by (auto simp: bij_betw_def inj_on_def)
  have "hm_pairs F ! slot_at F x = hm_pairs m ! slot_at m (q x)"
    using less ne s by (auto simp: F(2) F(4) [OF x] n nth_list_update)
  then have "hash_main h F x = hash_main h m (q x)" "key_at F x = key_at m (q x)"
    using bucket_of_mask [OF m(1) F(1)] by (simp_all add: hash_main_def)
  moreover have "q x \<in> set (ch (hash_main h m (q x)))" "EMH_EQHASH m (q x) (h (key_at m (q x)))"
    using m(2) qx(1) by (auto simp: index_ok_def)
  moreover have "c < hm_num_buckets m \<Longrightarrow> q x \<in> set (ch c) \<Longrightarrow> x \<in> set (ch' c)" for c using e x by (simp add: erased_def)
  ultimately show "x \<in> set (ch' (hash_main h F x))" "EMH_EQHASH F x (h (key_at F x))"
    using hash_main_less [OF m(1)] F(5) [OF x] by simp_all
qed

lemma find_slot_bucket_ok:
  assumes L: "linked (nexts m) (c # ys)" "distinct (c # ys)" and c: "c = bucket_of m (h (fst (hm_pairs m ! slot)))"
    and x: "x \<in> set (c # ys)" "slot_at m x = slot" "\<And>y. y \<in> set (c # ys) \<Longrightarrow> slot_at m y = slot \<Longrightarrow> y = x"
  shows "find_slot_bucket h m slot = Some (x, c)"
proof (cases "x = c")
  case True
  then show ?thesis using x(2) by (simp add: find_slot_bucket_def Let_def c [symmetric])
next
  case False
  then have ne: "slot \<noteq> slot_at m c" using x(3) [of c] by auto
  obtain d ds where ys: "ys = d # ds" using x(1) False by (cases ys) auto
  have "find_slot_bucket_loop m slot d = Some x"
    by (rule find_slot_bucket_loop_chain [of m d ds]) (use L x False ys in auto)
  then show ?thesis using ne L(1) ys by (simp add: find_slot_bucket_def Let_def c [symmetric])
qed

text \<open>The bucket of the last slot, after a bucket was unlinked.\<close>

lemma last_bucket_ok:
  assumes m: "shape k m" "index_ok h m (num_filled m) ch" and n: "num_filled m = Suc n" and sb: "sb \<in> used m" "slot_at m sb \<noteq> n"
    and e: "erased m ch sb m1 eb ch' q" and shape: "shape k m1"
  shows "\<exists>lb c. lb \<in> used m - {eb} \<and> slot_at m1 lb = n \<and> (\<forall>x\<in>used m - {eb}. slot_at m1 x = n \<longrightarrow> x = lb) \<and>
    find_slot_bucket h m1 n = Some (lb, c)"
proof -
  have bij: "bij_betw (slot_at m) (used m) {..<Suc n}" using m(2) by (simp add: index_ok_def n)
  then obtain b where b: "b \<in> used m" "slot_at m b = n" by (metis bij_betw_def imageE lessI lessThan_iff)
  have bq: "bij_betw q (used m - {eb}) (used m - {sb})" using e by (simp add: erased_def)
  then obtain lb where lb: "lb \<in> used m - {eb}" "q lb = b"
    using b sb(2) by (metis DiffI bij_betw_def imageE singletonD)
  have unique: "y = lb" if "y \<in> used m - {eb}" "slot_at m1 y = n" for y
    using that slot_erased [OF e that(1)] bij b bq lb by (auto simp: bij_betw_def inj_on_def)
  define c where "c = hash_main h m b"
  have c: "c < hm_num_buckets m" using hash_main_less [OF m(1)] by (simp add: c_def)
  have "b \<in> set (ch c)" using m(2) b(1) by (simp add: index_ok_def c_def)
  then have inch: "lb \<in> set (ch' c)" using e lb c by (simp add: erased_def)
  have ch: "chained (hm_num_buckets m) ((nexts m1)(eb := INACTIVE)) ch'" using e by (simp add: erased_def)
  note facts = chained_facts [OF ch c]
  obtain ys where L: "ch' c = c # ys" using inch facts(4) by (cases "ch' c") auto
  have sub: "set (c # ys) \<subseteq> used m - {eb}"
  proof
    fix x assume "x \<in> set (c # ys)"
    then have "x < hm_num_buckets m" "\<exists>d<hm_num_buckets m. x \<in> set (ch' d)" using facts(3) c L by auto
    then show "x \<in> used m - {eb}" using used_erased [OF e, of x] chained_used [OF ch, of x] by blast
  qed
  have linked: "linked (nexts m1) (c # ys)"
  proof (subst linked_cong [of _ _ "(nexts m1)(eb := INACTIVE)"])
    show "nexts m1 x = ((nexts m1)(eb := INACTIVE)) x" if "x \<in> set (c # ys)" for x using that sub by auto
    show "linked ((nexts m1)(eb := INACTIVE)) (c # ys)" using facts(1) by (simp add: L)
  qed
  have slot: "slot_at m1 lb = n" using slot_erased(1) [OF e lb(1)] lb(2) b(2) by simp
  have "c = bucket_of m1 (h (fst (hm_pairs m1 ! n)))"
    using e b(2) bucket_of_mask [OF m(1) shape] by (simp add: c_def hash_main_def erased_def frame_def)
  from linked facts(2) [unfolded L] this inch [unfolded L] slot have "find_slot_bucket h m1 n = Some (lb, c)"
    by (rule find_slot_bucket_ok) (use unique sub in blast)
  then show ?thesis using lb(1) slot unique by blast
qed

text \<open>The links after \<open>erase_slot\<close>: \<open>eb\<close> is free and the bucket of the last slot has slot \<open>s\<close>.\<close>

lemma moved_slot:
  assumes e: "erased m ch sb m1 eb ch' q" and shape: "shape k m" "shape k m1" and s: "s < hm_num_buckets m"
    and lb: "lb < hm_num_buckets m" "slot_at m1 lb = n" "\<And>x. x \<in> used m - {eb} \<Longrightarrow> slot_at m1 x = n \<Longrightarrow> x = lb"
    and x: "x \<in> used m - {eb}"
    and F: "hm_mask F = hm_mask m" "ix_slot (hm_index F ! x) =
      (if x = lb then of_nat s OR (ix_slot (hm_index m1 ! lb) AND NOT (hm_mask m1)) else ix_slot (hm_index m1 ! x))"
  shows "slot_at F x = (if slot_at m (q x) = n then s else slot_at m (q x))" and "EMH_EQHASH F x kh = EMH_EQHASH m (q x) kh"
proof -
  have k: "k \<le> 31" "hm_mask m = mask k" "hm_mask m1 = mask k" "s < 2 ^ k" using shape s by (auto simp: shape_def)
  have old: "slot_at m1 x = slot_at m (q x)" "EMH_EQHASH m1 x = EMH_EQHASH m (q x)" by (rule slot_erased [OF e x])+
  show "slot_at F x = (if slot_at m (q x) = n then s else slot_at m (q x))"
  proof (cases "x = lb")
    case True
    then show ?thesis using lb(2) old(1) slot_word_slot [OF k(4,1)] F(2) by (simp add: slot_at_def [of F] F(1) k)
  next
    case False
    then show ?thesis using lb(3) [OF x] old(1) by (auto simp: slot_at_def [of F] slot_at_def [of m1] F k)
  qed
  have "ix_slot (hm_index F ! x) AND NOT (mask k) = ix_slot (hm_index m1 ! x) AND NOT (mask k)"
    using slot_word_tag [OF k(4,1)] F(2) by (simp add: k)
  then show "EMH_EQHASH F x kh = EMH_EQHASH m (q x) kh"
    unfolding old(2) [symmetric] by (simp add: EMH_EQHASH_def F k)
qed

lemma used_count:
  assumes "index_ok h m nf ch"
  shows "card (used m) = nf" and "nf \<le> hm_num_buckets m"
proof -
  show *: "card (used m) = nf" using assms bij_betw_same_card [of "slot_at m" "used m" "{..<nf}"] by (simp add: index_ok_def)
  show "nf \<le> hm_num_buckets m" using card_mono [of "{..<hm_num_buckets m}" "used m"] * by (auto simp: used_def)
qed

lemma slot_less: "index_ok h m nf ch \<Longrightarrow> b \<in> used m \<Longrightarrow> slot_at m b < nf"
  using bij_betwE [of "slot_at m" "used m" "{..<nf}"] by (auto simp: index_ok_def)

text \<open>The pairs after the pair of slot \<open>s\<close> is erased.\<close>

abbreviation erase_pair :: "nat \<Rightarrow> 'a list \<Rightarrow> 'a list" where
  "erase_pair s ps \<equiv> take (length ps - 1) (ps[s := ps ! (length ps - 1)])"

text \<open>\<open>_etail\<close> is unset or the bucket of the last slot.\<close>

definition tail_ok :: "('k, 'v) hashmap \<Rightarrow> bool" where
  "tail_ok m \<longleftrightarrow> hm_etail m = INACTIVE \<or> hm_etail m \<in> used m \<and> Suc (slot_at m (hm_etail m)) = num_filled m"

lemma erase_last_slot:
  assumes m: "shape k m" "index_ok h m (num_filled m) ch" and n: "num_filled m = Suc n" and sb: "sb \<in> used m" "slot_at m sb = n"
    and e: "erased m ch sb m1 eb ch' q" and m1: "shape k m1"
    and F: "F = (set_link eb \<lparr>ix_next = INACTIVE, ix_slot = 0\<rparr> m1)\<lparr>hm_pairs := take n (hm_pairs m1), hm_etail := INACTIVE\<rparr>"
  shows "shape k F \<and> index_ok h F n ch'"
proof -
  note nb = same_buckets [OF m(1) m1]
  have eb: "eb < hm_num_buckets m1" using e nb by (auto simp: erased_def used_def)
  have idx: "hm_index F ! x = (if x = eb then \<lparr>ix_next = INACTIVE, ix_slot = 0\<rparr> else hm_index m1 ! x)" for x
    using set_link_at [OF shape_index [OF m1 eb]] by (simp add: F)
  have shape: "shape k F" using m1 eb by (simp add: F shape_upd)
  have "index_ok h F n ch'"
  proof (rule index_shrink [OF m n sb(1) sb(2) [symmetric] e shape])
    show "nexts F = (nexts m1)(eb := INACTIVE)" by (auto simp: idx)
    show "hm_pairs F = take n ((hm_pairs m)[n := hm_pairs m ! n])" using e by (simp add: F erased_def frame_def)
    fix x kh assume x: "x \<in> used m - {eb}"
    have ne: "slot_at m (q x) \<noteq> n"
      using slot_erased(3) [OF e x] sb m(2) by (auto simp: index_ok_def bij_betw_def inj_on_def)
    have "slot_at F x = slot_at m1 x" "EMH_EQHASH F x kh = EMH_EQHASH m1 x kh"
      using x by (simp_all add: slot_at_def EMH_EQHASH_def idx) (simp_all add: F)
    then show "slot_at F x = (if slot_at m (q x) = n then n else slot_at m (q x))" "EMH_EQHASH F x kh = EMH_EQHASH m (q x) kh"
      using ne slot_erased [OF e x] by simp_all
  qed
  with shape show ?thesis by simp
qed

lemma erase_other_slot:
  assumes m: "shape k m" "index_ok h m (num_filled m) ch" and n: "num_filled m = Suc n" and sb: "sb \<in> used m" "s = slot_at m sb"
    and e: "erased m ch sb m1 eb ch' q" and m1: "shape k m1"
    and lb: "lb \<in> used m - {eb}" "slot_at m1 lb = n" "\<And>x. x \<in> used m - {eb} \<Longrightarrow> slot_at m1 x = n \<Longrightarrow> x = lb"
    and m2: "m2 = m1\<lparr>hm_pairs := (hm_pairs m1)[s := hm_pairs m1 ! n]\<rparr>"
    and F: "F = (set_link eb \<lparr>ix_next = INACTIVE, ix_slot = 0\<rparr> (set_link lb ((hm_index m2 ! lb)
        \<lparr>ix_slot := of_nat s OR (ix_slot (hm_index m2 ! lb) AND NOT (hm_mask m2))\<rparr>) m2))
      \<lparr>hm_pairs := take n (hm_pairs m2), hm_etail := INACTIVE\<rparr>"
  shows "shape k F \<and> index_ok h F n ch'"
proof -
  note nb = same_buckets [OF m(1) m1]
  have eb: "eb < hm_num_buckets m1" and lb': "lb < hm_num_buckets m1" "lb \<noteq> eb" using e lb(1) nb by (auto simp: erased_def used_def)
  have idx: "hm_index F ! x = (if x = eb then \<lparr>ix_next = INACTIVE, ix_slot = 0\<rparr>
      else if x = lb then (hm_index m1 ! lb)\<lparr>ix_slot := of_nat s OR (ix_slot (hm_index m1 ! lb) AND NOT (hm_mask m1))\<rparr> else hm_index m1 ! x)" for x
    using shape_index [OF m1 eb] shape_index [OF m1 lb'(1)] by (simp add: F m2 set_link_def nth_list_update)
  have shape: "shape k F" using m1 eb lb' by (simp add: F m2 shape_upd)
  have mask: "hm_mask F = hm_mask m" using m(1) shape by (simp add: shape_def)
  have s: "s < hm_num_buckets m" using slot_less [OF m(2) sb(1)] used_count(2) [OF m(2)] sb(2) by simp
  have "index_ok h F n ch'"
  proof (rule index_shrink [OF m n sb e shape])
    show "nexts F = (nexts m1)(eb := INACTIVE)" by (auto simp: idx)
    show "hm_pairs F = take n ((hm_pairs m)[s := hm_pairs m ! n])" using e by (simp add: F m2 erased_def frame_def)
    fix x kh assume x: "x \<in> used m - {eb}"
    then have "ix_slot (hm_index F ! x) =
        (if x = lb then of_nat s OR (ix_slot (hm_index m1 ! lb) AND NOT (hm_mask m1)) else ix_slot (hm_index m1 ! x))"
      by (simp add: idx)
    from moved_slot [OF e m(1) m1 s lb'(1) [unfolded nb] lb(2,3) x mask this]
    show "slot_at F x = (if slot_at m (q x) = n then s else slot_at m (q x))" "EMH_EQHASH F x kh = EMH_EQHASH m (q x) kh"
      by simp_all
  qed
  with shape show ?thesis by simp
qed

lemma tail_bucket:
  assumes tail: "tail_ok m" and n: "num_filled m = Suc n" and sb: "slot_at m sb \<noteq> n" and e: "erased m ch sb m1 eb ch' q"
    and "lb \<in> used m - {eb}" and unique: "\<And>x. x \<in> used m - {eb} \<Longrightarrow> slot_at m1 x = n \<Longrightarrow> x = lb"
    and etail: "hm_etail m \<noteq> INACTIVE" "hm_etail m \<noteq> eb"
  shows "hm_etail m = lb"
proof -
  have t: "hm_etail m \<in> used m - {eb}" "slot_at m (hm_etail m) = n" using tail n etail by (auto simp: tail_ok_def)
  then have "q (hm_etail m) = hm_etail m" using sb e by (auto simp: erased_def)
  with t show ?thesis using unique slot_erased(1) [OF e] by simp
qed

lemma erase_slot_ok:
  assumes m: "shape k m" "index_ok h m (num_filled m) ch" and sb: "sb \<in> used m" and tail: "tail_ok m"
  shows "\<exists>F ch'. erase_slot h sb (hash_main h m sb) m = Some F \<and> shape k F \<and> index_ok h F (num_filled F) ch' \<and>
    hm_pairs F = erase_pair (slot_at m sb) (hm_pairs m) \<and> hm_mlf F = hm_mlf m \<and> hm_etail F = INACTIVE"
proof -
  obtain n where n: "num_filled m = Suc n" using slot_less [OF m(2) sb] by (cases "num_filled m") auto
  obtain m1 eb ch' q where m1: "erase_bucket sb (hash_main h m sb) m = Some (m1, eb)" "shape k m1" and e: "erased m ch sb m1 eb ch' q"
    using erase_bucket_ok [OF m sb] by blast
  have fr: "hm_pairs m1 = hm_pairs m" "hm_mlf m1 = hm_mlf m" "hm_etail m1 = hm_etail m" using e by (simp_all add: erased_def frame_def)
  show ?thesis
  proof (cases "slot_at m sb = n")
    case True
    define F where "F = (set_link eb \<lparr>ix_next = INACTIVE, ix_slot = 0\<rparr> m1)\<lparr>hm_pairs := take n (hm_pairs m1), hm_etail := INACTIVE\<rparr>"
    have "erase_slot h sb (hash_main h m sb) m = Some F"
      using m1(1) True n fr by (simp add: erase_slot_def F_def Let_def)
    moreover note erase_last_slot [OF m n sb True e m1(2) F_def]
    moreover have "num_filled F = n" "hm_pairs F = erase_pair (slot_at m sb) (hm_pairs m)" "hm_mlf F = hm_mlf m" "hm_etail F = INACTIVE"
      using n fr True by (simp_all add: F_def)
    ultimately show ?thesis by auto
  next
    case False
    obtain lb c where lb: "lb \<in> used m - {eb}" "slot_at m1 lb = n" "find_slot_bucket h m1 n = Some (lb, c)"
      and unique: "\<And>x. x \<in> used m - {eb} \<Longrightarrow> slot_at m1 x = n \<Longrightarrow> x = lb"
      using last_bucket_ok [OF m n sb False e m1(2)] by blast
    have last: "(if hm_etail m1 = INACTIVE \<or> eb = hm_etail m1 then map_option fst (find_slot_bucket h m1 n) else Some (hm_etail m1)) = Some lb"
      unfolding fr(3) using tail_bucket [OF tail n False e lb(1)] unique lb(3) by simp
    define m2 where "m2 = m1\<lparr>hm_pairs := (hm_pairs m1)[slot_at m sb := hm_pairs m1 ! n]\<rparr>"
    define F where "F = (set_link eb \<lparr>ix_next = INACTIVE, ix_slot = 0\<rparr> (set_link lb ((hm_index m2 ! lb)
        \<lparr>ix_slot := of_nat (slot_at m sb) OR (ix_slot (hm_index m2 ! lb) AND NOT (hm_mask m2))\<rparr>) m2))
      \<lparr>hm_pairs := take n (hm_pairs m2), hm_etail := INACTIVE\<rparr>"
    have n1: "num_filled m1 - 1 = n" using n fr by simp
    have "erase_slot h sb (hash_main h m sb) m = Some F"
      using False unfolding erase_slot_def Let_def m1(1) Option.bind.bind_lunit prod.case n1 last F_def m2_def by simp
    moreover note erase_other_slot [OF m n sb refl e m1(2) lb(1,2) unique m2_def F_def]
    moreover have "num_filled F = n" "hm_pairs F = erase_pair (slot_at m sb) (hm_pairs m)" "hm_mlf F = hm_mlf m" "hm_etail F = INACTIVE"
      using n fr by (simp_all add: F_def m2_def)
    ultimately show ?thesis by auto
  qed
qed

end
