(* ===== verification/HashMapOps.thy ===== *)
theory HashMapOps
  imports HashErase
begin

text \<open>
  The operations of \<^verbatim>\<open>emhash8::HashMap\<close> on a well-formed map: each returns, keeps the map well-formed,
  and acts on the pairs as on a finite map from keys to values.
\<close>

section \<open>The load factor as a float\<close>

text \<open>
  \<^verbatim>\<open>rebuild\<close> allocates \<^verbatim>\<open>(size_type)((double)num_buckets * max_load_factor()) + 4\<close> pairs, and
  \<^verbatim>\<open>max_load_factor()\<close> is the \<^verbatim>\<open>float\<close> \<^verbatim>\<open>(1 << 27) / (float)_mlf\<close>.  Both the conversion and the division
  round to the nearest number of 24 significant bits, ties to even.
\<close>

definition round_div :: "nat \<Rightarrow> nat \<Rightarrow> nat" where
  "round_div n d = (let q = n div d; r = n mod d in if 2 * r < d \<or> 2 * r = d \<and> even q then q else q + 1)"

fun bit_length :: "nat \<Rightarrow> nat" where
  "bit_length n = (if n = 0 then 0 else Suc (bit_length (n div 2)))"

definition float_of_uint :: "nat \<Rightarrow> nat" where
  "float_of_uint n = (let s = bit_length n - 24 in round_div n (2 ^ s) * 2 ^ s)"

text \<open>
  \<open>max_load_factor mlf = (m, s)\<close> stands for the float \<open>m / 2 ^ s\<close>.  As \<open>2 ^ 27\<close> is a power of two, the quotient by
  a float of \<open>s + 4\<close> bits lies between \<open>2 ^ 23 / 2 ^ s\<close> and \<open>2 ^ 24 / 2 ^ s\<close>.
\<close>

definition max_load_factor :: "nat \<Rightarrow> nat \<times> nat" where
  "max_load_factor mlf = (let f = float_of_uint mlf; s = bit_length f - 4 in (round_div (2 ^ (27 + s)) f, s))"

text \<open>The number of buckets is a power of two, so its product with the load factor is exact in \<^verbatim>\<open>double\<close>.\<close>

definition pair_room :: "('k, 'v) hashmap \<Rightarrow> nat" where
  "pair_room m = (let (f, s) = max_load_factor (hm_mlf m) in (hm_num_buckets m * f) div 2 ^ s + 4)"

declare bit_length.simps [simp del]

lemma bit_length_eval: "bit_length 0 = 0" "n \<noteq> 0 \<Longrightarrow> bit_length n = Suc (bit_length (n div 2))"
  by (simp_all add: bit_length.simps [of n] bit_length.simps [of 0])

lemma bit_length_bounds: "0 < n \<Longrightarrow> 2 ^ bit_length n \<le> 2 * n \<and> n < 2 ^ bit_length n"
proof (induction n rule: bit_length.induct)
  case (1 n)
  have step: "bit_length n = Suc (bit_length (n div 2))" using 1(2) by (subst bit_length.simps) simp
  show ?case
  proof (cases "n div 2 = 0")
    case True
    then have "n = 1" using 1(2) by simp
    then show ?thesis by (simp add: bit_length.simps)
  next
    case False
    with 1 have "2 ^ bit_length (n div 2) \<le> 2 * (n div 2)" "n div 2 < 2 ^ bit_length (n div 2)" by simp_all
    then have "2 * 2 ^ bit_length (n div 2) \<le> 2 * n" "n < 2 * 2 ^ bit_length (n div 2)" by linarith+
    then show ?thesis by (simp add: step)
  qed
qed

text \<open>Rounding moves a number by at most half a unit in the last place.\<close>

lemma round_div_bounds:
  assumes "0 < d"
  shows "2 * n \<le> 2 * round_div n d * d + d" and "2 * round_div n d * d \<le> 2 * n + d"
proof -
  define q r where "q = n div d" and "r = n mod d"
  have n: "n = q * d + r" "r < d" using assms by (simp_all add: q_def r_def)
  have "round_div n d = (if 2 * r < d \<or> 2 * r = d \<and> even q then q else q + 1)"
    by (simp add: round_div_def Let_def q_def r_def)
  then show "2 * n \<le> 2 * round_div n d * d + d" "2 * round_div n d * d \<le> 2 * n + d"
    using n by (auto simp: algebra_simps)
qed

lemma float_of_uint_le:
  assumes "2 ^ 27 \<le> mlf"
  shows "float_of_uint mlf * 2 ^ 24 \<le> mlf * (2 ^ 24 + 1)" and "0 < float_of_uint mlf"
proof -
  define b s where "b = bit_length mlf" and "s = b - 24"
  have "0 < mlf" using assms by simp
  from bit_length_bounds [OF this] have b: "2 ^ b \<le> 2 * mlf" "mlf < 2 ^ b" by (simp_all add: b_def)
  have "(2 :: nat) ^ 27 < 2 ^ b" using assms b(2) by linarith
  then have "27 < b" by (rule power_less_imp_less_exp [rotated]) simp
  then have "b = s + 24" by (simp add: s_def)
  then have ulp: "2 ^ s * 2 ^ 24 \<le> 2 * mlf" using b(1) by (simp add: power_add)
  have f: "float_of_uint mlf = round_div mlf (2 ^ s) * 2 ^ s" by (simp add: float_of_uint_def s_def b_def Let_def)
  have r: "2 * mlf \<le> 2 * float_of_uint mlf + 2 ^ s" "2 * float_of_uint mlf \<le> 2 * mlf + 2 ^ s"
    using round_div_bounds [of "2 ^ s" mlf] unfolding f by (simp_all add: mult.assoc)
  show "float_of_uint mlf * 2 ^ 24 \<le> mlf * (2 ^ 24 + 1)" using r(2) ulp by simp
  show "0 < float_of_uint mlf" using r(1) ulp \<open>0 < mlf\<close> by simp
qed

text \<open>The float is smaller than the exact quotient by less than one part in \<open>2 ^ 23\<close>.\<close>

lemma max_load_factor_ge:
  assumes "2 ^ 27 \<le> mlf" and "max_load_factor mlf = (f, s)"
  shows "2 ^ (27 + s) * (2 ^ 23 - 1) \<le> f * mlf * 2 ^ 23"
proof -
  define F where "F = float_of_uint mlf"
  have F: "F * 2 ^ 24 \<le> mlf * (2 ^ 24 + 1)" "0 < F" using float_of_uint_le [OF assms(1)] by (simp_all add: F_def)
  have fs: "f = round_div (2 ^ (27 + s)) F" "s = bit_length F - 4"
    using assms(2) by (auto simp: max_load_factor_def Let_def F_def)
  have "F < 2 ^ bit_length F" using bit_length_bounds [OF F(2)] by simp
  also have "\<dots> \<le> 2 ^ (s + 4)" unfolding fs(2) by (rule power_increasing) simp_all
  finally have "F \<le> 2 ^ (4 + s)" by (simp add: add.commute)
  moreover define u :: nat where "u = 2 ^ s"
  ultimately have u: "F \<le> 16 * u" by (simp add: power_add)
  have pow: "2 ^ (27 + s) = 2 ^ 27 * u" by (simp add: u_def power_add)
  have "2 * 2 ^ (27 + s) \<le> 2 * f * F + F" unfolding fs(1) by (rule round_div_bounds(1) [OF F(2)])
  then have "2 * (2 ^ 27 * u) \<le> 2 * f * F + F" unfolding pow .
  then have "134217720 * u \<le> f * F" using u by simp
  then have "2 ^ 27 * u * (2 ^ 24 - 1) \<le> f * (F * 2 ^ 24)" by (simp add: mult.commute)
  also have "\<dots> \<le> f * (mlf * (2 ^ 24 + 1))" by (rule mult_le_mono2 [OF F(1)])
  finally show ?thesis unfolding pow by simp
qed

text \<open>
  The pairs that \<^verbatim>\<open>reserve\<close> admits without growing fit into the array if the float is not below the exact
  quotient, as for the default load factor, or if there are at most \<open>2 ^ 24\<close> buckets.
\<close>

definition rounds_up :: "nat \<Rightarrow> bool" where
  "rounds_up mlf \<longleftrightarrow> (let (f, s) = max_load_factor mlf in 2 ^ (27 + s) \<le> f * mlf)"

definition room_ok :: "('k, 'v) hashmap \<Rightarrow> bool" where
  "room_ok m \<longleftrightarrow> (\<forall>n. n * hm_mlf m < hm_num_buckets m * 2 ^ 27 \<longrightarrow> n < pair_room m)"

lemma room_okI:
  assumes mlf: "2 ^ 27 \<le> hm_mlf m" and small: "rounds_up (hm_mlf m) \<or> hm_num_buckets m \<le> 2 ^ 24"
  shows "room_ok m"
  unfolding room_ok_def
proof (intro allI impI)
  fix n
  assume n: "n * hm_mlf m < hm_num_buckets m * 2 ^ 27"
  obtain f s where fs: "max_load_factor (hm_mlf m) = (f, s)" by (cases "max_load_factor (hm_mlf m)")
  define u :: nat where "u = 2 ^ s"
  have u: "2 ^ (27 + s) = 2 ^ 27 * u" "0 < u" by (simp_all add: u_def power_add)
  show "n < pair_room m"
  proof (rule ccontr)
    assume "\<not> n < pair_room m"
    then have "hm_num_buckets m * f div u + 4 \<le> n" by (simp add: pair_room_def fs u_def)
    then have "hm_num_buckets m * f < (n - 3) * u" and three: "3 \<le> n" using u(2) by (simp_all add: div_less_iff_less_mult [symmetric])
    then have below: "hm_num_buckets m * (f * hm_mlf m) < (n - 3) * hm_mlf m * u"
      using mlf by (simp add: mult.assoc [symmetric] mult.commute [of _ "hm_mlf m"])
    show False
    proof (cases "rounds_up (hm_mlf m)")
      case True
      then have "hm_num_buckets m * (2 ^ 27 * u) \<le> hm_num_buckets m * (f * hm_mlf m)"
        unfolding rounds_up_def fs u(1) [symmetric] by simp
      also note below
      finally have "hm_num_buckets m * 2 ^ 27 < (n - 3) * hm_mlf m" using u(2) by (simp add: mult.assoc [symmetric])
      also have "\<dots> \<le> n * hm_mlf m" by simp
      finally show False using n by simp
    next
      case False
      then have small': "hm_num_buckets m \<le> 2 ^ 24" using small by simp
      have "hm_num_buckets m * (2 ^ 27 * u * (2 ^ 23 - 1)) \<le> hm_num_buckets m * (f * hm_mlf m * 2 ^ 23)"
        using max_load_factor_ge [OF mlf fs] unfolding u(1) by (rule mult_le_mono2)
      also have "\<dots> < (n - 3) * hm_mlf m * u * 2 ^ 23" using below by simp
      finally have "134217712 * hm_num_buckets m < (n - 3) * hm_mlf m"
        using u(2) by (simp add: mult.commute [of u] mult.commute [of "hm_mlf m" "n - 3"] mult.assoc [symmetric])
      moreover have "(n - 3) * hm_mlf m + 3 * hm_mlf m = n * hm_mlf m" using three by (simp add: diff_mult_distrib)
      moreover have "n * hm_mlf m < hm_num_buckets m * 134217728" "134217728 \<le> hm_mlf m" "hm_num_buckets m \<le> 16777216"
        using n mlf small' by simp_all
      ultimately show False by linarith
    qed
  qed
qed

lemma same_room:
  assumes "hm_mlf m' = hm_mlf m" and "hm_num_buckets m' = hm_num_buckets m"
  shows "pair_room m' = pair_room m" and "room_ok m' = room_ok m"
  using assms by (simp_all add: pair_room_def room_ok_def)

section \<open>Well-formed maps\<close>

text \<open>
  A map of at most \<open>lim\<close> pairs.  Without \<^const>\<open>rounds_up\<close> a map of \<open>2 ^ 22\<close> pairs has no more than \<open>2 ^ 24\<close> buckets.
\<close>

definition room_limit :: "nat \<Rightarrow> nat" where
  "room_limit mlf = (if rounds_up mlf then 2 ^ 29 - 1 else 2 ^ 22)"

definition hm_ok :: "nat \<Rightarrow> ('k \<Rightarrow> 64 word) \<Rightarrow> ('k, 'v) hashmap \<Rightarrow> bool" where
  "hm_ok lim h m \<longleftrightarrow> 2 ^ 27 \<le> hm_mlf m \<and> hm_mlf m \<le> 2 ^ 29 \<and> lim \<le> room_limit (hm_mlf m) \<and> room_ok m \<and>
     distinct (map fst (hm_pairs m)) \<and> tail_ok m \<and> num_filled m \<le> pair_room m \<and>
     (\<exists>k ch. shape k m \<and> index_ok h m (num_filled m) ch)"

definition hm_map :: "('k, 'v) hashmap \<Rightarrow> 'k \<Rightarrow> 'v option" where
  "hm_map m = map_of (hm_pairs m)"

text \<open>There is a bucket and a place for one more pair.\<close>

definition roomy :: "('k, 'v) hashmap \<Rightarrow> bool" where
  "roomy m \<longleftrightarrow> num_filled m < hm_num_buckets m \<and> num_filled m < pair_room m"

lemma hm_okE:
  assumes "hm_ok lim h m"
  obtains k ch where "shape k m" "index_ok h m (num_filled m) ch"
  using assms by (auto simp: hm_ok_def)

lemma map_slot:
  assumes "distinct (map fst ps)" and "s < length ps"
  shows "map_of ps (fst (ps ! s)) = Some (snd (ps ! s))"
  using assms by (simp add: map_of_eq_Some_iff)

text \<open>The used buckets show exactly the keys of the map.\<close>

lemma key_used:
  assumes "index_ok h m (num_filled m) ch"
  shows "(\<exists>x\<in>used m. key_at m x = key) \<longleftrightarrow> hm_map m key \<noteq> None"
proof -
  have "slot_at m ` used m = {..<num_filled m}" using assms by (simp add: index_ok_def bij_betw_def)
  then have "(\<exists>x\<in>used m. key_at m x = key) \<longleftrightarrow> (\<exists>s<num_filled m. fst (hm_pairs m ! s) = key)"
    by (metis (no_types, lifting) imageE imageI lessThan_iff)
  also have "\<dots> \<longleftrightarrow> key \<in> fst ` set (hm_pairs m)" using in_set_conv_nth [of key "map fst (hm_pairs m)"] by auto
  finally show ?thesis by (simp add: hm_map_def map_of_eq_None_iff)
qed

section \<open>Looking up\<close>

lemma find_filled_slot_map:
  assumes "hm_ok lim h m"
  obtains (absent) "find_filled_slot h m key = Some (num_filled m)" "hm_map m key = None"
    | (present) s where "find_filled_slot h m key = Some s" "s < num_filled m" "fst (hm_pairs m ! s) = key"
      "hm_map m key = Some (snd (hm_pairs m ! s))"
proof -
  obtain k ch where m: "shape k m" "index_ok h m (num_filled m) ch" using assms by (rule hm_okE)
  obtain s where s: "find_filled_slot h m key = Some s"
    "(s = num_filled m \<and> (\<forall>x\<in>used m. key_at m x \<noteq> key)) \<or> (\<exists>b\<in>used m. s = slot_at m b \<and> key_at m b = key)"
    using find_filled_slot_ok [OF m, of key] by (elim exE conjE)
  show ?thesis
  proof (cases "hm_map m key = None")
    case True
    then have "\<forall>x\<in>used m. key_at m x \<noteq> key" using key_used [OF m(2), of key] by blast
    then have "s = num_filled m" using s(2) by blast
    then show ?thesis using s(1) True absent by simp
  next
    case False
    then have "\<not> (\<forall>x\<in>used m. key_at m x \<noteq> key)" using key_used [OF m(2), of key] by blast
    then obtain b where b: "b \<in> used m" "s = slot_at m b" "key_at m b = key" using s(2) by (elim disjE conjE bexE) blast
    then have "s < num_filled m" using slot_less [OF m(2)] by simp
    moreover from this have "hm_map m key = Some (snd (hm_pairs m ! s))"
      using map_slot [of "hm_pairs m" s] assms b by (simp add: hm_map_def hm_ok_def)
    ultimately show ?thesis using s(1) b present by simp
  qed
qed

lemma try_get_map: "hm_ok lim h m \<Longrightarrow> try_get h key m = Some (hm_map m key)"
  by (rule find_filled_slot_map [of lim h m key]) (simp_all add: try_get_def)

lemma contains_map: "hm_ok lim h m \<Longrightarrow> contains h key m = Some (hm_map m key \<noteq> None)"
  by (rule find_filled_slot_map [of lim h m key]) (simp_all add: contains_def)

section \<open>Changing a value\<close>

lemma hm_ok_pairs:
  assumes "hm_ok lim h m" and "map fst ps = map fst (hm_pairs m)"
  shows "hm_ok lim h (m\<lparr>hm_pairs := ps\<rparr>)"
proof -
  have len: "length ps = num_filled m" using assms(2) by (metis length_map)
  obtain k ch where m: "shape k m" "index_ok h m (num_filled m) ch" using assms(1) by (rule hm_okE)
  have key: "fst (ps ! s) = fst (hm_pairs m ! s)" if "s < num_filled m" for s
    using that assms(2) len by (metis nth_map)
  have "index_ok h (m\<lparr>hm_pairs := ps\<rparr>) (num_filled m) ch"
    unfolding index_ok_def using m(2) slot_less [OF m(2)] by (simp add: index_ok_def len key hash_main_def)
  with m(1) show ?thesis using assms len by (auto simp: hm_ok_def shape_upd tail_ok_def same_room [of "m\<lparr>hm_pairs := ps\<rparr>" m])
qed

lemma set_value_map:
  assumes "hm_ok lim h m" and "s < num_filled m"
  shows "hm_ok lim h (set_value s val m)" and "hm_map (set_value s val m) = (hm_map m)(fst (hm_pairs m ! s) \<mapsto> val)"
    and "num_filled (set_value s val m) = num_filled m"
proof -
  have keys: "map fst ((hm_pairs m)[s := (fst (hm_pairs m ! s), val)]) = map fst (hm_pairs m)"
    using assms(2) by (simp add: map_update list_update_same_conv)
  with assms show "hm_ok lim h (set_value s val m)" by (simp add: set_value_def hm_ok_pairs)
  show "num_filled (set_value s val m) = num_filled m" by (simp add: set_value_def)
  have d: "distinct (map fst (hm_pairs m))" using assms(1) by (simp add: hm_ok_def)
  define us vs where "us = take s (hm_pairs m)" and "vs = drop (Suc s) (hm_pairs m)"
  have ps: "hm_pairs m = us @ hm_pairs m ! s # vs" unfolding us_def vs_def using assms(2) by (rule id_take_nth_drop)
  have upd: "(hm_pairs m)[s := (fst (hm_pairs m ! s), val)] = us @ (fst (hm_pairs m ! s), val) # vs"
    unfolding us_def vs_def using assms(2) by (rule upd_conv_take_nth_drop)
  define p where "p = hm_pairs m ! s"
  have ps': "us @ p # vs = hm_pairs m" unfolding p_def by (rule ps [symmetric])
  have "fst p \<notin> fst ` set us" using d unfolding ps' [symmetric] by auto
  then have new: "map_of us (fst p) = None" by (simp add: map_of_eq_None_iff)
  have "hm_map (set_value s val m) = map_of (us @ (fst p, val) # vs)"
    unfolding hm_map_def set_value_def p_def by (simp add: upd)
  also have "\<dots> = (map_of (us @ p # vs))(fst p \<mapsto> val)"
    using new by (cases p) (auto simp: fun_eq_iff map_add_def split: option.splits)
  finally show "hm_map (set_value s val m) = (hm_map m)(fst (hm_pairs m ! s) \<mapsto> val)"
    unfolding ps' unfolding p_def hm_map_def .
qed

lemma try_set_map:
  assumes "hm_ok lim h m"
  shows "\<exists>m'. try_set h key val m = Some (m', hm_map m key \<noteq> None) \<and> hm_ok lim h m' \<and> num_filled m' = num_filled m \<and>
    hm_map m' = (if hm_map m key = None then hm_map m else (hm_map m)(key \<mapsto> val))"
  using assms
proof (cases rule: find_filled_slot_map [where key = key])
  case absent
  then show ?thesis using assms by (simp add: try_set_def)
next
  case (present s)
  then show ?thesis using set_value_map [OF assms present(2), of val] by (simp add: try_set_def)
qed

section \<open>Growing\<close>

lemma div_bound: "x div 2 ^ 27 < y \<Longrightarrow> (x :: nat) < y * 2 ^ 27"
  by (simp add: div_less_iff_less_mult)

text \<open>With fewer than \<open>2 ^ 29\<close> pairs \<^verbatim>\<open>check_expand_need\<close> returns and there is room for another pair.\<close>

lemma check_expand_need_ok:
  assumes ok: "hm_ok lim h m" and n: "num_filled m < lim"
  shows "\<exists>m'. check_expand_need h m = Some m' \<and> hm_ok lim h m' \<and> roomy m' \<and> hm_pairs m' = hm_pairs m"
proof -
  define req where "req = (num_filled m * hm_mlf m) div 2 ^ 27"
  have mlf: "2 ^ 27 \<le> hm_mlf m" "hm_mlf m \<le> 2 ^ 29" using ok by (simp_all add: hm_ok_def)
  have lower: "num_filled m \<le> req"
    using div_le_mono [OF mult_le_mono2 [OF mlf(1), of "num_filled m"], of "2 ^ 27"] by (simp add: req_def)
  have "req \<le> num_filled m * 2 ^ 29 div 2 ^ 27" unfolding req_def by (rule div_le_mono [OF mult_le_mono2 [OF mlf(2)]])
  then have upper: "req + 2 < max_size" "rounds_up (hm_mlf m) \<or> req + 2 \<le> 2 ^ 24"
    using n ok by (auto simp: max_size_def hm_ok_def room_limit_def split: if_splits)
  have room: "num_filled m' < pair_room m'"
    if "req < hm_num_buckets m'" "hm_mlf m' = hm_mlf m" "hm_pairs m' = hm_pairs m" "room_ok m'" for m' :: "('a, 'b) hashmap"
  proof -
    have "num_filled m * hm_mlf m < hm_num_buckets m' * 2 ^ 27" using that(1) unfolding req_def by (rule div_bound)
    then show ?thesis using that(2-4) by (simp add: room_ok_def)
  qed
  obtain k ch where m: "shape k m" "index_ok h m (num_filled m) ch" using ok by (rule hm_okE)
  show ?thesis
  proof (cases "req < unat (hm_mask m)")
    case True
    have "unat (hm_mask m) < hm_num_buckets m" 
      using m(1) unat_and_mask [of k "- 1"] by (auto simp: shape_def)
    with True have req: "req < hm_num_buckets m" by simp
    from room [OF this] lower req ok have "roomy m" by (simp add: roomy_def hm_ok_def)
    moreover have "check_expand_need h m = Some m" using True by (simp add: check_expand_need_def reserve_def req_def)
    ultimately show ?thesis using ok by blast
  next
    case False
    have "num_filled m \<le> req + 2" using lower by simp
    from rehash_ok [OF this upper(1)] obtain m' k ch where m': "rehash h (req + 2) m = Some m'" "shape k m'"
      "index_ok h m' (num_filled m) ch" "hm_pairs m' = hm_pairs m" "hm_mlf m' = hm_mlf m" "hm_etail m' = INACTIVE" "req + 2 \<le> hm_num_buckets m'"
      "grow_buckets (if num_filled m > 2 ^ 16 then 2 ^ 16 else 4) (req + 2) = Some (hm_num_buckets m')"
      by blast
    have "req < hm_num_buckets m'" using m'(7) by simp
    have "rounds_up (hm_mlf m') \<or> hm_num_buckets m' \<le> 2 ^ 24" using upper(2) grow_buckets_le [OF m'(8), of 24] by (auto simp: m'(5))
    then have "room_ok m'" using mlf(1) m'(5) by (intro room_okI) simp_all
    from room [OF \<open>req < hm_num_buckets m'\<close> m'(5,4) this] have room': "num_filled m' < pair_room m'" .
    then have "roomy m'" using lower m'(4,7) by (simp add: roomy_def)
    moreover have "hm_ok lim h m'"
      unfolding hm_ok_def using ok room' m' \<open>room_ok m'\<close> by (auto simp: hm_ok_def tail_ok_def)
    moreover have "check_expand_need h m = Some m'"
      using False m'(1) by (simp add: check_expand_need_def reserve_def req_def)
    ultimately show ?thesis using m'(4) by blast
  qed
qed

section \<open>Inserting\<close>

text \<open>A new pair at a bucket that takes it.\<close>

lemma EMH_NEW_ok:
  assumes ok: "hm_ok lim h m" "roomy m" and new: "hm_map m key = None"
    and m1: "shape k m1" "frame m m1" "takes h (num_filled m) (h key) m1 b"
    and m2_def: "m2 = EMH_NEW key val b (h key) m1"
  shows "hm_ok lim h m2" and "hm_map m2 = (hm_map m)(key \<mapsto> val)" and "num_filled m2 = Suc (num_filled m)" and "slot_at m2 b = num_filled m"
    and "fst (hm_pairs m2 ! num_filled m) = key"
proof -
  have fr: "hm_pairs m1 = hm_pairs m" "hm_mlf m1 = hm_mlf m" "hm_num_buckets m1 = hm_num_buckets m" using m1(2) by (simp_all add: frame_def)
  have b: "b < hm_num_buckets m1" using m1(3) by (simp add: takes_def)
  have pairs: "hm_pairs m2 = hm_pairs m @ [(key, val)]" by (simp add: m2_def EMH_NEW_def fr)
  then show "num_filled m2 = Suc (num_filled m)" "fst (hm_pairs m2 ! num_filled m) = key" by (simp_all add: nth_append)
  have key: "key \<notin> fst ` set (hm_pairs m)" using new by (simp add: hm_map_def map_of_eq_None_iff)
  show "hm_map m2 = (hm_map m)(key \<mapsto> val)"
    using new by (auto simp: hm_map_def pairs map_add_def fun_eq_iff split: option.splits)
  define l where "l = \<lparr>ix_next = b, ix_slot = slot_word m1 (num_filled m) (h key)\<rparr>"
  have m2: "m2 = (set_link b l (m1\<lparr>hm_pairs := hm_pairs m2\<rparr>))\<lparr>hm_etail := b\<rparr>"
    unfolding pairs by (simp add: m2_def EMH_NEW_def set_link_def l_def fr)
  have shape: "shape k m2" using m1(1) b by (simp add: m2_def EMH_NEW_def shape_upd)
  have idx: "hm_index m2 ! b = l" using shape_index [OF m1(1) b] by (simp add: m2_def EMH_NEW_def set_link_def l_def fr)
  have s: "num_filled m < hm_num_buckets m1" using ok(2) fr by (simp add: roomy_def)
  have "hm_mask m2 = hm_mask m1" by (simp add: m2_def EMH_NEW_def)
  then show slot: "slot_at m2 b = num_filled m" using slot_word_at(1) [OF m1(1) s] by (simp add: slot_at_def idx l_def)
  have "take (num_filled m) (hm_pairs m2) = take (num_filled m) (hm_pairs m1) \<and> num_filled m < num_filled m2 \<and>
      h (fst (hm_pairs m2 ! num_filled m)) = h key"
    by (simp add: pairs fr nth_append)
  then obtain ch where "index_ok h (set_link b l (m1\<lparr>hm_pairs := hm_pairs m2\<rparr>)) (Suc (num_filled m)) ch"
    using m1(3) unfolding takes_def l_def by blast
  then have "index_ok h ((set_link b l (m1\<lparr>hm_pairs := hm_pairs m2\<rparr>))\<lparr>hm_etail := b\<rparr>) (Suc (num_filled m)) ch" by simp
  then have "index_ok h m2 (num_filled m2) ch" unfolding m2 [symmetric] by (simp add: pairs)
  moreover have "tail_ok m2"
  proof -
    have "hm_etail m2 = b" "hm_num_buckets m2 = hm_num_buckets m1" by (simp_all add: m2_def EMH_NEW_def)
    then show ?thesis using slot b bucket_small [OF m1(1) b] by (simp add: tail_ok_def pairs used_def idx l_def)
  qed
  moreover have same: "hm_mlf m2 = hm_mlf m" "hm_num_buckets m2 = hm_num_buckets m" using fr by (simp_all add: m2_def EMH_NEW_def)
  moreover have "num_filled m2 \<le> pair_room m2"
    using ok(2) unfolding same_room(1) [OF same] by (simp add: roomy_def pairs)
  moreover have "distinct (map fst (hm_pairs m2))" using ok(1) key by (simp add: pairs hm_ok_def)
  ultimately show "hm_ok lim h m2" using ok(1) shape by (auto simp: hm_ok_def same_room(2) [OF same])
qed

lemma find_or_allocate_map:
  assumes ok: "hm_ok lim h m" "roomy m"
  obtains (present) b where "find_or_allocate h m key (h key) = Some (m, b)" "\<not> EMH_EMPTY m b" "slot_at m b < num_filled m"
      "key_at m b = key" "hm_map m key \<noteq> None"
    | (absent) m1 b k where "find_or_allocate h m key (h key) = Some (m1, b)" "EMH_EMPTY m1 b" "hm_map m key = None"
      "shape k m1" "frame m m1" "takes h (num_filled m) (h key) m1 b"
proof -
  obtain k ch where m: "shape k m" "index_ok h m (num_filled m) ch" using ok(1) by (rule hm_okE)
  have "num_filled m < hm_num_buckets m" using ok(2) by (simp add: roomy_def)
  from find_or_allocate_ok [OF m this, of key] obtain m1 b where
    r: "find_or_allocate h m key (h key) = Some (m1, b)" "shape k m1" "frame m m1"
      "if \<exists>x\<in>used m. key_at m x = key then m1 = m \<and> b \<in> used m \<and> key_at m b = key else takes h (num_filled m) (h key) m1 b"
    by (elim exE conjE)
  show ?thesis
  proof (cases "hm_map m key = None")
    case True
    then have "takes h (num_filled m) (h key) m1 b" using r(4) key_used [OF m(2), of key] by simp
    then show ?thesis using absent [OF r(1) _ True r(2,3)] by (simp add: takes_def)
  next
    case False
    then have b: "m1 = m" "b \<in> used m" "key_at m b = key" using r(4) key_used [OF m(2), of key] by simp_all
    then have "b < hm_num_buckets m" by (simp add: used_def)
    then have "\<not> EMH_EMPTY m b" using b(2) unused_iff by blast
    then show ?thesis using present [OF r(1) [unfolded b(1)] _ slot_less [OF m(2) b(2)] b(3) False] by simp
  qed
qed

lemma do_insert_map:
  assumes ok: "hm_ok lim h m" "roomy m"
  shows "\<exists>m' s. do_insert h key val m = Some (m', s, hm_map m key = None) \<and> hm_ok lim h m' \<and> num_filled m' \<le> Suc (num_filled m) \<and>
    s < num_filled m' \<and> fst (hm_pairs m' ! s) = key \<and> hm_map m' = (if hm_map m key = None then (hm_map m)(key \<mapsto> val) else hm_map m)"
  using ok
proof (cases rule: find_or_allocate_map [where key = key])
  case (present b)
  then show ?thesis using ok by (auto simp: do_insert_def Let_def)
next
  case (absent m1 b k)
  note new = EMH_NEW_ok [OF ok absent(3-6) refl, of val]
  then show ?thesis using absent(1-3) by (simp add: do_insert_def Let_def)
qed

lemma insert_map:
  assumes "hm_ok lim h m" and "num_filled m < lim"
  shows "\<exists>m' s. insert_hm h key val m = Some (m', s, hm_map m key = None) \<and> hm_ok lim h m' \<and> num_filled m' \<le> Suc (num_filled m) \<and>
    s < num_filled m' \<and> fst (hm_pairs m' ! s) = key \<and> hm_map m' = (if hm_map m key = None then (hm_map m)(key \<mapsto> val) else hm_map m)"
proof -
  obtain m0 where m0: "check_expand_need h m = Some m0" "hm_ok lim h m0" "roomy m0" "hm_pairs m0 = hm_pairs m"
    using check_expand_need_ok [OF assms] by blast
  from do_insert_map [OF m0(2,3), of key val] show ?thesis unfolding insert_hm_def m0(1) hm_map_def m0(4) by simp
qed

lemma do_assign_map:
  assumes "hm_ok lim h m" and "num_filled m < lim"
  shows "\<exists>m' s. do_assign h key val m = Some (m', s, hm_map m key = None) \<and> hm_ok lim h m' \<and> num_filled m' \<le> Suc (num_filled m) \<and>
    hm_map m' = (hm_map m)(key \<mapsto> val)"
proof -
  obtain m0 where m0: "check_expand_need h m = Some m0" "hm_ok lim h m0" "roomy m0" "hm_pairs m0 = hm_pairs m"
    using check_expand_need_ok [OF assms] by blast
  have same: "hm_map m = hm_map m0" "num_filled m = num_filled m0" by (simp_all add: hm_map_def m0(4))
  from m0(2,3) show ?thesis
  proof (cases rule: find_or_allocate_map [where key = key])
    case (present b)
    from set_value_map [OF m0(2) present(3), of val] present show ?thesis
      unfolding same by (simp add: do_assign_def m0(1) Let_def)
  next
    case (absent m1 b k)
    from EMH_NEW_ok [OF m0(2,3) absent(3-6) refl, of val] absent(1-3) show ?thesis
      unfolding same by (simp add: do_assign_def m0(1) Let_def)
  qed
qed

lemma index_op_map:
  assumes "hm_ok lim h m" and "num_filled m < lim"
  shows "\<exists>m' s. index_op h d key m = Some (m', s) \<and> hm_ok lim h m' \<and> num_filled m' \<le> Suc (num_filled m) \<and>
    s < num_filled m' \<and> fst (hm_pairs m' ! s) = key \<and> hm_map m' = (if hm_map m key = None then (hm_map m)(key \<mapsto> d) else hm_map m)"
proof -
  obtain m0 where m0: "check_expand_need h m = Some m0" "hm_ok lim h m0" "roomy m0" "hm_pairs m0 = hm_pairs m"
    using check_expand_need_ok [OF assms] by blast
  have same: "hm_map m = hm_map m0" "num_filled m = num_filled m0" by (simp_all add: hm_map_def m0(4))
  from m0(2,3) show ?thesis
  proof (cases rule: find_or_allocate_map [where key = key])
    case (present b)
    then show ?thesis using m0(2) unfolding same by (auto simp: index_op_def m0(1) Let_def)
  next
    case (absent m1 b k)
    from EMH_NEW_ok [OF m0(2,3) absent(3-6) refl, of d] absent(1-3) show ?thesis
      unfolding same by (simp add: index_op_def m0(1) Let_def)
  qed
qed

text \<open>\<^verbatim>\<open>insert_unique\<close> does not look for the key, so the key must be new.\<close>

lemma insert_unique_map:
  assumes "hm_ok lim h m" and "num_filled m < lim" and new: "hm_map m key = None"
  shows "\<exists>m' b. insert_unique h key val m = Some (m', b) \<and> hm_ok lim h m' \<and> num_filled m' = Suc (num_filled m) \<and>
    hm_map m' = (hm_map m)(key \<mapsto> val)"
proof -
  obtain m0 where m0: "check_expand_need h m = Some m0" "hm_ok lim h m0" "roomy m0" "hm_pairs m0 = hm_pairs m"
    using check_expand_need_ok [OF assms(1,2)] by blast
  have same: "hm_map m = hm_map m0" "num_filled m = num_filled m0" by (simp_all add: hm_map_def m0(4))
  obtain k ch where m: "shape k m0" "index_ok h m0 (num_filled m0) ch" using m0(2) by (rule hm_okE)
  have "num_filled m0 < hm_num_buckets m0" using m0(3) by (simp add: roomy_def)
  from find_unique_ok [OF m this, of "h key"] obtain m1 b where
    r: "find_unique_bucket h m0 (h key) = Some (m1, b)" "takes h (num_filled m0) (h key) m1 b" "shape k m1" "frame m0 m1"
    by (elim exE conjE)
  from EMH_NEW_ok [OF m0(2,3) new [unfolded same] r(3,4,2) refl, of val] r(1) show ?thesis
    unfolding same by (simp add: insert_unique_def m0(1))
qed

section \<open>Erasing\<close>

lemma erase_pair_set:
  assumes d: "distinct (map fst ps)" and s: "s < length ps"
  shows "set (erase_pair s ps) = set ps - {ps ! s}" and "distinct (map fst (erase_pair s ps))"
proof -
  obtain xs y where ps: "ps = xs @ [y]" using s by (cases ps rule: rev_cases) auto
  have "set (erase_pair s ps) = set ps - {ps ! s} \<and> distinct (map fst (erase_pair s ps))"
  proof (cases "s = length xs")
    case True
    then show ?thesis using d by (auto simp: ps rev_image_eqI)
  next
    case False
    then have s': "s < length xs" using s ps by simp
    define us vs where "us = take s xs" and "vs = drop (Suc s) xs"
    have xs: "xs = us @ xs ! s # vs" unfolding us_def vs_def using s' by (rule id_take_nth_drop)
    have upd: "xs[s := y] = us @ y # vs" unfolding us_def vs_def using s' by (rule upd_conv_take_nth_drop)
    define x where "x = xs ! s"
    have px: "ps = us @ x # vs @ [y]" using xs ps x_def by simp
    have "erase_pair s ps = xs[s := y]" using s' by (simp add: ps list_update_append nth_append)
    then have "erase_pair s ps = us @ y # vs" by (simp only: upd)
    moreover have "ps ! s = x" using s' by (simp add: ps nth_append x_def)
    ultimately show ?thesis using d unfolding px by (auto simp: rev_image_eqI)
  qed
  then show "set (erase_pair s ps) = set ps - {ps ! s}" "distinct (map fst (erase_pair s ps))" by simp_all
qed

lemma map_of_remove:
  assumes d: "distinct (map fst ps)" "distinct (map fst es)" and es: "set es = set ps - {(k, w)}" and p: "(k, w) \<in> set ps"
  shows "map_of es = (map_of ps)(k := None)"
proof
  fix key
  show "map_of es key = ((map_of ps)(k := None)) key"
  proof (cases "key = k")
    case True
    have "map_of es k \<noteq> Some v" for v
    proof
      assume "map_of es k = Some v"
      then have v: "(k, v) \<in> set ps" "v \<noteq> w" using es by (auto dest: map_of_SomeD)
      have "map_of ps k = Some v" "map_of ps k = Some w" using map_of_is_SomeI [OF d(1)] v(1) p by blast+
      then show False using v(2) by simp
    qed
    then have "map_of es k = None" by blast
    then show ?thesis using True by simp
  next
    case False
    show ?thesis
    proof (cases "map_of es key")
      case None
      then have "key \<notin> fst ` set ps" using es False by (auto simp: map_of_eq_None_iff)
      then show ?thesis using None False by (simp add: map_of_eq_None_iff [THEN iffD2])
    next
      case (Some v)
      then have "(key, v) \<in> set ps" using es by (auto dest: map_of_SomeD)
      then show ?thesis using Some False map_of_is_SomeI [OF d(1)] by simp
    qed
  qed
qed

lemma erase_pair_map:
  assumes d: "distinct (map fst ps)" and s: "s < length ps"
  shows "map_of (erase_pair s ps) = (map_of ps)(fst (ps ! s) := None)"
proof -
  have "(fst (ps ! s), snd (ps ! s)) \<in> set ps" using s by simp
  with d erase_pair_set(2) [OF d s] _ show ?thesis by (rule map_of_remove) (simp only: prod.collapse erase_pair_set(1) [OF d s])
qed

lemma erase_slot_map:
  assumes ok: "hm_ok lim h m" and b: "b \<in> used m"
  shows "\<exists>m'. erase_slot h b (hash_main h m b) m = Some m' \<and> hm_ok lim h m' \<and> hm_pairs m' = erase_pair (slot_at m b) (hm_pairs m) \<and>
    Suc (num_filled m') = num_filled m \<and> hm_map m' = (hm_map m)(key_at m b := None)"
proof -
  obtain k ch where m: "shape k m" "index_ok h m (num_filled m) ch" using ok by (rule hm_okE)
  have "tail_ok m" and d: "distinct (map fst (hm_pairs m))" using ok by (simp_all add: hm_ok_def)
  from erase_slot_ok [OF m b this(1)] obtain m' ch' where m': "erase_slot h b (hash_main h m b) m = Some m'" "shape k m'"
    "index_ok h m' (num_filled m') ch'" "hm_pairs m' = erase_pair (slot_at m b) (hm_pairs m)" "hm_mlf m' = hm_mlf m" "hm_etail m' = INACTIVE"
    by (elim exE conjE)
  have s: "slot_at m b < num_filled m" by (rule slot_less [OF m(2) b])
  then have count: "Suc (num_filled m') = num_filled m" by (simp add: m'(4))
  note same = same_room [OF m'(5) same_buckets [OF m(1) m'(2)]]
  then have "hm_ok lim h m'"
    unfolding hm_ok_def using ok count m'(2,3) erase_pair_set(2) [OF d s]
    by (auto simp: hm_ok_def tail_ok_def m'(4,5,6))
  moreover have "hm_map m' = (hm_map m)(key_at m b := None)"
    unfolding hm_map_def m'(4) by (rule erase_pair_map [OF d s])
  ultimately show ?thesis using m'(1,4) count by blast
qed

lemma erase_map:
  assumes ok: "hm_ok lim h m"
  shows "\<exists>m'. erase h key m = Some (m', if hm_map m key = None then 0 else 1) \<and> hm_ok lim h m' \<and> num_filled m' \<le> num_filled m \<and>
    hm_map m' = (hm_map m)(key := None)"
proof -
  obtain k ch where m: "shape k m" "index_ok h m (num_filled m) ch" using ok by (rule hm_okE)
  obtain b where b: "find_filled_bucket m key (h key) = Some b"
    "if b = INACTIVE then \<forall>x\<in>used m. key_at m x \<noteq> key else b \<in> used m \<and> key_at m b = key"
    using find_filled_bucket_ok [OF m, of key] by (elim exE conjE)
  show ?thesis
  proof (cases "b = INACTIVE")
    case True
    then have "hm_map m key = None" using b(2) key_used [OF m(2), of key] by auto
    then show ?thesis using b(1) True ok by (simp add: erase_def fun_upd_idem)
  next
    case False
    then have b': "b \<in> used m" "key_at m b = key" using b(2) by simp_all
    then have some: "hm_map m key \<noteq> None" using key_used [OF m(2), of key] by blast
    have "hash_main h m b = bucket_of m (h key)" by (simp add: hash_main_def b'(2))
    with erase_slot_map [OF ok b'(1)] obtain m' where
      m': "erase_slot h b (bucket_of m (h key)) m = Some m'" "hm_ok lim h m'" "Suc (num_filled m') = num_filled m" "hm_map m' = (hm_map m)(key := None)"
      unfolding b'(2) by (elim exE conjE) simp
    then have "erase h key m = Some (m', if hm_map m key = None then 0 else 1)" using False b(1) some by (simp add: erase_def)
    then show ?thesis using m' by (intro exI [of _ m']) simp
  qed
qed

text \<open>Erasing at a slot, where the last pair then is.\<close>

lemma erase_at_map:
  assumes ok: "hm_ok lim h m" and s: "s < num_filled m"
  shows "\<exists>m'. erase_at h s m = Some (m', s) \<and> hm_ok lim h m' \<and> hm_pairs m' = erase_pair s (hm_pairs m)"
proof -
  obtain k ch where m: "shape k m" "index_ok h m (num_filled m) ch" using ok by (rule hm_okE)
  have bij: "bij_betw (slot_at m) (used m) {..<num_filled m}" using m(2) by (simp add: index_ok_def)
  then have "s \<in> slot_at m ` used m" using s by (simp add: bij_betw_def)
  then obtain b where b: "b \<in> used m" "slot_at m b = s" by blast
  have unique: "y = b" if "y \<in> used m" "slot_at m y = s" for y using that bij b by (auto simp: bij_betw_def inj_on_def)
  define c where "c = hash_main h m b"
  have c: "c < hm_num_buckets m" using hash_main_less [OF m(1)] by (simp add: c_def)
  have ch: "chained (hm_num_buckets m) (nexts m) ch" using m(2) by (simp add: index_ok_def)
  have bc: "b \<in> set (ch c)" using m(2) b(1) by (simp add: index_ok_def c_def)
  then obtain ys where L: "ch c = c # ys" using chained_facts(4) [OF ch c] by (cases "ch c") auto
  have main: "c = bucket_of m (h (fst (hm_pairs m ! s)))" by (simp add: c_def hash_main_def b(2))
  have "y = b" if "y \<in> set (c # ys)" "slot_at m y = s" for y using that unique chain_used [OF m c] unfolding L by blast
  with chained_facts(1,2) [OF ch c, unfolded L] main bc [unfolded L] b(2) have "find_slot_bucket h m s = Some (b, c)"
    by (rule find_slot_bucket_ok)
  moreover from erase_slot_map [OF ok b(1)] obtain m' where
    "erase_slot h b c m = Some m'" "hm_ok lim h m'" "hm_pairs m' = erase_pair s (hm_pairs m)"
    unfolding c_def b(2) by (elim exE conjE) simp
  ultimately show ?thesis by (intro exI [of _ m']) (simp add: erase_at_def)
qed

end
