(* ===== verification/HashRefine.thy ===== *)
theory HashRefine
  imports HashMapOps
begin

text \<open>
  \<^verbatim>\<open>emhash8::HashMap\<close> refines a finite map: any sequence of its operations gives the answers that the
  operations on a map give.  The association lists of the other theories refine the same map, so
  the table of \<^verbatim>\<open>AFTensorWorker\<close> may be modelled by one.
\<close>

section \<open>The remaining operations\<close>

lemma HashMap_new_ok:
  assumes "2 ^ 27 \<le> mlf" and "mlf \<le> 2 ^ 29" and "bucket < max_size" and small: "rounds_up mlf \<or> bucket \<le> 2 ^ 24"
  shows "\<exists>m. HashMap_new h bucket mlf = Some m \<and> hm_ok (room_limit mlf) h m \<and> hm_pairs m = []"
proof -
  define m0 :: "('a, 'b) hashmap" where "m0 = \<lparr>hm_index = [], hm_pairs = [], hm_mlf = mlf, hm_mask = 0, hm_num_buckets = 0, hm_last = 0, hm_etail = INACTIVE\<rparr>"
  have "num_filled m0 \<le> bucket" by (simp add: m0_def)
  from rehash_ok [OF this assms(3), of h] obtain m k ch where m: "rehash h bucket m0 = Some m" "shape k m" "index_ok h m (num_filled m0) ch"
    "hm_pairs m = hm_pairs m0" "hm_mlf m = hm_mlf m0" "hm_etail m = INACTIVE"
    and grow: "grow_buckets (if num_filled m0 > 2 ^ 16 then 2 ^ 16 else 4) bucket = Some (hm_num_buckets m)" by blast
  have "room_ok m" using small grow_buckets_le [OF grow, of 24] assms(1) by (intro room_okI) (auto simp: m(5) m0_def)
  with m have "hm_ok (room_limit mlf) h m" unfolding hm_ok_def using assms(1,2) by (auto simp: m0_def tail_ok_def)
  with m(1,4) show ?thesis unfolding HashMap_new_def m0_def [symmetric] by (simp add: m0_def)
qed

lemma clear_ok:
  assumes "hm_ok lim h m"
  shows "hm_ok lim h (clear trivial m)" and "hm_pairs (clear trivial m) = []"
proof -
  show pairs: "hm_pairs (clear trivial m) = []" by (simp add: clear_def)
  obtain k ch where m: "shape k m" "index_ok h m (num_filled m) ch" using assms by (rule hm_okE)
  have fields: "hm_num_buckets (clear trivial m) = 2 ^ k" "hm_mask (clear trivial m) = hm_mask m" "hm_mlf (clear trivial m) = hm_mlf m"
    "hm_etail (clear trivial m) = INACTIVE"
    using m(1) by (simp_all add: clear_def shape_def)
  have "\<exists>ch. shape k (clear trivial m) \<and> index_ok h (clear trivial m) 0 ch"
  proof (cases "trivial \<and> num_filled m = 0")
    case True
    then have idx: "hm_index (clear trivial m) = hm_index m" and eq: "hm_pairs (clear trivial m) = hm_pairs m" by (simp_all add: clear_def)
    have "shape k (clear trivial m)" using m(1) unfolding shape_def fields idx by simp
    moreover have "index_ok h (clear trivial m) 0 ch"
      using m(2) True unfolding index_ok_def used_def slot_at_def hash_main_def bucket_of_def EMH_EQHASH_def idx eq fields
      using m(1) by (simp add: shape_def)
    ultimately show ?thesis by blast
  next
    case False
    then have idx: "hm_index (clear trivial m) = replicate (2 ^ k) \<lparr>ix_next = INACTIVE, ix_slot = - 1\<rparr> @ drop (2 ^ k) (hm_index m)"
      using m(1) by (auto simp: clear_def shape_def)
    have "shape k (clear trivial m)" using m(1) unfolding shape_def fields idx by (simp add: nth_append)
    moreover note empty_index [OF idx fields(1)]
    ultimately show ?thesis by blast
  qed
  moreover have "room_ok (clear trivial m) = room_ok m" using m(1) by (intro same_room(2)) (simp_all add: fields shape_def)
  ultimately show "hm_ok lim h (clear trivial m)" unfolding hm_ok_def using assms by (auto simp: pairs fields hm_ok_def tail_ok_def)
qed

text \<open>The loop of \<^verbatim>\<open>erase_if\<close> leaves the pairs that do not satisfy the predicate.\<close>

lemma erase_if_loop_ok:
  assumes "hm_ok lim h m" and "it \<le> num_filled m" and "\<And>i. i < it \<Longrightarrow> \<not> pred (hm_pairs m ! i)"
  shows "\<exists>m'. erase_if_loop h pred it m = Some m' \<and> hm_ok lim h m' \<and> set (hm_pairs m') = {p \<in> set (hm_pairs m). \<not> pred p}"
  using assms
proof (induction "num_filled m - it" arbitrary: m it)
  case 0
  then have "it = num_filled m" by simp
  with 0 have "\<forall>p\<in>set (hm_pairs m). \<not> pred p" by (metis in_set_conv_nth)
  then have "set (hm_pairs m) = {p \<in> set (hm_pairs m). \<not> pred p}" by blast
  moreover have "erase_if_loop h pred it m = Some m" using 0 by (subst erase_if_loop.simps) simp
  ultimately show ?case using 0 by blast
next
  case (Suc n)
  then have it: "it < num_filled m" by simp
  have d: "distinct (map fst (hm_pairs m))" using Suc.prems(1) by (simp add: hm_ok_def)
  show ?case
  proof (cases "pred (hm_pairs m ! it)")
    case True
    obtain m1 where m1: "erase_at h it m = Some (m1, it)" "hm_ok lim h m1" "hm_pairs m1 = erase_pair it (hm_pairs m)"
      using erase_at_map [OF Suc.prems(1) it] by blast
    have "n = num_filled m1 - it" "it \<le> num_filled m1" using Suc.hyps(2) it by (simp_all add: m1(3))
    moreover have "\<not> pred (hm_pairs m1 ! i)" if "i < it" for i
      unfolding m1(3) using that it Suc.prems(3) [OF that] by simp
    ultimately obtain m' where "erase_if_loop h pred it m1 = Some m'" "hm_ok lim h m'" and
      m': "set (hm_pairs m') = {p \<in> set (hm_pairs m1). \<not> pred p}"
      using Suc.hyps(1) [OF _ m1(2)] by blast
    moreover have "set (hm_pairs m') = {p \<in> set (hm_pairs m). \<not> pred p}"
      unfolding m' m1(3) erase_pair_set(1) [OF d it] using True by blast
    ultimately show ?thesis using it m1(1) True by (subst erase_if_loop.simps) simp
  next
    case False
    have "\<not> pred (hm_pairs m ! i)" if "i < Suc it" for i
      using that False Suc.prems(3) by (cases "i = it") simp_all
    moreover have "n = num_filled m - Suc it" "Suc it \<le> num_filled m" using Suc.hyps(2) it by simp_all
    ultimately obtain m' where "erase_if_loop h pred (Suc it) m = Some m'" "hm_ok lim h m'"
      "set (hm_pairs m') = {p \<in> set (hm_pairs m). \<not> pred p}"
      using Suc.hyps(1) [OF _ Suc.prems(1)] by blast
    then show ?thesis using it False by (subst erase_if_loop.simps) simp
  qed
qed

lemma map_of_filter:
  assumes d: "distinct (map fst ps)" "distinct (map fst es)" and es: "set es = {p \<in> set ps. \<not> pred p}"
  shows "map_of es = (\<lambda>key. case map_of ps key of None \<Rightarrow> None | Some v \<Rightarrow> if pred (key, v) then None else Some v)"
proof
  fix key
  have mem: "map_of es key = Some v \<longleftrightarrow> map_of ps key = Some v \<and> \<not> pred (key, v)" for v
    using map_of_eq_Some_iff [OF d(1)] map_of_eq_Some_iff [OF d(2)] es by simp
  show "map_of es key = (case map_of ps key of None \<Rightarrow> None | Some v \<Rightarrow> if pred (key, v) then None else Some v)"
  proof (cases "map_of ps key")
    case None
    then have "map_of es key \<noteq> Some v" for v using mem by simp
    then have "map_of es key = None" by blast
    then show ?thesis using None by simp
  next
    case (Some w)
    show ?thesis
    proof (cases "pred (key, w)")
      case True
      then have "map_of es key \<noteq> Some v" for v using mem [of v] Some by auto
      then have "map_of es key = None" by blast
      then show ?thesis using Some True by simp
    next
      case False
      then show ?thesis using mem [of w] Some by simp
    qed
  qed
qed

lemma erase_if_count:
  assumes d: "distinct (map fst ps)" "distinct (map fst es)" and es: "set es = {p \<in> set ps. \<not> pred p}"
  shows "length ps - length es = card {key. \<exists>v. map_of ps key = Some v \<and> pred (key, v)}" and "length es \<le> length ps"
proof -
  have "length es = card (set es)" "length ps = card (set ps)" using d by (metis distinct_card distinct_map)+
  moreover have sub: "set es \<subseteq> set ps" using es by blast
  ultimately have "length ps - length es = card (set ps - set es)" by (simp add: card_Diff_subset)
  also have "set ps - set es = {p \<in> set ps. pred p}" using es by blast
  also have "card \<dots> = card (fst ` {p \<in> set ps. pred p})"
    using d(1) by (intro card_image [symmetric]) (auto simp: distinct_map inj_on_def)
  also have "fst ` {p \<in> set ps. pred p} = {key. \<exists>v. map_of ps key = Some v \<and> pred (key, v)}"
  proof (rule set_eqI)
    fix key
    have "key \<in> fst ` {p \<in> set ps. pred p} \<longleftrightarrow> (\<exists>v. (key, v) \<in> set ps \<and> pred (key, v))" by force
    then show "key \<in> fst ` {p \<in> set ps. pred p} \<longleftrightarrow> key \<in> {key. \<exists>v. map_of ps key = Some v \<and> pred (key, v)}"
      using map_of_eq_Some_iff [OF d(1), of key] by simp
  qed
  finally show "length ps - length es = card {key. \<exists>v. map_of ps key = Some v \<and> pred (key, v)}" .
  show "length es \<le> length ps"
    using \<open>length es = card (set es)\<close> \<open>length ps = card (set ps)\<close> card_mono [OF _ sub] by simp
qed

section \<open>Refinement of a sequence of operations\<close>

text \<open>
  An implementation of the operations \<open>'op\<close> of an abstract state; its size is bounded.  \<open>None\<close> means
  that an operation does not return.
\<close>

fun run_ops :: "('op \<Rightarrow> 'c \<Rightarrow> ('c \<times> 'r) option) \<Rightarrow> 'op list \<Rightarrow> 'c \<Rightarrow> ('c \<times> 'r list) option" where
  "run_ops cexec [] c = Some (c, [])"
| "run_ops cexec (p # ops) c =
     Option.bind (cexec p c) (\<lambda>(c1, r). map_option (\<lambda>(c2, rs). (c2, r # rs)) (run_ops cexec ops c1))"

fun run_spec :: "('op \<Rightarrow> 'a \<Rightarrow> 'a \<times> 'r) \<Rightarrow> 'op list \<Rightarrow> 'a \<Rightarrow> 'a \<times> 'r list" where
  "run_spec aexec [] a = (a, [])"
| "run_spec aexec (p # ops) a =
     (let (a1, r) = aexec p a; (a2, rs) = run_spec aexec ops a1 in (a2, r # rs))"

fun all_enabled :: "('op \<Rightarrow> 'a \<Rightarrow> bool) \<Rightarrow> ('op \<Rightarrow> 'a \<Rightarrow> 'a \<times> 'r) \<Rightarrow> 'op list \<Rightarrow> 'a \<Rightarrow> bool" where
  "all_enabled en aexec [] a = True"
| "all_enabled en aexec (p # ops) a = (en p a \<and> all_enabled en aexec ops (fst (aexec p a)))"

locale data_refinement =
  fixes inv :: "'c \<Rightarrow> bool" and abs :: "'c \<Rightarrow> 'a" and size_of :: "'c \<Rightarrow> nat" and bound :: nat
    and cexec :: "'op \<Rightarrow> 'c \<Rightarrow> ('c \<times> 'r) option" and aexec :: "'op \<Rightarrow> 'a \<Rightarrow> 'a \<times> 'r" and en :: "'op \<Rightarrow> 'a \<Rightarrow> bool"
  assumes exec_refines: "inv c \<Longrightarrow> size_of c < bound \<Longrightarrow> en p (abs c) \<Longrightarrow>
    \<exists>c' r. cexec p c = Some (c', r) \<and> inv c' \<and> size_of c' \<le> Suc (size_of c) \<and> aexec p (abs c) = (abs c', r)"
begin

lemma run_refines:
  "inv c \<Longrightarrow> size_of c + length ops \<le> bound \<Longrightarrow> all_enabled en aexec ops (abs c) \<Longrightarrow>
   \<exists>c' rs. run_ops cexec ops c = Some (c', rs) \<and> inv c' \<and> run_spec aexec ops (abs c) = (abs c', rs)"
proof (induction ops arbitrary: c)
  case Nil
  then show ?case by simp
next
  case (Cons p ops)
  then have "size_of c < bound" "en p (abs c)" by simp_all
  with exec_refines [OF Cons.prems(1)] obtain c1 r where
    c1: "cexec p c = Some (c1, r)" "inv c1" "size_of c1 \<le> Suc (size_of c)" "aexec p (abs c) = (abs c1, r)" by blast
  with Cons.prems have "size_of c1 + length ops \<le> bound" "all_enabled en aexec ops (abs c1)" by simp_all
  with Cons.IH [OF c1(2)] obtain c2 rs where
    "run_ops cexec ops c1 = Some (c2, rs)" "inv c2" "run_spec aexec ops (abs c1) = (abs c2, rs)" by blast
  with c1 show ?case by simp
qed

end

section \<open>The operations of a map\<close>

datatype ('k, 'v) map_op =
    Op_insert 'k 'v
  | Op_assign 'k 'v
  | Op_unique 'k 'v
  | Op_try_set 'k 'v
  | Op_get 'k
  | Op_erase 'k
  | Op_erase_if "'k \<times> 'v \<Rightarrow> bool"
  | Op_clear bool

datatype 'v map_answer = Done | Flag bool | Count nat | Found "'v option"

fun map_exec :: "('k, 'v) map_op \<Rightarrow> ('k \<rightharpoonup> 'v) \<Rightarrow> ('k \<rightharpoonup> 'v) \<times> 'v map_answer" where
  "map_exec (Op_insert k v) M = (if M k = None then M(k \<mapsto> v) else M, Flag (M k = None))"
| "map_exec (Op_assign k v) M = (M(k \<mapsto> v), Flag (M k = None))"
| "map_exec (Op_unique k v) M = (M(k \<mapsto> v), Done)"
| "map_exec (Op_try_set k v) M = (if M k = None then M else M(k \<mapsto> v), Flag (M k \<noteq> None))"
| "map_exec (Op_get k) M = (M, Found (M k))"
| "map_exec (Op_erase k) M = (M(k := None), Count (if M k = None then 0 else 1))"
| "map_exec (Op_erase_if p) M =
     (\<lambda>k. case M k of None \<Rightarrow> None | Some v \<Rightarrow> if p (k, v) then None else Some v, Count (card {k. \<exists>v. M k = Some v \<and> p (k, v)}))"
| "map_exec (Op_clear t) M = (Map.empty, Done)"

text \<open>\<^verbatim>\<open>emplace_unique\<close> is called with new keys only.\<close>

fun map_enabled :: "('k, 'v) map_op \<Rightarrow> ('k \<rightharpoonup> 'v) \<Rightarrow> bool" where
  "map_enabled (Op_unique k v) M = (M k = None)"
| "map_enabled _ M = True"

text \<open>The same operations of the hash map; an inserted pair is answered by whether it is new.\<close>

fun hm_exec :: "('k \<Rightarrow> 64 word) \<Rightarrow> ('k, 'v) map_op \<Rightarrow> ('k, 'v) hashmap \<Rightarrow> (('k, 'v) hashmap \<times> 'v map_answer) option" where
  "hm_exec h (Op_insert k v) m = map_option (\<lambda>(m', slot, new). (m', Flag new)) (insert_hm h k v m)"
| "hm_exec h (Op_assign k v) m = map_option (\<lambda>(m', slot, new). (m', Flag new)) (do_assign h k v m)"
| "hm_exec h (Op_unique k v) m = map_option (\<lambda>(m', bucket). (m', Done)) (insert_unique h k v m)"
| "hm_exec h (Op_try_set k v) m = map_option (\<lambda>(m', found). (m', Flag found)) (try_set h k v m)"
| "hm_exec h (Op_get k) m = map_option (\<lambda>r. (m, Found r)) (try_get h k m)"
| "hm_exec h (Op_erase k) m = map_option (\<lambda>(m', n). (m', Count n)) (erase h k m)"
| "hm_exec h (Op_erase_if p) m = map_option (\<lambda>(m', n). (m', Count n)) (erase_if h p m)"
| "hm_exec h (Op_clear t) m = Some (clear t m, Done)"


lemma erase_if_map:
  assumes "hm_ok lim h m"
  shows "\<exists>m' n. erase_if h p m = Some (m', n) \<and> hm_ok lim h m' \<and> num_filled m' \<le> num_filled m \<and>
    map_exec (Op_erase_if p) (hm_map m) = (hm_map m', Count n)"
proof -
  obtain m' where m': "erase_if_loop h p 0 m = Some m'" "hm_ok lim h m'" "set (hm_pairs m') = {x \<in> set (hm_pairs m). \<not> p x}"
    using erase_if_loop_ok [OF assms, of 0 p] by auto
  have d: "distinct (map fst (hm_pairs m))" "distinct (map fst (hm_pairs m'))" using assms m'(2) by (simp_all add: hm_ok_def)
  from m'(1) have "erase_if h p m = Some (m', num_filled m - num_filled m')" by (simp add: erase_if_def)
  moreover have "map_exec (Op_erase_if p) (hm_map m) = (hm_map m', Count (num_filled m - num_filled m'))"
    using map_of_filter [OF d m'(3)] erase_if_count(1) [OF d m'(3)] by (simp add: hm_map_def)
  ultimately show ?thesis using m'(2) erase_if_count(2) [OF d m'(3)] by blast
qed

lemma hm_exec_refines:
  assumes ok: "hm_ok lim h m" and n: "num_filled m < lim" and en: "map_enabled p (hm_map m)"
  shows "\<exists>m' r. hm_exec h p m = Some (m', r) \<and> hm_ok lim h m' \<and> num_filled m' \<le> Suc (num_filled m) \<and> map_exec p (hm_map m) = (hm_map m', r)"
proof (cases p)
  case (Op_insert k v)
  then show ?thesis using insert_map [OF ok n, of k v] by auto
next
  case (Op_assign k v)
  then show ?thesis using do_assign_map [OF ok n, of k v] by auto
next
  case (Op_unique k v)
  then have "hm_map m k = None" using en by simp
  then show ?thesis using insert_unique_map [OF ok n, of k v] Op_unique by auto
next
  case (Op_try_set k v)
  then show ?thesis using try_set_map [OF ok, of k v] by auto
next
  case (Op_get k)
  then show ?thesis using try_get_map [OF ok, of k] ok by simp
next
  case (Op_erase k)
  then show ?thesis using erase_map [OF ok, of k] by auto
next
  case (Op_erase_if q)
  then show ?thesis using erase_if_map [OF ok, of q] by auto
next
  case (Op_clear t)
  then show ?thesis using clear_ok [OF ok, of t] by (simp add: hm_map_def)
qed


interpretation hm_ref: data_refinement "hm_ok lim h" hm_map num_filled lim "hm_exec h" map_exec map_enabled for lim h
  by unfold_locales (rule hm_exec_refines)


section \<open>Unique keys without a rehash\<close>

text \<open>While the index is large enough, \<^verbatim>\<open>emplace_unique\<close> of new keys keeps its size.\<close>

lemma unique_keeps_buckets:
  assumes ok: "hm_ok lim h m" and new: "hm_map m key = None" and small: "(num_filled m * hm_mlf m) div 2 ^ 27 < unat (hm_mask m)"
    and r: "insert_unique h key val m = Some (m', b)"
  shows "hm_num_buckets m' = hm_num_buckets m \<and> hm_mask m' = hm_mask m \<and> hm_mlf m' = hm_mlf m"
proof -
  obtain k ch where m: "shape k m" "index_ok h m (num_filled m) ch" using ok by (rule hm_okE)
  have expand: "check_expand_need h m = Some m" using small by (simp add: check_expand_need_def reserve_def)
  have "num_filled m \<le> (num_filled m * hm_mlf m) div 2 ^ 27"
    using ok div_le_mono [OF mult_le_mono2 [of "2 ^ 27" "hm_mlf m" "num_filled m"], of "2 ^ 27"] by (simp add: hm_ok_def)
  moreover have "unat (hm_mask m) < hm_num_buckets m" using m(1) unat_and_mask [of k "- 1"] by (auto simp: shape_def)
  ultimately have "num_filled m < hm_num_buckets m" using small by linarith
  from find_unique_ok [OF m this, of "h key"] obtain m1 c where
    "find_unique_bucket h m (h key) = Some (m1, c)" "frame m m1" by (elim exE conjE)
  then show ?thesis using r by (auto simp: insert_unique_def expand EMH_NEW_def frame_def)
qed

lemma unique_run_keeps_buckets:
  assumes "hm_ok lim h m" and "distinct ks" and "\<forall>key\<in>set ks. hm_map m key = None"
    and "((num_filled m + length ks) * hm_mlf m) div 2 ^ 27 < unat (hm_mask m)" and "num_filled m + length ks \<le> lim"
  shows "\<exists>m'. run_ops (hm_exec h) (map (\<lambda>key. Op_unique key val) ks) m = Some (m', replicate (length ks) Done) \<and>
    hm_ok lim h m' \<and> num_filled m' = num_filled m + length ks \<and> hm_num_buckets m' = hm_num_buckets m \<and> hm_mlf m' = hm_mlf m"
  using assms
proof (induction ks arbitrary: m)
  case Nil
  then show ?case by simp
next
  case (Cons key ks)
  have new: "hm_map m key = None" using Cons.prems(3) by simp
  have "num_filled m < lim" using Cons.prems(5) by simp
  from insert_unique_map [OF Cons.prems(1) this new, of val] obtain m1 b where
    m1: "insert_unique h key val m = Some (m1, b)" "hm_ok lim h m1" "num_filled m1 = Suc (num_filled m)" "hm_map m1 = (hm_map m)(key \<mapsto> val)"
    by blast
  have "(num_filled m * hm_mlf m) div 2 ^ 27 \<le> ((num_filled m + length (key # ks)) * hm_mlf m) div 2 ^ 27"
    by (intro div_le_mono mult_le_mono1) simp
  then have "(num_filled m * hm_mlf m) div 2 ^ 27 < unat (hm_mask m)" using Cons.prems(4) by linarith
  from unique_keeps_buckets [OF Cons.prems(1) new this m1(1)]
  have same: "hm_num_buckets m1 = hm_num_buckets m" "hm_mask m1 = hm_mask m" "hm_mlf m1 = hm_mlf m" by simp_all
  have "((num_filled m1 + length ks) * hm_mlf m1) div 2 ^ 27 < unat (hm_mask m1)" "num_filled m1 + length ks \<le> lim"
    using Cons.prems(4,5) by (simp_all add: m1(3) same)
  moreover have "\<forall>x\<in>set ks. hm_map m1 x = None" using Cons.prems(2,3) by (auto simp: m1(4))
  ultimately obtain m' where "run_ops (hm_exec h) (map (\<lambda>key. Op_unique key val) ks) m1 = Some (m', replicate (length ks) Done)"
    "hm_ok lim h m'" "num_filled m' = num_filled m1 + length ks" "hm_num_buckets m' = hm_num_buckets m1" "hm_mlf m' = hm_mlf m1"
    using Cons.IH [OF m1(2)] Cons.prems(2) by auto
  then show ?case using m1 same by simp
qed

lemma new_buckets:
  assumes "2 ^ 27 \<le> mlf" and "mlf \<le> 2 ^ 29"
  shows "\<exists>m. HashMap_new h 256 mlf = Some m \<and> hm_ok (room_limit mlf) h m \<and> hm_pairs m = [] \<and> hm_num_buckets m = 256 \<and> hm_mlf m = mlf"
proof -
  define m0 :: "('a, 'b) hashmap" where "m0 = \<lparr>hm_index = [], hm_pairs = [], hm_mlf = mlf, hm_mask = 0, hm_num_buckets = 0, hm_last = 0, hm_etail = INACTIVE\<rparr>"
  have "num_filled m0 \<le> 256" "256 < max_size" by (simp_all add: m0_def max_size_def)
  from rehash_ok [OF this, of h] obtain m where m: "rehash h 256 m0 = Some m" "hm_mlf m = hm_mlf m0"
    "grow_buckets (if num_filled m0 > 2 ^ 16 then 2 ^ 16 else 4) 256 = Some (hm_num_buckets m)" by blast
  have "grow_buckets 4 256 = Some 256" by (simp add: grow_buckets.simps)
  then have "hm_num_buckets m = 256" using m(3) by (simp add: m0_def)
  moreover have "HashMap_new h 256 mlf = Some m" using m(1) by (simp add: HashMap_new_def m0_def)
  moreover from this HashMap_new_ok [OF assms, of 256 h, where ?'b = 'b] have "hm_ok (room_limit mlf) h m" "hm_pairs m = []" by (auto simp: max_size_def)
  ultimately show ?thesis using m(2) by (simp add: m0_def)
qed

section \<open>Two load factors\<close>

lemma default_load_factor: "max_load_factor 167772160 = (13421773, 24)"
  by (simp add: max_load_factor_def float_of_uint_def round_div_def bit_length_eval)

lemma default_rounds_up: "rounds_up 167772160"
  by (simp add: rounds_up_def default_load_factor)

lemma default_limit: "room_limit 167772160 = 2 ^ 29 - 1"
  by (simp add: room_limit_def default_rounds_up)

section \<open>Properties\<close>

text \<open>
  C3: A hash map refines a finite map.  After construction with an admissible load factor and at most \<open>2 ^ 24\<close>
  buckets, every sequence of up to \<open>2 ^ 22\<close> operations in which \<^verbatim>\<open>emplace_unique\<close> gets new keys returns,
  whatever the hash function; its answers and the final content are those of the operations on a map, and the table
  is well-formed: the chains are intact and the pairs fit into the allocated array, whose size comes from the
  rounded load factor.  If the rounded load factor is not below the exact one, as for the default, this holds of every
  number of buckets and of up to \<open>2 ^ 29 - 1\<close> operations.
\<close>
theorem hash_map_refines_map:
  fixes ops :: "('k, 'v) map_op list"
  assumes "2 ^ 27 \<le> mlf" and "mlf \<le> 2 ^ 29" and "bucket < max_size" and "rounds_up mlf \<or> bucket \<le> 2 ^ 24"
    and "length ops \<le> (if rounds_up mlf then 2 ^ 29 - 1 else 2 ^ 22)" and "all_enabled map_enabled map_exec ops Map.empty"
  shows "\<exists>m m' rs. HashMap_new h bucket mlf = Some m \<and> run_ops (hm_exec h) ops m = Some (m', rs) \<and> hm_ok (room_limit mlf) h m' \<and>
    run_spec map_exec ops Map.empty = (hm_map m', rs)"
proof -
  obtain m :: "('k, 'v) hashmap" where m: "HashMap_new h bucket mlf = Some m" "hm_ok (room_limit mlf) h m" "hm_pairs m = []"
    using HashMap_new_ok [OF assms(1-4)] by blast
  have "hm_map m = Map.empty" "num_filled m + length ops \<le> room_limit mlf" using m(3) assms(5) by (simp_all add: hm_map_def room_limit_def)
  with hm_ref.run_refines [OF m(2), of ops] assms(6) m(1) show ?thesis by auto
qed

theorem hash_map_refines_map_witness:
  "\<exists>m m' rs. HashMap_new (\<lambda>k. 7) 2 167772160 = Some m \<and>
     run_ops (hm_exec (\<lambda>k. 7)) [Op_unique 1 [3, 4], Op_unique 5 [6], Op_get 1, Op_erase (1 :: int), Op_get 1, Op_assign 5 [8 :: int]] m = Some (m', rs) \<and>
     hm_ok (2 ^ 29 - 1) (\<lambda>k. 7) m' \<and> hm_map m' = [5 \<mapsto> [8]] \<and> rs = [Done, Done, Found (Some [3, 4]), Count 1, Found None, Flag False]"
  (is "\<exists>m m' rs. _ \<and> run_ops _ ?ops m = _ \<and> _")
proof -
  have spec: "run_spec map_exec ?ops Map.empty = ([5 \<mapsto> [8]], [Done, Done, Found (Some [3, 4]), Count 1, Found None, Flag False])"
    by (simp add: fun_upd_twist)
  have "all_enabled map_enabled map_exec ?ops Map.empty" "length ?ops \<le> 2 ^ 29 - 1" "2 < max_size" by (simp_all add: max_size_def)
  with default_rounds_up default_limit hash_map_refines_map [of 167772160 2 ?ops "\<lambda>k. 7"] show ?thesis unfolding spec prod.inject by fastforce
qed



text \<open>
  \<^verbatim>\<open>shrink_to_fit\<close> can overrun the array of pairs.  A map constructed with 256 buckets and the default load
  factor, filled with 30 new keys, has load below a fifth; \<^verbatim>\<open>shrink_to_fit\<close> then rebuilds it with 32 buckets and
  room for 29 pairs, into which \<^verbatim>\<open>rebuild\<close> copies 30.
\<close>
theorem shrink_to_fit_overruns:
  "\<exists>m m' m''. HashMap_new h 256 167772160 = Some m \<and>
     run_ops (hm_exec h) (map (\<lambda>key. Op_unique key val) [0..<30]) m = Some (m', replicate 30 Done) \<and> hm_ok (2 ^ 29 - 1) h m' \<and>
     shrink_to_fit h m' = Some m'' \<and> num_filled m'' = 30 \<and> hm_num_buckets m'' = 32 \<and> pair_room m'' = 29"
proof -
  obtain m :: "(nat, 'a) hashmap" where m: "HashMap_new h 256 167772160 = Some m" "hm_ok (2 ^ 29 - 1) h m" "hm_pairs m = []" "hm_num_buckets m = 256" "hm_mlf m = 167772160"
    using new_buckets [of 167772160 h] by (auto simp: default_limit)
  obtain k ch where "shape k m" using m(2) by (rule hm_okE)
  then have "(2 :: nat) ^ k = 2 ^ 8" and mask: "hm_mask m = mask k" using m(4) by (simp_all add: shape_def)
  then have "k = 8" by (simp only: power_inject_exp one_less_numeral_iff semiring_norm)
  with mask have "unat (hm_mask m) = 255" by (simp add: mask_eq_exp_minus_1)
  then have "\<exists>m'. run_ops (hm_exec h) (map (\<lambda>key. Op_unique key val) [0..<30]) m = Some (m', replicate 30 Done) \<and>
      hm_ok (2 ^ 29 - 1) h m' \<and> num_filled m' = 30 \<and> hm_num_buckets m' = 256 \<and> hm_mlf m' = 167772160"
    using unique_run_keeps_buckets [OF m(2), of "[0..<30]" val] m(3-5) by (simp add: hm_map_def)
  then obtain m' where m': "run_ops (hm_exec h) (map (\<lambda>key. Op_unique key val) [0..<30]) m = Some (m', replicate 30 Done)"
      "hm_ok (2 ^ 29 - 1) h m'" "num_filled m' = 30" "hm_num_buckets m' = 256" "hm_mlf m' = 167772160" by blast
  have "num_filled m' \<le> 31" "31 < max_size" using m'(3) by (simp_all add: max_size_def)
  from rehash_ok [OF this, of h] obtain m'' where m'': "rehash h 31 m' = Some m''" "hm_pairs m'' = hm_pairs m'" "hm_mlf m'' = hm_mlf m'"
    "grow_buckets (if num_filled m' > 2 ^ 16 then 2 ^ 16 else 4) 31 = Some (hm_num_buckets m'')" by blast
  have "grow_buckets 4 31 = Some 32" by (simp add: grow_buckets.simps)
  then have "hm_num_buckets m'' = 32" using m''(4) by (simp add: m'(3))
  moreover have "shrink_to_fit h m' = Some m''" using m''(1) by (simp add: shrink_to_fit_def m'(3,4))
  ultimately show ?thesis using m(1) m' m''(2,3) by (intro exI [of _ m] exI [of _ m'] exI [of _ m'']) (simp add: pair_room_def default_load_factor)
qed

text \<open>
  In a large map whose load factor was rounded down the array of pairs is too small.  With \<^verbatim>\<open>_mlf\<close> 154254000, which
  is the load factor 0.8701085, and \<open>2 ^ 28\<close> buckets, \<^verbatim>\<open>reserve\<close> lets pair number 233567992 in without growing,
  into an array of 233567988.
\<close>
theorem rounded_room_too_small:
  assumes "hm_mlf m = 154254000" and "hm_num_buckets m = 2 ^ 28" and "hm_mask m = 2 ^ 28 - 1" and "num_filled m = 233567991"
  shows "check_expand_need h m = Some m \<and> pair_room m = 233567988"
proof -
  have "max_load_factor 154254000 = (14597999, 24)"
    by (simp add: max_load_factor_def float_of_uint_def round_div_def bit_length_eval)
  then show ?thesis using assms by (simp add: check_expand_need_def reserve_def pair_room_def)
qed

end
