(* ===== verification/VanCommon.thy ===== *)
theory VanCommon
  imports Wire Env
begin

text \<open>
  \<^verbatim>\<open>src/van_common.h\<close>: alignment, the key of a message, and the pool that turns the address of a
  receive buffer into the small index an RDMA write carries as immediate data.
\<close>

definition kMaxDataFields :: nat where "kMaxDataFields = 4"
definition kMaxAddressEntries :: int where "kMaxAddressEntries = 10240"

definition align_floor :: "nat \<Rightarrow> nat \<Rightarrow> nat" where
  "align_floor v align = v - v mod align"

definition align_ceil :: "nat \<Rightarrow> nat \<Rightarrow> nat" where
  "align_ceil v align = align_floor (v + align - 1) align"

text \<open>\<^verbatim>\<open>aligned_malloc\<close> rounds up to whole pages and clears the block; \<open>p\<close> is what \<^verbatim>\<open>posix_memalign\<close> returns.\<close>

definition aligned_malloc :: "nat \<Rightarrow> nat \<Rightarrow> mem \<Rightarrow> mem" where
  "aligned_malloc p sz m = put p (replicate sz 0) m"

text \<open>\<^verbatim>\<open>DecodeKey\<close>: the bytes of the key array, the first one lowest, in 64 bits.\<close>

fun decode_key_loop :: "byte list \<Rightarrow> key \<Rightarrow> key \<Rightarrow> key" where
  "decode_key_loop [] k coef = k"
| "decode_key_loop (b # bs) k coef = decode_key_loop bs (k + coef * ucast b) (coef * 256)"

definition DecodeKey :: "sarr \<Rightarrow> key" where
  "DecodeKey keys = decode_key_loop (sa_bytes keys) 0 1"

section \<open>Address pool\<close>

record 'a address_pool =
  ap_max :: nat
  ap_indices :: "nat list"
  ap_table :: "'a option list"

definition AddressPool_new :: "environment \<Rightarrow> 'a address_pool" where
  "AddressPool_new e =
     (let kMaxEntries = (case env_find e ''BYTEPS_ADDRESS_POOL_SIZE'' of Some s \<Rightarrow> atoi s | None \<Rightarrow> kMaxAddressEntries)
      in \<lparr>ap_max = nat kMaxEntries, ap_indices = [0..<nat kMaxEntries], ap_table = replicate (nat kMaxEntries) None\<rparr>)"

definition GetAddressAndRelease :: "nat \<Rightarrow> 'a address_pool \<Rightarrow> ('a address_pool \<times> 'a) res" where
  "GetAddressAndRelease index p =
     no_ub (index < length (ap_table p)) ''table_''
      (case ap_table p ! index of
         None \<Rightarrow> Inl (CheckFailed ''ptr'')
       | Some ptr \<Rightarrow> Inr (p\<lparr>ap_indices := ap_indices p @ [index], ap_table := (ap_table p)[index := None]\<rparr>, ptr))"

definition GetAddress :: "nat \<Rightarrow> 'a address_pool \<Rightarrow> 'a res" where
  "GetAddress index p =
     no_ub (index < length (ap_table p)) ''table_''
      (case ap_table p ! index of None \<Rightarrow> Inl (CheckFailed ''table_[index]'') | Some ptr \<Rightarrow> Inr ptr)"

definition StoreAddress :: "'a \<Rightarrow> 'a address_pool \<Rightarrow> ('a address_pool \<times> nat) res" where
  "StoreAddress ptr p =
     PS_CHECK (ap_indices p \<noteq> []) ''Address pool size is too small''
      (let idx = hd (ap_indices p); p1 = p\<lparr>ap_indices := tl (ap_indices p)\<rparr>
       in no_ub (idx < length (ap_table p)) ''table_''
           (PS_CHECK (ap_table p ! idx = None) ''table_[idx]''
             (Inr (p1\<lparr>ap_table := (ap_table p)[idx := Some ptr]\<rparr>, idx))))"

section \<open>Facts\<close>

lemma align_ceil_bounds:
  assumes "0 < a"
  shows "v \<le> align_ceil v a" and "align_ceil v a < v + a" and "a dvd align_ceil v a"
proof -
  define r where "r = (v + a - 1) mod a"
  have r: "r < a" using assms by (simp add: r_def)
  have "align_ceil v a = v + a - 1 - r" by (simp add: align_ceil_def align_floor_def r_def)
  with r show "v \<le> align_ceil v a" "align_ceil v a < v + a" by linarith+
  show "a dvd align_ceil v a" unfolding align_ceil_def align_floor_def by (rule dvd_minus_mod)
qed

text \<open>The key decoded from the bytes of a 64-bit key is the key.\<close>

lemma decode_key_loop_le:
  "decode_key_loop bs k coef = k + coef * word_of_int (le_int bs)"
proof (induction bs arbitrary: k coef)
  case (Cons b bs)
  have "(ucast b :: key) = word_of_int (uint b)" by (simp add: unsigned_ucast_eq word_of_int_uint)
  then show ?case using Cons by (simp add: algebra_simps)
qed simp

lemma DecodeKey_bytes:
  assumes "sa_bytes keys = u64_bytes key"
  shows "DecodeKey keys = key"
  using assms u64_round [of key] by (simp add: DecodeKey_def decode_key_loop_le u64_of_def)

subsection \<open>The pool never hands out an index that is in use\<close>

text \<open>The free indices are, without repetition, those whose entry is empty.\<close>

definition pool_ok :: "'a address_pool \<Rightarrow> bool" where
  "pool_ok p \<longleftrightarrow> length (ap_table p) = ap_max p \<and> distinct (ap_indices p) \<and>
     set (ap_indices p) = {i. i < ap_max p \<and> ap_table p ! i = None}"

definition pool_map :: "'a address_pool \<Rightarrow> nat \<Rightarrow> 'a option" where
  "pool_map p i = (if i < length (ap_table p) then ap_table p ! i else None)"

lemma AddressPool_new_ok: "pool_ok (AddressPool_new e)" "pool_map (AddressPool_new e) = Map.empty"
  by (auto simp: pool_ok_def AddressPool_new_def Let_def pool_map_def fun_eq_iff)

lemma pool_free_count:
  assumes "pool_ok p"
  shows "length (ap_indices p) + card (dom (pool_map p)) = ap_max p"
proof -
  define A where "A = {i. i < ap_max p \<and> ap_table p ! i = None}"
  have len: "length (ap_table p) = ap_max p" using assms by (simp add: pool_ok_def)
  have d: "dom (pool_map p) = {..<ap_max p} - A" by (auto simp: A_def pool_map_def len split: if_splits)
  have sub: "A \<subseteq> {..<ap_max p}" by (auto simp: A_def)
  then have "card (dom (pool_map p)) = ap_max p - card A" unfolding d by (subst card_Diff_subset) (auto intro: finite_subset)
  moreover have "card A = length (ap_indices p)" using assms distinct_card [of "ap_indices p"] by (simp add: pool_ok_def A_def)
  moreover have "card A \<le> ap_max p" using card_mono [OF _ sub] by simp
  ultimately show ?thesis by simp
qed

lemma StoreAddress_ok:
  assumes "pool_ok p"
  shows "card (dom (pool_map p)) < ap_max p \<Longrightarrow>
      \<exists>p' idx. StoreAddress ptr p = Inr (p', idx) \<and> pool_ok p' \<and> ap_max p' = ap_max p \<and> idx < ap_max p \<and>
        pool_map p idx = None \<and> pool_map p' = (pool_map p)(idx \<mapsto> ptr)"
    and "card (dom (pool_map p)) = ap_max p \<Longrightarrow> StoreAddress ptr p = Inl (CheckFailed ''Address pool size is too small'')"
proof -
  note count = pool_free_count [OF assms]
  show "StoreAddress ptr p = Inl (CheckFailed ''Address pool size is too small'')" if "card (dom (pool_map p)) = ap_max p"
    using that count by (simp add: StoreAddress_def)
  assume "card (dom (pool_map p)) < ap_max p"
  then obtain i js where js: "ap_indices p = i # js" using count by (cases "ap_indices p") auto
  have i: "i < ap_max p" "ap_table p ! i = None" "length (ap_table p) = ap_max p" using assms js by (auto simp: pool_ok_def)
  have "StoreAddress ptr p = Inr (p\<lparr>ap_indices := js, ap_table := (ap_table p)[i := Some ptr]\<rparr>, i)"
    using i js by (simp add: StoreAddress_def Let_def)
  moreover have "pool_ok (p\<lparr>ap_indices := js, ap_table := (ap_table p)[i := Some ptr]\<rparr>)"
  proof -
    have d: "distinct (i # js)" and free: "\<And>x. x \<in> set (i # js) \<longleftrightarrow> x < ap_max p \<and> ap_table p ! x = None"
      using assms js by (auto simp: pool_ok_def)
    have "x \<in> set js \<longleftrightarrow> x < ap_max p \<and> (ap_table p)[i := Some ptr] ! x = None" for x
      using d free [of x] i(1,3) by (cases "x = i") auto
    then show ?thesis using d i(3) by (auto simp: pool_ok_def)
  qed
  moreover have "pool_map (p\<lparr>ap_indices := js, ap_table := (ap_table p)[i := Some ptr]\<rparr>) = (pool_map p)(i \<mapsto> ptr)"
    using i by (auto simp: pool_map_def fun_eq_iff nth_list_update)
  moreover have "pool_map p i = None" using i by (simp add: pool_map_def)
  ultimately show "\<exists>p' idx. StoreAddress ptr p = Inr (p', idx) \<and> pool_ok p' \<and> ap_max p' = ap_max p \<and> idx < ap_max p \<and>
        pool_map p idx = None \<and> pool_map p' = (pool_map p)(idx \<mapsto> ptr)" using i(1) by auto
qed

lemma GetAddress_map:
  "i < length (ap_table p) \<Longrightarrow> GetAddress i p = (case pool_map p i of None \<Rightarrow> Inl (CheckFailed ''table_[index]'') | Some ptr \<Rightarrow> Inr ptr)"
  by (simp add: GetAddress_def pool_map_def)

lemma GetAddressAndRelease_ok:
  assumes "pool_ok p" and "pool_map p i = Some ptr"
  shows "\<exists>p'. GetAddressAndRelease i p = Inr (p', ptr) \<and> pool_ok p' \<and> pool_map p' = (pool_map p)(i := None)"
proof -
  have i: "i < length (ap_table p)" "ap_table p ! i = Some ptr" "length (ap_table p) = ap_max p"
    using assms by (auto simp: pool_map_def pool_ok_def split: if_splits)
  define p' where "p' = p\<lparr>ap_indices := ap_indices p @ [i], ap_table := (ap_table p)[i := None]\<rparr>"
  have "GetAddressAndRelease i p = Inr (p', ptr)" using i by (simp add: GetAddressAndRelease_def p'_def)
  moreover have "pool_ok p'"
  proof -
    have d: "distinct (ap_indices p)" and free: "\<And>x. x \<in> set (ap_indices p) \<longleftrightarrow> x < ap_max p \<and> ap_table p ! x = None"
      using assms by (auto simp: pool_ok_def)
    have "x \<in> set (ap_indices p @ [i]) \<longleftrightarrow> x < ap_max p \<and> (ap_table p)[i := None] ! x = None" for x
      using free [of x] i by (cases "x = i") auto
    then show ?thesis using d free [of i] i by (auto simp: pool_ok_def p'_def)
  qed
  moreover have "pool_map p' = (pool_map p)(i := None)" using i by (auto simp: pool_map_def p'_def fun_eq_iff nth_list_update)
  ultimately show ?thesis by blast
qed

end
