(* ===== verification/RdmaTransport.thy ===== *)
theory RdmaTransport
  imports VanCommon
begin

text \<open>
  \<^verbatim>\<open>src/rdma_utils.h\<close> and \<^verbatim>\<open>src/rdma_transport.h\<close>, built without \<^verbatim>\<open>STEPMESH_USE_GDR\<close>: registered
  memory, endpoints with their work request contexts and queue pairs, and what a transport posts
  to the send queues for a rendezvous, a push and a pull.  The verbs library is a parameter: where
  \<^verbatim>\<open>posix_memalign\<close> puts a block and which region \<^verbatim>\<open>ibv_reg_mr\<close> answers.  A posted work request is
  appended to a log of the endpoint, with the index of its queue pair.
\<close>

unbundle bit_operations_syntax

section \<open>Registered memory\<close>

record ibv_mr =
  mr_addr :: nat
  mr_length :: nat
  mr_lkey :: "32 word"
  mr_rkey :: "32 word"

record allocator =
  ma_pagesize :: nat
  ma_used :: "(nat, nat) umap"
  ma_mr :: "(nat, ibv_mr) umap"

record verbs =
  vb_memalign :: "allocator \<Rightarrow> nat \<Rightarrow> nat"
  vb_reg_mr :: "nat \<Rightarrow> nat \<Rightarrow> ibv_mr option"

text \<open>\<^verbatim>\<open>MemoryAllocator::Alloc\<close> on the process's memory; the null pointer is 0.\<close>

definition ma_Alloc :: "verbs \<Rightarrow> nat \<Rightarrow> allocator \<times> mem \<Rightarrow> ((allocator \<times> mem) \<times> nat) res" where
  "ma_Alloc vb sz am =
     (let (al, m) = am
      in if sz = 0 then Inr ((al, m), 0)
         else let sz1 = align_ceil sz (ma_pagesize al); p = vb_memalign vb al sz1; m1 = aligned_malloc p sz1 m
              in case vb_reg_mr vb p sz1 of
                   None \<Rightarrow> Inl (CheckFailed ''mr != nullptr'')
                 | Some mr \<Rightarrow> Inr ((al\<lparr>ma_mr := umap_set p mr (ma_mr al), ma_used := umap_insert p sz1 (ma_used al)\<rparr>, m1), p))"

definition Addr2MR :: "allocator \<Rightarrow> nat \<Rightarrow> ibv_mr res" where
  "Addr2MR al addr =
     (case umap_find (ma_mr al) addr of
        None \<Rightarrow> Inl (CheckFailed ''cannot find the associated memory region'')
      | Some mr \<Rightarrow> Inr mr)"

definition LocalKey :: "allocator \<Rightarrow> nat \<Rightarrow> 32 word res" where
  "LocalKey al addr = bindR (Addr2MR al addr) (\<lambda>mr. Inr (mr_lkey mr))"

definition RemoteKey :: "allocator \<Rightarrow> nat \<Rightarrow> 32 word res" where
  "RemoteKey al addr = bindR (Addr2MR al addr) (\<lambda>mr. Inr (mr_rkey mr))"

section \<open>Messages of the rendezvous\<close>

record rendezvous_start =
  rs_meta_len :: nat
  rs_data_num :: nat
  rs_data_len :: "nat list"
  rs_origin_addr :: nat
  rs_key :: key

record rendezvous_reply =
  rr_addr :: nat
  rr_rkey :: "32 word"
  rr_origin_addr :: nat
  rr_idx :: nat

record buffer_context =
  bc_buffer :: nat
  bc_meta_len :: int
  bc_data_num :: nat
  bc_data_len :: "nat list"

text \<open>Message buffers live in a table; their address is the position in it.\<close>

record message_buffer =
  mb_inline_len :: nat
  mb_inline_buf :: nat
  mb_data :: "sarr list"
  mb_mrs :: "(ibv_mr \<times> nat) list"

text \<open>\<^verbatim>\<open>RemoteTuple\<close>: remote address, remote key, index in the remote pool, local message buffer.\<close>

type_synonym remote_tuple = "nat \<times> 32 word \<times> nat \<times> nat"

section \<open>Endpoints\<close>

datatype connection_status = IDLE | CONNECTING | CONNECTED | REJECTED

datatype rendezvous = RendezvousStart rendezvous_start | RendezvousReply rendezvous_reply

text \<open>An RDMA write; \<open>w_imm\<close> is the immediate data of a write that raises a completion at the receiver.\<close>

record rdma_write =
  w_id :: nat
  w_laddr :: nat
  w_len :: nat
  w_lkey :: "32 word"
  w_raddr :: nat
  w_rkey :: "32 word"
  w_imm :: "32 word option"
  w_signaled :: bool
  w_inline :: bool

datatype work_request = WR_send nat rendezvous | WR_write rdma_write

record endpoint =
  ep_node_id :: int
  ep_status :: "connection_status list"
  ep_pkt_count :: "64 word list"
  ep_cm_ids :: "nat option list"
  ep_master_id :: "nat option"
  ep_transport :: bool
  ep_multi_qp :: bool
  ep_incoming_count :: nat
  ep_start_depth :: nat
  ep_rx_depth :: nat
  ep_reply_depth :: nat
  ep_free_start :: "nat list"
  ep_free_reply :: "nat list"
  ep_inited :: nat
  ep_posted :: "(nat \<times> work_request) list"
  ep_receives :: "(nat \<times> nat) list"

text \<open>
  The constructor; the entries from \<^verbatim>\<open>QP_NUM\<close> on, which the code leaves uninitialised and never reads, get the same values here.
\<close>

definition Endpoint_new :: "environment \<Rightarrow> endpoint res" where
  "Endpoint_new e =
     (case env_find e ''DMLC_ROLE'' of
        None \<Rightarrow> Inl (CheckFailed ''DMLC_ROLE'')
      | Some role \<Rightarrow>
          (let start0 = (if role = ''scheduler'' then 256 else 128); rx0 = (if role = ''scheduler'' then 16 else 256);
               kStartDepth = (case env_find e ''BYTEPS_RDMA_START_DEPTH'' of Some s \<Rightarrow> atoi s | None \<Rightarrow> start0);
               kRxDepth = (case env_find e ''BYTEPS_RDMA_RX_DEPTH'' of Some s \<Rightarrow> atoi s | None \<Rightarrow> rx0)
           in Inr \<lparr>ep_node_id = kEmpty, ep_status = replicate QP_MAX_NUM IDLE, ep_pkt_count = replicate QP_MAX_NUM 0,
                   ep_cm_ids = replicate QP_MAX_NUM None, ep_master_id = None, ep_transport = False, ep_multi_qp = False,
                   ep_incoming_count = 0, ep_start_depth = nat kStartDepth, ep_rx_depth = nat kRxDepth,
                   ep_reply_depth = nat kRxDepth, ep_free_start = [], ep_free_reply = [], ep_inited = 0, ep_posted = [],
                   ep_receives = []\<rparr>))"

definition GetAllStatus :: "nat \<Rightarrow> connection_status \<Rightarrow> bool \<Rightarrow> endpoint \<Rightarrow> bool" where
  "GetAllStatus QP_NUM s eq ep = list_all (\<lambda>q. (ep_status ep ! q = s) = eq) [0..<QP_NUM]"

definition SetStatus :: "nat \<Rightarrow> nat \<Rightarrow> connection_status \<Rightarrow> endpoint \<Rightarrow> endpoint" where
  "SetStatus QP_NUM cm_id s ep =
     ep\<lparr>ep_status := fold (\<lambda>q st. if ep_cm_ids ep ! q = Some cm_id then st[q := s] else st) [0..<QP_NUM] (ep_status ep)\<rparr>"

definition PostRecv :: "nat \<Rightarrow> nat \<Rightarrow> endpoint \<Rightarrow> endpoint" where
  "PostRecv ctx qp ep = ep\<lparr>ep_receives := ep_receives ep @ [(qp, ctx)]\<rparr>"

text \<open>
  \<^verbatim>\<open>Endpoint::Init\<close> for the queue pair \<open>qp\<close>: the contexts are set up the first time; each of the
  first \<^verbatim>\<open>QP_NUM\<close> calls posts its share of the receive contexts, from \<^verbatim>\<open>inited * QP_NUM\<close> on.
\<close>

definition Endpoint_Init :: "nat \<Rightarrow> nat \<Rightarrow> endpoint \<Rightarrow> endpoint res" where
  "Endpoint_Init QP_NUM qp ep =
     no_ub (0 < QP_NUM) ''division''
      (let ep1 = (if ep_inited ep = 0
                  then ep\<lparr>ep_free_start := ep_free_start ep @ [0..<ep_start_depth ep],
                          ep_free_reply := ep_free_reply ep @ [0..<ep_reply_depth ep]\<rparr>
                  else ep);
           share = (if ep_inited ep < QP_NUM then map (\<lambda>i. i + ep_inited ep * QP_NUM) [0..<ep_rx_depth ep div QP_NUM] else [])
       in no_ub (list_all (\<lambda>c. c < ep_rx_depth ep) share) ''rx_ctx''
           (Inr ((fold (\<lambda>c. PostRecv c qp) share ep1)\<lparr>ep_inited := (ep_inited ep + 1) mod 256\<rparr>)))"

definition post_send :: "nat \<Rightarrow> work_request \<Rightarrow> endpoint \<Rightarrow> endpoint" where
  "post_send qp wr ep = ep\<lparr>ep_posted := ep_posted ep @ [(qp, wr)]\<rparr>"

section \<open>Sending\<close>

text \<open>\<open>prev\<close> is a work request chained in front of the write.\<close>

definition RDMAWriteWithImm ::
  "allocator \<Rightarrow> nat \<Rightarrow> message_buffer \<Rightarrow> nat \<Rightarrow> 32 word \<Rightarrow> nat \<Rightarrow> bool \<Rightarrow> rdma_write option \<Rightarrow> endpoint \<Rightarrow> endpoint res" where
  "RDMAWriteWithImm al ptr msg_buf remote_addr rkey idx inline_write prev ep =
     bindR (LocalKey al (mb_inline_buf msg_buf)) (\<lambda>lkey.
       let wr = \<lparr>w_id = ptr, w_laddr = mb_inline_buf msg_buf, w_len = mb_inline_len msg_buf mod 2 ^ 32, w_lkey = lkey,
                 w_raddr = remote_addr, w_rkey = rkey, w_imm = Some (of_nat idx), w_signaled = True, w_inline = inline_write\<rparr>;
           ep1 = (case prev of None \<Rightarrow> ep | Some prev_wr \<Rightarrow> post_send 0 (WR_write prev_wr) ep)
       in Inr (post_send 0 (WR_write wr) ep1))"

definition SendRendezvousBegin :: "message \<Rightarrow> nat \<Rightarrow> message_buffer \<Rightarrow> endpoint \<Rightarrow> endpoint res" where
  "SendRendezvousBegin msg ptr msg_buf ep =
     (case ep_free_start ep of
        [] \<Rightarrow> Inl (Blocked ''free_start_ctx'')
      | context # rest \<Rightarrow>
          no_ub (length (mb_data msg_buf) \<le> kMaxDataFields \<and> length (mb_data msg_buf) \<le> length (msg_data msg)) ''data_len''
           (Inr (post_send 0 (WR_send context (RendezvousStart
              \<lparr>rs_meta_len = mb_inline_len msg_buf, rs_data_num = length (mb_data msg_buf),
               rs_data_len = map (\<lambda>i. length (sa_bytes (msg_data msg ! i))) [0..<length (mb_data msg_buf)],
               rs_origin_addr = ptr, rs_key = m_key (msg_meta msg)\<rparr>)) (ep\<lparr>ep_free_start := rest\<rparr>))))"

definition SendRendezvousReply ::
  "verbs \<Rightarrow> bool \<Rightarrow> rendezvous_start \<Rightarrow> allocator \<times> mem \<Rightarrow> buffer_context address_pool \<Rightarrow> endpoint \<Rightarrow>
   ((allocator \<times> mem) \<times> buffer_context address_pool \<times> endpoint) res" where
  "SendRendezvousReply vb is_server req am pool ep =
     no_ub (rs_data_num req \<le> kMaxDataFields) ''data_len''
      (let lens = take (rs_data_num req) (rs_data_len req);
           data_len = sum_list lens;
           pagesize = ma_pagesize (fst am);
           buffer_size = (if is_server then align_ceil (rs_meta_len req) pagesize + data_len else rs_meta_len req)
       in bindR (ma_Alloc vb buffer_size am) (\<lambda>(am1, buffer).
          PS_CHECK (buffer \<noteq> 0) ''buffer''
          (case ep_free_reply ep of
             [] \<Rightarrow> Inl (Blocked ''free_reply_ctx'')
           | reply_ctx # rest \<Rightarrow>
               bindR (RemoteKey (fst am1) buffer) (\<lambda>rkey.
               bindR (StoreAddress \<lparr>bc_buffer = buffer, bc_meta_len = to_int32 (int (rs_meta_len req)),
                                    bc_data_num = rs_data_num req, bc_data_len = lens\<rparr> pool) (\<lambda>(pool1, idx).
                 Inr (am1, pool1, post_send 0 (WR_send reply_ctx (RendezvousReply
                   \<lparr>rr_addr = buffer, rr_rkey = rkey, rr_origin_addr = rs_origin_addr req, rr_idx = idx\<rparr>))
                   (ep\<lparr>ep_free_reply := rest\<rparr>)))))))"

text \<open>\<^verbatim>\<open>RDMATransport::Send\<close>.\<close>

definition tr_Send :: "allocator \<Rightarrow> nat \<Rightarrow> message_buffer \<Rightarrow> remote_tuple \<Rightarrow> endpoint \<Rightarrow> endpoint res" where
  "tr_Send al ptr msg_buf t ep =
     (let (raddr, rkey, idx, local) = t in RDMAWriteWithImm al ptr msg_buf raddr rkey idx True None ep)"

text \<open>
  With several queue pairs the payload \<open>w\<close> of \<open>len\<close> bytes is cut into one piece per queue pair.  The first
  takes the remainder; it is followed by the metadata, in which the packet counters are written.
  The others carry the index with its bit 15 set.
\<close>

fun slave_writes :: "nat list \<Rightarrow> rdma_write \<Rightarrow> (nat \<times> work_request) list" where
  "slave_writes [] w = []"
| "slave_writes (q # qs) w = (q, WR_write w) # slave_writes qs (w\<lparr>w_raddr := w_raddr w + w_len w, w_laddr := w_laddr w + w_len w\<rparr>)"

definition count_packets :: "nat \<Rightarrow> endpoint \<Rightarrow> endpoint" where
  "count_packets QP_NUM ep = ep\<lparr>ep_pkt_count := fold (\<lambda>q c. c[q := c ! q + 1]) [0..<QP_NUM] (ep_pkt_count ep)\<rparr>"

definition write_counters :: "nat \<Rightarrow> nat \<Rightarrow> endpoint \<Rightarrow> mem \<Rightarrow> mem" where
  "write_counters QP_NUM buf ep m =
     fold (\<lambda>q. put (buf + off ''slave_qp_counter'' + q * 8) (u64_bytes (ep_pkt_count ep ! q))) [0..<QP_NUM]
       (put (buf + off ''slave_qp_num'') (i32_bytes (int QP_NUM - 1)) m)"

definition post_split ::
  "nat \<Rightarrow> allocator \<Rightarrow> nat \<Rightarrow> message_buffer \<Rightarrow> remote_tuple \<Rightarrow> nat \<Rightarrow> rdma_write \<Rightarrow> mem \<times> endpoint \<Rightarrow> (mem \<times> endpoint) res" where
  "post_split QP_NUM al ptr msg_buf t len w me =
     (let (m, ep) = me; (meta_raddr, meta_rkey, idx, local) = t;
          chunk_size = len div QP_NUM mod 2 ^ 32;
          first = (chunk_size + len mod QP_NUM) mod 2 ^ 32;
          ep1 = count_packets QP_NUM ep;
          m1 = write_counters QP_NUM (mb_inline_buf msg_buf) ep1 m
      in no_ub (0 < QP_NUM \<and> QP_NUM \<le> QP_MAX_NUM) ''slave_qp_counter''
          (bindR (RDMAWriteWithImm al ptr msg_buf meta_raddr meta_rkey idx True None
                   (post_send 0 (WR_write (w\<lparr>w_len := first\<rparr>)) ep1)) (\<lambda>ep2.
             let w1 = w\<lparr>w_raddr := w_raddr w + first, w_laddr := w_laddr w + first, w_len := chunk_size, w_id := ptr,
                        w_imm := Some (of_nat idx OR 0x8000), w_signaled := True\<rparr>
             in Inr (m1, ep2\<lparr>ep_posted := ep_posted ep2 @ slave_writes [1..<QP_NUM] w1\<rparr>))))"

definition SendPushRequest ::
  "nat \<Rightarrow> allocator \<Rightarrow> message \<Rightarrow> nat \<Rightarrow> message_buffer \<Rightarrow> remote_tuple \<Rightarrow> mem \<times> endpoint \<Rightarrow> (mem \<times> endpoint) res" where
  "SendPushRequest QP_NUM al msg ptr msg_buf t me =
     PS_CHECK (length (mb_mrs msg_buf) = 1) ''msg_buf->mrs.size()''
     (PS_CHECK (2 \<le> length (msg_data msg)) ''msg.data.size() >= 2''
      (let len = length (sa_bytes (msg_data msg ! 1)); (mr, mr_size) = mb_mrs msg_buf ! 0;
           (meta_raddr, meta_rkey, idx, local) = t;
           data_wr = \<lparr>w_id = 0, w_laddr = mr_addr mr, w_len = len mod 2 ^ 32, w_lkey = mr_lkey mr,
                      w_raddr = meta_raddr + align_ceil (mb_inline_len msg_buf) (ma_pagesize al), w_rkey = meta_rkey,
                      w_imm = None, w_signaled = False, w_inline = False\<rparr>
       in PS_CHECK (len \<le> mr_size) ''msg.data[1].size() <= msg_buf->mrs[0].second''
           (if ep_multi_qp (snd me) then post_split QP_NUM al ptr msg_buf t len data_wr me
            else bindR (RDMAWriteWithImm al ptr msg_buf meta_raddr meta_rkey idx True (Some data_wr) (snd me))
                   (\<lambda>ep. Inr (fst me, ep)))))"

definition SendPullRequest :: "allocator \<Rightarrow> nat \<Rightarrow> message_buffer \<Rightarrow> remote_tuple \<Rightarrow> endpoint \<Rightarrow> endpoint res" where
  "SendPullRequest al ptr msg_buf t ep =
     PS_CHECK (mb_mrs msg_buf = []) ''msg_buf->mrs.size()'' (tr_Send al ptr msg_buf t ep)"

definition SendPushResponse :: "allocator \<Rightarrow> nat \<Rightarrow> message_buffer \<Rightarrow> remote_tuple \<Rightarrow> endpoint \<Rightarrow> endpoint res" where
  "SendPushResponse al ptr msg_buf t ep =
     PS_CHECK (mb_mrs msg_buf = []) ''msg_buf->mrs.size()'' (tr_Send al ptr msg_buf t ep)"

definition SendPullResponse ::
  "nat \<Rightarrow> allocator \<Rightarrow> message \<Rightarrow> nat \<Rightarrow> message_buffer \<Rightarrow> remote_tuple \<Rightarrow> 32 word \<Rightarrow> mem \<times> endpoint \<Rightarrow> (mem \<times> endpoint) res" where
  "SendPullResponse QP_NUM al msg ptr msg_buf t lkey me =
     PS_CHECK (mb_mrs msg_buf = []) ''msg_buf->mrs.size()''
     (no_ub (2 \<le> length (mb_data msg_buf)) ''msg_buf->data[1]''
      (PS_CHECK (m_val_len (msg_meta msg) = int (length (sa_bytes (mb_data msg_buf ! 1)))) ''val len''
       (let data_len = nat (m_val_len (msg_meta msg)); (meta_raddr, meta_rkey, idx, local) = t;
            data_raddr = unat (m_addr (msg_meta msg));
            data_wr = \<lparr>w_id = data_raddr, w_laddr = unat (sa_addr (mb_data msg_buf ! 1)), w_len = data_len mod 2 ^ 32, w_lkey = lkey,
                       w_raddr = data_raddr, w_rkey = word_of_int (m_option (msg_meta msg)), w_imm = None, w_signaled = False, w_inline = False\<rparr>
        in if ep_multi_qp (snd me) then post_split QP_NUM al ptr msg_buf t data_len data_wr me
           else bindR (RDMAWriteWithImm al ptr msg_buf meta_raddr meta_rkey idx True None (post_send 0 (WR_write data_wr) (snd me)))
                  (\<lambda>ep. Inr (fst me, ep)))))"

section \<open>Receiving\<close>

text \<open>\<^verbatim>\<open>CreateFunctionalSarray\<close>: a copy on the heap; its address is not observed.\<close>

definition CreateFunctionalSarray :: "byte list \<Rightarrow> sarr" where
  "CreateFunctionalSarray bs = \<lparr>sa_bytes = bs, sa_addr = 0, sa_src_type = CPU, sa_src_id = 0, sa_dst_type = CPU, sa_dst_id = 0\<rparr>"

definition view_sarr :: "nat \<Rightarrow> nat \<Rightarrow> mem \<Rightarrow> sarr" where
  "view_sarr a len m = \<lparr>sa_bytes = get a len m, sa_addr = of_nat a, sa_src_type = CPU, sa_src_id = 0, sa_dst_type = CPU, sa_dst_id = 0\<rparr>"

definition RecvPushResponse :: "buffer_context \<Rightarrow> message \<Rightarrow> (message \<times> int) res" where
  "RecvPushResponse ctx msg = PS_CHECK (bc_data_num ctx = 0) ''buffer_ctx->data_num'' (Inr (msg, 0))"

definition RecvPullRequest :: "message \<Rightarrow> (message \<times> int) res" where
  "RecvPullRequest msg =
     (let keys = CreateFunctionalSarray (u64_bytes (m_key (msg_meta msg))); vals = CreateFunctionalSarray []
      in Inr (msg\<lparr>msg_data := msg_data msg @ [keys, vals]\<rparr>, 8))"

definition RecvPushRequest :: "nat \<Rightarrow> mem \<Rightarrow> buffer_context \<Rightarrow> int \<Rightarrow> message \<Rightarrow> (message \<times> int) res" where
  "RecvPushRequest pagesize m ctx meta_len msg =
     PS_CHECK (m_push (msg_meta msg) \<and> m_request (msg_meta msg)) ''push && request''
     (PS_CHECK (bc_data_num ctx = 3) ''buffer_ctx->data_num''
      (let cur = bc_buffer ctx + align_ceil (nat meta_len) pagesize;
           keys = CreateFunctionalSarray (u64_bytes (m_key (msg_meta msg)));
           lens = CreateFunctionalSarray (i32_bytes (m_val_len (msg_meta msg)));
           vals = view_sarr cur (nat (m_val_len (msg_meta msg))) m
       in Inr (msg\<lparr>msg_data := msg_data msg @ [keys, vals, lens]\<rparr>, 8 + m_val_len (msg_meta msg) + 4)))"

definition RecvPullResponse :: "mem \<Rightarrow> message \<Rightarrow> (message \<times> int) res" where
  "RecvPullResponse m msg =
     (let keys = CreateFunctionalSarray (u64_bytes (m_key (msg_meta msg)));
          lens = CreateFunctionalSarray (i32_bytes (m_val_len (msg_meta msg)));
          vals = view_sarr (unat (m_addr (msg_meta msg))) (nat (m_val_len (msg_meta msg))) m
      in Inr (msg\<lparr>msg_data := msg_data msg @ [keys, vals, lens]\<rparr>, 8 + m_val_len (msg_meta msg) + 4))"

section \<open>Samples\<close>

text \<open>An endpoint, a message buffer and an allocator for examples.\<close>

definition sample_endpoint :: endpoint where
  "sample_endpoint = \<lparr>ep_node_id = 9, ep_status = [CONNECTED, CONNECTED], ep_pkt_count = [0, 0], ep_cm_ids = [Some 0, Some 1],
     ep_master_id = None, ep_transport = True, ep_multi_qp = False, ep_incoming_count = 0, ep_start_depth = 2, ep_rx_depth = 4,
     ep_reply_depth = 4, ep_free_start = [0, 1], ep_free_reply = [0, 1, 2, 3], ep_inited = 2, ep_posted = [], ep_receives = []\<rparr>"

definition sample_sarr :: "nat \<Rightarrow> byte list \<Rightarrow> sarr" where
  "sample_sarr a bs = \<lparr>sa_bytes = bs, sa_addr = of_nat a, sa_src_type = CPU, sa_src_id = 0, sa_dst_type = CPU, sa_dst_id = 0\<rparr>"

definition sample_buffer :: message_buffer where
  "sample_buffer = \<lparr>mb_inline_len = 288, mb_inline_buf = 4096, mb_data = [sample_sarr 0 [1], sample_sarr 64 [1, 2, 3]],
     mb_mrs = [(\<lparr>mr_addr = 64, mr_length = 3, mr_lkey = 7, mr_rkey = 9\<rparr>, 3)]\<rparr>"

definition sample_alloc :: allocator where
  "sample_alloc = \<lparr>ma_pagesize = 4096, ma_used = [(4096, 4096)],
     ma_mr = [(4096, \<lparr>mr_addr = 4096, mr_length = 4096, mr_lkey = 7, mr_rkey = 9\<rparr>)]\<rparr>"

end
