(* ===== verification/RdmaVan.thy ===== *)
theory RdmaVan
  imports RdmaTransport
begin

text \<open>
  \<^verbatim>\<open>src/rdma_van.h\<close>: the van that sends messages by RDMA.  The first message for a key and receiver
  starts a rendezvous, in which the receiver allocates a buffer and answers its address; that and
  all later messages are written into it.  Completions and connection events, which the polling
  threads take from the verbs library, are arguments of the handlers.  An endpoint is named by
  the map that owns it.  Shared memory between processes of one machine is off, as it is unless
  \<^verbatim>\<open>BYTEPS_ENABLE_IPC\<close> is set, so every transport is an \<^verbatim>\<open>RDMATransport\<close>.
\<close>

unbundle bit_operations_syntax

datatype endpoint_ref = Out int | In string

record notification =
  nt_endpoint :: endpoint_ref
  nt_buffer :: buffer_context
  nt_time :: "64 word"
  nt_cmd :: int

record rdma_van =
  rv_my_node :: node
  rv_is_server :: bool
  rv_trace_on :: bool
  rv_qp_num :: nat
  rv_is_local :: "(int, bool) umap"
  rv_endpoints :: "(endpoint_ref, endpoint) umap"
  rv_alloc :: allocator
  rv_mem :: mem
  rv_bufs :: "message_buffer list"
  rv_pool :: "buffer_context address_pool"
  rv_recv_buffers :: "notification list"
  rv_push_addr :: "(key, (int, remote_tuple) umap) umap"
  rv_pull_addr :: "(key, (int, remote_tuple) umap) umap"
  rv_msgbuf_cache :: "(nat, message) umap"
  rv_mem_mr :: "(nat, ibv_mr) umap"
  rv_registered :: "(key, (int \<times> sarr) list) umap"
  rv_released :: "nat list"

definition get_endpoint :: "endpoint_ref \<Rightarrow> rdma_van \<Rightarrow> endpoint res" where
  "get_endpoint r v = (case umap_find (rv_endpoints v) r of None \<Rightarrow> Inl (Undefined ''endpoint'') | Some ep \<Rightarrow> Inr ep)"

definition set_endpoint :: "endpoint_ref \<Rightarrow> endpoint \<Rightarrow> rdma_van \<Rightarrow> rdma_van" where
  "set_endpoint r ep v = v\<lparr>rv_endpoints := umap_set r ep (rv_endpoints v)\<rparr>"

section \<open>Memory regions\<close>

text \<open>Registers \<open>len\<close> bytes at \<open>addr\<close> unless a region of that length is known there.\<close>

definition register_region :: "verbs \<Rightarrow> nat \<Rightarrow> nat \<Rightarrow> rdma_van \<Rightarrow> rdma_van res" where
  "register_region vb addr len v =
     (if (case umap_find (rv_mem_mr v) addr of None \<Rightarrow> True | Some mr \<Rightarrow> mr_length mr < len)
      then (case vb_reg_mr vb addr len of
              None \<Rightarrow> Inl (CheckFailed ''Failed to register the memory region'')
            | Some mr \<Rightarrow> Inr (v\<lparr>rv_mem_mr := umap_set addr mr (rv_mem_mr v)\<rparr>))
      else Inr v)"

fun register_data :: "verbs \<Rightarrow> sarr list \<Rightarrow> nat \<Rightarrow> rdma_van \<Rightarrow> rdma_van res" where
  "register_data vb [] sa_cnt v = Inr v"
| "register_data vb (sa # sas) sa_cnt v =
     (if sa_bytes sa = [] then register_data vb sas sa_cnt v
      else bindR (if sa_cnt = 1 then register_region vb (unat (sa_addr sa)) (length (sa_bytes sa)) v else Inr v)
             (register_data vb sas (sa_cnt + 1)))"

definition RegisterMemory :: "verbs \<Rightarrow> message \<Rightarrow> rdma_van \<Rightarrow> rdma_van res" where
  "RegisterMemory vb msg v =
     bindR (register_data vb (msg_data msg) 0 v) (\<lambda>v1.
       let mt = msg_meta msg
       in if IsValidPushpull msg \<and> \<not> m_push mt \<and> m_request mt
          then PS_CHECK (0 < m_val_len mt) ''msg.meta.val_len''
                 (register_region vb (unat (m_addr mt)) (nat (m_val_len mt)) v1)
          else Inr v1)"

definition RDMAVan_RegisterRecvBuffer :: "verbs \<Rightarrow> message \<Rightarrow> rdma_van \<Rightarrow> rdma_van res" where
  "RDMAVan_RegisterRecvBuffer vb msg v =
     bindR (RegisterMemory vb msg v) (\<lambda>v1.
       no_ub (2 \<le> length (msg_data msg)) ''msg.data''
        (let key = DecodeKey (msg_data msg ! 0);
             old = (case umap_find (rv_registered v1) key of None \<Rightarrow> [] | Some l \<Rightarrow> l)
         in Inr (v1\<lparr>rv_registered := umap_set key (old @ [(m_sender (msg_meta msg), msg_data msg ! 1)]) (rv_registered v1)\<rparr>)))"

text \<open>The result is the address, the size and the remote key; a null pointer leaves the key as it was.\<close>

definition QueryRecvBuffer :: "key \<Rightarrow> int \<Rightarrow> rdma_van \<Rightarrow> (nat \<times> nat \<times> 32 word) option res" where
  "QueryRecvBuffer key node_id v =
     (case List.find (\<lambda>t. fst t = node_id) (case umap_find (rv_registered v) key of None \<Rightarrow> [] | Some l \<Rightarrow> l) of
        None \<Rightarrow> Inr None
      | Some (i, sa) \<Rightarrow>
          (case umap_find (rv_mem_mr v) (unat (sa_addr sa)) of
             None \<Rightarrow> Inl (CheckFailed ''mem_mr_'')
           | Some mr \<Rightarrow> Inr (Some (unat (sa_addr sa), length (sa_bytes sa), mr_rkey mr))))"

section \<open>Address table and message cache\<close>

definition addr_table :: "bool \<Rightarrow> rdma_van \<Rightarrow> (key, (int, remote_tuple) umap) umap" where
  "addr_table is_push v = (if is_push then rv_push_addr v else rv_pull_addr v)"

definition find_addr :: "key \<Rightarrow> bool \<Rightarrow> int \<Rightarrow> rdma_van \<Rightarrow> remote_tuple option" where
  "find_addr key is_push recver v =
     (case umap_find (addr_table is_push v) key of None \<Rightarrow> None | Some m \<Rightarrow> umap_find m recver)"

definition HasRemoteInfo :: "key \<Rightarrow> bool \<Rightarrow> int \<Rightarrow> rdma_van \<Rightarrow> bool" where
  "HasRemoteInfo key is_push recver v \<longleftrightarrow> find_addr key is_push recver v \<noteq> None"

definition StoreMsgBuf :: "nat \<Rightarrow> message \<Rightarrow> rdma_van \<Rightarrow> rdma_van res" where
  "StoreMsgBuf ptr msg v =
     PS_CHECK (umap_find (rv_msgbuf_cache v) ptr = None) ''msgbuf_cache_''
      (Inr (v\<lparr>rv_msgbuf_cache := umap_set ptr msg (rv_msgbuf_cache v)\<rparr>))"

definition GetFirstMsg :: "nat \<Rightarrow> rdma_van \<Rightarrow> message res" where
  "GetFirstMsg ptr v =
     (case umap_find (rv_msgbuf_cache v) ptr of None \<Rightarrow> Inl (CheckFailed ''msgbuf_cache_'') | Some msg \<Rightarrow> Inr msg)"

definition ReleaseFirstMsg :: "nat \<Rightarrow> rdma_van \<Rightarrow> rdma_van res" where
  "ReleaseFirstMsg ptr v =
     PS_CHECK (umap_find (rv_msgbuf_cache v) ptr \<noteq> None) ''msgbuf_cache_''
      (Inr (v\<lparr>rv_msgbuf_cache := umap_erase ptr (rv_msgbuf_cache v)\<rparr>))"

definition StoreRemoteAndLocalInfo :: "nat \<Rightarrow> nat \<Rightarrow> 32 word \<Rightarrow> nat \<Rightarrow> rdma_van \<Rightarrow> rdma_van res" where
  "StoreRemoteAndLocalInfo ptr remote_addr rkey idx v =
     bindR (GetFirstMsg ptr v) (\<lambda>msg.
       let key = m_key (msg_meta msg); recver = m_recver (msg_meta msg); is_push = m_push (msg_meta msg);
           inner = (case umap_find (addr_table is_push v) key of None \<Rightarrow> [] | Some m \<Rightarrow> m);
           table = umap_set key (umap_set recver (remote_addr, rkey, idx, ptr) inner) (addr_table is_push v)
       in Inr (if is_push then v\<lparr>rv_push_addr := table\<rparr> else v\<lparr>rv_pull_addr := table\<rparr>))"

text \<open>\<^verbatim>\<open>operator[]\<close> creates an empty entry, through whose null buffer the code then goes.\<close>

definition GetRemoteAndLocalInfo :: "key \<Rightarrow> bool \<Rightarrow> int \<Rightarrow> rdma_van \<Rightarrow> remote_tuple res" where
  "GetRemoteAndLocalInfo key is_push recver v =
     (case find_addr key is_push recver v of None \<Rightarrow> Inl (Undefined ''null message buffer'') | Some t \<Rightarrow> Inr t)"

section \<open>Sending\<close>

text \<open>\<^verbatim>\<open>PackMeta\<close> into a buffer of the process of \<open>cap\<close> bytes.\<close>

definition pack_at :: "bool \<Rightarrow> nat \<Rightarrow> meta \<Rightarrow> nat \<Rightarrow> nat \<Rightarrow> mem \<Rightarrow> mem res" where
  "pack_at trace_on QP_NUM mt buf cap m =
     bindR (PackMeta trace_on (int QP_NUM) m mt (Some (\<lambda>i. m (buf + i), cap))) (\<lambda>(b, len).
       Inr (\<lambda>a. if buf \<le> a \<and> a < buf + cap then b (a - buf) else m a))"

definition PrepareNewMsgBuf :: "verbs \<Rightarrow> message \<Rightarrow> rdma_van \<Rightarrow> (rdma_van \<times> nat) res" where
  "PrepareNewMsgBuf vb msg v =
     (let meta_len = nat (GetPackMetaLen (msg_meta msg))
      in bindR (ma_Alloc vb meta_len (rv_alloc v, rv_mem v)) (\<lambda>((al, m), buf).
         bindR (pack_at (rv_trace_on v) (rv_qp_num v) (msg_meta msg) buf (align_ceil meta_len (ma_pagesize al)) m) (\<lambda>m1.
           Inr (v\<lparr>rv_alloc := al, rv_mem := m1,
                  rv_bufs := rv_bufs v @ [\<lparr>mb_inline_len = meta_len, mb_inline_buf = buf, mb_data = msg_data msg, mb_mrs = []\<rparr>]\<rparr>,
                length (rv_bufs v)))))"

definition PrepareData :: "message \<Rightarrow> nat \<Rightarrow> rdma_van \<Rightarrow> rdma_van res" where
  "PrepareData msg ptr v =
     (let mb = rv_bufs v ! ptr
      in if \<not> (m_push (msg_meta msg) \<and> m_request (msg_meta msg)) then Inr v
         else no_ub (2 \<le> length (mb_data mb)) ''msg_buf->data[1]''
           (let sa = mb_data mb ! 1
            in if sa_bytes sa = [] then Inr v
               else case umap_find (rv_mem_mr v) (unat (sa_addr sa)) of
                      None \<Rightarrow> Inl (CheckFailed ''mem_mr_'')
                    | Some mr \<Rightarrow> Inr (v\<lparr>rv_bufs := (rv_bufs v)[ptr := mb\<lparr>mb_mrs := mb_mrs mb @ [(mr, length (sa_bytes sa))]\<rparr>]\<rparr>)))"

definition AddMeta :: "message \<Rightarrow> rdma_van \<Rightarrow> message res" where
  "AddMeta msg v =
     no_ub (m_request (msg_meta msg) \<longrightarrow> msg_data msg \<noteq> []) ''msg.data[0]''
      (let msg1 = (if m_request (msg_meta msg) then upd_meta (\<lambda>mt. mt\<lparr>m_key := DecodeKey (msg_data msg ! 0)\<rparr>) msg else msg)
       in if \<not> m_push (msg_meta msg) \<and> m_request (msg_meta msg)
          then (case umap_find (rv_mem_mr v) (unat (m_addr (msg_meta msg))) of
                  None \<Rightarrow> Inl (Undefined ''null memory region'')
                | Some mr \<Rightarrow> Inr (upd_meta (\<lambda>mt. mt\<lparr>m_option := sint (mr_rkey mr)\<rparr>) msg1))
          else Inr msg1)"

text \<open>The message with its payload written to the remote buffer \<open>t\<close>, by its kind.\<close>

definition send_by_kind :: "endpoint_ref \<Rightarrow> message \<Rightarrow> nat \<Rightarrow> remote_tuple \<Rightarrow> rdma_van \<Rightarrow> rdma_van res" where
  "send_by_kind r msg ptr t v =
     bindR (get_endpoint r v) (\<lambda>ep.
       let mb = rv_bufs v ! ptr; mt = msg_meta msg
       in if m_push mt \<and> m_request mt
          then bindR (SendPushRequest (rv_qp_num v) (rv_alloc v) msg ptr mb t (rv_mem v, ep)) (\<lambda>(m, ep1).
                 Inr (set_endpoint r ep1 (v\<lparr>rv_mem := m\<rparr>)))
          else if m_push mt \<and> \<not> m_request mt
          then bindR (SendPushResponse (rv_alloc v) ptr mb t ep) (\<lambda>ep1. Inr (set_endpoint r ep1 v))
          else if \<not> m_push mt \<and> m_request mt
          then bindR (SendPullRequest (rv_alloc v) ptr mb t ep) (\<lambda>ep1. Inr (set_endpoint r ep1 v))
          else no_ub (2 \<le> length (mb_data mb)) ''msg_buf->data[1]''
            (case umap_find (rv_mem_mr v) (unat (sa_addr (mb_data mb ! 1))) of
               None \<Rightarrow> Inl (CheckFailed ''mem_mr_'')
             | Some mr \<Rightarrow>
                 bindR (SendPullResponse (rv_qp_num v) (rv_alloc v) msg ptr mb t (mr_lkey mr) (rv_mem v, ep)) (\<lambda>(m, ep1).
                   Inr (set_endpoint r ep1 (v\<lparr>rv_mem := m\<rparr>)))))"

definition begin_rendezvous :: "verbs \<Rightarrow> endpoint_ref \<Rightarrow> bool \<Rightarrow> message \<Rightarrow> rdma_van \<Rightarrow> rdma_van res" where
  "begin_rendezvous vb r data msg v =
     bindR (PrepareNewMsgBuf vb msg v) (\<lambda>(v1, ptr).
     bindR (StoreMsgBuf ptr msg v1) (\<lambda>v2.
     bindR (if data then PrepareData msg ptr v2 else Inr v2) (\<lambda>v3.
     bindR (get_endpoint r v3) (\<lambda>ep.
     bindR (SendRendezvousBegin msg ptr (rv_bufs v3 ! ptr) ep) (\<lambda>ep1. Inr (set_endpoint r ep1 v3))))))"

text \<open>
  \<^verbatim>\<open>SendMsg\<close> at time \<open>now\<close>.  A message carries the number of its tensor event; a waited event is
  put on the list of released ones.  The result has the message as the callee leaves it.
\<close>

definition stamp_postsend :: "64 word \<Rightarrow> meta \<Rightarrow> meta" where
  "stamp_postsend now mt =
     (if m_request mt then mt\<lparr>m_request_trace := (m_request_trace mt)\<lparr>t_postsend := now\<rparr>\<rparr>
      else mt\<lparr>m_response_trace := (m_response_trace mt)\<lparr>t_postsend := now\<rparr>\<rparr>)"

definition SendMsg :: "verbs \<Rightarrow> 64 word \<Rightarrow> message \<Rightarrow> rdma_van \<Rightarrow> (rdma_van \<times> message \<times> int) res" where
  "SendMsg vb now msg v =
     (let remote_id = m_recver (msg_meta msg); r = Out remote_id
      in PS_CHECK (remote_id \<noteq> kEmpty) ''remote_id''
         (case umap_find (rv_endpoints v) r of
            None \<Rightarrow> Inl (CheckFailed ''failed to found enpoints'')
          | Some ep \<Rightarrow>
              (let meta_len = GetPackMetaLen (msg_meta msg); total_len = meta_len + m_data_size (msg_meta msg)
               in PS_CHECK (meta_len \<noteq> 0) ''meta_len''
                  (bindR (RegisterMemory vb msg v) (\<lambda>v1.
                   bindR (if IsValidPushpull msg then AddMeta msg v1 else Inr msg) (\<lambda>msg1.
                   PS_CHECK (ep_transport ep) ''GetTransport''
                   (if \<not> IsValidPushpull msg1
                    then bindR (begin_rendezvous vb r False msg1 v1) (\<lambda>v2. Inr (v2, msg1, total_len))
                    else if \<not> HasRemoteInfo (m_key (msg_meta msg1)) (m_push (msg_meta msg1)) remote_id v1
                    then bindR (begin_rendezvous vb r True msg1 v1) (\<lambda>v2. Inr (v2, msg1, total_len))
                    else
                      bindR (GetRemoteAndLocalInfo (m_key (msg_meta msg1)) (m_push (msg_meta msg1)) remote_id v1) (\<lambda>t.
                        let ptr = snd (snd (snd t)); mb = rv_bufs v1 ! ptr
                        in PS_CHECK (int (mb_inline_len mb) = meta_len) ''msg_buf->inline_len''
                           (PS_CHECK (mb_inline_buf mb \<noteq> 0) ''msg_buf->inline_buf''
                            (no_ub (length (msg_data msg1) \<le> length (mb_data mb)) ''msg_buf->data[i]''
                             (let mb1 = mb\<lparr>mb_data := msg_data msg1 @ drop (length (msg_data msg1)) (mb_data mb)\<rparr>;
                                  msg2 = upd_meta (\<lambda>mt. (if rv_trace_on v1 then stamp_postsend now mt else mt)\<lparr>m_tensor_ev := None\<rparr>) msg1;
                                  done = (case m_tensor_ev (msg_meta msg1) of None \<Rightarrow> [] | Some e \<Rightarrow> [e]);
                                  v2 = v1\<lparr>rv_bufs := (rv_bufs v1)[ptr := mb1], rv_released := rv_released v1 @ done\<rparr>
                              in bindR (pack_at (rv_trace_on v2) (rv_qp_num v2) (msg_meta msg2) (mb_inline_buf mb1)
                                         (align_ceil (mb_inline_len mb1) (ma_pagesize (rv_alloc v2))) (rv_mem v2)) (\<lambda>m.
                                 bindR (send_by_kind r msg2 ptr t (v2\<lparr>rv_mem := m\<rparr>)) (\<lambda>v3.
                                   Inr (v3, msg2, total_len))))))))))))))"

section \<open>Receiving\<close>

text \<open>
  The loop over the packet counters of the other queue pairs ends once all have arrived.
  \<^verbatim>\<open>RecvMsg\<close> fills the metadata object \<open>mt\<close> of the caller.
\<close>

definition counters_arrived :: "nat \<Rightarrow> mem \<Rightarrow> endpoint \<Rightarrow> bool" where
  "counters_arrived buf m ep =
     (let n = get_i32 (buf + off ''slave_qp_num'') m
      in n > 0 \<longrightarrow> list_all (\<lambda>i. get_u64 (buf + off ''slave_qp_counter'' + i * 8) m \<le> ep_pkt_count ep ! i) [1..<nat n + 1])"

definition RecvMsg :: "meta \<Rightarrow> rdma_van \<Rightarrow> (rdma_van \<times> message \<times> int) res" where
  "RecvMsg mt v =
     (case rv_recv_buffers v of
        [] \<Rightarrow> Inl (Blocked ''recv_buffers_'')
      | nt # rest \<Rightarrow>
          (let v1 = v\<lparr>rv_recv_buffers := rest\<rparr>; ctx = nt_buffer nt; meta_buf = bc_buffer ctx; m = rv_mem v
           in bindR (get_endpoint (nt_endpoint nt) v1) (\<lambda>ep.
              PS_CHECK (ep_transport ep) ''GetTransport''
              (PS_CHECK (meta_buf \<noteq> 0) ''meta_buf''
               (no_ub (get_i32 (meta_buf + off ''slave_qp_num'') m < int QP_MAX_NUM) ''slave_qp_counter''
                (if \<not> counters_arrived meta_buf m ep then Inl (Blocked ''slave_qp_counter'')
                 else
                   bindR (UnpackMeta (rv_trace_on v) (\<lambda>i. m (meta_buf + i)) (bc_meta_len ctx)
                           (mt\<lparr>m_recver := n_id (rv_my_node v), m_sender := ep_node_id ep\<rparr>)) (\<lambda>mt1.
                     let meta_len = GetPackMetaLen mt1;
                         mt2 = (if rv_trace_on v
                                then if m_request mt1 then mt1\<lparr>m_request_trace := (m_request_trace mt1)\<lparr>t_postrecv := nt_time nt\<rparr>\<rparr>
                                     else mt1\<lparr>m_response_trace := (m_response_trace mt1)\<lparr>t_postrecv := nt_time nt\<rparr>\<rparr>
                                else mt1);
                         msg = \<lparr>msg_meta = mt2, msg_data = []\<rparr>
                     in if \<not> IsValidPushpull msg then Inr (v1, msg, meta_len)
                        else let msg1 = (if nt_cmd nt \<noteq> 0 then upd_meta (\<lambda>x. x\<lparr>m_head := nt_cmd nt mod 256\<rparr>) msg else msg);
                                 received =
                                   (if m_push mt2 \<and> m_request mt2
                                    then RecvPushRequest (ma_pagesize (rv_alloc v)) m ctx meta_len msg1
                                    else if \<not> m_push mt2 \<and> m_request mt2 then RecvPullRequest msg1
                                    else if m_push mt2 \<and> \<not> m_request mt2 then RecvPushResponse ctx msg1
                                    else RecvPullResponse m msg1)
                             in bindR received (\<lambda>(msg2, len). Inr (v1, msg2, meta_len + len)))))))))"

section \<open>Completions\<close>

datatype context_type = StartContext | ReplyContext | WriteContext | ReceiveContext

text \<open>
  A work completion, with the endpoint, the type and the number of its context: an own write, an own send, a remote
  write with immediate data on a queue pair at a time, or a received message (\<open>None\<close>: with other immediate data).
\<close>

datatype completion =
    WC_error
  | WC_rdma_write
  | WC_send endpoint_ref context_type nat
  | WC_recv_write endpoint_ref context_type nat nat "32 word" "64 word"
  | WC_recv endpoint_ref context_type nat "rendezvous option"

definition ReleaseWorkRequestContext :: "context_type \<Rightarrow> nat \<Rightarrow> nat \<Rightarrow> endpoint \<Rightarrow> endpoint res" where
  "ReleaseWorkRequestContext ty ctx qp ep =
     (case ty of
        StartContext \<Rightarrow> Inr (ep\<lparr>ep_free_start := ep_free_start ep @ [ctx]\<rparr>)
      | ReplyContext \<Rightarrow> Inr (ep\<lparr>ep_free_reply := ep_free_reply ep @ [ctx]\<rparr>)
      | ReceiveContext \<Rightarrow> Inr (PostRecv ctx qp ep)
      | WriteContext \<Rightarrow> Inl (CheckFailed ''context type''))"

definition release_at :: "endpoint_ref \<Rightarrow> context_type \<Rightarrow> nat \<Rightarrow> nat \<Rightarrow> rdma_van \<Rightarrow> rdma_van res" where
  "release_at r ty ctx qp v =
     bindR (get_endpoint r v) (\<lambda>ep. bindR (ReleaseWorkRequestContext ty ctx qp ep) (\<lambda>ep1. Inr (set_endpoint r ep1 v)))"

definition on_rendezvous_start :: "verbs \<Rightarrow> endpoint_ref \<Rightarrow> rendezvous_start \<Rightarrow> rdma_van \<Rightarrow> rdma_van res" where
  "on_rendezvous_start vb r req v =
     bindR (get_endpoint r v) (\<lambda>ep.
       PS_CHECK (ep_transport ep) ''GetTransport''
        (bindR (SendRendezvousReply vb (rv_is_server v) req (rv_alloc v, rv_mem v) (rv_pool v) ep) (\<lambda>((al, m), pool, ep1).
           Inr (set_endpoint r ep1 (v\<lparr>rv_alloc := al, rv_mem := m, rv_pool := pool\<rparr>)))))"

definition on_rendezvous_reply :: "endpoint_ref \<Rightarrow> rendezvous_reply \<Rightarrow> rdma_van \<Rightarrow> rdma_van res" where
  "on_rendezvous_reply r resp v =
     (let ptr = rr_origin_addr resp
      in bindR (StoreRemoteAndLocalInfo ptr (rr_addr resp) (rr_rkey resp) (rr_idx resp) v) (\<lambda>v1.
         bindR (GetFirstMsg ptr v1) (\<lambda>msg.
         bindR (GetRemoteAndLocalInfo (m_key (msg_meta msg)) (m_push (msg_meta msg)) (m_recver (msg_meta msg)) v1) (\<lambda>t.
         bindR (get_endpoint r v1) (\<lambda>ep.
         PS_CHECK (ep_transport ep) ''GetTransport''
         (bindR (if \<not> IsValidPushpull msg
                 then bindR (RDMAWriteWithImm (rv_alloc v1) ptr (rv_bufs v1 ! ptr) (rr_addr resp) (rr_rkey resp) (rr_idx resp) False None ep)
                        (\<lambda>ep1. Inr (set_endpoint r ep1 v1))
                 else send_by_kind r msg ptr t v1) (\<lambda>v2.
            ReleaseFirstMsg ptr v2)))))))"

definition on_recv_write :: "endpoint_ref \<Rightarrow> nat \<Rightarrow> 32 word \<Rightarrow> 64 word \<Rightarrow> rdma_van \<Rightarrow> rdma_van res" where
  "on_recv_write r qp addr_idx now v =
     bindR (get_endpoint r v) (\<lambda>ep.
       if addr_idx AND 0x8000 = 0
       then bindR (GetAddress (unat addr_idx) (rv_pool v)) (\<lambda>buf_ctx.
              let cmd = uint (drop_bit 16 (addr_idx AND 0xFFFF) AND 0xFFFF)
              in Inr (set_endpoint r (ep\<lparr>ep_master_id := ep_cm_ids ep ! qp\<rparr>)
                   (v\<lparr>rv_recv_buffers := rv_recv_buffers v @
                        [\<lparr>nt_endpoint = r, nt_buffer = buf_ctx, nt_time = now, nt_cmd = cmd\<rparr>]\<rparr>)))
       else Inr (set_endpoint r (ep\<lparr>ep_pkt_count := (ep_pkt_count ep)[1 := ep_pkt_count ep ! 1 + 1]\<rparr>) v))"

text \<open>One turn of \<^verbatim>\<open>PollCQ\<close>.\<close>

definition PollCQ_turn :: "verbs \<Rightarrow> completion \<Rightarrow> rdma_van \<Rightarrow> rdma_van res" where
  "PollCQ_turn vb wc v =
     (case wc of
        WC_error \<Rightarrow> Inl (CheckFailed ''Failed status'')
      | WC_rdma_write \<Rightarrow> Inr v
      | WC_send r ty ctx \<Rightarrow> release_at r ty ctx 0 v
      | WC_recv_write r ty ctx qp imm now \<Rightarrow> bindR (on_recv_write r qp imm now v) (release_at r ty ctx qp)
      | WC_recv r ty ctx rdv \<Rightarrow>
          bindR (case rdv of
                   Some (RendezvousStart req) \<Rightarrow> on_rendezvous_start vb r req v
                 | Some (RendezvousReply resp) \<Rightarrow> on_rendezvous_reply r resp v
                 | None \<Rightarrow> Inl (CheckFailed ''imm'')) (release_at r ty ctx 0))"

section \<open>Connections\<close>

text \<open>\<^verbatim>\<open>RequestContext\<close>: who connects; the host name is cut to 15 characters.\<close>

record request_context =
  rc_node :: int
  rc_port :: int
  rc_hostname :: string

definition my_context :: "rdma_van \<Rightarrow> request_context" where
  "my_context v =
     \<lparr>rc_node = n_id (rv_my_node v) mod 2 ^ 32, rc_port = n_port (rv_my_node v) mod 2 ^ 16,
      rc_hostname = take 15 (n_hostname (rv_my_node v))\<rparr>"

text \<open>
  One round of the loop in \<^verbatim>\<open>Connect\<close> up to its wait: each queue pair that is neither connecting nor connected
  gets a new identifier.  \<open>ids q\<close> is what \<^verbatim>\<open>rdma_create_id\<close> gives for queue pair \<open>q\<close>.
\<close>

definition Connect_round :: "nat \<Rightarrow> (nat \<Rightarrow> nat) \<Rightarrow> endpoint \<Rightarrow> endpoint" where
  "Connect_round QP_NUM ids ep =
     fold (\<lambda>q ep. if ep_status ep ! q \<noteq> CONNECTING \<and> ep_status ep ! q \<noteq> CONNECTED
                  then ep\<lparr>ep_cm_ids := (ep_cm_ids ep)[q := Some (ids q)], ep_status := (ep_status ep)[q := CONNECTING]\<rparr>
                  else ep) [0..<QP_NUM] ep"

definition Connect_waits :: "nat \<Rightarrow> endpoint \<Rightarrow> bool" where
  "Connect_waits QP_NUM ep \<longleftrightarrow> \<not> GetAllStatus QP_NUM CONNECTING False ep"

text \<open>The begin of \<^verbatim>\<open>Connect\<close>, and its end once all queue pairs are connected.\<close>

definition Connect_begin :: "environment \<Rightarrow> (nat \<Rightarrow> nat) \<Rightarrow> node \<Rightarrow> rdma_van \<Rightarrow> rdma_van res" where
  "Connect_begin e ids node v =
     PS_CHECK (n_id node \<noteq> kEmpty) ''node.id''
     (PS_CHECK (n_port node \<noteq> kEmpty) ''node.port''
      (PS_CHECK (n_hostname node \<noteq> []) ''node.hostname''
       (if n_role node = n_role (rv_my_node v) \<and> n_id node \<noteq> n_id (rv_my_node v) then Inr v
        else bindR (Endpoint_new e) (\<lambda>ep.
               Inr (set_endpoint (Out (n_id node)) (Connect_round (rv_qp_num v) ids (ep\<lparr>ep_node_id := n_id node\<rparr>)) v)))))"

definition Connect_end :: "node \<Rightarrow> rdma_van \<Rightarrow> rdma_van res" where
  "Connect_end node v =
     bindR (get_endpoint (Out (n_id node)) v) (\<lambda>ep.
       Inr (set_endpoint (Out (n_id node)) (ep\<lparr>ep_transport := True\<rparr>) (v\<lparr>rv_is_local := umap_set (n_id node) False (rv_is_local v)\<rparr>)))"

definition OnRejected :: "endpoint_ref \<Rightarrow> nat \<Rightarrow> rdma_van \<Rightarrow> rdma_van res" where
  "OnRejected r cm_id v =
     bindR (get_endpoint r v) (\<lambda>ep.
       PS_CHECK (umap_find (rv_endpoints v) (Out (ep_node_id ep)) \<noteq> None) ''Connection not ready.''
        (Inr (set_endpoint r (SetStatus (rv_qp_num v) cm_id REJECTED ep) v)))"

definition next_incoming :: "nat \<Rightarrow> endpoint \<Rightarrow> endpoint" where
  "next_incoming QP_NUM ep = (if ep_incoming_count ep = QP_NUM then ep\<lparr>ep_incoming_count := 0\<rparr> else ep)"

definition OnConnectRequest :: "environment \<Rightarrow> request_context \<Rightarrow> nat \<Rightarrow> rdma_van \<Rightarrow> rdma_van res" where
  "OnConnectRequest e remote_ctx cm_id v =
     (let rem_host = rc_hostname remote_ctx @ '','' @ to_string (rc_node remote_ctx) @ '','' @ to_string (rc_port remote_ctx);
          r = In rem_host
      in bindR (case umap_find (rv_endpoints v) r of Some ep \<Rightarrow> Inr ep | None \<Rightarrow> Endpoint_new e) (\<lambda>ep.
         no_ub (ep_incoming_count ep < QP_MAX_NUM) ''cm_ids''
         (let qp = ep_incoming_count ep;
              ep1 = ep\<lparr>ep_node_id := to_int32 (rc_node remote_ctx), ep_cm_ids := (ep_cm_ids ep)[qp := Some cm_id],
                       ep_incoming_count := qp + 1\<rparr>
          in bindR (Endpoint_Init (rv_qp_num v) qp ep1) (\<lambda>ep2.
               Inr (set_endpoint r (next_incoming (rv_qp_num v) (ep2\<lparr>ep_transport := True\<rparr>))
                 (v\<lparr>rv_is_local := umap_set (to_int32 (rc_node remote_ctx)) False (rv_is_local v)\<rparr>))))))"

text \<open>The queue pair \<open>qp\<close> is that of the event's identifier.\<close>

definition OnRouteResolved :: "nat \<Rightarrow> nat \<Rightarrow> endpoint \<Rightarrow> endpoint res" where
  "OnRouteResolved QP_NUM qp ep =
     bindR (Endpoint_Init QP_NUM qp ep) (\<lambda>ep1.
       Inr (next_incoming QP_NUM (ep1\<lparr>ep_incoming_count := ep_incoming_count ep1 + 1\<rparr>)))"

definition SetQPLag :: "environment \<Rightarrow> endpoint \<Rightarrow> endpoint" where
  "SetQPLag e ep =
     (if (case env_find e ''STEPMESH_SPLIT_QP_LAG'' of Some s \<Rightarrow> atoi s | None \<Rightarrow> -1) = 1 then ep\<lparr>ep_multi_qp := True\<rparr> else ep)"

definition OnConnected :: "environment \<Rightarrow> nat \<Rightarrow> endpoint \<Rightarrow> endpoint res" where
  "OnConnected e QP_NUM ep =
     no_ub (ep_incoming_count ep < QP_MAX_NUM) ''status_list''
      (let ep1 = ep\<lparr>ep_status := (ep_status ep)[ep_incoming_count ep := CONNECTED], ep_incoming_count := ep_incoming_count ep + 1\<rparr>
       in Inr (if ep_incoming_count ep1 = QP_NUM then (SetQPLag e ep1)\<lparr>ep_incoming_count := 0\<rparr> else ep1))"

definition OnDisconnected :: "nat \<Rightarrow> nat \<Rightarrow> endpoint \<Rightarrow> endpoint" where
  "OnDisconnected QP_NUM cm_id ep = SetStatus QP_NUM cm_id IDLE ep"

text \<open>The events of the connecting side.\<close>

datatype cm_event = ROUTE_RESOLVED nat | ESTABLISHED nat

fun on_cm_event :: "environment \<Rightarrow> nat \<Rightarrow> cm_event \<Rightarrow> endpoint \<Rightarrow> endpoint res" where
  "on_cm_event e QP_NUM (ROUTE_RESOLVED qp) ep = OnRouteResolved QP_NUM qp ep"
| "on_cm_event e QP_NUM (ESTABLISHED qp) ep = OnConnected e QP_NUM ep"

end
