(* ===== verification/RdmaProps.thy ===== *)
theory RdmaProps
  imports RdmaVan
begin

text \<open>
  Properties of the RDMA van: the life of the receive buffers, the connection of several queue
  pairs, the writes of a payload, and the way of a pushed tensor from worker to server.
\<close>

section \<open>Connecting\<close>

text \<open>The initial connection attempt of an endpoint with two queue pairs.\<close>

definition connecting :: "endpoint \<Rightarrow> bool" where
  "connecting ep \<longleftrightarrow> ep_status ep = [CONNECTING, CONNECTING] \<and> ep_incoming_count ep = 0 \<and> ep_inited ep = 0"

lemma Endpoint_new_connecting:
  assumes "Endpoint_new e = Inr ep"
  shows "connecting (Connect_round 2 ids (ep\<lparr>ep_node_id := i\<rparr>))" and "ep_rx_depth (Connect_round 2 ids (ep\<lparr>ep_node_id := i\<rparr>)) = ep_rx_depth ep"
proof -
  have two: "[0..<2] = [0, 1]" by (simp add: upt_rec)
  have "ep_status ep = [IDLE, IDLE]" "ep_cm_ids ep = [None, None]" "ep_incoming_count ep = 0" "ep_inited ep = 0"
    using assms by (auto simp: Endpoint_new_def Let_def QP_MAX_NUM_def eval_nat_numeral split: option.splits)
  then show "connecting (Connect_round 2 ids (ep\<lparr>ep_node_id := i\<rparr>))" "ep_rx_depth (Connect_round 2 ids (ep\<lparr>ep_node_id := i\<rparr>)) = ep_rx_depth ep"
    by (simp_all add: Connect_round_def two connecting_def)
qed

lemma Init_keeps:
  assumes "4 \<le> ep_rx_depth ep" and "ep_inited ep \<le> 1"
  shows "\<exists>ep1. Endpoint_Init 2 qp ep = Inr ep1 \<and> ep_status ep1 = ep_status ep \<and> ep_incoming_count ep1 = ep_incoming_count ep \<and>
    ep_rx_depth ep1 = ep_rx_depth ep \<and> ep_inited ep1 = ep_inited ep + 1"
proof -
  have keep: "ep_status (fold (\<lambda>c. PostRecv c qp) cs x) = ep_status x \<and> ep_incoming_count (fold (\<lambda>c. PostRecv c qp) cs x) = ep_incoming_count x \<and>
    ep_rx_depth (fold (\<lambda>c. PostRecv c qp) cs x) = ep_rx_depth x" for cs x
    by (induction cs arbitrary: x) (simp_all add: PostRecv_def)
  have "list_all (\<lambda>c. c < ep_rx_depth ep) (map (\<lambda>i. i + ep_inited ep * 2) [0..<ep_rx_depth ep div 2])"
    using assms by (auto simp: list_all_iff)
  then show ?thesis using assms keep by (simp add: Endpoint_Init_def Let_def)
qed

lemma route_keeps:
  assumes "4 \<le> ep_rx_depth ep" and "ep_inited ep \<le> 1" and "ep_incoming_count ep < 2"
  shows "\<exists>ep1. on_cm_event e 2 (ROUTE_RESOLVED qp) ep = Inr ep1 \<and> ep_status ep1 = ep_status ep \<and>
    ep_incoming_count ep1 = (ep_incoming_count ep + 1) mod 2 \<and> ep_rx_depth ep1 = ep_rx_depth ep \<and> ep_inited ep1 = ep_inited ep + 1"
proof -
  obtain ep1 where "Endpoint_Init 2 qp ep = Inr ep1" "ep_status ep1 = ep_status ep" "ep_incoming_count ep1 = ep_incoming_count ep"
    "ep_rx_depth ep1 = ep_rx_depth ep" "ep_inited ep1 = ep_inited ep + 1"
    using Init_keeps [OF assms(1,2)] by blast
  moreover have "ep_incoming_count ep = 0 \<or> ep_incoming_count ep = 1" using assms(3) by auto
  ultimately show ?thesis by (auto simp: OnRouteResolved_def next_incoming_def)
qed

lemma established_marks:
  assumes "ep_incoming_count ep < 2"
  shows "\<exists>ep1. on_cm_event e 2 (ESTABLISHED qp) ep = Inr ep1 \<and> ep_status ep1 = (ep_status ep)[ep_incoming_count ep := CONNECTED] \<and>
    ep_incoming_count ep1 = (ep_incoming_count ep + 1) mod 2 \<and> ep_rx_depth ep1 = ep_rx_depth ep \<and> ep_inited ep1 = ep_inited ep"
proof -
  have "ep_incoming_count ep = 0 \<or> ep_incoming_count ep = 1" using assms by auto
  then show ?thesis by (auto simp: OnConnected_def Let_def SetQPLag_def QP_MAX_NUM_def)
qed

text \<open>
  C21: \<^verbatim>\<open>Connect\<close> of two queue pairs depends on the order of the events.  If both routes are resolved before the
  first connection is established, all queue pairs are connected and the wait ends.  If the first connection is
  established before the second route is resolved, which the connection manager allows, the handlers count both
  kinds of events with one counter, the status of queue pair 1 is set twice and that of queue pair 0 never:
  after the last event \<^verbatim>\<open>Connect\<close> still waits.
\<close>
theorem connect_depends_on_order:
  assumes "Endpoint_new e = Inr ep" and "4 \<le> ep_rx_depth ep" and ep0: "ep0 = Connect_round 2 ids (ep\<lparr>ep_node_id := i\<rparr>)"
  shows "(\<exists>ep1. foldR (on_cm_event e 2) [ROUTE_RESOLVED 0, ROUTE_RESOLVED 1, ESTABLISHED 0, ESTABLISHED 1] ep0 = Inr ep1 \<and>
      GetAllStatus 2 CONNECTED True ep1 \<and> \<not> Connect_waits 2 ep1) \<and>
    (\<exists>ep1. foldR (on_cm_event e 2) [ROUTE_RESOLVED 0, ESTABLISHED 0, ROUTE_RESOLVED 1, ESTABLISHED 1] ep0 = Inr ep1 \<and>
      ep_status ep1 = [CONNECTING, CONNECTED] \<and> Connect_waits 2 ep1)"
proof -
  have two: "[0..<2] = [0, 1]" by (simp add: upt_rec)
  have s0: "ep_status ep0 = [CONNECTING, CONNECTING]" "ep_incoming_count ep0 = 0" "ep_inited ep0 = 0" "4 \<le> ep_rx_depth ep0"
    using Endpoint_new_connecting [OF assms(1), of ids i] assms(2) by (simp_all add: ep0 connecting_def)
  obtain a where a: "on_cm_event e 2 (ROUTE_RESOLVED 0) ep0 = Inr a" "ep_status a = [CONNECTING, CONNECTING]" "ep_incoming_count a = 1"
    "4 \<le> ep_rx_depth a" "ep_inited a = 1"
    using route_keeps [of ep0 e 0] s0 by auto
  obtain b where b: "on_cm_event e 2 (ROUTE_RESOLVED 1) a = Inr b" "ep_status b = [CONNECTING, CONNECTING]" "ep_incoming_count b = 0"
    using route_keeps [of a e 1] a by auto
  obtain c where c: "on_cm_event e 2 (ESTABLISHED 0) b = Inr c" "ep_status c = [CONNECTED, CONNECTING]" "ep_incoming_count c = 1"
    using established_marks [of b e 0] b by auto
  obtain d where d: "on_cm_event e 2 (ESTABLISHED 1) c = Inr d" "ep_status d = [CONNECTED, CONNECTED]"
    using established_marks [of c e 1] c by auto
  obtain b' where b': "on_cm_event e 2 (ESTABLISHED 0) a = Inr b'" "ep_status b' = [CONNECTING, CONNECTED]" "ep_incoming_count b' = 0"
    "4 \<le> ep_rx_depth b'" "ep_inited b' = 1"
    using established_marks [of a e 0] a by auto
  obtain c' where c': "on_cm_event e 2 (ROUTE_RESOLVED 1) b' = Inr c'" "ep_status c' = [CONNECTING, CONNECTED]" "ep_incoming_count c' = 1"
    using route_keeps [of b' e 1] b' by auto
  obtain d' where d': "on_cm_event e 2 (ESTABLISHED 1) c' = Inr d'" "ep_status d' = [CONNECTING, CONNECTED]"
    using established_marks [of c' e 1] c' by auto
  show ?thesis
    using a(1) b(1) c(1) d b'(1) c'(1) d'
    by (simp del: on_cm_event.simps add: GetAllStatus_def Connect_waits_def two)
qed

theorem connect_depends_on_order_witness:
  "\<exists>ep ep0 ep1. Endpoint_new \<lparr>env_kvs = [(''DMLC_ROLE'', ''worker'')], env_sys = (\<lambda>_. None)\<rparr> = Inr ep \<and>
     ep0 = Connect_round 2 (\<lambda>q. q + 7) (ep\<lparr>ep_node_id := 8\<rparr>) \<and>
     foldR (on_cm_event \<lparr>env_kvs = [(''DMLC_ROLE'', ''worker'')], env_sys = (\<lambda>_. None)\<rparr> 2)
       [ROUTE_RESOLVED 0, ESTABLISHED 0, ROUTE_RESOLVED 1, ESTABLISHED 1] ep0 = Inr ep1 \<and> Connect_waits 2 ep1"
proof -
  let ?e = "\<lparr>env_kvs = [(''DMLC_ROLE'', ''worker'')], env_sys = (\<lambda>_. None)\<rparr> :: environment"
  obtain ep where ep: "Endpoint_new ?e = Inr ep" "ep_rx_depth ep = 256"
    by (simp add: Endpoint_new_def env_find_def umap_find_def Let_def)
  with connect_depends_on_order [of ?e ep _ "\<lambda>q. q + 7" 8, OF ep(1) _ refl] show ?thesis by auto
qed

section \<open>Receive buffers\<close>

text \<open>What holds of the result of a call that returns, by the structure of the call.\<close>

definition returns_only :: "('a \<Rightarrow> bool) \<Rightarrow> 'a res \<Rightarrow> bool" where
  "returns_only P r = (case r of Inl e \<Rightarrow> True | Inr x \<Rightarrow> P x)"

lemma returns_onlyD: "returns_only P r \<Longrightarrow> r = Inr x \<Longrightarrow> P x"
  by (simp add: returns_only_def)

lemma returns_only_intros:
  "returns_only P (Inl e)"
  "P x \<Longrightarrow> returns_only P (Inr x)"
  "(\<And>x. m = Inr x \<Longrightarrow> returns_only P (k x)) \<Longrightarrow> returns_only P (bindR m k)"
  "returns_only P r \<Longrightarrow> returns_only P (PS_CHECK b s r)"
  "returns_only P r \<Longrightarrow> returns_only P (no_ub b s r)"
  "(\<And>x. x = c \<Longrightarrow> returns_only P (f x)) \<Longrightarrow> returns_only P (Let c f)"
  "(b \<Longrightarrow> returns_only P r) \<Longrightarrow> (\<not> b \<Longrightarrow> returns_only P r') \<Longrightarrow> returns_only P (if b then r else r')"
  "(\<And>x y. p = (x, y) \<Longrightarrow> returns_only P (g x y)) \<Longrightarrow> returns_only P (case p of (x, y) \<Rightarrow> g x y)"
  "(z = None \<Longrightarrow> returns_only P r) \<Longrightarrow> (\<And>y. z = Some y \<Longrightarrow> returns_only P (h y)) \<Longrightarrow>
     returns_only P (case z of None \<Rightarrow> r | Some y \<Rightarrow> h y)"
  by (auto simp: returns_only_def bindR_def Let_def PS_CHECK_def no_ub_def split: sum.splits prod.splits option.splits)

lemma set_endpoint_pool [simp]: "rv_pool (set_endpoint r ep v) = rv_pool v"
  by (simp add: set_endpoint_def)

lemma release_at_pool: "release_at r ty ctx qp v = Inr v' \<Longrightarrow> rv_pool v' = rv_pool v"
  by (auto simp: release_at_def res_simps)

lemma on_recv_write_pool: "on_recv_write r qp imm now v = Inr v' \<Longrightarrow> rv_pool v' = rv_pool v"
  by (auto simp: on_recv_write_def res_simps Let_def split: if_splits)

lemma send_by_kind_pool: "send_by_kind r msg ptr t v = Inr v' \<Longrightarrow> rv_pool v' = rv_pool v"
  by (auto simp: send_by_kind_def res_simps Let_def split: if_splits option.splits)

lemma StoreRemoteAndLocalInfo_pool: "StoreRemoteAndLocalInfo ptr a k i v = Inr v' \<Longrightarrow> rv_pool v' = rv_pool v"
  by (auto simp: StoreRemoteAndLocalInfo_def res_simps Let_def)

lemma ReleaseFirstMsg_pool: "ReleaseFirstMsg ptr v = Inr v' \<Longrightarrow> rv_pool v' = rv_pool v"
  by (auto simp: ReleaseFirstMsg_def res_simps)

lemma on_rendezvous_reply_pool:
  assumes "on_rendezvous_reply r resp v = Inr v'"
  shows "rv_pool v' = rv_pool v"
proof -
  let ?ptr = "rr_origin_addr resp"
  from assms obtain v1 v2 msg t ep where v1: "StoreRemoteAndLocalInfo ?ptr (rr_addr resp) (rr_rkey resp) (rr_idx resp) v = Inr v1"
    and v2: "(if \<not> IsValidPushpull msg
                 then bindR (RDMAWriteWithImm (rv_alloc v1) ?ptr (rv_bufs v1 ! ?ptr) (rr_addr resp) (rr_rkey resp) (rr_idx resp) False None ep)
                        (\<lambda>ep1. Inr (set_endpoint r ep1 v1))
                 else send_by_kind r msg ?ptr t v1) = Inr v2"
    and v': "ReleaseFirstMsg ?ptr v2 = Inr v'"
    unfolding on_rendezvous_reply_def Let_def bindR_eq_Inr PS_CHECK_eq_Inr by (elim exE conjE) (rule that)
  have "rv_pool v2 = rv_pool v1"
  proof (cases "IsValidPushpull msg")
    case True
    then show ?thesis using v2 by (auto dest: send_by_kind_pool)
  next
    case False
    then show ?thesis using v2 by (simp only: not_False_eq_True if_True bindR_eq_Inr Inr_inject) auto
  qed
  with StoreRemoteAndLocalInfo_pool [OF v1] ReleaseFirstMsg_pool [OF v'] show ?thesis by simp
qed

lemma on_rendezvous_start_pool:
  assumes "on_rendezvous_start vb r req v = Inr v'"
  obtains ctx idx where "StoreAddress ctx (rv_pool v) = Inr (rv_pool v', idx)"
  using assms by (auto simp: on_rendezvous_start_def SendRendezvousReply_def res_simps Let_def neq_Nil_conv split: list.splits)

definition is_start :: "completion \<Rightarrow> bool" where
  "is_start wc = (case wc of WC_recv r ty ctx (Some (RendezvousStart req)) \<Rightarrow> True | _ \<Rightarrow> False)"

lemma PollCQ_pool:
  assumes "PollCQ_turn vb wc v = Inr v'" and ok: "pool_ok (rv_pool v)"
  shows "pool_ok (rv_pool v') \<and> ap_max (rv_pool v') = ap_max (rv_pool v) \<and>
    card (dom (pool_map (rv_pool v'))) = card (dom (pool_map (rv_pool v))) + (if is_start wc then 1 else 0)"
proof (cases "is_start wc")
  case True
  then obtain r ty ctx req where wc: "wc = WC_recv r ty ctx (Some (RendezvousStart req))"
    by (auto simp: is_start_def split: completion.splits option.splits rendezvous.splits)
  then obtain v1 where v1: "on_rendezvous_start vb r req v = Inr v1" "release_at r ty ctx 0 v1 = Inr v'"
    using assms(1) by (auto simp: PollCQ_turn_def res_simps)
  obtain b idx where st: "StoreAddress b (rv_pool v) = Inr (rv_pool v1, idx)" using on_rendezvous_start_pool [OF v1(1)] release_at_pool by blast
  then have "card (dom (pool_map (rv_pool v))) \<noteq> ap_max (rv_pool v)" using StoreAddress_ok(2) [OF ok, of b] by auto
  moreover have le: "card (dom (pool_map (rv_pool v))) \<le> ap_max (rv_pool v)" using pool_free_count [OF ok] by simp
  ultimately have "pool_ok (rv_pool v1)" "ap_max (rv_pool v1) = ap_max (rv_pool v)" "pool_map (rv_pool v) idx = None"
    "pool_map (rv_pool v1) = (pool_map (rv_pool v))(idx \<mapsto> b)"
    using StoreAddress_ok(1) [OF ok, of b] st by auto
  moreover have "finite (dom (pool_map (rv_pool v)))"
    by (rule finite_subset [of _ "{..<length (ap_table (rv_pool v))}"]) (auto simp: pool_map_def split: if_splits)
  ultimately show ?thesis using True release_at_pool [OF v1(2)] by (simp add: card_insert_if domIff)
next
  case False
  then have "rv_pool v' = rv_pool v"
    using assms(1) unfolding PollCQ_turn_def
    by (auto simp: is_start_def res_simps split: completion.splits option.splits rendezvous.splits
        dest!: release_at_pool on_recv_write_pool on_rendezvous_reply_pool)
  then show ?thesis using False ok by simp
qed

text \<open>Everything a process does with its van: handle a completion, receive, send.\<close>

datatype rdma_action = Complete completion | Receive meta | Transmit "64 word" message

fun rdma_act :: "verbs \<Rightarrow> rdma_action \<Rightarrow> rdma_van \<Rightarrow> rdma_van res" where
  "rdma_act vb (Complete wc) v = PollCQ_turn vb wc v"
| "rdma_act vb (Receive mt) v = bindR (RecvMsg mt v) (\<lambda>(v1, msg, n). Inr v1)"
| "rdma_act vb (Transmit now msg) v = bindR (SendMsg vb now msg v) (\<lambda>(v1, msg1, n). Inr v1)"

fun is_start_action :: "rdma_action \<Rightarrow> bool" where
  "is_start_action (Complete wc) = is_start wc"
| "is_start_action _ = False"

lemma RecvMsg_pool:
  assumes "RecvMsg mt v = Inr (v', msg, n)"
  shows "rv_pool v' = rv_pool v"
proof -
  have "returns_only (\<lambda>(v', msg, n). rv_pool v' = rv_pool v) (RecvMsg mt v)"
  proof (cases "rv_recv_buffers v")
    case (Cons nt rest)
    show ?thesis
      unfolding RecvMsg_def Cons list.case by (intro returns_only_intros; simp (no_asm_simp))
  qed (simp add: RecvMsg_def returns_only_def)
  from returns_onlyD [OF this assms] show ?thesis by simp
qed

lemma register_region_pool: "register_region vb a n v = Inr v' \<Longrightarrow> rv_pool v' = rv_pool v"
  by (auto simp: register_region_def split: if_splits option.splits)

lemma register_data_pool: "register_data vb sas k v = Inr v' \<Longrightarrow> rv_pool v' = rv_pool v"
  by (induction sas arbitrary: k v) (auto simp: res_simps split: if_splits dest!: register_region_pool)

lemma RegisterMemory_pool: "RegisterMemory vb msg v = Inr v' \<Longrightarrow> rv_pool v' = rv_pool v"
  by (auto simp: RegisterMemory_def res_simps Let_def split: if_splits dest!: register_data_pool register_region_pool)

lemma PrepareData_pool: "PrepareData msg ptr v = Inr v' \<Longrightarrow> rv_pool v' = rv_pool v"
  by (auto simp: PrepareData_def res_simps Let_def split: if_splits option.splits)

lemma PrepareNewMsgBuf_pool: "PrepareNewMsgBuf vb msg v = Inr (v', ptr) \<Longrightarrow> rv_pool v' = rv_pool v"
  unfolding PrepareNewMsgBuf_def Let_def by (auto simp: bindR_eq_Inr split: prod.splits)

lemma StoreMsgBuf_pool: "StoreMsgBuf ptr msg v = Inr v' \<Longrightarrow> rv_pool v' = rv_pool v"
  by (auto simp: StoreMsgBuf_def res_simps)

lemma begin_rendezvous_pool:
  assumes "begin_rendezvous vb r data msg v = Inr v'"
  shows "rv_pool v' = rv_pool v"
proof -
  from assms obtain v1 ptr v2 v3 ep ep1 where v1: "PrepareNewMsgBuf vb msg v = Inr (v1, ptr)"
    and v2: "StoreMsgBuf ptr msg v1 = Inr v2" and v3: "(if data then PrepareData msg ptr v2 else Inr v2) = Inr v3"
    and v': "v' = set_endpoint r ep1 v3"
    unfolding begin_rendezvous_def bindR_eq_Inr by (auto simp: bindR_eq_Inr)
  have "rv_pool v3 = rv_pool v2" using v3 by (cases data) (auto dest: PrepareData_pool)
  then show ?thesis using PrepareNewMsgBuf_pool [OF v1] StoreMsgBuf_pool [OF v2] v' by simp
qed

lemma SendMsg_pool:
  assumes "SendMsg vb now msg v = Inr (v', msg', n)"
  shows "rv_pool v' = rv_pool v"
proof (cases "umap_find (rv_endpoints v) (Out (m_recver (msg_meta msg)))")
  case None
  then show ?thesis using assms by (simp add: SendMsg_def Let_def PS_CHECK_def split: if_splits)
next
  case (Some ep)
  have "returns_only (\<lambda>(v', msg', n). rv_pool v' = rv_pool v) (SendMsg vb now msg v)"
    unfolding SendMsg_def Let_def [of "m_recver _"] Let_def [of "Out _"] Some option.case
    by (intro returns_only_intros; drule RegisterMemory_pool; (drule begin_rendezvous_pool send_by_kind_pool)?; simp (no_asm_simp))
  from returns_onlyD [OF this assms] show ?thesis by simp
qed

lemma rdma_act_pool:
  assumes "rdma_act vb a v = Inr v'" and "pool_ok (rv_pool v)"
  shows "pool_ok (rv_pool v') \<and> ap_max (rv_pool v') = ap_max (rv_pool v) \<and>
    card (dom (pool_map (rv_pool v'))) = card (dom (pool_map (rv_pool v))) + (if is_start_action a then 1 else 0)"
proof (cases a)
  case (Complete wc)
  then show ?thesis using PollCQ_pool [of vb wc v v'] assms by simp
next
  case (Receive mt)
  then have "rv_pool v' = rv_pool v" using assms(1) by (auto simp: res_simps dest!: RecvMsg_pool)
  then show ?thesis using assms(2) Receive by simp
next
  case (Transmit now msg)
  then have "rv_pool v' = rv_pool v" using assms(1) by (auto simp: res_simps dest!: SendMsg_pool)
  then show ?thesis using assms(2) Transmit by simp
qed

text \<open>
  C20: A process takes part in only so many rendezvous as its address pool has entries.  Nothing it does, neither
  handling a completion nor receiving nor sending a message, releases an index: over any run the entries in use
  grow by one with every rendezvous message that arrives, no index is ever used twice, and there is no run with more
  rendezvous than entries, because the process stops at a failed check.  (Every control message, so every
  heartbeat and barrier, begins a rendezvous.)
\<close>
theorem rendezvous_use_up_pool:
  assumes "pool_ok (rv_pool v)" and "foldR (rdma_act vb) as v = Inr v'"
  shows "pool_ok (rv_pool v') \<and> length (filter is_start_action as) \<le> ap_max (rv_pool v) \<and>
    card (dom (pool_map (rv_pool v'))) = card (dom (pool_map (rv_pool v))) + length (filter is_start_action as)"
proof -
  have "pool_ok (rv_pool v') \<and> ap_max (rv_pool v') = ap_max (rv_pool v) \<and>
      card (dom (pool_map (rv_pool v'))) = card (dom (pool_map (rv_pool v))) + length (filter is_start_action as)"
    using assms
  proof (induction as arbitrary: v)
    case (Cons a as)
    from Cons.prems(2) obtain v1 where v1: "rdma_act vb a v = Inr v1" "foldR (rdma_act vb) as v1 = Inr v'"
      by (auto simp: res_simps)
    with rdma_act_pool [OF v1(1) Cons.prems(1)] Cons.IH [of v1] show ?case by simp
  qed simp
  moreover have "card (dom (pool_map (rv_pool v'))) \<le> ap_max (rv_pool v')" if "pool_ok (rv_pool v')"
    using pool_free_count [OF that] by simp
  ultimately show ?thesis by auto
qed

text \<open>A server with an address pool of two entries and one worker connected to it.\<close>

definition sample_verbs :: verbs where
  "sample_verbs = \<lparr>vb_memalign = (\<lambda>al n. 4096 * (length (ma_used al) + 1)),
     vb_reg_mr = (\<lambda>a n. Some \<lparr>mr_addr = a, mr_length = n, mr_lkey = 7, mr_rkey = 9\<rparr>)\<rparr>"

definition sample_node :: node where
  "sample_node = \<lparr>n_role = SERVER, n_id = 8, n_customer_id = 0, n_hostname = ''a'', n_num_ports = 1, n_ports = [7000], n_dev_types = [0],
     n_dev_ids = [0], n_port = 7000, n_is_recovery = False, n_endpoint_name = [], n_endpoint_name_len = 0, n_aux_id = 0\<rparr>"

definition sample_van :: "bool \<Rightarrow> endpoint_ref \<Rightarrow> endpoint \<Rightarrow> rdma_van" where
  "sample_van is_server r ep = \<lparr>rv_my_node = sample_node, rv_is_server = is_server, rv_trace_on = False, rv_qp_num = 2, rv_is_local = [],
     rv_endpoints = [(r, ep)], rv_alloc = \<lparr>ma_pagesize = 4096, ma_used = [], ma_mr = []\<rparr>, rv_mem = (\<lambda>_. 0), rv_bufs = [],
     rv_pool = \<lparr>ap_max = 2, ap_indices = [0, 1], ap_table = [None, None]\<rparr>, rv_recv_buffers = [], rv_push_addr = [], rv_pull_addr = [],
     rv_msgbuf_cache = [], rv_mem_mr = [], rv_registered = [], rv_released = []\<rparr>"

theorem rendezvous_use_up_pool_witness:
  "\<exists>v'. foldR (rdma_act sample_verbs)
      [Complete (WC_recv (In ''w'') ReceiveContext 0 (Some (RendezvousStart
         \<lparr>rs_meta_len = 288, rs_data_num = 3, rs_data_len = [8, 5, 4], rs_origin_addr = 0, rs_key = 1\<rparr>))),
       Complete WC_rdma_write]
      (sample_van True (In ''w'') sample_endpoint) = Inr v' \<and> pool_ok (rv_pool v') \<and> card (dom (pool_map (rv_pool v'))) = 1"
proof -
  let ?v = "sample_van True (In ''w'') sample_endpoint"
  have ok: "pool_ok (rv_pool ?v)" by (auto simp: sample_van_def pool_ok_def less_Suc_eq eval_nat_numeral)
  have empty: "pool_map (rv_pool ?v) = Map.empty" by (auto simp: sample_van_def pool_map_def fun_eq_iff less_Suc_eq eval_nat_numeral)
  let ?as = "[Complete (WC_recv (In ''w'') ReceiveContext 0 (Some (RendezvousStart
     \<lparr>rs_meta_len = 288, rs_data_num = 3, rs_data_len = [8, 5, 4], rs_origin_addr = 0, rs_key = 1\<rparr>))), Complete WC_rdma_write]"
  have "\<exists>v'. foldR (rdma_act sample_verbs) ?as ?v = Inr v'"
    by (simp add: PollCQ_turn_def on_rendezvous_start_def get_endpoint_def sample_van_def sample_endpoint_def sample_verbs_def
        umap_find_def SendRendezvousReply_def kMaxDataFields_def ma_Alloc_def align_ceil_def align_floor_def RemoteKey_def Addr2MR_def
        umap_set_def StoreAddress_def release_at_def ReleaseWorkRequestContext_def set_endpoint_def post_send_def Let_def)
  then obtain v' where v': "foldR (rdma_act sample_verbs) ?as ?v = Inr v'" by blast
  with rendezvous_use_up_pool [OF ok v'] show ?thesis by (intro exI [of _ v']) (simp del: foldR.simps add: empty is_start_def)
qed

end
