(* ===== verification/RdmaPush.thy ===== *)
theory RdmaPush
  imports RdmaProps "HOL-Library.Multiset"
begin

text \<open>
  What the RDMA writes of a push and of a pull reply do to the memory of the receiver, and the way of
  a pushed tensor through the rendezvous from a worker to the request handle of a server.
\<close>

unbundle bit_operations_syntax

section \<open>The writes of a payload\<close>

text \<open>The effect of posted writes on the memory \<open>rm\<close> of the receiver; \<open>lm\<close> is that of the sender.\<close>

definition deliver_one :: "mem \<Rightarrow> nat \<times> work_request \<Rightarrow> mem \<Rightarrow> mem" where
  "deliver_one lm p rm = (case snd p of WR_write w \<Rightarrow> put (w_raddr w) (get (w_laddr w) (w_len w) lm) rm | WR_send c r \<Rightarrow> rm)"

definition deliver :: "mem \<Rightarrow> (nat \<times> work_request) list \<Rightarrow> mem \<Rightarrow> mem" where
  "deliver lm ps rm = fold (deliver_one lm) ps rm"

definition writes_at :: "nat \<times> work_request \<Rightarrow> nat \<Rightarrow> bool" where
  "writes_at p a \<longleftrightarrow> (case snd p of WR_write w \<Rightarrow> w_raddr w \<le> a \<and> a < w_raddr w + w_len w | WR_send c r \<Rightarrow> False)"

text \<open>The byte a write puts at an address of its range.\<close>

definition write_byte :: "mem \<Rightarrow> nat \<times> work_request \<Rightarrow> nat \<Rightarrow> byte" where
  "write_byte lm p a = (case snd p of WR_write w \<Rightarrow> lm (w_laddr w + (a - w_raddr w)) | WR_send c r \<Rightarrow> 0)"

lemma deliver_one_at: "deliver_one lm p rm a = (if writes_at p a then write_byte lm p a else rm a)"
  by (auto simp: deliver_one_def writes_at_def write_byte_def put_def get_def split: work_request.splits)

text \<open>
  The queue pairs keep the order of their own work requests only.  If every address is in the range
  of at most one write, the order of the writes does not matter.
\<close>

lemma deliver_at:
  assumes "\<And>p q. p \<in> set ps \<Longrightarrow> q \<in> set ps \<Longrightarrow> writes_at p a \<Longrightarrow> writes_at q a \<Longrightarrow> write_byte lm p a = write_byte lm q a"
  shows "deliver lm ps rm a = (case List.find (\<lambda>p. writes_at p a) ps of None \<Rightarrow> rm a | Some p \<Rightarrow> write_byte lm p a)"
  using assms
proof (induction ps arbitrary: rm)
  case (Cons p ps)
  have IH: "deliver lm ps (deliver_one lm p rm) a =
      (case List.find (\<lambda>p. writes_at p a) ps of None \<Rightarrow> deliver_one lm p rm a | Some p \<Rightarrow> write_byte lm p a)"
    by (rule Cons.IH) (auto intro: Cons.prems)
  show ?case
  proof (cases "writes_at p a")
    case True
    have "write_byte lm q a = write_byte lm p a" if "List.find (\<lambda>p. writes_at p a) ps = Some q" for q
    proof -
      have "q \<in> set ps" "writes_at q a" using that by (auto simp: find_Some_iff in_set_conv_nth)
      then show ?thesis using Cons.prems [of q p] True by simp
    qed
    then show ?thesis using IH True by (auto simp: deliver_def deliver_one_at split: option.splits)
  next
    case False
    then show ?thesis using IH by (simp add: deliver_def deliver_one_at split: option.splits)
  qed
qed (simp add: deliver_def)

text \<open>
  \<open>posts\<close> fill exactly two ranges: the payload of \<open>len\<close> bytes from \<open>l\<close> goes to \<open>d\<close>, the metadata of \<open>il\<close>
  bytes from \<open>ib\<close> to \<open>ra\<close>.
\<close>

definition fills :: "(nat \<times> work_request) set \<Rightarrow> nat \<Rightarrow> nat \<Rightarrow> nat \<Rightarrow> nat \<Rightarrow> nat \<Rightarrow> nat \<Rightarrow> bool" where
  "fills posts d l len ra ib il \<longleftrightarrow>
     (\<forall>a. (\<exists>p \<in> posts. writes_at p a) \<longleftrightarrow> d \<le> a \<and> a < d + len \<or> ra \<le> a \<and> a < ra + il) \<and>
     (\<forall>lm a. \<forall>p \<in> posts. writes_at p a \<longrightarrow>
        (d \<le> a \<and> a < d + len \<and> write_byte lm p a = lm (l + (a - d)) \<or> ra \<le> a \<and> a < ra + il \<and> write_byte lm p a = lm (ib + (a - ra))))"

lemma fills_deliver:
  assumes fills: "fills (set ps) d l len ra ib il" and disj: "ra + il \<le> d \<or> d + len \<le> ra"
  shows "get d len (deliver lm ps rm) = get l len lm" and "get ra il (deliver lm ps rm) = get ib il lm"
    and "\<not> (d \<le> a \<and> a < d + len) \<Longrightarrow> \<not> (ra \<le> a \<and> a < ra + il) \<Longrightarrow> deliver lm ps rm a = rm a"
proof -
  have cover: "(\<exists>p \<in> set ps. writes_at p a) \<longleftrightarrow> d \<le> a \<and> a < d + len \<or> ra \<le> a \<and> a < ra + il" for a
    using fills by (simp add: fills_def)
  have byte: "d \<le> a \<and> a < d + len \<and> write_byte lm p a = lm (l + (a - d)) \<or> ra \<le> a \<and> a < ra + il \<and> write_byte lm p a = lm (ib + (a - ra))"
    if "p \<in> set ps" "writes_at p a" for p a
    using fills that by (auto simp: fills_def)
  have at: "deliver lm ps rm a = (case List.find (\<lambda>p. writes_at p a) ps of None \<Rightarrow> rm a | Some p \<Rightarrow> write_byte lm p a)" for a
  proof (rule deliver_at)
    show "write_byte lm p a = write_byte lm q a" if "p \<in> set ps" "q \<in> set ps" "writes_at p a" "writes_at q a" for p q
      using byte [OF that(1,3)] byte [OF that(2,4)] disj by auto
  qed
  have found: "\<exists>p \<in> set ps. writes_at p a \<and> deliver lm ps rm a = write_byte lm p a" if ex: "\<exists>p \<in> set ps. writes_at p a" for a
  proof (cases "List.find (\<lambda>p. writes_at p a) ps")
    case None
    then show ?thesis using ex unfolding find_None_iff by blast
  next
    case (Some p)
    then have "p \<in> set ps" "writes_at p a" by (auto simp: find_Some_iff in_set_conv_nth)
    then show ?thesis using at [of a] Some by auto
  qed
  have d: "deliver lm ps rm a = lm (l + (a - d))" if a: "d \<le> a" "a < d + len" for a
    using found [of a] cover [of a] byte a disj by fastforce
  have r: "deliver lm ps rm a = lm (ib + (a - ra))" if a: "ra \<le> a" "a < ra + il" for a
    using found [of a] cover [of a] byte a disj by fastforce
  show "get d len (deliver lm ps rm) = get l len lm" by (rule nth_equalityI) (simp_all add: get_def d)
  show "get ra il (deliver lm ps rm) = get ib il lm" by (rule nth_equalityI) (simp_all add: get_def r)
  assume "\<not> (d \<le> a \<and> a < d + len)" "\<not> (ra \<le> a \<and> a < ra + il)"
  then have "List.find (\<lambda>p. writes_at p a) ps = None" using cover [of a] by (auto simp: find_None_iff)
  then show "deliver lm ps rm a = rm a" using at [of a] by simp
qed

lemma fills_two:
  assumes "w_len w = len" and "w_len v = il"
  shows "fills {(q, WR_write w), (q', WR_write v)} (w_raddr w) (w_laddr w) len (w_raddr v) (w_laddr v) il"
  using assms by (auto simp: fills_def writes_at_def write_byte_def)

lemma fills_three:
  assumes "w_len w + w_len u = len" and "w_len v = il" and "w_raddr u = w_raddr w + w_len w" and "w_laddr u = w_laddr w + w_len w"
  shows "fills {(q, WR_write w), (q', WR_write v), (q'', WR_write u)} (w_raddr w) (w_laddr w) len (w_raddr v) (w_laddr v) il"
proof -
  have "w_laddr w + w_len w + (a - (w_raddr w + w_len w)) = w_laddr w + (a - w_raddr w)" if "w_raddr w + w_len w \<le> a" for a
    using that by simp
  then show ?thesis using assms by (auto simp: fills_def writes_at_def write_byte_def)
qed

text \<open>The completions posted writes raise at the receiver: queue pair and immediate data.\<close>

definition raised :: "(nat \<times> work_request) list \<Rightarrow> (nat \<times> 32 word) list" where
  "raised ps = List.map_filter (\<lambda>p. case snd p of WR_write w \<Rightarrow> map_option (Pair (fst p)) (w_imm w) | WR_send c r \<Rightarrow> None) ps"

lemma raised_simps [simp]:
  "raised [] = []"
  "raised ((q, WR_write w) # ps) = (case w_imm w of None \<Rightarrow> raised ps | Some i \<Rightarrow> (q, i) # raised ps)"
  by (simp_all add: raised_def map_filter_simps split: option.splits)

text \<open>
  What posting the writes \<open>ps\<close> changes: the endpoint counts the packets and the metadata gets the counters
  only if the payload is split over the queue pairs.
\<close>

definition posted_payload ::
  "bool \<Rightarrow> nat \<Rightarrow> nat \<Rightarrow> nat \<Rightarrow> mem \<Rightarrow> endpoint \<Rightarrow> mem \<Rightarrow> endpoint \<Rightarrow> (nat \<times> work_request) list \<Rightarrow> bool" where
  "posted_payload split n ib idx m ep m1 ep1 ps \<longleftrightarrow>
     ep_posted ep1 = ep_posted ep @ ps \<and>
     ep1\<lparr>ep_posted := []\<rparr> = (if split then count_packets n ep else ep)\<lparr>ep_posted := []\<rparr> \<and>
     raised ps = (0, of_nat idx) # (if split \<and> n = 2 then [(1, of_nat idx OR 0x8000)] else []) \<and>
     m1 = (if split then write_counters n ib (count_packets n ep) m else m)"

lemma post_split_fills:
  assumes "post_split n al ptr mb (ra, rk, idx, loc) len w (m, ep) = Inr (m1, ep1)"
    and len: "len < 2 ^ 32" and il: "mb_inline_len mb < 2 ^ 32" and w: "w_imm w = None"
  shows "\<exists>ps. posted_payload True n (mb_inline_buf mb) idx m ep m1 ep1 ps \<and>
    fills (set ps) (w_raddr w) (w_laddr w) len ra (mb_inline_buf mb) (mb_inline_len mb)"
proof -
  obtain lk where lk: "LocalKey al (mb_inline_buf mb) = Inr lk"
    using assms(1) by (auto simp: post_split_def Let_def res_simps RDMAWriteWithImm_def)
  let ?v = "\<lparr>w_id = ptr, w_laddr = mb_inline_buf mb, w_len = mb_inline_len mb, w_lkey = lk, w_raddr = ra, w_rkey = rk,
      w_imm = Some (of_nat idx), w_signaled = True, w_inline = True\<rparr>"
  have "0 < n" "n \<le> 2" using assms(1) by (auto simp: post_split_def Let_def res_simps QP_MAX_NUM_def)
  then consider "n = 1" | "n = 2" by linarith
  then show ?thesis
  proof cases
    case 1
    have "ep_posted ep1 = ep_posted ep @ [(0, WR_write (w\<lparr>w_len := len\<rparr>)), (0, WR_write ?v)]"
      "ep1\<lparr>ep_posted := []\<rparr> = (count_packets n ep)\<lparr>ep_posted := []\<rparr>" "m1 = write_counters n (mb_inline_buf mb) (count_packets n ep) m"
      using 1 assms(1) len il lk by (auto simp: post_split_def RDMAWriteWithImm_def post_send_def count_packets_def Let_def QP_MAX_NUM_def)
    then show ?thesis using fills_two [of "w\<lparr>w_len := len\<rparr>" len ?v "mb_inline_len mb" 0 0] w 1 by (simp add: posted_payload_def)
  next
    case 2
    have two: "[Suc 0..<2] = [Suc 0]" by (simp add: upt_rec)
    let ?k = "len div 2 + len mod 2"
    let ?u = "w\<lparr>w_raddr := w_raddr w + ?k, w_laddr := w_laddr w + ?k, w_len := len div 2, w_id := ptr,
                w_imm := Some (of_nat idx OR 0x8000), w_signaled := True\<rparr>"
    have "?k + len div 2 = len" "len div 2 < 2 ^ 32" "?k < 2 ^ 32" using len by presburger+
    moreover from this(2,3) have "ep_posted ep1 = ep_posted ep @ [(0, WR_write (w\<lparr>w_len := ?k\<rparr>)), (0, WR_write ?v), (1, WR_write ?u)]"
      "ep1\<lparr>ep_posted := []\<rparr> = (count_packets n ep)\<lparr>ep_posted := []\<rparr>" "m1 = write_counters n (mb_inline_buf mb) (count_packets n ep) m"
      using 2 assms(1) il lk by (auto simp: post_split_def RDMAWriteWithImm_def post_send_def count_packets_def Let_def QP_MAX_NUM_def two)
    ultimately show ?thesis using fills_three [of "w\<lparr>w_len := ?k\<rparr>" ?u len ?v "mb_inline_len mb" 0 0 1] w 2 by (simp add: posted_payload_def)
  qed
qed

lemma SendPushRequest_fills:
  assumes send: "SendPushRequest n al msg ptr mb (ra, rk, idx, loc) (m, ep) = Inr (m1, ep1)"
    and len: "length (sa_bytes (msg_data msg ! 1)) < 2 ^ 32" and il: "mb_inline_len mb < 2 ^ 32"
  obtains ps mr sz where "mb_mrs mb = [(mr, sz)]" "length (sa_bytes (msg_data msg ! 1)) \<le> sz"
    "posted_payload (ep_multi_qp ep) n (mb_inline_buf mb) idx m ep m1 ep1 ps"
    "fills (set ps) (ra + align_ceil (mb_inline_len mb) (ma_pagesize al)) (mr_addr mr) (length (sa_bytes (msg_data msg ! 1)))
       ra (mb_inline_buf mb) (mb_inline_len mb)"
proof -
  have "length (mb_mrs mb) = 1" using send by (auto simp: SendPushRequest_def res_simps)
  then obtain mr sz where mr: "mb_mrs mb = [(mr, sz)]" by (cases "mb_mrs mb") auto
  let ?len = "length (sa_bytes (msg_data msg ! 1))"
  have sz: "?len \<le> sz" using send mr by (auto simp: SendPushRequest_def res_simps Let_def)
  let ?w = "\<lparr>w_id = 0, w_laddr = mr_addr mr, w_len = ?len, w_lkey = mr_lkey mr, w_raddr = ra + align_ceil (mb_inline_len mb) (ma_pagesize al),
    w_rkey = rk, w_imm = None, w_signaled = False, w_inline = False\<rparr>"
  have "\<exists>ps. posted_payload (ep_multi_qp ep) n (mb_inline_buf mb) idx m ep m1 ep1 ps \<and>
    fills (set ps) (w_raddr ?w) (w_laddr ?w) ?len ra (mb_inline_buf mb) (mb_inline_len mb)"
  proof (cases "ep_multi_qp ep")
    case True
    then have "post_split n al ptr mb (ra, rk, idx, loc) ?len ?w (m, ep) = Inr (m1, ep1)"
      using send mr len by (auto simp: SendPushRequest_def res_simps Let_def)
    from post_split_fills [OF this len il] True show ?thesis by simp
  next
    case False
    then obtain lk where "LocalKey al (mb_inline_buf mb) = Inr lk"
      using send mr by (auto simp: SendPushRequest_def res_simps Let_def RDMAWriteWithImm_def)
    moreover define v where "v = \<lparr>w_id = ptr, w_laddr = mb_inline_buf mb, w_len = mb_inline_len mb, w_lkey = lk, w_raddr = ra, w_rkey = rk,
      w_imm = Some (of_nat idx), w_signaled = True, w_inline = True\<rparr>"
    ultimately have "m1 = m" "ep1 = ep\<lparr>ep_posted := ep_posted ep @ [(0, WR_write ?w), (0, WR_write v)]\<rparr>"
      using False send mr len il by (auto simp: SendPushRequest_def res_simps Let_def RDMAWriteWithImm_def post_send_def v_def)
    then show ?thesis using fills_two [of ?w ?len v "mb_inline_len mb" 0 0] False
      by (auto simp: posted_payload_def v_def intro!: exI [of _ "[(0, WR_write ?w), (0, WR_write v)]"])
  qed
  then show thesis using that mr sz by auto
qed

lemma SendPullResponse_fills:
  assumes send: "SendPullResponse n al msg ptr mb (ra, rk, idx, loc) lkey (m, ep) = Inr (m1, ep1)"
    and len: "length (sa_bytes (mb_data mb ! 1)) < 2 ^ 32" and il: "mb_inline_len mb < 2 ^ 32"
  obtains ps where "posted_payload (ep_multi_qp ep) n (mb_inline_buf mb) idx m ep m1 ep1 ps"
    "fills (set ps) (unat (m_addr (msg_meta msg))) (unat (sa_addr (mb_data mb ! 1))) (length (sa_bytes (mb_data mb ! 1)))
       ra (mb_inline_buf mb) (mb_inline_len mb)"
proof -
  let ?len = "length (sa_bytes (mb_data mb ! 1))"
  have val: "nat (m_val_len (msg_meta msg)) = ?len" using send by (auto simp: SendPullResponse_def res_simps)
  let ?a = "unat (m_addr (msg_meta msg))"
  let ?w = "\<lparr>w_id = ?a, w_laddr = unat (sa_addr (mb_data mb ! 1)), w_len = ?len, w_lkey = lkey, w_raddr = ?a,
    w_rkey = word_of_int (m_option (msg_meta msg)), w_imm = None, w_signaled = False, w_inline = False\<rparr>"
  have "\<exists>ps. posted_payload (ep_multi_qp ep) n (mb_inline_buf mb) idx m ep m1 ep1 ps \<and>
    fills (set ps) (w_raddr ?w) (w_laddr ?w) ?len ra (mb_inline_buf mb) (mb_inline_len mb)"
  proof (cases "ep_multi_qp ep")
    case True
    then have "post_split n al ptr mb (ra, rk, idx, loc) ?len ?w (m, ep) = Inr (m1, ep1)"
      using send val len by (auto simp: SendPullResponse_def res_simps Let_def)
    from post_split_fills [OF this len il] True show ?thesis by simp
  next
    case False
    then obtain lk where "LocalKey al (mb_inline_buf mb) = Inr lk"
      using send by (auto simp: SendPullResponse_def res_simps Let_def RDMAWriteWithImm_def)
    moreover define v where "v = \<lparr>w_id = ptr, w_laddr = mb_inline_buf mb, w_len = mb_inline_len mb, w_lkey = lk, w_raddr = ra, w_rkey = rk,
      w_imm = Some (of_nat idx), w_signaled = True, w_inline = True\<rparr>"
    ultimately have "m1 = m" "ep1 = ep\<lparr>ep_posted := ep_posted ep @ [(0, WR_write ?w), (0, WR_write v)]\<rparr>"
      using False send val len il by (auto simp: SendPullResponse_def res_simps Let_def RDMAWriteWithImm_def post_send_def v_def)
    then show ?thesis using fills_two [of ?w ?len v "mb_inline_len mb" 0 0] False
      by (auto simp: posted_payload_def v_def intro!: exI [of _ "[(0, WR_write ?w), (0, WR_write v)]"])
  qed
  then show thesis using that by auto
qed

text \<open>
  C13: The writes of a push put the tensor and the header where the receiver reads them.  Whether the payload goes
  over one queue pair or is cut into pieces for two, and in whatever order the network carries out the posted
  writes, afterwards the \<open>len\<close> bytes of the registered tensor lie behind the header at the next page boundary, the
  header lies at the start of the buffer, and no other byte of the receiver has changed.
\<close>
theorem push_writes_land:
  assumes send: "SendPushRequest n al msg ptr mb (ra, rk, idx, loc) (m, ep) = Inr (m1, ep1)"
    and sizes: "length (sa_bytes (msg_data msg ! 1)) < 2 ^ 32" "mb_inline_len mb < 2 ^ 32" "0 < ma_pagesize al"
    and order: "mset (ep_posted ep @ ps) = mset (ep_posted ep1)"
  shows "let len = length (sa_bytes (msg_data msg ! 1)); d = ra + align_ceil (mb_inline_len mb) (ma_pagesize al); rm' = deliver m1 ps rm
    in \<exists>mr sz. mb_mrs mb = [(mr, sz)] \<and> get d len rm' = get (mr_addr mr) len m1 \<and>
       get ra (mb_inline_len mb) rm' = get (mb_inline_buf mb) (mb_inline_len mb) m1 \<and>
       (\<forall>a. \<not> (d \<le> a \<and> a < d + len) \<and> \<not> (ra \<le> a \<and> a < ra + mb_inline_len mb) \<longrightarrow> rm' a = rm a)"
proof -
  from send sizes(1,2) obtain qs mr sz where mr: "mb_mrs mb = [(mr, sz)]" and posted: "ep_posted ep1 = ep_posted ep @ qs"
    and fills: "fills (set qs) (ra + align_ceil (mb_inline_len mb) (ma_pagesize al)) (mr_addr mr) (length (sa_bytes (msg_data msg ! 1)))
       ra (mb_inline_buf mb) (mb_inline_len mb)"
    by (rule SendPushRequest_fills) (auto simp: posted_payload_def)
  have "set ps = set qs" using order posted mset_eq_setD [of ps qs] by simp
  then show ?thesis
    using fills_deliver [of ps, OF _ disjI1, of _ _ _ ra _ "mb_inline_len mb"] fills mr align_ceil_bounds(1) [OF sizes(3)]
    by (simp add: Let_def)
qed

theorem push_writes_land_witness:
  "\<exists>m1 ep1. SendPushRequest 2 sample_alloc \<lparr>msg_meta = Meta0, msg_data = [sample_sarr 0 [1], sample_sarr 64 [1, 2, 3]]\<rparr> 0 sample_buffer
      (8192, 9, 5, 0) (\<lambda>a. of_nat a, sample_endpoint\<lparr>ep_multi_qp := True\<rparr>) = Inr (m1, ep1) \<and>
    length (ep_posted ep1) = 3 \<and> get 12288 3 (deliver m1 (rev (ep_posted ep1)) (\<lambda>_. 0)) = [64, 65, 66]"
proof -
  let ?msg = "\<lparr>msg_meta = Meta0, msg_data = [sample_sarr 0 [1], sample_sarr 64 [1, 2, 3]]\<rparr> :: message"
  let ?ep = "sample_endpoint\<lparr>ep_multi_qp := True\<rparr>"
  have two: "[Suc 0..<2] = [Suc 0]" "[0..<2] = [0, Suc 0]" by (simp_all add: upt_rec)
  obtain m1 ep1 where send: "SendPushRequest 2 sample_alloc ?msg 0 sample_buffer (8192, 9, 5, 0) (\<lambda>a. of_nat a, ?ep) = Inr (m1, ep1)"
    and len: "length (ep_posted ep1) = 3" and m1: "get 64 3 m1 = [64, 65, 66]"
    by (simp add: SendPushRequest_def post_split_def RDMAWriteWithImm_def sample_buffer_def sample_alloc_def sample_sarr_def sample_endpoint_def
        LocalKey_def Addr2MR_def umap_find_def post_send_def Let_def QP_MAX_NUM_def two write_counters_def)
      (simp add: get_def upt_rec count_packets_def)
  have "mset (ep_posted ?ep @ rev (ep_posted ep1)) = mset (ep_posted ep1)" by (simp add: sample_endpoint_def)
  from push_writes_land [OF send _ _ _ this] have "get 12288 3 (deliver m1 (rev (ep_posted ep1)) (\<lambda>_. 0)) = get 64 3 m1"
    by (simp add: sample_buffer_def sample_alloc_def sample_sarr_def align_ceil_def align_floor_def Let_def numeral_3_eq_3)
  then show ?thesis using send len m1 by auto
qed

text \<open>
  C16: The writes of a pull reply put the values into the tensor of the worker that asked, at the address its request
  carried, and the header into the worker's receive buffer, in whatever order they are carried out and however the
  payload is split, and change no other byte.
\<close>
theorem pull_reply_writes_land:
  assumes send: "SendPullResponse n al msg ptr mb (ra, rk, idx, loc) lkey (m, ep) = Inr (m1, ep1)"
    and sizes: "length (sa_bytes (mb_data mb ! 1)) < 2 ^ 32" "mb_inline_len mb < 2 ^ 32"
    and apart: "ra + mb_inline_len mb \<le> unat (m_addr (msg_meta msg)) \<or>
      unat (m_addr (msg_meta msg)) + length (sa_bytes (mb_data mb ! 1)) \<le> ra"
    and order: "mset (ep_posted ep @ ps) = mset (ep_posted ep1)"
  shows "let len = length (sa_bytes (mb_data mb ! 1)); d = unat (m_addr (msg_meta msg)); rm' = deliver m1 ps rm
    in m_val_len (msg_meta msg) = int len \<and> get d len rm' = get (unat (sa_addr (mb_data mb ! 1))) len m1 \<and>
       get ra (mb_inline_len mb) rm' = get (mb_inline_buf mb) (mb_inline_len mb) m1 \<and>
       (\<forall>a. \<not> (d \<le> a \<and> a < d + len) \<and> \<not> (ra \<le> a \<and> a < ra + mb_inline_len mb) \<longrightarrow> rm' a = rm a)"
proof -
  from send sizes obtain qs where posted: "ep_posted ep1 = ep_posted ep @ qs"
    and fills: "fills (set qs) (unat (m_addr (msg_meta msg))) (unat (sa_addr (mb_data mb ! 1))) (length (sa_bytes (mb_data mb ! 1)))
       ra (mb_inline_buf mb) (mb_inline_len mb)"
    by (rule SendPullResponse_fills) (auto simp: posted_payload_def)
  have "set ps = set qs" using order posted mset_eq_setD [of ps qs] by simp
  moreover have "m_val_len (msg_meta msg) = int (length (sa_bytes (mb_data mb ! 1)))"
    using send by (auto simp: SendPullResponse_def res_simps)
  ultimately show ?thesis
    using fills_deliver [of ps, OF _ apart] fills by (simp add: Let_def)
qed

theorem pull_reply_writes_land_witness:
  "\<exists>m1 ep1. SendPullResponse 2 sample_alloc \<lparr>msg_meta = Meta0\<lparr>m_addr := 16384, m_val_len := 3\<rparr>, msg_data = []\<rparr> 0
      (sample_buffer\<lparr>mb_mrs := []\<rparr>) (8192, 9, 5, 0) 7 (\<lambda>a. of_nat a, sample_endpoint) = Inr (m1, ep1) \<and>
    get 16384 3 (deliver m1 (rev (ep_posted ep1)) (\<lambda>_. 0)) = [64, 65, 66]"
proof -
  let ?msg = "\<lparr>msg_meta = Meta0\<lparr>m_addr := 16384, m_val_len := 3\<rparr>, msg_data = []\<rparr> :: message"
  obtain m1 ep1 where send: "SendPullResponse 2 sample_alloc ?msg 0 (sample_buffer\<lparr>mb_mrs := []\<rparr>) (8192, 9, 5, 0) 7
      (\<lambda>a. of_nat a, sample_endpoint) = Inr (m1, ep1)" and m1: "get 64 3 m1 = [64, 65, 66]"
    by (simp add: SendPullResponse_def RDMAWriteWithImm_def sample_buffer_def sample_alloc_def sample_sarr_def sample_endpoint_def
        LocalKey_def Addr2MR_def umap_find_def post_send_def Let_def)
      (simp add: get_def upt_rec count_packets_def)
  have "mset (ep_posted sample_endpoint @ rev (ep_posted ep1)) = mset (ep_posted ep1)" by (simp add: sample_endpoint_def)
  from pull_reply_writes_land [OF send _ _ _ this] have "get 16384 3 (deliver m1 (rev (ep_posted ep1)) (\<lambda>_. 0)) = get 64 3 m1"
    by (simp add: sample_buffer_def sample_sarr_def Let_def numeral_3_eq_3)
  then show ?thesis using send m1 by auto
qed

section \<open>The header in memory\<close>

lemma get_shift: "get x n (\<lambda>i. m (a + i)) = get (a + x) n m"
  by (rule nth_equalityI) (simp_all add: get_def add.assoc)

text \<open>Packing into a buffer of the process writes the header there and nothing else.\<close>

lemma pack_at_ok:
  assumes fits: "wire_fits mt" and qp: "n \<le> 2" and cap: "nat (GetPackMetaLen mt) \<le> cap"
  shows "\<exists>m1 fresh. pack_at tr n mt p cap m = Inr m1 \<and>
    get p (nat (GetPackMetaLen mt)) m1 = get 0 (nat (GetPackMetaLen mt)) (put_all (pack_writes tr (int n) mt) fresh) \<and>
    (\<forall>a. a < p \<or> p + cap \<le> a \<longrightarrow> m1 a = m a)"
proof -
  have len: "nat (GetPackMetaLen mt) = 288 + length (m_body mt) + length (m_data_type mt) * 4 + length (c_node (m_control mt)) * 552"
    using GetPackMetaLen_fits [OF fits] by simp
  let ?f = "\<lambda>i. m (p + i)"
  let ?m1 = "\<lambda>a. if p \<le> a \<and> a < p + cap then put_all (pack_writes tr (int n) mt) ?f (a - p) else m a"
  have "list_all (\<lambda>n. length (n_hostname n) \<le> 64) (c_node (m_control mt))" "length (m_shape mt) \<le> 8"
    using fits by (auto simp: wire_fits_def host_fits_def list_all_iff)
  then have "pack_at tr n mt p cap m = Inr ?m1" using cap len qp by (simp add: pack_at_def PackMeta_def Let_def QP_MAX_NUM_def)
  moreover have "get p (nat (GetPackMetaLen mt)) ?m1 = get 0 (nat (GetPackMetaLen mt)) (put_all (pack_writes tr (int n) mt) ?f)"
    by (rule nth_equalityI) (use cap in \<open>simp_all add: get_def\<close>)
  moreover have "\<forall>a. a < p \<or> p + cap \<le> a \<longrightarrow> ?m1 a = m a" by auto
  ultimately show ?thesis by blast
qed

text \<open>Unpacking reads neither the packet counters nor the identities of sender and receiver.\<close>

lemma UnpackMeta_counters:
  assumes "264 \<le> a" and "a + length bs \<le> 288"
  shows "UnpackMeta tr (put a bs m) len mt = UnpackMeta tr m len mt"
proof -
  have tr: "unpack_trace q (put a bs m) x y = unpack_trace q m x y" for q x y
    using assms by (simp add: unpack_trace_def get_defs)
  show ?thesis
  proof (cases "get_i32 116 m \<le> 8")
    case True
    then have "120 + nat (get_i32 116 m) * 8 \<le> a" using assms by simp
    then show ?thesis using assms by (simp add: UnpackMeta_def get_defs tr Let_def)
  next
    case False
    then show ?thesis using assms by (simp add: UnpackMeta_def get_defs tr Let_def)
  qed
qed

lemma write_counters_at:
  assumes "n \<le> 2" and "a < buf + 264 \<or> buf + 284 \<le> a"
  shows "write_counters n buf ep m a = m a"
proof -
  have "n = 0 \<or> n = 1 \<or> n = 2" using assms by auto
  moreover have "[0..<2] = [0, 1]" by (simp add: upt_rec)
  ultimately show ?thesis using assms(2) by (auto simp: write_counters_def put_def)
qed

text \<open>The header a receiver reads from a copy of a packed header, with or without counters in it.\<close>

lemma UnpackMeta_received:
  assumes qp: "n \<le> 2" and typed: "meta_typed mt" and fits: "wire_fits mt"
    and bytes: "get buf (nat (GetPackMetaLen mt)) m =
      get 0 (nat (GetPackMetaLen mt)) (if split then write_counters n 0 ep B else B)"
    and B: "B = put_all (pack_writes tr (int n) mt) fresh"
  shows "UnpackMeta tr (\<lambda>i. m (buf + i)) (GetPackMetaLen mt) (Meta0\<lparr>m_recver := r, m_sender := s\<rparr>) =
    Inr ((wire_view tr mt)\<lparr>m_recver := r, m_sender := s\<rparr>)"
proof -
  let ?C = "if split then write_counters n 0 ep B else B"
  let ?len = "nat (GetPackMetaLen mt)"
  have len: "288 \<le> ?len" using GetPackMetaLen_fits [OF fits] by simp
  define m' where "m' = (\<lambda>i. if i < 264 \<or> 288 \<le> i then m (buf + i) else B i)"
  have "UnpackMeta tr (\<lambda>i. m (buf + i)) (GetPackMetaLen mt) Meta0 = UnpackMeta tr (put 264 (get (buf + 264) 24 m) m') (GetPackMetaLen mt) Meta0"
    by (rule arg_cong [where f = "\<lambda>x. UnpackMeta tr x (GetPackMetaLen mt) Meta0"]) (auto simp: m'_def put_def get_def fun_eq_iff)
  also have "\<dots> = UnpackMeta tr m' (GetPackMetaLen mt) Meta0" by (rule UnpackMeta_counters) simp_all
  also have "\<dots> = Inr (wire_view tr mt)"
  proof (rule UnpackMeta_packed [OF _ typed fits B refl])
    show "get 0 ?len m' = get 0 ?len B"
    proof (rule nth_equalityI; simp add: get_def)
      fix i assume i: "i < ?len"
      have "m (buf + i) = ?C i" using arg_cong [OF bytes, of "\<lambda>l. l ! i"] i by (simp add: get_def)
      moreover have "?C i = B i" if "i < 264 \<or> 288 \<le> i"
        using that qp by (auto simp: write_counters_at)
      ultimately show "m' i = B i" by (simp add: m'_def)
    qed
  qed (use qp in simp)
  finally have "UnpackMeta tr (\<lambda>i. m (buf + i)) (GetPackMetaLen mt) Meta0 = Inr (wire_view tr mt)" .
  then show ?thesis by (simp add: UnpackMeta_ids)
qed

end
