(* ===== verification/RdmaEndToEnd.thy ===== *)
theory RdmaEndToEnd
  imports RdmaPush
begin

text \<open>
  The first push of a key to a server over RDMA, from \<^verbatim>\<open>SendMsg\<close> at the worker through the rendezvous and the
  writes to \<^verbatim>\<open>RecvMsg\<close> at the server.
\<close>

unbundle bit_operations_syntax

section \<open>Hypotheses\<close>

text \<open>
  \<^verbatim>\<open>posix_memalign\<close> returns a block and \<^verbatim>\<open>ibv_reg_mr\<close> a region that starts at the given address; this
  is what they do unless they fail, and then the process ends.
\<close>

definition verbs_ok :: "verbs \<Rightarrow> bool" where
  "verbs_ok vb \<longleftrightarrow> (\<forall>al n. vb_memalign vb al n \<noteq> 0) \<and> (\<forall>a n. \<exists>mr. vb_reg_mr vb a n = Some mr \<and> mr_addr mr = a)"

definition regions_ok :: "rdma_van \<Rightarrow> bool" where
  "regions_ok v \<longleftrightarrow> (\<forall>a mr. umap_find (rv_mem_mr v) a = Some mr \<longrightarrow> mr_addr mr = a)"

text \<open>A push request of one tensor, as the key-value application makes it.\<close>

definition push_message :: "key \<Rightarrow> message \<Rightarrow> bool" where
  "push_message key msg \<longleftrightarrow>
     IsValidPushpull msg \<and> m_push (msg_meta msg) \<and> m_request (msg_meta msg) \<and> length (msg_data msg) = 3 \<and>
     sa_bytes (msg_data msg ! 0) = u64_bytes key \<and> sa_bytes (msg_data msg ! 1) \<noteq> [] \<and>
     m_val_len (msg_meta msg) = int (length (sa_bytes (msg_data msg ! 1))) \<and> c_node (m_control (msg_meta msg)) = [] \<and>
     meta_typed (msg_meta msg) \<and> wire_fits (msg_meta msg) \<and> m_recver (msg_meta msg) \<noteq> kEmpty"

abbreviation tensor :: "message \<Rightarrow> sarr" where
  "tensor msg \<equiv> msg_data msg ! 1"

text \<open>
  A worker's van that has not yet pushed \<open>key\<close> to the receiver: the tensor lies in memory, apart from
  the block the allocator will give for the header.
\<close>

definition can_push :: "verbs \<Rightarrow> key \<Rightarrow> message \<Rightarrow> rdma_van \<Rightarrow> endpoint \<Rightarrow> bool" where
  "can_push vb key msg v ep \<longleftrightarrow>
     umap_find (rv_endpoints v) (Out (m_recver (msg_meta msg))) = Some ep \<and> ep_transport ep \<and> ep_free_start ep \<noteq> [] \<and>
     rv_qp_num v \<in> {1, 2} \<and> 0 < ma_pagesize (rv_alloc v) \<and> regions_ok v \<and>
     umap_find (rv_msgbuf_cache v) (length (rv_bufs v)) = None \<and>
     find_addr key True (m_recver (msg_meta msg)) v = None \<and>
     get (unat (sa_addr (tensor msg))) (length (sa_bytes (tensor msg))) (rv_mem v) = sa_bytes (tensor msg) \<and>
     (let cap = align_ceil (nat (GetPackMetaLen (msg_meta msg))) (ma_pagesize (rv_alloc v));
          p = vb_memalign vb (rv_alloc v) cap; a = unat (sa_addr (tensor msg))
      in p + cap \<le> a \<or> a + length (sa_bytes (tensor msg)) \<le> p)"

section \<open>The worker begins\<close>

lemma register_region_ok:
  assumes "verbs_ok vb" and "regions_ok v"
  obtains M mr where "register_region vb a n v = Inr (v\<lparr>rv_mem_mr := M\<rparr>)" "umap_find M a = Some mr" "mr_addr mr = a"
    "regions_ok (v\<lparr>rv_mem_mr := M\<rparr>)"
proof -
  obtain r where r: "vb_reg_mr vb a n = Some r" "mr_addr r = a" using assms(1) unfolding verbs_ok_def by blast
  show thesis
  proof (cases "case umap_find (rv_mem_mr v) a of None \<Rightarrow> True | Some mr \<Rightarrow> mr_length mr < n")
    case True
    show thesis
      by (rule that [of "umap_set a r (rv_mem_mr v)" r]) (use True r assms(2) in \<open>auto simp: register_region_def regions_ok_def\<close>)
  next
    case False
    then obtain mr where "umap_find (rv_mem_mr v) a = Some mr" by (auto split: option.splits)
    moreover from this have "mr_addr mr = a" using assms(2) by (simp add: regions_ok_def)
    ultimately show thesis by (intro that [of "rv_mem_mr v" mr]) (use False assms(2) in \<open>auto simp: register_region_def\<close>)
  qed
qed

lemma three_parts:
  assumes "push_message key msg"
  obtains ks t l where "msg_data msg = [ks, t, l]" "sa_bytes ks = u64_bytes key" "sa_bytes t \<noteq> []"
proof -
  obtain a b d where "msg_data msg = [a, b, d]" using assms
    by (auto simp: push_message_def numeral_3_eq_3 length_Suc_conv)
  then show thesis using that assms by (simp add: push_message_def)
qed

lemma IsValidPushpull_iff: "IsValidPushpull m \<longleftrightarrow> control_empty (m_control (msg_meta m)) \<and> \<not> m_simple_app (msg_meta m)"
  by (simp add: IsValidPushpull_def)

lemma push_message_meta:
  assumes "push_message key msg" and mt: "mt = (msg_meta msg)\<lparr>m_key := key\<rparr>"
  shows "meta_typed mt" "wire_fits mt" "m_push mt" "m_request mt" "IsValidPushpull \<lparr>msg_meta = mt, msg_data = d\<rparr>" "c_node (m_control mt) = []"
    "m_key mt = key" "m_val_len mt = int (length (sa_bytes (tensor msg)))"
proof -
  have p: "meta_typed (msg_meta msg)" "wire_fits (msg_meta msg)" "m_push (msg_meta msg)" "m_request (msg_meta msg)" "IsValidPushpull msg"
    "c_node (m_control (msg_meta msg)) = []" "m_val_len (msg_meta msg) = int (length (sa_bytes (tensor msg)))"
    using assms(1) by (simp_all add: push_message_def)
  show "meta_typed mt" using p(1) by (simp add: meta_typed_def mt)
  show "wire_fits mt" using p(2) by (simp add: wire_fits_def mt)
  show "m_push mt" "m_request mt" "c_node (m_control mt) = []" "m_key mt = key" using p by (simp_all add: mt)
  show "IsValidPushpull \<lparr>msg_meta = mt, msg_data = d\<rparr>" using p(5) by (simp add: IsValidPushpull_iff mt)
  show "m_val_len mt = int (length (sa_bytes (tensor msg)))" using p(7) by (simp add: mt)
qed

lemma u64_bytes_nonempty [simp]: "u64_bytes k \<noteq> []"
proof
  assume "u64_bytes k = []"
  then have "length (u64_bytes k) = 0" by (simp only: list.size)
  then show False by simp
qed

lemma RegisterMemory_push:
  assumes "verbs_ok vb" and "regions_ok v" and push: "push_message key msg"
  obtains M mr where "RegisterMemory vb msg v = Inr (v\<lparr>rv_mem_mr := M\<rparr>)"
    "umap_find M (unat (sa_addr (tensor msg))) = Some mr" "mr_addr mr = unat (sa_addr (tensor msg))"
proof -
  obtain ks t l where parts: "msg_data msg = [ks, t, l]" "sa_bytes ks = u64_bytes key" "sa_bytes t \<noteq> []" using push by (rule three_parts)
  obtain M mr where M: "register_region vb (unat (sa_addr t)) (length (sa_bytes t)) v = Inr (v\<lparr>rv_mem_mr := M\<rparr>)"
    "umap_find M (unat (sa_addr t)) = Some mr" "mr_addr mr = unat (sa_addr t)"
    using assms(1,2) by (rule register_region_ok)
  have "register_data vb [ks, t, l] 0 v = Inr (v\<lparr>rv_mem_mr := M\<rparr>)" using parts(2,3) M by simp
  then have "RegisterMemory vb msg v = Inr (v\<lparr>rv_mem_mr := M\<rparr>)" using push by (simp add: RegisterMemory_def push_message_def parts(1))
  moreover have "tensor msg = t" by (simp add: parts(1))
  ultimately show thesis using that M(2,3) by simp
qed

lemma ma_Alloc_ok:
  assumes "verbs_ok vb" and "0 < sz"
  obtains al' m' mr where "ma_Alloc vb sz (al, m) = Inr ((al', m'), vb_memalign vb al (align_ceil sz (ma_pagesize al)))"
    "ma_pagesize al' = ma_pagesize al" "umap_find (ma_mr al') (vb_memalign vb al (align_ceil sz (ma_pagesize al))) = Some mr"
    "\<forall>a. a < vb_memalign vb al (align_ceil sz (ma_pagesize al)) \<or>
       vb_memalign vb al (align_ceil sz (ma_pagesize al)) + align_ceil sz (ma_pagesize al) \<le> a \<longrightarrow> m' a = m a"
proof -
  let ?n = "align_ceil sz (ma_pagesize al)" let ?p = "vb_memalign vb al ?n"
  obtain mr where "vb_reg_mr vb ?p ?n = Some mr" using assms(1) unfolding verbs_ok_def by blast
  then show thesis
    using assms(2) by (intro that [of "al\<lparr>ma_mr := umap_set ?p mr (ma_mr al), ma_used := umap_insert ?p ?n (ma_used al)\<rparr>"
        "aligned_malloc ?p ?n m" mr]) (auto simp: ma_Alloc_def aligned_malloc_def put_def Let_def)
qed

lemma PrepareNewMsgBuf_ok:
  assumes vb: "verbs_ok vb" and fits: "wire_fits (msg_meta msg)" and qp: "rv_qp_num v \<le> 2" and page: "0 < ma_pagesize (rv_alloc v)"
    and il: "il = nat (GetPackMetaLen (msg_meta msg))" and cap: "cap = align_ceil il (ma_pagesize (rv_alloc v))"
    and p: "p = vb_memalign vb (rv_alloc v) cap"
  obtains al m1 lk fresh where
    "PrepareNewMsgBuf vb msg v = Inr (v\<lparr>rv_alloc := al, rv_mem := m1,
       rv_bufs := rv_bufs v @ [\<lparr>mb_inline_len = il, mb_inline_buf = p, mb_data = msg_data msg, mb_mrs = []\<rparr>]\<rparr>, length (rv_bufs v))"
    "ma_pagesize al = ma_pagesize (rv_alloc v)" "LocalKey al p = Inr lk"
    "get p il m1 = get 0 il (put_all (pack_writes (rv_trace_on v) (int (rv_qp_num v)) (msg_meta msg)) fresh)"
    "\<forall>a. a < p \<or> p + cap \<le> a \<longrightarrow> m1 a = rv_mem v a"
proof -
  have pos: "0 < il" using GetPackMetaLen_fits [OF fits] il by simp
  have le: "il \<le> cap" unfolding cap using page by (rule align_ceil_bounds)
  from vb pos obtain al m0 mr where al: "ma_Alloc vb il (rv_alloc v, rv_mem v) = Inr ((al, m0), p)"
    "ma_pagesize al = ma_pagesize (rv_alloc v)" "umap_find (ma_mr al) p = Some mr" "\<forall>a. a < p \<or> p + cap \<le> a \<longrightarrow> m0 a = rv_mem v a"
    unfolding p cap by (rule ma_Alloc_ok [where al = "rv_alloc v" and m = "rv_mem v"])
  obtain m1 fresh where m1: "pack_at (rv_trace_on v) (rv_qp_num v) (msg_meta msg) p cap m0 = Inr m1"
    "get p il m1 = get 0 il (put_all (pack_writes (rv_trace_on v) (int (rv_qp_num v)) (msg_meta msg)) fresh)"
    "\<forall>a. a < p \<or> p + cap \<le> a \<longrightarrow> m1 a = m0 a"
    using pack_at_ok [OF fits qp, of cap "rv_trace_on v" p m0] le il by auto
  show thesis
    by (rule that [of m1 al "mr_lkey mr" fresh]) (use al m1 cap il in \<open>simp_all add: PrepareNewMsgBuf_def Let_def LocalKey_def Addr2MR_def\<close>)
qed

lemma get_outside_block:
  "\<forall>a. a < p \<or> p + cap \<le> a \<longrightarrow> m1 a = m a \<Longrightarrow> p + cap \<le> x \<or> x + n \<le> p \<Longrightarrow> get x n m1 = get x n (m :: mem)"
  by (rule nth_equalityI) (auto simp: get_def)

text \<open>What \<^verbatim>\<open>SendMsg\<close> does with the first push of a key to a receiver.\<close>

lemma first_push_sent:
  assumes vb: "verbs_ok vb" and push: "push_message key msg" and can: "can_push vb key msg v ep"
    and i: "i = m_recver (msg_meta msg)" and mt: "mt = (msg_meta msg)\<lparr>m_key := key\<rparr>" and il: "il = nat (GetPackMetaLen mt)"
    and a: "a = unat (sa_addr (tensor msg))" and n: "n = length (sa_bytes (tensor msg))"
  obtains v1 p mr lk fresh where
    "SendMsg vb now msg v = Inr (v1, msg\<lparr>msg_meta := mt\<rparr>, GetPackMetaLen mt + m_data_size mt)"
    "umap_find (rv_endpoints v1) (Out i) = Some (ep\<lparr>ep_free_start := tl (ep_free_start ep), ep_posted := ep_posted ep @
       [(0, WR_send (hd (ep_free_start ep)) (RendezvousStart \<lparr>rs_meta_len = il, rs_data_num = 3,
          rs_data_len = map (\<lambda>x. length (sa_bytes x)) (msg_data msg), rs_origin_addr = length (rv_bufs v), rs_key = key\<rparr>))]\<rparr>)"
    "rv_bufs v1 = rv_bufs v @ [\<lparr>mb_inline_len = il, mb_inline_buf = p, mb_data = msg_data msg, mb_mrs = [(mr, n)]\<rparr>]"
    "rv_msgbuf_cache v1 = umap_set (length (rv_bufs v)) (msg\<lparr>msg_meta := mt\<rparr>) (rv_msgbuf_cache v)"
    "rv_qp_num v1 = rv_qp_num v" "rv_trace_on v1 = rv_trace_on v"
    "ma_pagesize (rv_alloc v1) = ma_pagesize (rv_alloc v)" "LocalKey (rv_alloc v1) p = Inr lk" "mr_addr mr = a"
    "get p il (rv_mem v1) = get 0 il (put_all (pack_writes (rv_trace_on v) (int (rv_qp_num v)) mt) fresh)"
    "get a n (rv_mem v1) = sa_bytes (tensor msg)" "p + il \<le> a \<or> a + n \<le> p"
proof -
  have ep: "umap_find (rv_endpoints v) (Out i) = Some ep" "ep_transport ep" "ep_free_start ep \<noteq> []"
    and qp: "rv_qp_num v \<le> 2" and page: "0 < ma_pagesize (rv_alloc v)" and reg: "regions_ok v"
    and new: "umap_find (rv_msgbuf_cache v) (length (rv_bufs v)) = None" "find_addr key True i v = None"
    and mem: "get a n (rv_mem v) = sa_bytes (tensor msg)"
    using can i a n by (auto simp: can_push_def)
  obtain c cs where fs: "ep_free_start ep = c # cs" using ep(3) by (cases "ep_free_start ep") auto
  obtain ks t l where parts: "msg_data msg = [ks, t, l]" "sa_bytes ks = u64_bytes key" "sa_bytes t \<noteq> []" using push by (rule three_parts)
  have ten: "tensor msg = t" by (simp add: parts(1))
  have lens: "GetPackMetaLen mt = GetPackMetaLen (msg_meta msg)" by (simp add: mt GetPackMetaLen_def)
  have fits: "wire_fits mt" using push by (simp add: push_message_def mt wire_fits_def)
  define cap where "cap = align_ceil il (ma_pagesize (rv_alloc v))"
  define p where "p = vb_memalign vb (rv_alloc v) cap"
  have apart: "p + cap \<le> a \<or> a + n \<le> p" using can by (simp add: can_push_def Let_def cap_def p_def il lens a n)
  have le: "il \<le> cap" unfolding cap_def using page by (rule align_ceil_bounds)
  obtain M mr where M: "RegisterMemory vb msg v = Inr (v\<lparr>rv_mem_mr := M\<rparr>)" "umap_find M a = Some mr" "mr_addr mr = a"
    unfolding a using vb reg push by (rule RegisterMemory_push)
  let ?v0 = "v\<lparr>rv_mem_mr := M\<rparr>" let ?msg = "msg\<lparr>msg_meta := mt\<rparr>"
  have "wire_fits (msg_meta ?msg)" "rv_qp_num ?v0 \<le> 2" "0 < ma_pagesize (rv_alloc ?v0)" "il = nat (GetPackMetaLen (msg_meta ?msg))"
    "cap = align_ceil il (ma_pagesize (rv_alloc ?v0))" "p = vb_memalign vb (rv_alloc ?v0) cap"
    using fits qp page il cap_def p_def by simp_all
  with vb obtain al m1 lk fresh where prep': "PrepareNewMsgBuf vb ?msg ?v0 = Inr (?v0\<lparr>rv_alloc := al, rv_mem := m1,
       rv_bufs := rv_bufs ?v0 @ [\<lparr>mb_inline_len = il, mb_inline_buf = p, mb_data = msg_data ?msg, mb_mrs = []\<rparr>]\<rparr>, length (rv_bufs ?v0))"
    "ma_pagesize al = ma_pagesize (rv_alloc ?v0)" "LocalKey al p = Inr lk"
    "get p il m1 = get 0 il (put_all (pack_writes (rv_trace_on ?v0) (int (rv_qp_num ?v0)) (msg_meta ?msg)) fresh)"
    "\<forall>a. a < p \<or> p + cap \<le> a \<longrightarrow> m1 a = rv_mem ?v0 a"
    by (rule PrepareNewMsgBuf_ok) blast
  note prep = prep' [simplified]
  have key: "DecodeKey ks = key" by (rule DecodeKey_bytes [OF parts(2)])
  have valid: "IsValidPushpull msg" "IsValidPushpull ?msg" "m_push mt" "m_request mt" "m_push (msg_meta msg)" "m_request (msg_meta msg)" "i \<noteq> kEmpty"
    "GetPackMetaLen mt \<noteq> 0"
    using push GetPackMetaLen_fits [OF fits] by (auto simp: push_message_def IsValidPushpull_def mt i split: if_splits)
  have add: "AddMeta msg ?v0 = Inr ?msg" using valid by (simp add: AddMeta_def parts(1) key mt)
  let ?b = "\<lparr>mb_inline_len = il, mb_inline_buf = p, mb_data = msg_data msg, mb_mrs = [(mr, n)]\<rparr> :: message_buffer"
  let ?v3 = "?v0\<lparr>rv_alloc := al, rv_mem := m1, rv_msgbuf_cache := umap_set (length (rv_bufs v)) ?msg (rv_msgbuf_cache v), rv_bufs := rv_bufs v @ [?b]\<rparr>"
  have begun: "begin_rendezvous vb (Out i) True ?msg ?v0 = Inr (set_endpoint (Out i) (ep\<lparr>ep_free_start := tl (ep_free_start ep), ep_posted := ep_posted ep @
       [(0, WR_send (hd (ep_free_start ep)) (RendezvousStart \<lparr>rs_meta_len = il, rs_data_num = 3,
          rs_data_len = map (\<lambda>x. length (sa_bytes x)) (msg_data msg), rs_origin_addr = length (rv_bufs v), rs_key = key\<rparr>))]\<rparr>) ?v3)"
  proof -
    have "m_key mt = key" by (simp add: mt)
    then show ?thesis
      using new ep(1,2) valid(2,3,4) parts(3) M(2) unfolding a n ten
      by (simp add: begin_rendezvous_def prep(1) StoreMsgBuf_def PrepareData_def Let_def get_endpoint_def SendRendezvousBegin_def
          kMaxDataFields_def post_send_def parts(1) fs numeral_3_eq_3)
  qed
  have send: "SendMsg vb now msg v = Inr (set_endpoint (Out i) (ep\<lparr>ep_free_start := tl (ep_free_start ep), ep_posted := ep_posted ep @
       [(0, WR_send (hd (ep_free_start ep)) (RendezvousStart \<lparr>rs_meta_len = il, rs_data_num = 3,
          rs_data_len = map (\<lambda>x. length (sa_bytes x)) (msg_data msg), rs_origin_addr = length (rv_bufs v), rs_key = key\<rparr>))]\<rparr>) ?v3,
      ?msg, GetPackMetaLen mt + m_data_size mt)"
  proof -
    have "find_addr key True i ?v0 = None" using new(2) by (simp add: find_addr_def addr_table_def)
    then have "\<not> HasRemoteInfo key True i ?v0" by (simp add: HasRemoteInfo_def)
    moreover have "m_key mt = key" "m_data_size mt = m_data_size (msg_meta msg)" by (simp_all add: mt)
    ultimately show ?thesis using valid ep(1,2) lens by (simp add: SendMsg_def Let_def M(1) add begun flip: i)
  qed
  show thesis
  proof (rule that [OF send])
    show "get a n (rv_mem (set_endpoint (Out i) (ep\<lparr>ep_free_start := tl (ep_free_start ep), ep_posted := ep_posted ep @
       [(0, WR_send (hd (ep_free_start ep)) (RendezvousStart \<lparr>rs_meta_len = il, rs_data_num = 3,
          rs_data_len = map (\<lambda>x. length (sa_bytes x)) (msg_data msg), rs_origin_addr = length (rv_bufs v), rs_key = key\<rparr>))]\<rparr>) ?v3)) = sa_bytes (tensor msg)"
      using get_outside_block [OF prep'(5) apart] mem by (simp add: set_endpoint_def)
  qed (use prep(2,3,4) M(3) apart le in \<open>auto simp: set_endpoint_def\<close>)
qed

section \<open>The server answers\<close>

definition can_receive :: "endpoint_ref \<Rightarrow> rdma_van \<Rightarrow> endpoint \<Rightarrow> bool" where
  "can_receive r w epr \<longleftrightarrow>
     umap_find (rv_endpoints w) r = Some epr \<and> ep_transport epr \<and> ep_free_reply epr \<noteq> [] \<and> rv_is_server w \<and>
     0 < ma_pagesize (rv_alloc w) \<and> pool_ok (rv_pool w) \<and> card (dom (pool_map (rv_pool w))) < ap_max (rv_pool w) \<and>
     ap_max (rv_pool w) \<le> 0x8000 \<and> rv_recv_buffers w = []"

lemma start_answered:
  assumes vb: "verbs_ok vb" and can: "can_receive r w epr"
    and req: "req = \<lparr>rs_meta_len = il, rs_data_num = 3, rs_data_len = lens, rs_origin_addr = ptr, rs_key = key\<rparr>"
    and lens: "length lens = 3" and il: "0 < il" "il < 2 ^ 31"
  obtains w1 buf rk idx where
    "PollCQ_turn vb (WC_recv r ReceiveContext k (Some (RendezvousStart req))) w = Inr w1"
    "umap_find (rv_endpoints w1) r = Some (epr\<lparr>ep_free_reply := tl (ep_free_reply epr), ep_posted := ep_posted epr @
       [(0, WR_send (hd (ep_free_reply epr)) (RendezvousReply \<lparr>rr_addr = buf, rr_rkey = rk, rr_origin_addr = ptr, rr_idx = idx\<rparr>))],
       ep_receives := ep_receives epr @ [(0, k)]\<rparr>)"
    "buf \<noteq> 0" "GetAddress idx (rv_pool w1) = Inr \<lparr>bc_buffer = buf, bc_meta_len = int il, bc_data_num = 3, bc_data_len = lens\<rparr>"
    "idx < 0x8000" "rv_recv_buffers w1 = []" "rv_trace_on w1 = rv_trace_on w" "rv_my_node w1 = rv_my_node w"
    "ma_pagesize (rv_alloc w1) = ma_pagesize (rv_alloc w)"
proof -
  have w: "umap_find (rv_endpoints w) r = Some epr" "ep_transport epr" "rv_is_server w" "pool_ok (rv_pool w)"
    "card (dom (pool_map (rv_pool w))) < ap_max (rv_pool w)" "ap_max (rv_pool w) \<le> 0x8000" "rv_recv_buffers w = []"
    using can by (simp_all add: can_receive_def)
  obtain c cs where fs: "ep_free_reply epr = c # cs" using can by (cases "ep_free_reply epr") (auto simp: can_receive_def)
  let ?sz = "align_ceil il (ma_pagesize (rv_alloc w)) + sum_list lens"
  have "il \<le> align_ceil il (ma_pagesize (rv_alloc w))" using can by (intro align_ceil_bounds) (simp add: can_receive_def)
  then have "0 < ?sz" using il by simp
  with vb obtain al m mr buf where al: "ma_Alloc vb ?sz (rv_alloc w, rv_mem w) = Inr ((al, m), buf)"
    "ma_pagesize al = ma_pagesize (rv_alloc w)" "umap_find (ma_mr al) buf = Some mr" "buf \<noteq> 0"
    by (rule ma_Alloc_ok [where al = "rv_alloc w" and m = "rv_mem w"]) (use vb in \<open>auto simp: verbs_ok_def\<close>)
  let ?ctx = "\<lparr>bc_buffer = buf, bc_meta_len = int il, bc_data_num = 3, bc_data_len = lens\<rparr>"
  obtain pool idx where pool: "StoreAddress ?ctx (rv_pool w) = Inr (pool, idx)" "pool_ok pool" "ap_max pool = ap_max (rv_pool w)"
    "idx < ap_max (rv_pool w)" "pool_map pool = (pool_map (rv_pool w))(idx \<mapsto> ?ctx)"
    using StoreAddress_ok(1) [OF w(4,5), of ?ctx] by blast
  have "length (ap_table pool) = ap_max pool" using pool(2) by (simp add: pool_ok_def)
  then have get: "GetAddress idx pool = Inr ?ctx" using pool(3,4,5) by (simp add: GetAddress_map)
  let ?ep = "epr\<lparr>ep_free_reply := cs, ep_posted := ep_posted epr @
       [(0, WR_send c (RendezvousReply \<lparr>rr_addr = buf, rr_rkey = mr_rkey mr, rr_origin_addr = ptr, rr_idx = idx\<rparr>))]\<rparr>"
  have i32: "to_int32 (int il) = int il" using il by (simp add: int32_def)
  have "SendRendezvousReply vb True req (rv_alloc w, rv_mem w) (rv_pool w) epr = Inr ((al, m), pool, ?ep)"
    using lens al pool(1) fs
    by (simp add: SendRendezvousReply_def req kMaxDataFields_def Let_def RemoteKey_def Addr2MR_def post_send_def i32)
  then have "on_rendezvous_start vb r req w = Inr (set_endpoint r ?ep (w\<lparr>rv_alloc := al, rv_mem := m, rv_pool := pool\<rparr>))"
    using w(1,2,3) by (simp add: on_rendezvous_start_def get_endpoint_def)
  then have run: "PollCQ_turn vb (WC_recv r ReceiveContext k (Some (RendezvousStart req))) w =
      Inr (set_endpoint r (PostRecv k 0 ?ep) (set_endpoint r ?ep (w\<lparr>rv_alloc := al, rv_mem := m, rv_pool := pool\<rparr>)))"
    by (simp add: PollCQ_turn_def release_at_def get_endpoint_def ReleaseWorkRequestContext_def) (simp add: set_endpoint_def)
  have "idx < 0x8000" using pool(4) w(6) by linarith
  then show thesis
    by (intro that [OF run]) (use al(2,4) get w(7) fs in \<open>simp_all add: set_endpoint_def PostRecv_def\<close>)
qed

section \<open>The worker writes\<close>

lemma SendPushRequest_ok:
  assumes "mb_mrs mb = [(mr, n)]" and "2 \<le> length (msg_data msg)" and "length (sa_bytes (tensor msg)) \<le> n"
    and "LocalKey al (mb_inline_buf mb) = Inr lk" and "0 < q" "q \<le> 2"
  shows "\<exists>m1 ep1. SendPushRequest q al msg ptr mb (ra, rk, idx, loc) (m, ep) = Inr (m1, ep1)"
  using assms by (simp add: SendPushRequest_def Let_def post_split_def RDMAWriteWithImm_def QP_MAX_NUM_def)

lemma reply_handled:
  assumes ep: "umap_find (rv_endpoints v) (Out i) = Some ep" "ep_transport ep"
    and mb: "ptr < length (rv_bufs v)" "rv_bufs v ! ptr = \<lparr>mb_inline_len = il, mb_inline_buf = p, mb_data = msg_data msg, mb_mrs = [(mr, n)]\<rparr>"
    and cache: "umap_find (rv_msgbuf_cache v) ptr = Some msg"
    and msg: "IsValidPushpull msg" "m_push (msg_meta msg)" "m_request (msg_meta msg)" "m_recver (msg_meta msg) = i" "length (msg_data msg) = 3"
      "length (sa_bytes (tensor msg)) = n"
    and v: "LocalKey (rv_alloc v) p = Inr lk" "0 < rv_qp_num v" "rv_qp_num v \<le> 2" and sizes: "n < 2 ^ 32" "il < 2 ^ 32"
  obtains v2 ep2 ps where
    "PollCQ_turn vb (WC_recv (Out i) ReceiveContext k (Some (RendezvousReply \<lparr>rr_addr = buf, rr_rkey = rk, rr_origin_addr = ptr, rr_idx = idx\<rparr>))) v = Inr v2"
    "umap_find (rv_endpoints v2) (Out i) = Some (PostRecv k 0 ep2)"
    "posted_payload (ep_multi_qp ep) (rv_qp_num v) p idx (rv_mem v) ep (rv_mem v2) ep2 ps"
    "fills (set ps) (buf + align_ceil il (ma_pagesize (rv_alloc v))) (mr_addr mr) n buf p il"
proof -
  let ?mb = "\<lparr>mb_inline_len = il, mb_inline_buf = p, mb_data = msg_data msg, mb_mrs = [(mr, n)]\<rparr> :: message_buffer"
  let ?key = "m_key (msg_meta msg)"
  let ?tab = "umap_set ?key (umap_set i (buf, rk, idx, ptr) (case umap_find (rv_push_addr v) ?key of None \<Rightarrow> [] | Some m \<Rightarrow> m)) (rv_push_addr v)"
  let ?v1 = "v\<lparr>rv_push_addr := ?tab\<rparr>"
  obtain m2 ep2 where send: "SendPushRequest (rv_qp_num v) (rv_alloc v) msg ptr ?mb (buf, rk, idx, ptr) (rv_mem v, ep) = Inr (m2, ep2)"
    using SendPushRequest_ok [of ?mb mr n msg "rv_alloc v" lk "rv_qp_num v" ptr buf rk idx ptr "rv_mem v" ep] msg v by auto
  have ten: "length (sa_bytes (tensor msg)) < 2 ^ 32" "mb_inline_len ?mb < 2 ^ 32" using msg sizes by simp_all
  obtain ps where ps: "posted_payload (ep_multi_qp ep) (rv_qp_num v) p idx (rv_mem v) ep m2 ep2 ps"
    "fills (set ps) (buf + align_ceil il (ma_pagesize (rv_alloc v))) (mr_addr mr) n buf p il"
    by (rule SendPushRequest_fills [OF send ten]) (use msg in auto)
  have store: "StoreRemoteAndLocalInfo ptr buf rk idx v = Inr ?v1"
    using cache msg by (simp add: StoreRemoteAndLocalInfo_def GetFirstMsg_def Let_def addr_table_def)
  have first: "GetFirstMsg ptr ?v1 = Inr msg" using cache by (simp add: GetFirstMsg_def)
  have info: "GetRemoteAndLocalInfo ?key True i ?v1 = Inr (buf, rk, idx, ptr)"
    by (simp add: GetRemoteAndLocalInfo_def find_addr_def addr_table_def)
  have kind: "send_by_kind (Out i) msg ptr (buf, rk, idx, ptr) ?v1 = Inr (set_endpoint (Out i) ep2 (?v1\<lparr>rv_mem := m2\<rparr>))"
    using ep mb msg send by (simp add: send_by_kind_def get_endpoint_def Let_def)
  have "on_rendezvous_reply (Out i) \<lparr>rr_addr = buf, rr_rkey = rk, rr_origin_addr = ptr, rr_idx = idx\<rparr> v =
      Inr ((set_endpoint (Out i) ep2 (?v1\<lparr>rv_mem := m2\<rparr>))\<lparr>rv_msgbuf_cache := umap_erase ptr (rv_msgbuf_cache v)\<rparr>)"
  proof -
    have "get_endpoint (Out i) ?v1 = Inr ep" using ep by (simp add: get_endpoint_def)
    then show ?thesis using msg ep(2) cache
      by (simp add: on_rendezvous_reply_def store first info kind) (simp add: ReleaseFirstMsg_def set_endpoint_def)
  qed
  then have run: "PollCQ_turn vb (WC_recv (Out i) ReceiveContext k (Some (RendezvousReply \<lparr>rr_addr = buf, rr_rkey = rk, rr_origin_addr = ptr, rr_idx = idx\<rparr>))) v =
      Inr (set_endpoint (Out i) (PostRecv k 0 ep2)
        ((set_endpoint (Out i) ep2 (?v1\<lparr>rv_mem := m2\<rparr>))\<lparr>rv_msgbuf_cache := umap_erase ptr (rv_msgbuf_cache v)\<rparr>))"
    by (simp add: PollCQ_turn_def release_at_def ReleaseWorkRequestContext_def) (simp add: get_endpoint_def set_endpoint_def)
  show thesis
    by (rule that [OF run]) (use ps in \<open>simp_all add: set_endpoint_def\<close>)
qed

section \<open>The server receives\<close>

lemma index_bits:
  assumes "idx < 0x8000"
  shows "(of_nat idx :: 32 word) AND 0x8000 = 0" and "((of_nat idx :: 32 word) OR 0x8000) AND 0x8000 \<noteq> 0" and "unat (of_nat idx :: 32 word) = idx"
proof -
  have k: "(0x8000 :: 32 word) = 2 ^ 15" by simp
  have "\<not> bit idx 15" using assms by (simp add: bit_iff_odd)
  moreover show u: "unat (of_nat idx :: 32 word) = idx" using assms by (simp add: unat_of_nat)
  moreover have "bit (of_nat idx :: 32 word) 15 = bit (unat (of_nat idx :: 32 word)) 15" by (simp only: bit_unsigned_iff) simp
  ultimately have "\<not> bit (of_nat idx :: 32 word) 15" by simp
  then show "(of_nat idx :: 32 word) AND 0x8000 = 0" unfolding k by (simp only: and_exp_eq_0_iff_not_bit) simp
  show "((of_nat idx :: 32 word) OR 0x8000) AND 0x8000 \<noteq> 0"
    unfolding k by (simp only: and_exp_eq_0_iff_not_bit bit_or_iff bit_exp_iff) simp
qed

text \<open>The command is computed from bits that were masked out.\<close>

lemma command_is_zero: "drop_bit 16 ((x :: 32 word) AND 0xFFFF) AND 0xFFFF = 0"
proof -
  have "(0xFFFF :: 32 word) = mask 16" by (simp add: mask_eq_exp_minus_1)
  then have "drop_bit 16 (x AND 0xFFFF) = 0" by (simp add: take_bit_eq_mask [symmetric] drop_bit_take_bit)
  then show ?thesis by simp
qed

text \<open>What the completions change at the server: the notifications and the packet counters of the endpoint.\<close>

definition arrived :: "rdma_van \<Rightarrow> endpoint_ref \<Rightarrow> int \<Rightarrow> notification list \<Rightarrow> 64 word list \<Rightarrow> rdma_van \<Rightarrow> bool" where
  "arrived w0 r nid ns cnt w \<longleftrightarrow>
     rv_recv_buffers w = ns \<and> rv_pool w = rv_pool w0 \<and> rv_mem w = rv_mem w0 \<and> rv_alloc w = rv_alloc w0 \<and> rv_trace_on w = rv_trace_on w0 \<and>
     rv_my_node w = rv_my_node w0 \<and>
     (\<exists>ep. umap_find (rv_endpoints w) r = Some ep \<and> ep_transport ep \<and> ep_node_id ep = nid \<and> ep_pkt_count ep = cnt)"

lemma master_arrives:
  assumes "arrived w0 r nid ns cnt w" and "GetAddress idx (rv_pool w0) = Inr ctx" and "idx < 0x8000"
  shows "\<exists>w'. PollCQ_turn vb (WC_recv_write r ReceiveContext k q (of_nat idx) t) w = Inr w' \<and>
    arrived w0 r nid (ns @ [\<lparr>nt_endpoint = r, nt_buffer = ctx, nt_time = t, nt_cmd = 0\<rparr>]) cnt w'"
proof -
  obtain ep where ep: "umap_find (rv_endpoints w) r = Some ep" "ep_transport ep" "ep_node_id ep = nid" "ep_pkt_count ep = cnt"
    and w: "rv_recv_buffers w = ns" "rv_pool w = rv_pool w0" "rv_mem w = rv_mem w0" "rv_alloc w = rv_alloc w0" "rv_trace_on w = rv_trace_on w0"
      "rv_my_node w = rv_my_node w0"
    using assms(1) by (auto simp: arrived_def)
  have "on_recv_write r q (of_nat idx) t w = Inr (set_endpoint r (ep\<lparr>ep_master_id := ep_cm_ids ep ! q\<rparr>)
      (w\<lparr>rv_recv_buffers := ns @ [\<lparr>nt_endpoint = r, nt_buffer = ctx, nt_time = t, nt_cmd = 0\<rparr>]\<rparr>))"
    using assms(2) w ep index_bits [OF assms(3)] by (simp add: on_recv_write_def get_endpoint_def command_is_zero Let_def)
  then show ?thesis using w ep
    by (simp add: PollCQ_turn_def release_at_def ReleaseWorkRequestContext_def get_endpoint_def set_endpoint_def arrived_def PostRecv_def)
qed

lemma slave_arrives:
  assumes "arrived w0 r nid ns cnt w" and "idx < 0x8000"
  shows "\<exists>w'. PollCQ_turn vb (WC_recv_write r ReceiveContext k q (of_nat idx OR 0x8000) t) w = Inr w' \<and>
    arrived w0 r nid ns (cnt[1 := cnt ! 1 + 1]) w'"
proof -
  obtain ep where ep: "umap_find (rv_endpoints w) r = Some ep" "ep_transport ep" "ep_node_id ep = nid" "ep_pkt_count ep = cnt"
    and w: "rv_recv_buffers w = ns" "rv_pool w = rv_pool w0" "rv_mem w = rv_mem w0" "rv_alloc w = rv_alloc w0" "rv_trace_on w = rv_trace_on w0"
      "rv_my_node w = rv_my_node w0"
    using assms(1) by (auto simp: arrived_def)
  have "on_recv_write r q (of_nat idx OR 0x8000) t w = Inr (set_endpoint r (ep\<lparr>ep_pkt_count := cnt[1 := cnt ! 1 + 1]\<rparr>) w)"
    using ep index_bits(2) [OF assms(2)] by (simp add: on_recv_write_def get_endpoint_def)
  then show ?thesis using w ep
    by (simp add: PollCQ_turn_def release_at_def ReleaseWorkRequestContext_def get_endpoint_def set_endpoint_def arrived_def PostRecv_def)
qed

text \<open>The completions of one push, in either order.\<close>

lemma completions_arrive:
  assumes arr: "arrived w0 r nid [] cnt w" and ctx: "GetAddress idx (rv_pool w0) = Inr ctx" and idx: "idx < 0x8000"
    and cs: "mset cs = mset ((0, of_nat idx) # (if two then [(1, of_nat idx OR 0x8000)] else []))"
  shows "\<exists>w'. foldR (\<lambda>(q, imm). PollCQ_turn vb (WC_recv_write r ReceiveContext k q imm t)) cs w = Inr w' \<and>
    arrived w0 r nid [\<lparr>nt_endpoint = r, nt_buffer = ctx, nt_time = t, nt_cmd = 0\<rparr>] (if two then cnt[1 := cnt ! 1 + 1] else cnt) w'"
proof -
  let ?M = "(0 :: nat, of_nat idx :: 32 word)" let ?S = "(1 :: nat, of_nat idx OR 0x8000 :: 32 word)"
  consider "\<not> two" "cs = [?M]" | "two" "cs = [?M, ?S]" | "two" "cs = [?S, ?M]"
  proof (cases two)
    case True
    then have two: "mset cs = {#?M, ?S#}" using cs by simp
    then have "length cs = 2" by (metis size_mset size_add_mset size_empty numeral_2_eq_2)
    then obtain x y where "cs = [x, y]" by (auto simp: numeral_2_eq_2 length_Suc_conv)
    moreover have "x = ?M \<or> x = ?S" using two calculation by (metis insertE list.set_intros(1) set_mset_add_mset_insert set_mset_mset set_mset_single singletonD)
    moreover have "y = ?S" if "x = ?M" using two calculation(1) that by simp
    moreover have "y = ?M" if "x = ?S"
    proof -
      have "{#?S, y#} = {#?S, ?M#}" using two calculation(1) that by (simp add: add_mset_commute)
      then show ?thesis by simp
    qed
    ultimately show thesis using that True by blast
  next
    case False
    then show thesis using that cs by (simp add: mset_single_iff)
  qed
  then show ?thesis
  proof cases
    case 1
    then show ?thesis using master_arrives [OF arr ctx idx, of vb k 0 t] by auto
  next
    case 2
    obtain w1 where w1: "PollCQ_turn vb (WC_recv_write r ReceiveContext k 0 (of_nat idx) t) w = Inr w1"
      "arrived w0 r nid [\<lparr>nt_endpoint = r, nt_buffer = ctx, nt_time = t, nt_cmd = 0\<rparr>] cnt w1"
      using master_arrives [OF arr ctx idx, of vb k 0 t] by auto
    show ?thesis using slave_arrives [OF w1(2) idx, of vb k 1 t] w1(1) 2 by auto
  next
    case 3
    obtain w1 where w1: "PollCQ_turn vb (WC_recv_write r ReceiveContext k 1 (of_nat idx OR 0x8000) t) w = Inr w1"
      "arrived w0 r nid [] (cnt[1 := cnt ! 1 + 1]) w1"
      using slave_arrives [OF arr idx, of vb k 1 t] by auto
    show ?thesis using master_arrives [OF w1(2) ctx idx, of vb k 0 t] w1(1) 3 by auto
  qed
qed

lemma get_copied:
  assumes "get buf il m = get 0 il C" and "x + k \<le> il"
  shows "get (buf + x) k m = get x k C"
  using get_get [OF assms(2), of buf m] get_get [OF assms(2), of 0 C] assms(1) by simp

lemma counters_read:
  assumes C: "C = (if split then write_counters q 0 ep B else B)" and B: "B = put_all (pack_writes tr (int q) mt) fresh"
    and q: "q = 1 \<or> q = 2" and shape: "length (m_shape mt) \<le> 8"
  shows "get 280 4 C = i32_bytes (if split then int q - 1 else 0)"
    and "split \<Longrightarrow> q = 2 \<Longrightarrow> get 272 8 C = u64_bytes (ep_pkt_count ep ! 1)"
proof -
  have two: "[0..<2] = [0, 1]" by (simp add: upt_rec)
  have "get 280 4 B = i32_bytes 0" using q shape by (auto simp: B pack_defs)
  then show "get 280 4 C = i32_bytes (if split then int q - 1 else 0)"
    using q by (auto simp: C write_counters_def two)
  show "get 272 8 C = u64_bytes (ep_pkt_count ep ! 1)" if "split" "q = 2"
    using that by (simp add: C write_counters_def two)
qed

lemma push_received:
  assumes arr: "arrived w0 r nid [\<lparr>nt_endpoint = r, nt_buffer = \<lparr>bc_buffer = buf, bc_meta_len = GetPackMetaLen mt, bc_data_num = 3, bc_data_len = lens\<rparr>,
      nt_time = t, nt_cmd = 0\<rparr>] cnt w" and buf: "buf \<noteq> 0"
    and head: "get buf (nat (GetPackMetaLen mt)) (rv_mem w0) = get 0 (nat (GetPackMetaLen mt)) (if split then write_counters q 0 ep B else B)"
    and B: "B = put_all (pack_writes (rv_trace_on w0) (int q) mt) fresh" and q: "q = 1 \<or> q = 2"
    and mt: "meta_typed mt" "wire_fits mt" "m_push mt" "m_request mt" "IsValidPushpull \<lparr>msg_meta = mt, msg_data = []\<rparr>" "c_node (m_control mt) = []"
    and cnt: "split \<Longrightarrow> q = 2 \<Longrightarrow> ep_pkt_count ep ! 1 \<le> cnt ! 1"
  shows "let h = (wire_view (rv_trace_on w0) mt)\<lparr>m_recver := n_id (rv_my_node w0), m_sender := nid\<rparr>;
             h' = (if rv_trace_on w0 then h\<lparr>m_request_trace := (m_request_trace h)\<lparr>t_postrecv := t\<rparr>\<rparr> else h);
             vals = view_sarr (buf + align_ceil (nat (GetPackMetaLen mt)) (ma_pagesize (rv_alloc w0))) (nat (m_val_len mt)) (rv_mem w0)
         in RecvMsg Meta0 w = Inr (w\<lparr>rv_recv_buffers := []\<rparr>,
              \<lparr>msg_meta = h', msg_data = [CreateFunctionalSarray (u64_bytes (m_key mt)), vals, CreateFunctionalSarray (i32_bytes (m_val_len mt))]\<rparr>,
              GetPackMetaLen mt + (8 + m_val_len mt + 4))"
proof -
  obtain epr where ep: "umap_find (rv_endpoints w) r = Some epr" "ep_transport epr" "ep_node_id epr = nid" "ep_pkt_count epr = cnt"
    and w: "rv_recv_buffers w = [\<lparr>nt_endpoint = r, nt_buffer = \<lparr>bc_buffer = buf, bc_meta_len = GetPackMetaLen mt, bc_data_num = 3, bc_data_len = lens\<rparr>,
      nt_time = t, nt_cmd = 0\<rparr>]" "rv_mem w = rv_mem w0" "rv_alloc w = rv_alloc w0" "rv_trace_on w = rv_trace_on w0" "rv_my_node w = rv_my_node w0"
    using arr by (auto simp: arrived_def)
  have len: "288 \<le> nat (GetPackMetaLen mt)" using GetPackMetaLen_fits [OF mt(2)] by simp
  have shape: "length (m_shape mt) \<le> 8" using mt(2) by (simp add: wire_fits_def)
  define C where "C = (if split then write_counters q 0 ep B else B)"
  note rd = counters_read [OF C_def B q shape]
  have slave: "get_i32 (buf + 280) (rv_mem w0) = (if split then int q - 1 else 0)"
    using get_copied [OF head, of 280 4] rd(1) len q by (auto simp: get_i32_def C_def int32_def)
  have "split \<Longrightarrow> q = 2 \<Longrightarrow> get_u64 (buf + 272) (rv_mem w0) = ep_pkt_count ep ! 1"
    using get_copied [OF head, of 272 8] rd(2) len by (simp add: get_u64_def C_def)
  then have counters: "counters_arrived buf (rv_mem w0) epr"
    using slave cnt q ep(4) by (auto simp: counters_arrived_def Let_def add.commute [of 272 buf])
  have small: "get_i32 (buf + 280) (rv_mem w0) < int QP_MAX_NUM" using slave q by (auto simp: QP_MAX_NUM_def)
  have unpack: "UnpackMeta (rv_trace_on w0) (\<lambda>i. rv_mem w0 (buf + i)) (GetPackMetaLen mt) (Meta0\<lparr>m_recver := n_id (rv_my_node w0), m_sender := nid\<rparr>) =
    Inr ((wire_view (rv_trace_on w0) mt)\<lparr>m_recver := n_id (rv_my_node w0), m_sender := nid\<rparr>)"
    by (rule UnpackMeta_received [OF _ mt(1,2) head B]) (use q in auto)
  have ctrl: "control_empty (m_control mt)" "\<not> m_simple_app mt" using mt(5) by (auto simp: IsValidPushpull_def split: if_splits)
  let ?h = "(wire_view (rv_trace_on w0) mt)\<lparr>m_recver := n_id (rv_my_node w0), m_sender := nid\<rparr>"
  have view: "m_push ?h" "m_request ?h" "m_key ?h = m_key mt" "m_val_len ?h = m_val_len mt" "GetPackMetaLen ?h = GetPackMetaLen mt"
    "control_empty (m_control ?h)" "\<not> m_simple_app ?h"
    using ctrl mt(3,4,6) by (simp_all add: wire_view_def wire_control_def GetPackMetaLen_def Control0_def control_empty_def)
  show ?thesis
    using ep(1,2,3) w buf small counters unpack view
    by (cases "rv_trace_on w0") (simp_all add: RecvMsg_def get_endpoint_def IsValidPushpull_def RecvPushRequest_def Let_def)
qed

section \<open>From worker to server\<close>

text \<open>The work requests a step of a van has posted at an endpoint.\<close>

definition new_posts :: "endpoint_ref \<Rightarrow> rdma_van \<Rightarrow> rdma_van \<Rightarrow> (nat \<times> work_request) list" where
  "new_posts r v v' =
     (case (umap_find (rv_endpoints v) r, umap_find (rv_endpoints v') r) of
        (Some ep, Some ep') \<Rightarrow> drop (length (ep_posted ep)) (ep_posted ep')
      | _ \<Rightarrow> [])"

text \<open>Both ends have counted the same number of packets of the second queue pair.\<close>

definition in_step :: "endpoint \<Rightarrow> endpoint \<Rightarrow> bool" where
  "in_step ep epr \<longleftrightarrow> length (ep_pkt_count ep) = 2 \<and> length (ep_pkt_count epr) = 2 \<and> ep_pkt_count ep ! 1 = ep_pkt_count epr ! 1"

lemma write_counters_shift:
  assumes "get p il m = get 0 il B" and "288 \<le> il" and "n \<le> 2"
  shows "get p il (write_counters n p ep m) = get 0 il (write_counters n 0 ep B)"
proof -
  have put: "get p il (put (p + x) bs m) = get 0 il (put x bs B)" if "get p il m = get 0 il B" for x bs m B
  proof (rule nth_equalityI; simp)
    fix i assume "i < il"
    moreover have "m (p + i) = B i" if "i < il" for i
      using arg_cong [OF \<open>get p il m = get 0 il B\<close>, of "\<lambda>l. l ! i"] that by (simp add: get_def)
    ultimately show "get p il (put (p + x) bs m) ! i = get 0 il (put x bs B) ! i" by (auto simp: get_def put_def)
  qed
  have two: "[0..<2] = [0, 1]" by (simp add: upt_rec)
  consider "n = 0" | "n = 1" | "n = 2" using assms(3) by linarith
  then show ?thesis
    by cases (use assms(1) put in \<open>simp_all add: write_counters_def two add.assoc\<close>)
qed

lemma header_and_tensor_written:
  assumes posted: "posted_payload split q p idx m ep m2 ep2 ps" and q: "q \<le> 2" and il: "288 \<le> il"
    and head: "get p il m = get 0 il B" and ten: "get a n m = bs" and apart: "p + il \<le> a \<or> a + n \<le> p"
  shows "get p il m2 = get 0 il (if split then write_counters q 0 (count_packets q ep) B else B)" and "get a n m2 = bs"
proof -
  have m2: "m2 = (if split then write_counters q p (count_packets q ep) m else m)" using posted by (simp add: posted_payload_def)
  show "get p il m2 = get 0 il (if split then write_counters q 0 (count_packets q ep) B else B)"
    using m2 head write_counters_shift [OF head il q] by simp
  have "\<forall>x. x < p \<or> p + il \<le> x \<longrightarrow> m2 x = m x" using m2 write_counters_at [OF q] il by auto
  from get_outside_block [OF this apart] ten show "get a n m2 = bs" by simp
qed

lemma counts_after:
  assumes "posted_payload split q p idx m ep m2 ep2 ps" and "length (ep_pkt_count ep) = 2" and "q = 1 \<or> q = 2"
  shows "ep_pkt_count ep2 ! 1 = (if split \<and> q = 2 then ep_pkt_count ep ! 1 + 1 else ep_pkt_count ep ! 1)"
    and "q = 2 \<Longrightarrow> ep_pkt_count (count_packets q ep) ! 1 = ep_pkt_count ep ! 1 + 1" and "length (ep_pkt_count ep2) = 2"
proof -
  have two: "[0..<2] = [0, 1]" by (simp add: upt_rec)
  have "ep_pkt_count ep2 = ep_pkt_count (ep2\<lparr>ep_posted := []\<rparr>)" by simp
  also have "\<dots> = ep_pkt_count (if split then count_packets q ep else ep)" using assms(1) by (simp add: posted_payload_def)
  finally have e: "ep_pkt_count ep2 = ep_pkt_count (if split then count_packets q ep else ep)" .
  show "ep_pkt_count ep2 ! 1 = (if split \<and> q = 2 then ep_pkt_count ep ! 1 + 1 else ep_pkt_count ep ! 1)"
    using assms(2,3) by (auto simp: e count_packets_def two)
  show "q = 2 \<Longrightarrow> ep_pkt_count (count_packets q ep) ! 1 = ep_pkt_count ep ! 1 + 1"
    using assms(2) by (simp add: count_packets_def two)
  show "length (ep_pkt_count ep2) = 2" using assms(2,3) by (auto simp: e count_packets_def two)
qed

text \<open>The metadata the server's application gets for the metadata \<open>mt\<close> of a request.\<close>

definition received_meta :: "bool \<Rightarrow> 64 word \<Rightarrow> int \<Rightarrow> int \<Rightarrow> meta \<Rightarrow> meta" where
  "received_meta trace_on t me from mt =
     (let h = (wire_view trace_on mt)\<lparr>m_recver := me, m_sender := from\<rparr>
      in if trace_on then h\<lparr>m_request_trace := (m_request_trace h)\<lparr>t_postrecv := t\<rparr>\<rparr> else h)"

text \<open>The last part of the way: the writes \<open>ps\<close> of the worker \<open>v2\<close>, in any order, and their completions at the server \<open>w1\<close>.\<close>

lemma written_push_received:
  assumes push: "push_message key msg" and mt: "mt = (msg_meta msg)\<lparr>m_key := key\<rparr>" and il: "il = nat (GetPackMetaLen mt)"
    and n: "n = length (sa_bytes (tensor msg))"
    and epr: "umap_find (rv_endpoints w1) r = Some epr" "ep_transport epr"
    and w1: "buf \<noteq> 0" "GetAddress idx (rv_pool w1) = Inr \<lparr>bc_buffer = buf, bc_meta_len = int il, bc_data_num = 3, bc_data_len = lens\<rparr>"
      "idx < 0x8000" "rv_recv_buffers w1 = []" "0 < ma_pagesize (rv_alloc w1)"
    and posted: "posted_payload (ep_multi_qp ep) q p idx m ep m2 ep2 ps" and step: "in_step ep epr" and q: "q = 1 \<or> q = 2"
    and fills: "fills (set ps) (buf + align_ceil il (ma_pagesize (rv_alloc w1))) a n buf p il"
    and head: "get p il m = get 0 il (put_all (pack_writes (rv_trace_on w1) (int q) mt) fresh)"
    and ten: "get a n m = sa_bytes (tensor msg)" "p + il \<le> a \<or> a + n \<le> p"
    and order: "mset ps' = mset ps" "mset cs = mset (raised ps)"
  shows "\<exists>w3 epr3 msg' len. foldR (\<lambda>(i, imm). PollCQ_turn vb (WC_recv_write r ReceiveContext k i imm t)) cs
        (w1\<lparr>rv_mem := deliver m2 ps' (rv_mem w1)\<rparr>) = Inr w3 \<and>
      RecvMsg Meta0 w3 = Inr (w3\<lparr>rv_recv_buffers := []\<rparr>, msg', len) \<and>
      map sa_bytes (msg_data msg') = [u64_bytes key, sa_bytes (tensor msg), i32_bytes (int n)] \<and>
      msg_meta msg' = received_meta (rv_trace_on w1) t (n_id (rv_my_node w1)) (ep_node_id epr) mt \<and>
      umap_find (rv_endpoints w3) r = Some epr3 \<and> in_step ep2 epr3"
proof -
  let ?two = "ep_multi_qp ep \<and> q = 2"
  define w2 where "w2 = w1\<lparr>rv_mem := deliver m2 ps' (rv_mem w1)\<rparr>"
  define cnt where "cnt = (if ?two then (ep_pkt_count epr)[1 := ep_pkt_count epr ! 1 + 1] else ep_pkt_count epr)"
  have typed: "meta_typed mt" "wire_fits mt" "m_push mt" "m_request mt" "IsValidPushpull \<lparr>msg_meta = mt, msg_data = []\<rparr>" "c_node (m_control mt) = []"
    "m_key mt = key" "m_val_len mt = int n"
    using push_message_meta [OF push mt] n by simp_all
  have len: "288 \<le> il" "int il = GetPackMetaLen mt" using GetPackMetaLen_fits [OF typed(2)] il by simp_all
  have q2: "q \<le> 2" using q by auto
  note hdr = header_and_tensor_written [OF posted q2 len(1) head ten]
  have "set ps' = set ps" using order(1) by (rule mset_eq_setD)
  then have fills': "fills (set ps') (buf + align_ceil il (ma_pagesize (rv_alloc w1))) a n buf p il" using fills by simp
  have "buf + il \<le> buf + align_ceil il (ma_pagesize (rv_alloc w1)) \<or> buf + align_ceil il (ma_pagesize (rv_alloc w1)) + n \<le> buf"
    using align_ceil_bounds(1) [OF w1(5)] by simp
  note del = fills_deliver(1,2) [OF fills' this, of m2 "rv_mem w1"]
  have arr: "arrived w2 r (ep_node_id epr) [] (ep_pkt_count epr) w2" using epr w1(4) by (simp add: arrived_def w2_def)
  have cs: "mset cs = mset ((0, of_nat idx) # (if ?two then [(1, of_nat idx OR 0x8000)] else []))"
    using order(2) posted by (simp add: posted_payload_def)
  obtain w3 where w3: "foldR (\<lambda>(i, imm). PollCQ_turn vb (WC_recv_write r ReceiveContext k i imm t)) cs w2 = Inr w3"
    "arrived w2 r (ep_node_id epr) [\<lparr>nt_endpoint = r, nt_buffer = \<lparr>bc_buffer = buf, bc_meta_len = GetPackMetaLen mt, bc_data_num = 3,
       bc_data_len = lens\<rparr>, nt_time = t, nt_cmd = 0\<rparr>] cnt w3"
    using completions_arrive [OF arr _ w1(3) cs, of _ vb k t] w1(2) len(2) by (auto simp: cnt_def w2_def)
  have counts: "ep_pkt_count (count_packets q ep) ! 1 \<le> cnt ! 1" if "ep_multi_qp ep" "q = 2"
    using that counts_after(2) [OF posted _ q] step by (simp add: cnt_def in_step_def)
  note recv = push_received [OF w3(2) w1(1), of "ep_multi_qp ep" q "count_packets q ep" "put_all (pack_writes (rv_trace_on w1) (int q) mt) fresh" fresh,
      folded il, unfolded Let_def]
  have "RecvMsg Meta0 w3 = Inr (w3\<lparr>rv_recv_buffers := []\<rparr>,
      \<lparr>msg_meta = received_meta (rv_trace_on w1) t (n_id (rv_my_node w1)) (ep_node_id epr) mt,
       msg_data = [CreateFunctionalSarray (u64_bytes key), view_sarr (buf + align_ceil il (ma_pagesize (rv_alloc w1))) n (rv_mem w2),
         CreateFunctionalSarray (i32_bytes (int n))]\<rparr>, GetPackMetaLen mt + (8 + int n + 4))"
    using recv del(2) hdr(1) q typed counts by (simp add: w2_def received_meta_def Let_def)
  moreover have "sa_bytes (view_sarr (buf + align_ceil il (ma_pagesize (rv_alloc w1))) n (rv_mem w2)) = sa_bytes (tensor msg)"
    using del(1) hdr(2) by (simp add: view_sarr_def w2_def)
  moreover obtain epr3 where "umap_find (rv_endpoints w3) r = Some epr3" "ep_pkt_count epr3 = cnt" using w3(2) by (auto simp: arrived_def)
  moreover from this(2) have "in_step ep2 epr3"
    using counts_after(1,3) [OF posted _ q] step by (simp add: in_step_def cnt_def)
  ultimately show ?thesis using w3(1) by (auto simp: w2_def CreateFunctionalSarray_def)
qed

text \<open>
  C1: A pushed tensor reaches the server's application.  The first push of a key makes the worker send a rendezvous
  message and nothing else; the server answers with a buffer it has allocated for it; on the answer the worker
  writes the tensor and the header.  In whatever order the writes are carried out and their completions are
  handled, with the payload on one queue pair or split over two, the server's \<^verbatim>\<open>RecvMsg\<close> then returns, with the key,
  the bytes of the tensor, its length and the metadata of the worker's message, and both ends have again counted the
  same number of packets.
\<close>
theorem push_reaches_server:
  assumes vb: "verbs_ok vb" "verbs_ok vb'"
    and push: "push_message key msg" "can_push vb key msg v ep" and recv: "can_receive r w epr"
    and same: "ma_pagesize (rv_alloc w) = ma_pagesize (rv_alloc v)" "rv_trace_on w = rv_trace_on v" "in_step ep epr"
  shows "\<exists>v1 msg1 len c1 start w1 c2 reply v2 ep2.
    SendMsg vb now msg v = Inr (v1, msg1, len) \<and>
    new_posts (Out (m_recver (msg_meta msg))) v v1 = [(0, WR_send c1 (RendezvousStart start))] \<and>
    PollCQ_turn vb' (WC_recv r ReceiveContext k1 (Some (RendezvousStart start))) w = Inr w1 \<and>
    new_posts r w w1 = [(0, WR_send c2 (RendezvousReply reply))] \<and>
    PollCQ_turn vb (WC_recv (Out (m_recver (msg_meta msg))) ReceiveContext k2 (Some (RendezvousReply reply))) v1 = Inr v2 \<and>
    umap_find (rv_endpoints v2) (Out (m_recver (msg_meta msg))) = Some ep2 \<and>
    (\<forall>ps cs. mset ps = mset (new_posts (Out (m_recver (msg_meta msg))) v1 v2) \<and>
       mset cs = mset (raised (new_posts (Out (m_recver (msg_meta msg))) v1 v2)) \<longrightarrow>
       (\<exists>w3 epr3 msg' len'.
          foldR (\<lambda>(i, imm). PollCQ_turn vb' (WC_recv_write r ReceiveContext k3 i imm t)) cs
            (w1\<lparr>rv_mem := deliver (rv_mem v2) ps (rv_mem w1)\<rparr>) = Inr w3 \<and>
          RecvMsg Meta0 w3 = Inr (w3\<lparr>rv_recv_buffers := []\<rparr>, msg', len') \<and>
          map sa_bytes (msg_data msg') = [u64_bytes key, sa_bytes (tensor msg), i32_bytes (int (length (sa_bytes (tensor msg))))] \<and>
          msg_meta msg' = received_meta (rv_trace_on w) t (n_id (rv_my_node w)) (ep_node_id epr) ((msg_meta msg)\<lparr>m_key := key\<rparr>) \<and>
          umap_find (rv_endpoints w3) r = Some epr3 \<and> in_step ep2 epr3))"
proof -
  define i where "i = m_recver (msg_meta msg)"
  define mt where "mt = (msg_meta msg)\<lparr>m_key := key\<rparr>"
  define il where "il = nat (GetPackMetaLen mt)"
  define a where "a = unat (sa_addr (tensor msg))"
  define n where "n = length (sa_bytes (tensor msg))"
  define lens where "lens = map (\<lambda>x. length (sa_bytes x)) (msg_data msg)"
  define ptr where "ptr = length (rv_bufs v)"
  note pm = push_message_meta [OF push(1) mt_def]
  have ep: "umap_find (rv_endpoints v) (Out i) = Some ep" "ep_transport ep" and qp: "rv_qp_num v = 1 \<or> rv_qp_num v = 2"
    and page: "0 < ma_pagesize (rv_alloc v)" using push(2) by (auto simp: can_push_def i_def)
  have epr: "umap_find (rv_endpoints w) r = Some epr" "ep_transport epr" using recv by (simp_all add: can_receive_def)
  have "il = 288 + length (m_body mt) + length (m_data_type mt) * 4 + length (c_node (m_control mt)) * 552"
    unfolding il_def GetPackMetaLen_fits [OF pm(2)] by (simp only: nat_int)
  then have ilb: "0 < il" "il < 2 ^ 31" "288 \<le> il" using pm(2) unfolding wire_fits_def by linarith+
  have nb: "n < 2 ^ 31" using pm(1,8) by (simp add: meta_typed_def int32_def n_def)
  let ?start = "\<lparr>rs_meta_len = il, rs_data_num = 3, rs_data_len = lens, rs_origin_addr = ptr, rs_key = key\<rparr>"
  define ep1 where "ep1 = ep\<lparr>ep_free_start := tl (ep_free_start ep), ep_posted := ep_posted ep @ [(0, WR_send (hd (ep_free_start ep)) (RendezvousStart ?start))]\<rparr>"
  from vb(1) push(1,2) i_def mt_def il_def a_def n_def obtain v1 p mr lk fresh where
    send: "SendMsg vb now msg v = Inr (v1, msg\<lparr>msg_meta := mt\<rparr>, GetPackMetaLen mt + m_data_size mt)"
    and ep1: "umap_find (rv_endpoints v1) (Out i) = Some ep1"
    and bufs: "rv_bufs v1 = rv_bufs v @ [\<lparr>mb_inline_len = il, mb_inline_buf = p, mb_data = msg_data msg, mb_mrs = [(mr, n)]\<rparr>]"
    and cache: "rv_msgbuf_cache v1 = umap_set ptr (msg\<lparr>msg_meta := mt\<rparr>) (rv_msgbuf_cache v)"
    and v1: "rv_qp_num v1 = rv_qp_num v" "rv_trace_on v1 = rv_trace_on v" "ma_pagesize (rv_alloc v1) = ma_pagesize (rv_alloc v)"
      "LocalKey (rv_alloc v1) p = Inr lk" "mr_addr mr = a"
    and hdr: "get p il (rv_mem v1) = get 0 il (put_all (pack_writes (rv_trace_on v) (int (rv_qp_num v)) mt) fresh)"
    and ten: "get a n (rv_mem v1) = sa_bytes (tensor msg)" "p + il \<le> a \<or> a + n \<le> p"
    unfolding lens_def ptr_def ep1_def by (rule first_push_sent [where now = now])
  have len3: "length lens = 3" using push(1) by (simp add: push_message_def lens_def)
  define epr1 where "epr1 buf rk idx = epr\<lparr>ep_free_reply := tl (ep_free_reply epr), ep_posted := ep_posted epr @
       [(0, WR_send (hd (ep_free_reply epr)) (RendezvousReply \<lparr>rr_addr = buf, rr_rkey = rk, rr_origin_addr = ptr, rr_idx = idx\<rparr>))],
       ep_receives := ep_receives epr @ [(0, k1)]\<rparr>" for buf rk idx
  from vb(2) recv refl len3 ilb(1,2) obtain w1 buf rk idx where
    answer: "PollCQ_turn vb' (WC_recv r ReceiveContext k1 (Some (RendezvousStart ?start))) w = Inr w1"
    and epr1: "umap_find (rv_endpoints w1) r = Some (epr1 buf rk idx)"
    and w1: "buf \<noteq> 0" "GetAddress idx (rv_pool w1) = Inr \<lparr>bc_buffer = buf, bc_meta_len = int il, bc_data_num = 3, bc_data_len = lens\<rparr>"
      "idx < 0x8000" "rv_recv_buffers w1 = []" "rv_trace_on w1 = rv_trace_on w" "rv_my_node w1 = rv_my_node w"
      "ma_pagesize (rv_alloc w1) = ma_pagesize (rv_alloc w)"
    unfolding epr1_def by (rule start_answered [where k = k1])
  let ?msg = "msg\<lparr>msg_meta := mt\<rparr>" let ?reply = "\<lparr>rr_addr = buf, rr_rkey = rk, rr_origin_addr = ptr, rr_idx = idx\<rparr>"
  have at: "ep_transport ep1" "ep_multi_qp ep1 = ep_multi_qp ep" "in_step ep1 (epr1 buf rk idx)" "ep_transport (epr1 buf rk idx)"
    "ep_node_id (epr1 buf rk idx) = ep_node_id epr"
    using ep(2) epr(2) same(3) by (simp_all add: ep1_def epr1_def in_step_def)
  have buf: "ptr < length (rv_bufs v1)" "rv_bufs v1 ! ptr = \<lparr>mb_inline_len = il, mb_inline_buf = p, mb_data = msg_data ?msg, mb_mrs = [(mr, n)]\<rparr>"
    "umap_find (rv_msgbuf_cache v1) ptr = Some ?msg" by (simp_all add: bufs cache ptr_def)
  have m: "IsValidPushpull ?msg" "m_push (msg_meta ?msg)" "m_request (msg_meta ?msg)" "m_recver (msg_meta ?msg) = i" "length (msg_data ?msg) = 3"
    "length (sa_bytes (tensor ?msg)) = n"
    using pm(5) [of "msg_data msg"] pm(3,4) push(1) by (simp_all add: IsValidPushpull_iff push_message_def mt_def i_def n_def)
  have q: "0 < rv_qp_num v1" "rv_qp_num v1 \<le> 2" "n < 2 ^ 32" "il < 2 ^ 32" using qp nb ilb by (auto simp: v1(1))
  obtain v2 ep2 ps where
    reply: "PollCQ_turn vb (WC_recv (Out i) ReceiveContext k2 (Some (RendezvousReply ?reply))) v1 = Inr v2"
    and ep2: "umap_find (rv_endpoints v2) (Out i) = Some (PostRecv k2 0 ep2)"
    and posted: "posted_payload (ep_multi_qp ep1) (rv_qp_num v1) p idx (rv_mem v1) ep1 (rv_mem v2) ep2 ps"
    and fills: "fills (set ps) (buf + align_ceil il (ma_pagesize (rv_alloc v1))) (mr_addr mr) n buf p il"
    using reply_handled [OF ep1 at(1) buf m v1(4) q, of vb k2 buf rk idx] by blast
  have new: "new_posts (Out i) v v1 = [(0, WR_send (hd (ep_free_start ep)) (RendezvousStart ?start))]"
    "new_posts r w w1 = [(0, WR_send (hd (ep_free_reply epr)) (RendezvousReply ?reply))]" "new_posts (Out i) v1 v2 = ps"
    using ep ep1 epr epr1 ep2 posted by (simp_all add: new_posts_def ep1_def epr1_def PostRecv_def posted_payload_def)
  have last: "\<exists>w3 epr3 msg' len'. foldR (\<lambda>(i, imm). PollCQ_turn vb' (WC_recv_write r ReceiveContext k3 i imm t)) cs
        (w1\<lparr>rv_mem := deliver (rv_mem v2) ps' (rv_mem w1)\<rparr>) = Inr w3 \<and>
      RecvMsg Meta0 w3 = Inr (w3\<lparr>rv_recv_buffers := []\<rparr>, msg', len') \<and>
      map sa_bytes (msg_data msg') = [u64_bytes key, sa_bytes (tensor msg), i32_bytes (int n)] \<and>
      msg_meta msg' = received_meta (rv_trace_on w1) t (n_id (rv_my_node w1)) (ep_node_id (epr1 buf rk idx)) mt \<and>
      umap_find (rv_endpoints w3) r = Some epr3 \<and> in_step ep2 epr3" if "mset ps' = mset ps" "mset cs = mset (raised ps)" for ps' cs
    by (rule written_push_received [OF push(1) mt_def il_def n_def epr1 at(4) w1(1-4) _ posted at(3) _ _ _ ten(1) ten(2) that])
       (use page qp same w1 v1 fills hdr in auto)
  have "in_step (PostRecv k2 0 ep2) e = in_step ep2 e" for e by (simp add: in_step_def PostRecv_def)
  then show ?thesis
    using send answer reply ep2 last new unfolding i_def [symmetric] mt_def [symmetric] n_def [symmetric]
    by (intro exI [of _ v1] exI [of _ ?msg] exI [of _ "GetPackMetaLen mt + m_data_size mt"] exI [of _ "hd (ep_free_start ep)"] exI [of _ ?start]
        exI [of _ w1] exI [of _ "hd (ep_free_reply epr)"] exI [of _ ?reply] exI [of _ v2] exI [of _ "PostRecv k2 0 ep2"])
      (simp add: w1(5,6) at(5))
qed

definition sample_push :: message where
  "sample_push = \<lparr>msg_meta = Meta0\<lparr>m_push := True, m_request := True, m_recver := 8, m_val_len := 3\<rparr>,
     msg_data = [sample_sarr 0 (u64_bytes 5), sample_sarr 64 [1, 2, 3], sample_sarr 128 (i32_bytes 3)]\<rparr>"

definition sample_worker :: rdma_van where
  "sample_worker = (sample_van False (Out 8) (sample_endpoint\<lparr>ep_multi_qp := True\<rparr>))\<lparr>rv_mem := put 64 [1, 2, 3] (\<lambda>_. 0)\<rparr>"

lemma sample_push_ok: "push_message 5 sample_push"
  by (simp add: push_message_def sample_push_def sample_sarr_def Meta0_def Control0_def IsValidPushpull_iff control_empty_def meta_typed_def
      int32_def int8_def wire_fits_def kEmpty_def)

lemma sample_worker_ok: "can_push sample_verbs 5 sample_push sample_worker (sample_endpoint\<lparr>ep_multi_qp := True\<rparr>)"
  by (simp add: can_push_def sample_worker_def sample_van_def sample_endpoint_def sample_verbs_def sample_push_def sample_sarr_def
      umap_find_def regions_ok_def find_addr_def addr_table_def align_ceil_def align_floor_def GetPackMetaLen_def Meta0_def Control0_def
      int32_def Let_def)

lemma sample_server_ok: "can_receive (In ''w'') (sample_van True (In ''w'') sample_endpoint) sample_endpoint"
proof -
  let ?p = "\<lparr>ap_max = 2, ap_indices = [0, 1], ap_table = [None, None]\<rparr> :: buffer_context address_pool"
  have ok: "pool_ok ?p" by (auto simp: pool_ok_def less_Suc_eq eval_nat_numeral)
  moreover have "card (dom (pool_map ?p)) < 2" using pool_free_count [OF ok] by simp
  ultimately show ?thesis by (simp add: can_receive_def sample_van_def sample_endpoint_def umap_find_def)
qed

theorem push_reaches_server_witness:
  "verbs_ok sample_verbs \<and> push_message 5 sample_push \<and>
   (\<exists>v1 msg1 len v2 w1 w3 w4 msg' len'.
     SendMsg sample_verbs 0 sample_push sample_worker = Inr (v1, msg1, len) \<and>
     foldR (\<lambda>(i, imm). PollCQ_turn sample_verbs (WC_recv_write (In ''w'') ReceiveContext 0 i imm 0)) (rev (raised (new_posts (Out 8) v1 v2)))
       (w1\<lparr>rv_mem := deliver (rv_mem v2) (rev (new_posts (Out 8) v1 v2)) (rv_mem w1)\<rparr>) = Inr w3 \<and>
     RecvMsg Meta0 w3 = Inr (w4, msg', len') \<and> map sa_bytes (msg_data msg') = [u64_bytes 5, [1, 2, 3], i32_bytes 3])"
proof -
  let ?w = "sample_van True (In ''w'') sample_endpoint"
  have vb: "verbs_ok sample_verbs" by (simp add: verbs_ok_def sample_verbs_def)
  have "in_step (sample_endpoint\<lparr>ep_multi_qp := True\<rparr>) sample_endpoint" "ma_pagesize (rv_alloc ?w) = ma_pagesize (rv_alloc sample_worker)"
    "rv_trace_on ?w = rv_trace_on sample_worker" by (simp_all add: in_step_def sample_endpoint_def sample_van_def sample_worker_def)
  from push_reaches_server [OF vb vb sample_push_ok sample_worker_ok sample_server_ok this(2,3,1), of 0 0 0 0 0]
  obtain v1 msg1 len v2 w1 where run: "SendMsg sample_verbs 0 sample_push sample_worker = Inr (v1, msg1, len)"
    and last: "\<And>ps cs. mset ps = mset (new_posts (Out 8) v1 v2) \<and> mset cs = mset (raised (new_posts (Out 8) v1 v2)) \<Longrightarrow>
       \<exists>w3 w4 msg' len'. foldR (\<lambda>(i, imm). PollCQ_turn sample_verbs (WC_recv_write (In ''w'') ReceiveContext 0 i imm 0)) cs
            (w1\<lparr>rv_mem := deliver (rv_mem v2) ps (rv_mem w1)\<rparr>) = Inr w3 \<and>
          RecvMsg Meta0 w3 = Inr (w4, msg', len') \<and> map sa_bytes (msg_data msg') = [u64_bytes 5, [1, 2, 3], i32_bytes 3]"
    by (elim exE conjE) (fastforce simp: sample_push_def sample_sarr_def)
  have "mset (rev (new_posts (Out 8) v1 v2)) = mset (new_posts (Out 8) v1 v2) \<and>
    mset (rev (raised (new_posts (Out 8) v1 v2))) = mset (raised (new_posts (Out 8) v1 v2))" by simp
  note rest = last [OF this]
  show ?thesis
    by (rule conjI [OF vb conjI [OF sample_push_ok]], rule exI [of _ v1], rule exI [of _ msg1], rule exI [of _ len], rule exI [of _ v2], rule exI [of _ w1])
       (simp only: run simp_thms, rule rest)
qed

section \<open>Later pushes of a key\<close>

lemma GetPackMetaLen_key [simp]:
  "GetPackMetaLen (mt\<lparr>m_key := k\<rparr>) = GetPackMetaLen mt"
  "GetPackMetaLen (mt\<lparr>m_tensor_ev := e\<rparr>) = GetPackMetaLen mt"
  by (simp_all add: GetPackMetaLen_def)

text \<open>
  C22: A later push of a key to the same server needs no rendezvous: \<^verbatim>\<open>SendMsg\<close> itself posts the writes, into the buffer
  the server gave for the first one.  But the payload is read where the tensor of the \<^emph>\<open>first\<close> push was
  registered, not where the tensor of this message lies: a worker that pushes the same key from another address
  sends the contents of the old tensor.
\<close>
theorem later_push_reads_first_tensor:
  assumes vb: "verbs_ok vb" "regions_ok v" and push: "push_message key msg"
    and known: "find_addr key True (m_recver (msg_meta msg)) v = Some (ra, rk, idx, ptr)"
    and mb: "ptr < length (rv_bufs v)" "rv_bufs v ! ptr = mb" "mb_mrs mb = [(mr, sz)]" "mb_inline_len mb < 2 ^ 32"
    and page: "0 < ma_pagesize (rv_alloc v)" and send: "SendMsg vb now msg v = Inr (v1, msg1, len)"
    and order: "mset ps = mset (new_posts (Out (m_recver (msg_meta msg))) v v1)"
  shows "let n = length (sa_bytes (tensor msg)); d = ra + align_ceil (mb_inline_len mb) (ma_pagesize (rv_alloc v))
    in hd (raised (new_posts (Out (m_recver (msg_meta msg))) v v1)) = (0, of_nat idx) \<and>
       get d n (deliver (rv_mem v1) ps rm) = get (mr_addr mr) n (rv_mem v1) \<and>
       get ra (mb_inline_len mb) (deliver (rv_mem v1) ps rm) = get (mb_inline_buf mb) (mb_inline_len mb) (rv_mem v1)"
proof -
  define i where "i = m_recver (msg_meta msg)"
  obtain ks t l where parts: "msg_data msg = [ks, t, l]" "sa_bytes ks = u64_bytes key" "sa_bytes t \<noteq> []" using push by (rule three_parts)
  obtain M where M: "RegisterMemory vb msg v = Inr (v\<lparr>rv_mem_mr := M\<rparr>)" using RegisterMemory_push [OF vb push] by blast
  let ?v0 = "v\<lparr>rv_mem_mr := M\<rparr>"
  define msg1' where "msg1' = msg\<lparr>msg_meta := (msg_meta msg)\<lparr>m_key := key\<rparr>\<rparr>"
  have valid: "IsValidPushpull msg" "m_push (msg_meta msg)" "m_request (msg_meta msg)" "i \<noteq> kEmpty" using push by (simp_all add: push_message_def i_def)
  have add: "AddMeta msg ?v0 = Inr msg1'" using valid DecodeKey_bytes [OF parts(2)] by (simp add: AddMeta_def parts(1) msg1'_def)
  have m1: "IsValidPushpull msg1'" "m_key (msg_meta msg1') = key" "m_push (msg_meta msg1')" "m_request (msg_meta msg1')" "msg_data msg1' = msg_data msg"
    using valid by (simp_all add: msg1'_def IsValidPushpull_iff)
  obtain ep where ep: "umap_find (rv_endpoints v) (Out i) = Some ep" using send
    by (cases "umap_find (rv_endpoints v) (Out i)") (auto simp: SendMsg_def Let_def i_def res_simps)
  have info: "HasRemoteInfo key True i ?v0" "GetRemoteAndLocalInfo key True i ?v0 = Inr (ra, rk, idx, ptr)"
    using known by (simp_all add: HasRemoteInfo_def GetRemoteAndLocalInfo_def find_addr_def addr_table_def i_def)
  define mb1 where "mb1 = mb\<lparr>mb_data := msg_data msg @ drop (length (msg_data msg)) (mb_data mb)\<rparr>"
  define msg2 where "msg2 = upd_meta (\<lambda>mt. (if rv_trace_on v then stamp_postsend now mt else mt)\<lparr>m_tensor_ev := None\<rparr>) msg1'"
  have m2: "m_push (msg_meta msg2)" "m_request (msg_meta msg2)" "msg_data msg2 = msg_data msg"
    using m1 by (simp_all add: msg2_def stamp_postsend_def)
  let ?v2 = "?v0\<lparr>rv_bufs := (rv_bufs v)[ptr := mb1], rv_released := rv_released v @ (case m_tensor_ev (msg_meta msg1') of None \<Rightarrow> [] | Some e \<Rightarrow> [e])\<rparr>"
  obtain m where kind: "send_by_kind (Out i) msg2 ptr (ra, rk, idx, ptr) (?v2\<lparr>rv_mem := m\<rparr>) = Inr v1"
    using send ep valid info m1 mb(2)
    by (auto simp: SendMsg_def Let_def M add i_def [symmetric] bindR_eq_Inr PS_CHECK_eq_Inr no_ub_eq_Inr mb1_def msg2_def)
  obtain m' ep1 where push1: "SendPushRequest (rv_qp_num v) (rv_alloc v) msg2 ptr mb1 (ra, rk, idx, ptr) (m, ep) = Inr (m', ep1)"
    and v1: "v1 = set_endpoint (Out i) ep1 (?v2\<lparr>rv_mem := m'\<rparr>)"
    using kind ep m2 mb(1) by (auto simp: send_by_kind_def get_endpoint_def bindR_eq_Inr Let_def)
  have small: "length (sa_bytes (msg_data msg2 ! 1)) < 2 ^ 32" "mb_inline_len mb1 < 2 ^ 32"
    using push mb(4) by (auto simp: m2(3) mb1_def push_message_def meta_typed_def int32_def)
  obtain qs where posted: "ep_posted ep1 = ep_posted ep @ qs" "hd (raised qs) = (0, of_nat idx)"
    and fills: "fills (set qs) (ra + align_ceil (mb_inline_len mb) (ma_pagesize (rv_alloc v))) (mr_addr mr) (length (sa_bytes (tensor msg)))
      ra (mb_inline_buf mb) (mb_inline_len mb)"
    by (rule SendPushRequest_fills [OF push1 small]) (use mb(3) m2(3) in \<open>auto simp: mb1_def posted_payload_def\<close>)
  have new: "new_posts (Out i) v v1 = qs" using ep posted by (simp add: new_posts_def v1 set_endpoint_def)
  then have "set ps = set qs" using order mset_eq_setD [of ps qs] by (simp add: i_def)
  then show ?thesis
    using fills_deliver(1,2) [of ps, OF _ disjI1, of _ _ _ ra _ "mb_inline_len mb" "rv_mem v1" rm] fills align_ceil_bounds(1) [OF page] posted(2) new
    by (simp add: Let_def i_def)
qed

definition known_worker :: rdma_van where
  "known_worker = (sample_van False (Out 8) sample_endpoint)\<lparr>rv_mem := put 64 [1, 2, 3] (put 200 [7, 7, 7] (\<lambda>_. 0)),
     rv_bufs := [sample_buffer\<lparr>mb_data := msg_data sample_push\<rparr>], rv_alloc := sample_alloc, rv_push_addr := [(5, [(8, (8192, 9, 5, 0))])]\<rparr>"

lemma later_push_sent_ok:
  "\<exists>v1 msg1 len. SendMsg sample_verbs 0 (sample_push\<lparr>msg_data := [sample_sarr 0 (u64_bytes 5), sample_sarr 200 [7, 7, 7], sample_sarr 128 (i32_bytes 3)]\<rparr>)
      known_worker = Inr (v1, msg1, len) \<and> get 64 3 (rv_mem v1) = [1, 2, 3]"
proof -
  let ?d = "[sample_sarr 0 (u64_bytes 5), sample_sarr 200 [7, 7, 7], sample_sarr 128 (i32_bytes 3)]"
  define msg where "msg = sample_push\<lparr>msg_data := ?d\<rparr>"
  define mt where "mt = (msg_meta sample_push)\<lparr>m_key := 5, m_tensor_ev := None\<rparr>"
  have push: "push_message 5 msg"
    using sample_push_ok by (simp add: msg_def push_message_def sample_push_def sample_sarr_def IsValidPushpull_iff)
  have len: "GetPackMetaLen (msg_meta sample_push) = 288"
    by (simp add: sample_push_def Meta0_def Control0_def GetPackMetaLen_def int32_def)
  have mtf: "wire_fits mt" "nat (GetPackMetaLen mt) \<le> 4096" "m_push mt" "m_request mt"
    using sample_push_ok by (simp_all add: mt_def len push_message_def wire_fits_def)
  obtain m where m: "pack_at False 2 mt 4096 4096 (rv_mem known_worker) = Inr m"
    "\<forall>a. a < 4096 \<or> 4096 + 4096 \<le> a \<longrightarrow> m a = rv_mem known_worker a"
    using pack_at_ok [OF mtf(1) _ mtf(2), of 2 False 4096 "rv_mem known_worker"] by auto
  have vb: "verbs_ok sample_verbs" "regions_ok known_worker"
    by (simp_all add: verbs_ok_def sample_verbs_def regions_ok_def known_worker_def sample_van_def)
  obtain M where M: "RegisterMemory sample_verbs msg known_worker = Inr (known_worker\<lparr>rv_mem_mr := M\<rparr>)"
    using RegisterMemory_push [OF vb push] by blast
  have add: "AddMeta msg v = Inr (msg\<lparr>msg_meta := (msg_meta msg)\<lparr>m_key := 5\<rparr>\<rparr>)" for v
    using push DecodeKey_bytes [of "sample_sarr 0 (u64_bytes 5)" 5] by (simp add: AddMeta_def msg_def push_message_def sample_sarr_def)
  have valid: "IsValidPushpull msg" "IsValidPushpull (msg\<lparr>msg_meta := (msg_meta msg)\<lparr>m_key := 5\<rparr>\<rparr>)" "m_push (msg_meta msg)" "m_request (msg_meta msg)"
    "m_recver (msg_meta msg) = 8" "msg_data msg = ?d" "msg_meta msg = msg_meta sample_push" "m_tensor_ev (msg_meta sample_push) = None"
    using push by (auto simp: push_message_def IsValidPushpull_iff msg_def sample_push_def Meta0_def)
  have mem: "get 64 3 m = [1, 2, 3]"
    using m(2) by (simp add: get_def known_worker_def put_def upt_rec)
  define ep0 where "ep0 = sample_endpoint"
  have ep: "ep_transport ep0" "\<not> ep_multi_qp ep0" by (simp_all add: ep0_def sample_endpoint_def)
  have al: "LocalKey sample_alloc 4096 = Inr 7" "ma_pagesize sample_alloc = 4096"
    by (simp_all add: LocalKey_def Addr2MR_def sample_alloc_def umap_find_def)
  have van: "umap_find (rv_endpoints known_worker) (Out 8) = Some ep0" "rv_alloc known_worker = sample_alloc" "rv_qp_num known_worker = 2"
    "\<not> rv_trace_on known_worker" "rv_push_addr known_worker = [(5, [(8, (8192, 9, 5, 0))])]"
    "rv_bufs known_worker = [sample_buffer\<lparr>mb_data := msg_data sample_push\<rparr>]"
    by (simp_all add: known_worker_def sample_van_def umap_find_def ep0_def)
  have buf: "mb_inline_len sample_buffer = 288" "mb_inline_buf sample_buffer = 4096" "length (msg_data sample_push) = 3"
    "mb_mrs sample_buffer = [(\<lparr>mr_addr = 64, mr_length = 3, mr_lkey = 7, mr_rkey = 9\<rparr>, 3)]" "sa_bytes (sample_sarr 200 [7, 7, 7]) = [7, 7, 7]"
    by (simp_all add: sample_buffer_def sample_push_def sample_sarr_def)
  have cap: "align_ceil 288 4096 = 4096" by (simp add: align_ceil_def align_floor_def)
  have info: "HasRemoteInfo 5 True 8 (known_worker\<lparr>rv_mem_mr := M\<rparr>)"
    "GetRemoteAndLocalInfo 5 True 8 (known_worker\<lparr>rv_mem_mr := M\<rparr>) = Inr (8192, 9, 5, 0)"
    using van(5) by (auto simp: HasRemoteInfo_def GetRemoteAndLocalInfo_def find_addr_def addr_table_def umap_find_def)
  show ?thesis
    unfolding msg_def [symmetric]
    using mem mtf(3,4) m(1) valid ep van buf al M info
    by (simp add: SendMsg_def add Let_def len kEmpty_def umap_find_def cap mt_def [symmetric]
        send_by_kind_def get_endpoint_def SendPushRequest_def RDMAWriteWithImm_def set_endpoint_def)
qed

theorem later_push_reads_first_tensor_witness:
  "\<exists>v1 msg1 len. SendMsg sample_verbs 0 (sample_push\<lparr>msg_data := [sample_sarr 0 (u64_bytes 5), sample_sarr 200 [7, 7, 7], sample_sarr 128 (i32_bytes 3)]\<rparr>)
      known_worker = Inr (v1, msg1, len) \<and> get 12288 3 (deliver (rv_mem v1) (new_posts (Out 8) known_worker v1) (\<lambda>_. 0)) = [1, 2, 3]"
proof -
  let ?msg = "sample_push\<lparr>msg_data := [sample_sarr 0 (u64_bytes 5), sample_sarr 200 [7, 7, 7], sample_sarr 128 (i32_bytes 3)]\<rparr>"
  have vb: "verbs_ok sample_verbs" "regions_ok known_worker"
    by (simp_all add: verbs_ok_def sample_verbs_def regions_ok_def known_worker_def sample_van_def)
  have push: "push_message 5 ?msg"
    using sample_push_ok by (simp add: push_message_def sample_push_def sample_sarr_def IsValidPushpull_iff)
  have known: "find_addr 5 True (m_recver (msg_meta ?msg)) known_worker = Some (8192, 9, 5, 0)"
    by (simp add: find_addr_def addr_table_def known_worker_def sample_push_def umap_find_def)
  obtain v1 msg1 len where send: "SendMsg sample_verbs 0 ?msg known_worker = Inr (v1, msg1, len)" and mem: "get 64 3 (rv_mem v1) = [1, 2, 3]"
    using later_push_sent_ok by blast
  have "rv_bufs known_worker ! 0 = sample_buffer\<lparr>mb_data := msg_data sample_push\<rparr>" "0 < length (rv_bufs known_worker)" "0 < ma_pagesize (rv_alloc known_worker)"
    by (simp_all add: known_worker_def sample_alloc_def)
  from later_push_reads_first_tensor [OF vb push known this(2,1) _ _ this(3) send refl]
  have "get 12288 3 (deliver (rv_mem v1) (new_posts (Out 8) known_worker v1) (\<lambda>_. 0)) = get 64 3 (rv_mem v1)"
    by (simp add: sample_buffer_def sample_push_def sample_sarr_def known_worker_def sample_alloc_def align_ceil_def align_floor_def Let_def numeral_3_eq_3)
  then show ?thesis using send mem by auto
qed

end
