(* ===== verification/IpcTransport.thy ===== *)
theory IpcTransport
  imports RdmaTransport Postoffice
begin

text \<open>
  \<^verbatim>\<open>IPCTransport\<close> of \<^verbatim>\<open>src/rdma_transport.h\<close>: between processes of one machine the payload lies in shared memory and only the
  metadata is sent.  The operating system is a parameter: \<open>shm\<close> tells whether a shared memory object can be
  opened, how long it is, and where that many bytes of it are mapped.
\<close>

section \<open>Arithmetic and keys\<close>

definition AlignTo :: "int \<Rightarrow> int \<Rightarrow> int res" where
  "AlignTo input alignment = no_ub (alignment \<noteq> 0) ''alignment'' (Inr (input sdiv alignment * alignment))"

definition DivUp :: "int \<Rightarrow> int \<Rightarrow> int res" where
  "DivUp x y = no_ub (y \<noteq> 0 \<and> int32 (x + y) \<and> int32 (x + y - 1)) ''DivUp'' (Inr ((x + y - 1) sdiv y))"

definition RoundUp :: "int \<Rightarrow> int \<Rightarrow> int res" where
  "RoundUp x y = bindR (DivUp x y) (\<lambda>d. no_ub (int32 (d * y)) ''RoundUp'' (Inr (d * y)))"

definition DecodeWorkerKey :: "Range list \<Rightarrow> int \<Rightarrow> key \<Rightarrow> key res" where
  "DecodeWorkerKey ranges my_rank k = bindR (vec_get ranges my_rank) (\<lambda>kr. Inr (k - r_begin kr))"

definition hex_char :: "nat \<Rightarrow> char" where
  "hex_char d = char_of (if d < 10 then 48 + d else 87 + d)"

fun hex_digits :: "nat \<Rightarrow> string" where
  "hex_digits n = (if n < 16 then [hex_char n] else hex_digits (n div 16) @ [hex_char (n mod 16)])"

declare hex_digits.simps [simp del]

section \<open>State\<close>

record async_copy =
  ac_buf :: nat
  ac_remote :: remote_tuple
  ac_dst :: nat
  ac_src :: nat
  ac_len :: int
  ac_shutdown :: bool

record ipc_transport =
  ip_nthreads :: int
  ip_queues :: "async_copy list list"
  ip_counter :: "64 word"
  ip_partition_bytes :: int
  ip_prefix :: string
  ip_shm :: "(key, nat) umap"
  ip_async :: bool
  ip_scheme :: int

definition kShmPrefix :: string where "kShmPrefix = ''BytePS_ShM_''"
definition kShmPciePrefix :: string where "kShmPciePrefix = ''BytePS_Pcie_''"

definition IPCTransport_new :: "environment \<Rightarrow> int \<Rightarrow> ipc_transport res" where
  "IPCTransport_new e pagesize =
     (let n = GetEnv e ''BYTEPS_IPC_COPY_NUM_THREADS'' 4;
          local_size = GetEnv e ''BYTEPS_LOCAL_SIZE'' 8;
          nccl_pcie_size = GetEnv e ''BYTEPS_PCIE_SWITCH_SIZE'' 8
      in bindR (RoundUp (GetEnv e ''BYTEPS_PARTITION_BYTES'' 4096000) (to_int32 (local_size * pagesize))) (\<lambda>partition_bytes.
         no_ub (nccl_pcie_size \<noteq> 0) ''byteps_nccl_pcie_size''
         (let pcie_size = (if local_size smod nccl_pcie_size \<noteq> 0 then local_size else nccl_pcie_size);
              base = (if local_size > pcie_size then kShmPciePrefix @ to_string (local_size sdiv pcie_size - 1) @ ''_Shm_'' else kShmPrefix);
              job_id = GetEnv_str e ''BYTEPS_JOB_ID'' ''0''
          in Inr \<lparr>ip_nthreads = n, ip_queues = replicate (nat n) [], ip_counter = 0, ip_partition_bytes = partition_bytes,
                  ip_prefix = base @ job_id @ ''_'', ip_shm = [], ip_async = (GetEnv e ''BYTEPS_IPC_ENABLE_ASYNC_COPY'' 1 \<noteq> 0),
                  ip_scheme = GetEnv e ''BYTEPS_ENCODING_SCHEME_VERSION'' 0\<rparr>)))"

section \<open>Shared memory\<close>

record shared_memory =
  sh_open :: "string \<Rightarrow> bool"
  sh_fstat :: "string \<Rightarrow> nat option"
  sh_mmap :: "string \<Rightarrow> nat \<Rightarrow> nat option"

definition key_seq :: "ipc_transport \<Rightarrow> key \<Rightarrow> key" where
  "key_seq t worker_key = (if ip_scheme t = 1 then worker_key mod 2 ^ 10 else worker_key mod 2 ^ 16)"

definition GetSharedMemory ::
  "shared_memory \<Rightarrow> Range list \<Rightarrow> int \<Rightarrow> key \<Rightarrow> ipc_transport \<Rightarrow> (ipc_transport \<times> nat) res" where
  "GetSharedMemory shm ranges my_rank k t =
     bindR (DecodeWorkerKey ranges my_rank k) (\<lambda>worker_key.
       let seq_num = key_seq t worker_key; base_key = worker_key - seq_num;
           offset = word_of_int (ip_partition_bytes t) * seq_num :: 64 word
       in case umap_find (ip_shm t) base_key of
            Some a \<Rightarrow> Inr (t, a + unat offset)
          | None \<Rightarrow>
              let shm_name = ip_prefix t @ hex_digits (unat base_key)
              in PS_CHECK (sh_open shm shm_name) ''shm_open failed''
                 (case sh_fstat shm shm_name of
                    None \<Rightarrow> Inl (CheckFailed ''fstat'')
                  | Some total_shm_size \<Rightarrow>
                      case sh_mmap shm shm_name total_shm_size of
                        None \<Rightarrow> Inl (CheckFailed ''base_ptr'')
                      | Some a \<Rightarrow> Inr (t\<lparr>ip_shm := umap_set base_key a (ip_shm t)\<rparr>, a + unat offset)))"

section \<open>Messages\<close>

definition ipc_SendPushRequest :: "allocator \<Rightarrow> nat \<Rightarrow> message_buffer \<Rightarrow> remote_tuple \<Rightarrow> endpoint \<Rightarrow> endpoint res" where
  "ipc_SendPushRequest al ptr msg_buf t ep = tr_Send al ptr msg_buf t ep"

definition memcpy :: "nat \<Rightarrow> nat \<Rightarrow> int \<Rightarrow> mem \<Rightarrow> mem res" where
  "memcpy dst src n m = no_ub (0 \<le> n) ''memcpy'' (Inr (put dst (get src (nat n) m) m))"

definition ipc_SendPullResponse ::
  "shared_memory \<Rightarrow> Range list \<Rightarrow> int \<Rightarrow> allocator \<Rightarrow> message \<Rightarrow> nat \<Rightarrow> message_buffer \<Rightarrow> remote_tuple \<Rightarrow>
   ipc_transport \<times> mem \<times> endpoint \<Rightarrow> (ipc_transport \<times> mem \<times> endpoint) res" where
  "ipc_SendPullResponse shm ranges my_rank al msg ptr msg_buf r s =
     (let (t, m, ep) = s
      in no_ub (2 \<le> length (mb_data msg_buf)) ''msg_buf->data[1]''
         (let addr = unat (sa_addr (mb_data msg_buf ! 1))
          in PS_CHECK (addr \<noteq> 0) ''addr''
             (bindR (GetSharedMemory shm ranges my_rank (m_key (msg_meta msg)) t) (\<lambda>(t1, shm_addr).
              PS_CHECK (shm_addr \<noteq> 0) ''shm_addr''
              (if ip_async t1
               then no_ub (0 < ip_nthreads t1 \<and> length (ip_queues t1) = nat (ip_nthreads t1)) ''async_copy_queue_''
                 (let c = \<lparr>ac_buf = ptr, ac_remote = r, ac_dst = shm_addr, ac_src = addr, ac_len = m_val_len (msg_meta msg), ac_shutdown = False\<rparr>;
                      q = unat (ip_counter t1) mod nat (ip_nthreads t1)
                  in Inr (t1\<lparr>ip_counter := ip_counter t1 + 1, ip_queues := (ip_queues t1)[q := ip_queues t1 ! q @ [c]]\<rparr>, m, ep))
               else bindR (memcpy shm_addr addr (m_val_len (msg_meta msg)) m) (\<lambda>m1.
                    bindR (tr_Send al ptr msg_buf r ep) (\<lambda>ep1. Inr (t1, m1, ep1))))))))"

definition ipc_RecvPushRequest ::
  "shared_memory \<Rightarrow> Range list \<Rightarrow> int \<Rightarrow> mem \<Rightarrow> message \<Rightarrow> ipc_transport \<Rightarrow> (ipc_transport \<times> message \<times> int) res" where
  "ipc_RecvPushRequest shm ranges my_rank m msg t =
     bindR (GetSharedMemory shm ranges my_rank (m_key (msg_meta msg)) t) (\<lambda>(t1, addr).
       let len = m_val_len (msg_meta msg);
           keys = CreateFunctionalSarray (u64_bytes (m_key (msg_meta msg)));
           vals = view_sarr addr (nat len) m;
           lens = CreateFunctionalSarray (i32_bytes len)
       in Inr (t1, msg\<lparr>msg_data := msg_data msg @ [keys, vals, lens]\<rparr>, 8 + len + 4))"

text \<open>One turn of the copy thread \<open>i\<close>; \<open>False\<close>: the thread ends.  \<open>bufs\<close> are the message buffers.\<close>

definition AsyncCopyThread_turn ::
  "allocator \<Rightarrow> message_buffer list \<Rightarrow> nat \<Rightarrow> ipc_transport \<times> mem \<times> endpoint \<Rightarrow> ((ipc_transport \<times> mem \<times> endpoint) \<times> bool) res" where
  "AsyncCopyThread_turn al bufs i s =
     (let (t, m, ep) = s
      in bindR (vec_get (ip_queues t) (int i)) (\<lambda>q.
         case q of
           [] \<Rightarrow> Inl (Blocked ''async_copy_queue_'')
         | c # rest \<Rightarrow>
             let t1 = t\<lparr>ip_queues := (ip_queues t)[i := rest]\<rparr>
             in if ac_shutdown c then Inr ((t1, m, ep), False)
                else if ac_len c = 0 then Inr ((t1, m, ep), True)
                else PS_CHECK (ac_dst c \<noteq> 0) ''m.dst'' (PS_CHECK (ac_src c \<noteq> 0) ''m.src''
                  (bindR (memcpy (ac_dst c) (ac_src c) (ac_len c) m) (\<lambda>m1.
                   bindR (vec_get bufs (int (ac_buf c))) (\<lambda>mb.
                   let (raddr, rkey, idx, local) = ac_remote c
                   in bindR (RDMAWriteWithImm al (ac_buf c) mb raddr rkey idx False None ep) (\<lambda>ep1. Inr ((t1, m1, ep1), True))))))))"

text \<open>The destructor, for one thread: a last entry that ends it.\<close>

definition ipc_shutdown :: "nat \<Rightarrow> async_copy \<Rightarrow> ipc_transport \<Rightarrow> ipc_transport res" where
  "ipc_shutdown i junk t =
     bindR (vec_get (ip_queues t) (int i)) (\<lambda>q. Inr (t\<lparr>ip_queues := (ip_queues t)[i := q @ [junk\<lparr>ac_shutdown := True\<rparr>]]\<rparr>))"

section \<open>Properties: places in shared memory\<close>

lemma hex_char_inj:
  assumes "hex_char a = hex_char b" and "a < 16" and "b < 16"
  shows "a = b"
proof -
  have code: "(of_char (hex_char d) :: nat) = (if d < 10 then 48 + d else 87 + d)" if "d < 16" for d
  proof -
    have "(if d < 10 then 48 + d else 87 + d) < 256" using that by simp
    then show ?thesis unfolding hex_char_def of_char_of by (rule mod_less)
  qed
  from assms(1) have "(of_char (hex_char a) :: nat) = of_char (hex_char b)" by (rule arg_cong)
  then show ?thesis unfolding code [OF assms(2)] code [OF assms(3)] using assms(2,3) by (cases "a < 10"; cases "b < 10") simp_all
qed

lemma hex_digits_nonempty: "hex_digits n \<noteq> []"
  by (simp add: hex_digits.simps [of n])

lemma hex_digits_inj: "hex_digits n = hex_digits m \<Longrightarrow> n = m"
proof (induction n arbitrary: m rule: hex_digits.induct)
  case (1 n)
  show ?case
  proof (cases "n < 16 \<or> m < 16")
    case True
    then have "n < 16 \<and> m < 16"
      using "1.prems" hex_digits_nonempty [of "n div 16"] hex_digits_nonempty [of "m div 16"]
      by (auto simp: hex_digits.simps [of n] hex_digits.simps [of m] append_eq_Cons_conv Cons_eq_append_conv split: if_splits)
    then show ?thesis using "1.prems" hex_char_inj by (simp add: hex_digits.simps [of n] hex_digits.simps [of m])
  next
    case False
    then have "hex_digits (n div 16) = hex_digits (m div 16)" "hex_char (n mod 16) = hex_char (m mod 16)"
      using "1.prems" by (simp_all add: hex_digits.simps [of n] hex_digits.simps [of m])
    then have "n div 16 = m div 16" "n mod 16 = m mod 16" using "1.IH" False by (auto intro: hex_char_inj)
    then show ?thesis by (metis div_mult_mod_eq)
  qed
qed

text \<open>The object of a name is mapped from an address on, over its whole length.\<close>

definition mapped :: "shared_memory \<Rightarrow> string \<Rightarrow> nat \<Rightarrow> nat \<Rightarrow> bool" where
  "mapped shm name a len \<longleftrightarrow> sh_open shm name \<and> sh_fstat shm name = Some len \<and> sh_mmap shm name len = Some a"

definition shm_cached :: "shared_memory \<Rightarrow> ipc_transport \<Rightarrow> bool" where
  "shm_cached shm t \<longleftrightarrow>
     (\<forall>b a. umap_find (ip_shm t) b = Some a \<longrightarrow> (\<exists>len. mapped shm (ip_prefix t @ hex_digits (unat b)) a len))"

text \<open>The name of the object that a decoded key lies in.\<close>

definition shm_name_of :: "ipc_transport \<Rightarrow> key \<Rightarrow> string" where
  "shm_name_of t w = ip_prefix t @ hex_digits (unat (w - key_seq t w))"

lemma GetSharedMemory_addr:
  assumes "GetSharedMemory shm ranges rank k t = Inr (t', a)" and "shm_cached shm t"
  shows "shm_cached shm t' \<and> ip_prefix t' = ip_prefix t \<and> ip_partition_bytes t' = ip_partition_bytes t \<and> ip_scheme t' = ip_scheme t \<and>
    (\<exists>w A len. DecodeWorkerKey ranges rank k = Inr w \<and> mapped shm (shm_name_of t w) A len \<and>
      a = A + unat (word_of_int (ip_partition_bytes t) * key_seq t w :: 64 word))"
proof -
  obtain w where w: "DecodeWorkerKey ranges rank k = Inr w" using assms(1) by (auto simp: GetSharedMemory_def bindR_eq_Inr)
  show ?thesis
  proof (cases "umap_find (ip_shm t) (w - key_seq t w)")
    case None
    with assms w show ?thesis
      by (auto simp: GetSharedMemory_def PS_CHECK_eq_Inr Let_def shm_cached_def shm_name_of_def mapped_def split: option.splits if_splits)
  next
    case (Some b)
    with assms w have "t' = t" "a = b + unat (word_of_int (ip_partition_bytes t) * key_seq t w :: 64 word)"
      by (auto simp: GetSharedMemory_def Let_def)
    with Some assms(2) w show ?thesis by (auto simp: shm_cached_def shm_name_of_def)
  qed
qed

lemma unat_key_seq: "unat (key_seq t w) < 2 ^ 16"
proof -
  have "unat w mod 2 ^ 10 < 2 ^ 16" using mod_less_divisor [of "2 ^ 10" "unat w"] by (rule order_less_trans) simp_all
  then show ?thesis by (simp add: key_seq_def unat_mod_distrib)
qed

lemma DecodeWorkerKey_inj: "DecodeWorkerKey ranges rank k = Inr w \<Longrightarrow> DecodeWorkerKey ranges rank l = Inr w \<Longrightarrow> k = l"
  by (auto simp: DecodeWorkerKey_def bindR_eq_Inr)

lemma key_offset:
  assumes "0 < ip_partition_bytes t" and "ip_partition_bytes t < 2 ^ 31"
  shows "unat (word_of_int (ip_partition_bytes t) * key_seq t w :: 64 word) = nat (ip_partition_bytes t) * unat (key_seq t w)"
proof -
  define P where "P = nat (ip_partition_bytes t)"
  have "ip_partition_bytes t = int P" and small: "P < 2 ^ 31" using assms by (simp_all add: P_def)
  then have P: "unat (word_of_int (ip_partition_bytes t) :: 64 word) = P" by (simp add: unat_of_nat)
  have "P * unat (key_seq t w) < 2 ^ 31 * 2 ^ 16" using small unat_key_seq [of t w] assms by (intro mult_strict_mono) (auto simp: P_def)
  then have "P * unat (key_seq t w) < 2 ^ 64" by simp
  then show ?thesis using P by (simp add: unat_word_ariths P_def)
qed

lemma shm_name_inj: "shm_name_of t w1 = shm_name_of t w2 \<longleftrightarrow> w1 - key_seq t w1 = w2 - key_seq t w2"
  using hex_digits_inj [of "unat (w1 - key_seq t w1)" "unat (w2 - key_seq t w2)"] by (auto simp: shm_name_of_def word_unat_eq_iff)

text \<open>Keys of one object have different offsets.\<close>

lemma same_object_disjoint:
  assumes "w1 \<noteq> w2" and "shm_name_of t w1 = shm_name_of t w2"
  shows "P * unat (key_seq t w1) + P \<le> P * unat (key_seq t w2) \<or> P * unat (key_seq t w2) + P \<le> P * unat (key_seq t w1)"
proof -
  have "key_seq t w1 \<noteq> key_seq t w2" using assms by (auto simp: shm_name_inj)
  then have "Suc (unat (key_seq t w1)) \<le> unat (key_seq t w2) \<or> Suc (unat (key_seq t w2)) \<le> unat (key_seq t w1)"
    by (simp add: word_unat_eq_iff) linarith
  then have "P * Suc (unat (key_seq t w1)) \<le> P * unat (key_seq t w2) \<or> P * Suc (unat (key_seq t w2)) \<le> P * unat (key_seq t w1)"
    by (metis mult_le_mono2)
  then show ?thesis by auto
qed

text \<open>
  C23: Where the keys of a server lie in shared memory.  \<^verbatim>\<open>GetSharedMemory\<close> gives a key the place of partition size
  that starts at the partition number of the key times the partition size in the object of its tensor, which is
  mapped over its length; the mappings of different objects do not overlap.  Different keys have
  disjoint places if they lie in the same object, and also if they lie in different objects and both places end within
  their object.  The code does not check the latter.
\<close>
theorem ipc_slots_disjoint:
  assumes cached: "shm_cached shm t" and p: "0 < ip_partition_bytes t" "ip_partition_bytes t < 2 ^ 31"
    and maps: "\<forall>n1 n2 A1 s1 A2 s2. n1 \<noteq> n2 \<and> mapped shm n1 A1 s1 \<and> mapped shm n2 A2 s2 \<longrightarrow> A1 + s1 \<le> A2 \<or> A2 + s2 \<le> A1"
    and get: "GetSharedMemory shm ranges rank k1 t = Inr (t1, a1)" "GetSharedMemory shm ranges rank k2 t1 = Inr (t2, a2)" and "k1 \<noteq> k2"
  shows "\<exists>w1 w2 A1 s1 A2 s2. DecodeWorkerKey ranges rank k1 = Inr w1 \<and> DecodeWorkerKey ranges rank k2 = Inr w2 \<and>
    mapped shm (shm_name_of t w1) A1 s1 \<and> mapped shm (shm_name_of t w2) A2 s2 \<and>
    a1 = A1 + nat (ip_partition_bytes t) * unat (key_seq t w1) \<and> a2 = A2 + nat (ip_partition_bytes t) * unat (key_seq t w2) \<and>
    (shm_name_of t w1 = shm_name_of t w2 \<or>
       a1 + nat (ip_partition_bytes t) \<le> A1 + s1 \<and> a2 + nat (ip_partition_bytes t) \<le> A2 + s2 \<longrightarrow>
     a1 + nat (ip_partition_bytes t) \<le> a2 \<or> a2 + nat (ip_partition_bytes t) \<le> a1)"
proof -
  let ?P = "nat (ip_partition_bytes t)"
  obtain w1 A1 s1 where 1: "DecodeWorkerKey ranges rank k1 = Inr w1" "mapped shm (shm_name_of t w1) A1 s1"
    "a1 = A1 + ?P * unat (key_seq t w1)"
    and t1: "shm_cached shm t1" "ip_prefix t1 = ip_prefix t" "ip_partition_bytes t1 = ip_partition_bytes t" "ip_scheme t1 = ip_scheme t"
    using GetSharedMemory_addr [OF get(1) cached] key_offset [OF p] by auto
  obtain w2 A2 s2 where 2: "DecodeWorkerKey ranges rank k2 = Inr w2" "mapped shm (shm_name_of t w2) A2 s2"
    "a2 = A2 + ?P * unat (key_seq t w2)"
    using GetSharedMemory_addr [OF get(2) t1(1)] t1(2-4) key_offset [OF p] by (auto simp: key_seq_def shm_name_of_def)
  have "w1 \<noteq> w2" using DecodeWorkerKey_inj 1(1) 2(1) \<open>k1 \<noteq> k2\<close> by blast
  have same: "a1 + ?P \<le> a2 \<or> a2 + ?P \<le> a1" if n: "shm_name_of t w1 = shm_name_of t w2"
  proof -
    have "A1 = A2" using 1(2) 2(2) n by (simp add: mapped_def)
    then show ?thesis using same_object_disjoint [OF \<open>w1 \<noteq> w2\<close> n, of ?P] 1(3) 2(3) by auto
  qed
  have other: "a1 + ?P \<le> a2 \<or> a2 + ?P \<le> a1"
    if n: "shm_name_of t w1 \<noteq> shm_name_of t w2" and fit: "a1 + ?P \<le> A1 + s1" "a2 + ?P \<le> A2 + s2"
  proof -
    have "A1 + s1 \<le> A2 \<or> A2 + s2 \<le> A1" using maps n 1(2) 2(2) by blast
    then show ?thesis using fit 1(3) 2(3) by linarith
  qed
  show ?thesis
    by (rule exI [of _ w1], rule exI [of _ w2], rule exI [of _ A1], rule exI [of _ s1], rule exI [of _ A2], rule exI [of _ s2])
      (use 1 2 same other in blast)
qed

text \<open>Two objects of 64 bytes, mapped next to each other.\<close>

definition sample_shm :: shared_memory where
  "sample_shm = \<lparr>sh_open = (\<lambda>n. n = ''S0'' \<or> n = ''S10000''), sh_fstat = (\<lambda>n. Some 64),
     sh_mmap = (\<lambda>n len. if n = ''S0'' then Some 1000 else Some 1064)\<rparr>"

definition sample_ipc :: ipc_transport where
  "sample_ipc = \<lparr>ip_nthreads = 1, ip_queues = [[]], ip_counter = 0, ip_partition_bytes = 4, ip_prefix = ''S'', ip_shm = [], ip_async = True, ip_scheme = 0\<rparr>"

lemma sample_hex: "hex_digits 0 = ''0''" "hex_digits 65536 = ''10000''"
  by (simp_all add: hex_digits.simps hex_char_def char_of_def bit_0)

lemma sample_decode: "DecodeWorkerKey [\<lparr>r_begin = 0, r_end = 1\<rparr>] 0 k = Inr k"
  by (simp add: DecodeWorkerKey_def vec_get_def)

lemmas sample_shm_eval = GetSharedMemory_def sample_decode key_seq_def sample_ipc_def umap_find_def umap_set_def sample_hex sample_shm_def Let_def

theorem ipc_slots_disjoint_witness:
  "\<exists>t1 a1 t2 a2. GetSharedMemory sample_shm [\<lparr>r_begin = 0, r_end = 1\<rparr>] 0 5 sample_ipc = Inr (t1, a1) \<and>
     GetSharedMemory sample_shm [\<lparr>r_begin = 0, r_end = 1\<rparr>] 0 65542 t1 = Inr (t2, a2) \<and> a1 = 1020 \<and> a2 = 1088 \<and> (a1 + 4 \<le> a2 \<or> a2 + 4 \<le> a1)"
proof -
  let ?t1 = "sample_ipc\<lparr>ip_shm := [(0, 1000)]\<rparr>"
  have g1: "GetSharedMemory sample_shm [\<lparr>r_begin = 0, r_end = 1\<rparr>] 0 5 sample_ipc = Inr (?t1, 1020)" by (simp add: sample_shm_eval)
  have "\<exists>t2. GetSharedMemory sample_shm [\<lparr>r_begin = 0, r_end = 1\<rparr>] 0 65542 ?t1 = Inr (t2, 1088)" by (simp add: sample_shm_eval)
  then obtain t2 where g2: "GetSharedMemory sample_shm [\<lparr>r_begin = 0, r_end = 1\<rparr>] 0 65542 ?t1 = Inr (t2, 1088)" by blast
  have cached: "shm_cached sample_shm sample_ipc" by (simp add: shm_cached_def sample_ipc_def umap_find_def)
  have maps: "\<forall>n1 n2 A1 s1 A2 s2. n1 \<noteq> n2 \<and> mapped sample_shm n1 A1 s1 \<and> mapped sample_shm n2 A2 s2 \<longrightarrow> A1 + s1 \<le> A2 \<or> A2 + s2 \<le> A1"
    by (auto simp: mapped_def sample_shm_def split: if_splits)
  have p: "0 < ip_partition_bytes sample_ipc" "ip_partition_bytes sample_ipc < 2 ^ 31" and ne: "(5 :: key) \<noteq> 65542"
    by (simp_all add: sample_ipc_def)
  obtain w1 w2 A1 s1 A2 s2 where c: "DecodeWorkerKey [\<lparr>r_begin = 0, r_end = 1\<rparr>] 0 5 = Inr w1" "DecodeWorkerKey [\<lparr>r_begin = 0, r_end = 1\<rparr>] 0 65542 = Inr w2"
    "mapped sample_shm (shm_name_of sample_ipc w1) A1 s1" "mapped sample_shm (shm_name_of sample_ipc w2) A2 s2"
    "shm_name_of sample_ipc w1 = shm_name_of sample_ipc w2 \<or>
       1020 + nat (ip_partition_bytes sample_ipc) \<le> A1 + s1 \<and> 1088 + nat (ip_partition_bytes sample_ipc) \<le> A2 + s2 \<longrightarrow>
     1020 + nat (ip_partition_bytes sample_ipc) \<le> 1088 \<or> 1088 + nat (ip_partition_bytes sample_ipc) \<le> 1020"
    using ipc_slots_disjoint [OF cached p maps g1 g2 ne] by (elim exE conjE) (rule that; assumption)
  have P: "nat (ip_partition_bytes sample_ipc) = 4" by (simp add: sample_ipc_def)
  have "1020 + 4 \<le> A1 + s1 \<and> 1088 + 4 \<le> A2 + s2"
    using c(1-4) by (simp add: sample_decode) (auto simp: mapped_def sample_shm_def shm_name_of_def sample_ipc_def key_seq_def sample_hex)
  with c(5) have "1020 + 4 \<le> (1088::nat) \<or> 1088 + 4 \<le> (1020::nat)" unfolding P by blast
  then show ?thesis
    by (intro exI [of _ ?t1] exI [of _ 1020] exI [of _ t2] exI [of _ 1088] conjI g1 g2 refl)
qed

text \<open>
  The offset is not compared with the length of the object: partition 20 of a tensor whose object has 64 bytes is given
  a place of 4 bytes that starts 16 bytes behind it, inside the object of another tensor.
\<close>
theorem ipc_slot_outside_object:
  "\<exists>t1 t2. GetSharedMemory sample_shm [\<lparr>r_begin = 0, r_end = 1\<rparr>] 0 20 sample_ipc = Inr (t1, 1080) \<and>
     GetSharedMemory sample_shm [\<lparr>r_begin = 0, r_end = 1\<rparr>] 0 65540 t1 = Inr (t2, 1080) \<and> mapped sample_shm ''S0'' 1000 64"
  by (simp add: sample_shm_eval mapped_def)

section \<open>Properties: replies\<close>

text \<open>Two endpoints that differ in the inline flag of the last request posted.\<close>

definition last_inline :: "bool \<Rightarrow> endpoint \<Rightarrow> endpoint" where
  "last_inline b ep = ep\<lparr>ep_posted := butlast (ep_posted ep) @ map (\<lambda>(q, wr). (q, case wr of WR_write w \<Rightarrow> WR_write (w\<lparr>w_inline := b\<rparr>) | _ \<Rightarrow> wr))
     (drop (length (ep_posted ep) - 1) (ep_posted ep))\<rparr>"

lemma RDMAWriteWithImm_inline:
  "RDMAWriteWithImm al ptr mb raddr rkey idx False None ep = bindR (RDMAWriteWithImm al ptr mb raddr rkey idx True None ep) (\<lambda>ep1. Inr (last_inline False ep1))"
  by (auto simp: RDMAWriteWithImm_def bindR_def Let_def post_send_def last_inline_def split: sum.splits)

lemma GetSharedMemory_async:
  "GetSharedMemory shm ranges rank k (t\<lparr>ip_async := b\<rparr>) = bindR (GetSharedMemory shm ranges rank k t) (\<lambda>(t', a). Inr (t'\<lparr>ip_async := b\<rparr>, a))"
  by (auto simp: GetSharedMemory_def bindR_def Let_def key_seq_def PS_CHECK_def split: sum.splits option.splits)

lemma GetSharedMemory_queues:
  assumes "GetSharedMemory shm ranges rank k t = Inr (t', a)"
  shows "ip_queues t' = ip_queues t" "ip_counter t' = ip_counter t" "ip_nthreads t' = ip_nthreads t"
  using assms by (auto simp: GetSharedMemory_def bindR_eq_Inr PS_CHECK_eq_Inr Let_def split: option.splits)

text \<open>
  C24: A pull reply that a copy thread makes is the one \<^verbatim>\<open>SendPullResponse\<close> makes itself when asynchronous copies are off: the
  payload is in shared memory before the metadata is posted, and the same request is posted, except that the
  thread does not mark it inline.  A reply without payload, however, is never posted by the copy thread.
\<close>
theorem ipc_async_reply:
  assumes async: "ipc_SendPullResponse shm ranges rank al msg ptr mb r (t\<lparr>ip_async := True\<rparr>, m, ep) = Inr (t1, m1, ep1)"
    and idle: "ip_queues t ! (unat (ip_counter t) mod nat (ip_nthreads t)) = []" and mb: "bufs ! ptr = mb" "ptr < length bufs"
    and sync: "ipc_SendPullResponse shm ranges rank al msg ptr mb r (t\<lparr>ip_async := False\<rparr>, m, ep) = Inr (t2, m2, ep2)"
  shows "\<exists>t3. AsyncCopyThread_turn al bufs (unat (ip_counter t) mod nat (ip_nthreads t)) (t1, m1, ep1) =
    Inr (if m_val_len (msg_meta msg) = 0 then (t3, m, ep) else (t3, m2, last_inline False ep2), True)"
proof -
  let ?q = "unat (ip_counter t) mod nat (ip_nthreads t)" let ?addr = "unat (sa_addr (mb_data mb ! 1))"
  obtain t' a where g: "GetSharedMemory shm ranges rank (m_key (msg_meta msg)) t = Inr (t', a)"
    using async by (cases "GetSharedMemory shm ranges rank (m_key (msg_meta msg)) t")
      (auto simp: ipc_SendPullResponse_def GetSharedMemory_async no_ub_eq_Inr PS_CHECK_eq_Inr Let_def)
  note fields = GetSharedMemory_queues [OF g]
  have nz: "a \<noteq> 0" "?addr \<noteq> 0" and n: "0 < ip_nthreads t" "length (ip_queues t) = nat (ip_nthreads t)" and same: "m1 = m" "ep1 = ep"
    and queues: "ip_queues t1 = (ip_queues t)[?q := ip_queues t ! ?q @
      [\<lparr>ac_buf = ptr, ac_remote = r, ac_dst = a, ac_src = ?addr, ac_len = m_val_len (msg_meta msg), ac_shutdown = False\<rparr>]]"
    using async by (simp_all add: ipc_SendPullResponse_def GetSharedMemory_async g fields no_ub_eq_Inr PS_CHECK_eq_Inr Let_def, auto simp: fields)
  have s: "memcpy a ?addr (m_val_len (msg_meta msg)) m = Inr m2" "tr_Send al ptr mb r ep = Inr ep2"
    using sync by (auto simp: ipc_SendPullResponse_def GetSharedMemory_async g bindR_eq_Inr no_ub_eq_Inr PS_CHECK_eq_Inr Let_def)
  have "?q < length (ip_queues t)" using n by simp
  then have queue: "vec_get (ip_queues t1) (int ?q) = Inr [\<lparr>ac_buf = ptr, ac_remote = r, ac_dst = a, ac_src = ?addr, ac_len = m_val_len (msg_meta msg), ac_shutdown = False\<rparr>]"
    using idle by (simp add: queues)
  obtain raddr rkey idx loc where r: "r = (raddr, rkey, idx, loc)" by (cases r)
  have "RDMAWriteWithImm al ptr mb raddr rkey idx False None ep = Inr (last_inline False ep2)"
    using s(2) by (simp add: tr_Send_def r RDMAWriteWithImm_inline)
  then show ?thesis using queue s(1) nz mb by (simp add: AsyncCopyThread_turn_def same r)
qed


theorem ipc_async_reply_witness:
  "\<exists>t1 t3 m2 ep2. ipc_SendPullResponse sample_shm [\<lparr>r_begin = 0, r_end = 1\<rparr>] 0 sample_alloc (Message0\<lparr>msg_meta := Meta0\<lparr>m_val_len := 3\<rparr>\<rparr>) 0 sample_buffer (8192, 9, 5, 0)
       (sample_ipc, \<lambda>a. of_nat a, sample_endpoint) = Inr (t1, \<lambda>a. of_nat a, sample_endpoint) \<and>
     AsyncCopyThread_turn sample_alloc [sample_buffer] 0 (t1, \<lambda>a. of_nat a, sample_endpoint) = Inr ((t3, m2, ep2), True) \<and>
     get 1000 3 m2 = [64, 65, 66] \<and> length (ep_posted ep2) = 1"
proof -
  let ?msg = "Message0\<lparr>msg_meta := Meta0\<lparr>m_val_len := 3\<rparr>\<rparr>" and ?rs = "[\<lparr>r_begin = 0, r_end = 1\<rparr>]"
  let ?m = "\<lambda>a. of_nat a :: byte"
  have mk: "m_key Meta0 = 0" by (simp add: Meta0_def)
  have g: "GetSharedMemory sample_shm ?rs 0 0 (sample_ipc\<lparr>ip_async := b\<rparr>) = Inr (sample_ipc\<lparr>ip_async := b, ip_shm := [(0, 1000)]\<rparr>, 1000)" for b
    by (simp add: sample_shm_eval)
  have parts: "2 \<le> length (mb_data sample_buffer)" "unat (sa_addr (mb_data sample_buffer ! 1)) = 64" by (simp_all add: sample_buffer_def sample_sarr_def)
  have len: "m_val_len (msg_meta ?msg) = 3" by simp
  have ipc: "ip_nthreads sample_ipc = 1" "ip_queues sample_ipc = [[]]" "ip_counter sample_ipc = 0" by (simp_all add: sample_ipc_def)
  obtain t1 where t1: "ipc_SendPullResponse sample_shm ?rs 0 sample_alloc ?msg 0 sample_buffer (8192, 9, 5, 0) (sample_ipc\<lparr>ip_async := True\<rparr>, ?m, sample_endpoint) =
      Inr (t1, ?m, sample_endpoint)"
    using parts ipc by (simp add: ipc_SendPullResponse_def mk g Let_def)
  have key: "LocalKey sample_alloc 4096 = Inr 7" by (simp add: LocalKey_def Addr2MR_def sample_alloc_def umap_find_def)
  obtain ep2 where ep2: "tr_Send sample_alloc 0 sample_buffer (8192, 9, 5, 0) sample_endpoint = Inr ep2" "length (ep_posted (last_inline False ep2)) = 1"
    using key by (simp add: tr_Send_def RDMAWriteWithImm_def sample_buffer_def sample_endpoint_def post_send_def Let_def last_inline_def)
  have "ipc_SendPullResponse sample_shm ?rs 0 sample_alloc ?msg 0 sample_buffer (8192, 9, 5, 0) (sample_ipc\<lparr>ip_async := False\<rparr>, ?m, sample_endpoint) =
      Inr (sample_ipc\<lparr>ip_async := False, ip_shm := [(0, 1000)]\<rparr>, put 1000 (get 64 3 ?m) ?m, ep2)"
    using parts ep2(1) by (simp add: ipc_SendPullResponse_def mk g Let_def memcpy_def no_ub_def)
  from ipc_async_reply [OF t1 _ _ _ this, of "[sample_buffer]"]
  obtain t3 where t3: "AsyncCopyThread_turn sample_alloc [sample_buffer] 0 (t1, ?m, sample_endpoint) = Inr ((t3, put 1000 (get 64 3 ?m) ?m, last_inline False ep2), True)"
    by (auto simp: ipc)
  have "get 64 3 ?m = [64, 65, 66]" by (simp add: get_def upt_rec)
  then have "get 1000 3 (put 1000 (get 64 3 ?m) ?m) = [64, 65, 66]" by simp
  moreover have "sample_ipc\<lparr>ip_async := True\<rparr> = sample_ipc" by (simp add: sample_ipc_def)
  ultimately show ?thesis using t1 t3 ep2(2) by auto
qed

end
