(* ===== verification/ZmqVan.thy ===== *)
theory ZmqVan
  imports Env Wire
begin

text \<open>
  \<^verbatim>\<open>src/zmq_van.h\<close>: a van over ZeroMQ sockets.  The library is a parameter: which calls of \<^verbatim>\<open>zmq_bind\<close> and
  \<^verbatim>\<open>zmq_connect\<close> succeed, what the coming calls of \<^verbatim>\<open>zmq_msg_send\<close> return, and what a receive thread sees.
  A socket is its position in the list of the sockets created; it keeps the frames that were sent through it, each with
  the flag \<^verbatim>\<open>ZMQ_SNDMORE\<close>.
\<close>

section \<open>State\<close>

type_synonym frame = "byte list \<times> bool"

record zmq_buffer_context =
  zb_sender :: int
  zb_meta :: "byte list"
  zb_data :: "byte list list"

datatype socket_kind = ROUTER | DEALER

record zsocket =
  sk_kind :: socket_kind
  sk_identity :: "byte list option"
  sk_addr :: "string option"
  sk_closed :: bool
  sk_out :: "frame list"

datatype send_outcome = Sent | Interrupted | Failed

record zmq_van =
  zv_my_node :: node
  zv_trace_on :: bool
  zv_qp_num :: int
  zv_context :: bool
  zv_max_sockets :: int
  zv_io_threads :: int
  zv_senders :: "(int, nat) umap"
  zv_receiver :: "nat option"
  zv_is_worker :: bool
  zv_standalone :: bool
  zv_should_stop :: bool
  zv_recv_buffers :: "zmq_buffer_context list"
  zv_threads :: "nat list"
  zv_registered :: "(int, (key, sarr) umap) umap"
  zv_sockets :: "zsocket list"
  zv_answers :: "send_outcome list"

record zmq_library =
  zq_ctx :: bool
  zq_socket :: bool
  zq_bind :: "nat \<Rightarrow> string \<Rightarrow> bool"
  zq_connect :: "string \<Rightarrow> bool"

text \<open>A new van; \<open>junk\<close> is what the memory of the members without initializer holds.\<close>

definition ZMQVan_new :: "node \<Rightarrow> bool \<Rightarrow> int \<Rightarrow> bool \<Rightarrow> zmq_van" where
  "ZMQVan_new my trace_on QP_NUM junk = \<lparr>zv_my_node = my, zv_trace_on = trace_on, zv_qp_num = QP_NUM, zv_context = False, zv_max_sockets = 0,
     zv_io_threads = 0, zv_senders = [], zv_receiver = None, zv_is_worker = junk, zv_standalone = junk, zv_should_stop = False,
     zv_recv_buffers = [], zv_threads = [], zv_registered = [], zv_sockets = [], zv_answers = []\<rparr>"

definition zmq_socket :: "socket_kind \<Rightarrow> zmq_van \<Rightarrow> zmq_van \<times> nat" where
  "zmq_socket k v = (v\<lparr>zv_sockets := zv_sockets v @ [\<lparr>sk_kind = k, sk_identity = None, sk_addr = None, sk_closed = False, sk_out = []\<rparr>]\<rparr>,
     length (zv_sockets v))"

definition upd_socket :: "nat \<Rightarrow> (zsocket \<Rightarrow> zsocket) \<Rightarrow> zmq_van \<Rightarrow> zmq_van" where
  "upd_socket s f v = v\<lparr>zv_sockets := (zv_sockets v)[s := f (zv_sockets v ! s)]\<rparr>"

definition zmq_close :: "nat \<Rightarrow> zmq_van \<Rightarrow> zmq_van" where
  "zmq_close s = upd_socket s (sk_closed_update (\<lambda>_. True))"

definition str_bytes :: "string \<Rightarrow> byte list" where
  "str_bytes s = map char_byte s"

section \<open>Start and stop\<close>

text \<open>Without \<^verbatim>\<open>Van::Start\<close> and \<^verbatim>\<open>Van::Stop\<close>, which run unless the van is standalone.\<close>

definition zmq_Start :: "zmq_library \<Rightarrow> environment \<Rightarrow> bool \<Rightarrow> zmq_van \<Rightarrow> zmq_van res" where
  "zmq_Start lib e standalone v =
     PS_CHECK (zv_context v \<or> zq_ctx lib) ''create 0mq context failed''
      (Inr (v\<lparr>zv_standalone := standalone, zv_context := True,
              zv_max_sockets := (case env_find e ''BYTEPS_ZMQ_MAX_SOCKET'' of Some s \<Rightarrow> atoi s | None \<Rightarrow> 1024),
              zv_io_threads := (case env_find e ''BYTEPS_ZMQ_NTHREADS'' of Some s \<Rightarrow> atoi s | None \<Rightarrow> 4)\<rparr>))"

definition zmq_Stop :: "zmq_van \<Rightarrow> zmq_van res" where
  "zmq_Stop v =
     (case zv_receiver v of
        None \<Rightarrow> Inl (CheckFailed ''rc'')
      | Some r \<Rightarrow>
          (if sk_closed (zv_sockets v ! r) then Inl (CheckFailed ''rc'')
           else if list_ex (\<lambda>(i, s). sk_closed (zv_sockets v ! s)) (zv_senders v) then Inl (CheckFailed ''rc'')
           else Inr (foldr (\<lambda>(i, s). zmq_close s) (zv_senders v) (zmq_close r v)
                  \<lparr>zv_should_stop := True, zv_senders := [], zv_context := False\<rparr>)))"

section \<open>Bind and connect\<close>

text \<open>The attempts to bind: the wanted port first, then ports drawn from \<^verbatim>\<open>rand_r\<close>.\<close>

fun bind_loop :: "(nat \<Rightarrow> string \<Rightarrow> bool) \<Rightarrow> string \<Rightarrow> nat \<Rightarrow> nat list \<Rightarrow> int \<Rightarrow> int res" where
  "bind_loop ok addr i [] port =
     (if ok i (addr @ to_string port) then Inr port else Inl (LogFatal ''Reached max retry for bind''))"
| "bind_loop ok addr i (r # rs) port =
     (if ok i (addr @ to_string port) then Inr port else bind_loop ok addr (Suc i) rs (10000 + int (r mod 40000)))"

definition zmq_Bind :: "zmq_library \<Rightarrow> environment \<Rightarrow> (nat \<Rightarrow> nat) \<Rightarrow> node \<Rightarrow> int \<Rightarrow> zmq_van \<Rightarrow> (zmq_van \<times> int) res" where
  "zmq_Bind lib e rand n max_retry v =
     PS_CHECK (n_num_ports (zv_my_node v) = 1) ''zmq van does not support multiple ports''
      (PS_CHECK (zq_socket lib) ''zmq_setsockopt''
       (let (v1, receiver) = zmq_socket ROUTER v;
            local = GetEnv e ''DMLC_LOCAL'' 0;
            host = (if n_hostname n = [] then ''*'' else n_hostname n);
            hostname = (if GetEnv e ''DMLC_USE_KUBERNETES'' 0 > 0 \<and> n_role n = SCHEDULER then ''0.0.0.0'' else host);
            addr = (if local \<noteq> 0 then ''ipc:///tmp/'' else ''tcp://'' @ hostname @ '':'')
        in bindR (if max_retry < 0 then Inr (n_port n) else bind_loop (zq_bind lib) addr 0 (map rand [0..<nat max_retry]) (n_port n)) (\<lambda>port.
             Inr (v1\<lparr>zv_receiver := Some receiver, zv_is_worker := (n_role n = WORKER), zv_threads := zv_threads v1 @ [receiver]\<rparr>, port))))"

definition zmq_Connect :: "zmq_library \<Rightarrow> environment \<Rightarrow> node \<Rightarrow> zmq_van \<Rightarrow> zmq_van res" where
  "zmq_Connect lib e n v =
     PS_CHECK (n_id n \<noteq> kEmpty) ''node.id'' (PS_CHECK (n_port n \<noteq> kEmpty) ''node.port'' (PS_CHECK (n_hostname n \<noteq> []) ''node.hostname''
      (let i = n_id n;
           v1 = (case umap_find (zv_senders v) i of Some s \<Rightarrow> zmq_close s v | None \<Rightarrow> v);
           my = zv_my_node v1
       in if n_role n = n_role my \<and> i \<noteq> n_id my \<and> \<not> zv_standalone v1 then Inr v1
          else PS_CHECK (zq_socket lib) ''sender''
            (let (v2, sender) = zmq_socket DEALER v1;
                 v3 = (if n_id my \<noteq> kEmpty
                       then let v4 = upd_socket sender (sk_identity_update (\<lambda>_. Some (str_bytes (''ps'' @ to_string (n_id my))))) v2
                            in if zv_is_worker v4 \<and> umap_find (zv_senders v4) i = None then v4\<lparr>zv_threads := zv_threads v4 @ [sender]\<rparr> else v4
                       else v2);
                 addr = (if GetEnv e ''DMLC_LOCAL'' 0 \<noteq> 0 then ''ipc:///tmp/'' @ to_string (n_port n)
                         else ''tcp://'' @ n_hostname n @ '':'' @ to_string (n_port n))
             in if \<not> zq_connect lib addr then Inl (LogFatal (''connect to '' @ addr @ '' failed''))
                else Inr ((upd_socket sender (sk_addr_update (\<lambda>_. Some addr)) v3)\<lparr>zv_senders := umap_set i sender (zv_senders v3)\<rparr>)))))"

section \<open>Sending\<close>

text \<open>The loop around \<^verbatim>\<open>zmq_msg_send\<close>: again after \<^verbatim>\<open>EINTR\<close>.  A closed socket is refused.\<close>

fun send_loop :: "send_outcome list \<Rightarrow> (bool \<times> send_outcome list) option" where
  "send_loop [] = None"
| "send_loop (Sent # os) = Some (True, os)"
| "send_loop (Interrupted # os) = send_loop os"
| "send_loop (Failed # os) = Some (False, os)"

definition zmq_msg_send :: "nat \<Rightarrow> frame \<Rightarrow> zmq_van \<Rightarrow> (zmq_van \<times> bool) res" where
  "zmq_msg_send s f v =
     (if sk_closed (zv_sockets v ! s) then Inr (v, False)
      else case send_loop (zv_answers v) of
             None \<Rightarrow> Inl (Blocked ''zmq_msg_send'')
           | Some (ok, os) \<Rightarrow>
               Inr (if ok then (upd_socket s (sk_out_update (\<lambda>fs. fs @ [f])) v)\<lparr>zv_answers := os\<rparr> else v\<lparr>zv_answers := os\<rparr>, ok))"

fun send_data :: "nat \<Rightarrow> sarr list \<Rightarrow> int \<Rightarrow> zmq_van \<Rightarrow> (zmq_van \<times> int) res" where
  "send_data s [] send_bytes v = Inr (v, send_bytes)"
| "send_data s (d # ds) send_bytes v =
     bindR (zmq_msg_send s (sa_bytes d, ds \<noteq> []) v) (\<lambda>(v1, ok).
       if \<not> ok then Inr (v1, -1)
       else no_ub (int32 (send_bytes + to_int32 (int (length (sa_bytes d))))) ''send_bytes''
              (send_data s ds (send_bytes + to_int32 (int (length (sa_bytes d)))) v1))"

definition ZmqSendMsg :: "mem \<Rightarrow> nat \<Rightarrow> message \<Rightarrow> zmq_van \<Rightarrow> (zmq_van \<times> int) res" where
  "ZmqSendMsg fresh s msg v =
     bindR (PackMeta (zv_trace_on v) (zv_qp_num v) fresh (msg_meta msg) None) (\<lambda>(meta_buf, meta_size).
     bindR (zmq_msg_send s (get 0 (nat meta_size) meta_buf, msg_data msg \<noteq> []) v) (\<lambda>(v1, ok).
       PS_CHECK ok ''zmq_strerror'' (send_data s (msg_data msg) meta_size v1)))"

definition GetRoleFromId :: "int \<Rightarrow> Role" where
  "GetRoleFromId i = (if i < 8 then SCHEDULER else if i mod 2 \<noteq> 0 then WORKER else SERVER)"

definition send_id :: "nat \<Rightarrow> int \<Rightarrow> zmq_van \<Rightarrow> zmq_van res" where
  "send_id s i v = bindR (zmq_msg_send s (str_bytes (''ps'' @ to_string i), True) v) (\<lambda>(v1, ok). PS_CHECK ok ''zmq_strerror'' (Inr v1))"

definition NonWorkerSendMsg :: "mem \<Rightarrow> message \<Rightarrow> zmq_van \<Rightarrow> (zmq_van \<times> int) res" where
  "NonWorkerSendMsg fresh msg v =
     (let i = m_recver (msg_meta msg)
      in PS_CHECK (i \<noteq> kEmpty) ''id''
         (case umap_find (zv_senders v) i of
            None \<Rightarrow> Inl (LogFatal ''there is no socket to node'')
          | Some s \<Rightarrow>
              if m_simple_app (msg_meta msg) \<or> \<not> control_empty (m_control (msg_meta msg)) \<or> GetRoleFromId i \<noteq> WORKER
              then ZmqSendMsg fresh s msg v
              else case zv_receiver v of
                     None \<Rightarrow> Inl (CheckFailed ''zmq_strerror'')
                   | Some r \<Rightarrow> bindR (send_id r i v) (\<lambda>v1. bindR (send_id r (n_id (zv_my_node v1)) v1) (\<lambda>v2. ZmqSendMsg fresh r msg v2))))"

definition zmq_SendMsg :: "mem \<Rightarrow> message \<Rightarrow> zmq_van \<Rightarrow> (zmq_van \<times> int) res" where
  "zmq_SendMsg fresh msg v =
     (if \<not> zv_is_worker v then NonWorkerSendMsg fresh msg v
      else let i = m_recver (msg_meta msg)
           in PS_CHECK (i \<noteq> kEmpty) ''id''
              (case umap_find (zv_senders v) i of
                 None \<Rightarrow> Inr (v, -1)
               | Some s \<Rightarrow> ZmqSendMsg fresh s msg v))"

section \<open>Receiving\<close>

text \<open>\<^verbatim>\<open>GetNodeID\<close>; a character is added before \<^verbatim>\<open>'0'\<close> is subtracted, in \<^verbatim>\<open>int\<close>.\<close>

fun node_id_loop :: "string \<Rightarrow> int \<Rightarrow> int res" where
  "node_id_loop [] i = Inr i"
| "node_id_loop (c # cs) i =
     (if isdigit c then no_ub (int32 (i * 10) \<and> int32 (i * 10 + of_char c)) ''id'' (node_id_loop cs (i * 10 + of_char c - 48))
      else Inr kEmpty)"

definition GetNodeID :: "byte list \<Rightarrow> int res" where
  "GetNodeID buf =
     (if 2 < length buf \<and> byte_char (buf ! 0) = CHR ''p'' \<and> byte_char (buf ! 1) = CHR ''s''
      then node_id_loop (map byte_char (drop 2 buf)) 0 else Inr kEmpty)"

text \<open>
  What \<^verbatim>\<open>CallZmqRecvThread\<close> sees of its socket: a frame, nothing yet (\<^verbatim>\<open>EAGAIN\<close> or \<^verbatim>\<open>EINTR\<close>), an error, or the flag
  \<^verbatim>\<open>should_stop_\<close> set.  One turn of its outer loop reads the frames of one message.
\<close>

datatype recv_outcome = Frame "byte list" bool | Again | RecvFailed | StopSeen

fun recv_frame :: "recv_outcome list \<Rightarrow> (frame option \<times> recv_outcome list) res" where
  "recv_frame [] = Inl (Blocked ''zmq_msg_recv'')"
| "recv_frame (Frame b mo # os) = Inr (Some (b, mo), os)"
| "recv_frame (Again # os) = recv_frame os"
| "recv_frame (RecvFailed # os) = Inl (CheckFailed ''failed to receive message'')"
| "recv_frame (StopSeen # os) = Inr (None, os)"

lemma recv_frame_shorter: "recv_frame os = Inr (f, os') \<Longrightarrow> length os' < length os"
  by (induction os rule: recv_frame.induct) auto

function recv_parts :: "recv_outcome list \<Rightarrow> (byte list list option \<times> recv_outcome list) res" where
  "recv_parts os =
     (case recv_frame os of
        Inl e \<Rightarrow> Inl e
      | Inr (None, os1) \<Rightarrow> Inr (None, os1)
      | Inr (Some (b, mo), os1) \<Rightarrow>
          if \<not> mo then Inr (Some [b], os1)
          else bindR (recv_parts os1) (\<lambda>(bs, os2). Inr (map_option (\<lambda>bs. b # bs) bs, os2)))"
  by pat_completeness auto
termination
  by (relation "measure length") (auto dest: recv_frame_shorter)

declare recv_parts.simps [simp del]

definition recv_message :: "recv_outcome list \<Rightarrow> (zmq_buffer_context option \<times> recv_outcome list) res" where
  "recv_message os =
     bindR (recv_frame os) (\<lambda>(f, os1).
       case f of
         None \<Rightarrow> Inr (None, os1)
       | Some (b, mo) \<Rightarrow>
           bindR (GetNodeID b) (\<lambda>sender.
           PS_CHECK mo ''zmq_msg_more''
            (bindR (recv_parts os1) (\<lambda>(bs, os2).
               Inr (map_option (\<lambda>bs. \<lparr>zb_sender = sender, zb_meta = hd bs, zb_data = tl bs\<rparr>) bs, os2)))))"

text \<open>The second result tells whether the thread goes on.\<close>

definition CallZmqRecvThread_turn :: "recv_outcome list \<Rightarrow> zmq_van \<Rightarrow> (zmq_van \<times> bool \<times> recv_outcome list) res" where
  "CallZmqRecvThread_turn os v =
     (if zv_should_stop v then Inr (v, False, os)
      else bindR (recv_message os) (\<lambda>(r, os1).
             case r of
               None \<Rightarrow> Inr (v, False, os1)
             | Some ctx \<Rightarrow> Inr (v\<lparr>zv_recv_buffers := zv_recv_buffers v @ [ctx]\<rparr>, True, os1)))"

definition zmq_RegisterRecvBuffer :: "message \<Rightarrow> zmq_van \<Rightarrow> zmq_van res" where
  "zmq_RegisterRecvBuffer msg v =
     PS_CHECK (length (msg_data msg) = 3) ''msg.data.size()''
      (no_ub (8 \<le> length (sa_bytes (msg_data msg ! 0))) ''key_ptr''
       (let sender = m_sender (msg_meta msg); k = u64_of (take 8 (sa_bytes (msg_data msg ! 0)))
        in Inr (v\<lparr>zv_registered := umap_set sender (umap_set k (msg_data msg ! 1) (umap_index [] (zv_registered v) sender)) (zv_registered v)\<rparr>)))"

text \<open>
  The payload parts; \<open>at i\<close> is where the library holds part \<open>i\<close>.  A registered buffer of the sender takes the second
  part.
\<close>

fun recv_data :: "(nat \<Rightarrow> 64 word) \<Rightarrow> meta \<Rightarrow> nat \<Rightarrow> byte list list \<Rightarrow> sarr list \<Rightarrow> (int, (key, sarr) umap) umap \<Rightarrow>
    (sarr list \<times> (int, (key, sarr) umap) umap) res" where
  "recv_data at mt i [] data reg = Inr (data, reg)"
| "recv_data at mt i (b # bs) data reg =
     (let new = \<lparr>sa_bytes = b, sa_addr = at i, sa_src_type = m_src_dev_type mt, sa_src_id = m_src_dev_id mt,
                 sa_dst_type = m_dst_dev_type mt, sa_dst_id = m_dst_dev_id mt\<rparr>
      in if i = 1 \<and> b \<noteq> [] \<and> umap_find reg (m_sender mt) \<noteq> None
         then no_ub (8 \<le> length (sa_bytes (data ! 0))) ''key''
           (let k = u64_of (take 8 (sa_bytes (data ! 0))); buffs = umap_index [] reg (m_sender mt)
            in case umap_find buffs k of
                 None \<Rightarrow> recv_data at mt (Suc i) bs (data @ [new]) reg
               | Some val \<Rightarrow>
                   PS_CHECK (length (sa_bytes val) = length b) ''val.size()''
                    (let val' = val\<lparr>sa_bytes := b\<rparr>
                     in recv_data at mt (Suc i) bs (data @ [val']) (umap_set (m_sender mt) (umap_set k val' buffs) reg)))
         else recv_data at mt (Suc i) bs (data @ [new]) reg)"

definition zmq_RecvMsg :: "(nat \<Rightarrow> 64 word) \<Rightarrow> meta \<Rightarrow> zmq_van \<Rightarrow> (zmq_van \<times> message \<times> int) res" where
  "zmq_RecvMsg at mt v =
     (case zv_recv_buffers v of
        [] \<Rightarrow> Inl (Blocked ''recv_buffers_'')
      | nt # rest \<Rightarrow>
          bindR (UnpackMeta (zv_trace_on v) (put 0 (zb_meta nt) (\<lambda>_. 0)) (int (length (zb_meta nt)))
                  (mt\<lparr>m_recver := n_id (zv_my_node v), m_sender := zb_sender nt\<rparr>)) (\<lambda>mt1.
          bindR (recv_data at mt1 0 (zb_data nt) [] (zv_registered v)) (\<lambda>(data, reg).
            Inr (v\<lparr>zv_recv_buffers := rest, zv_registered := reg\<rparr>, \<lparr>msg_meta = mt1, msg_data = data\<rparr>,
                 to_int32 (int (length (zb_meta nt) + sum_list (map length (zb_data nt))))))))"

section \<open>Identities\<close>

lemma isdigit_digit_char [simp]: "d < 10 \<Longrightarrow> isdigit (digit_char d)"
  by (simp add: isdigit_def digit_char_def)

lemma of_digit_char [simp]: "d < 10 \<Longrightarrow> of_char (digit_char d) = (48 + int d)"
  using of_nat_of_char [where 'a = int, of "digit_char d"] by (simp add: digit_char_def)

lemma node_id_loop_digits: "n + 48 < 2 ^ 31 \<Longrightarrow> node_id_loop (nat_digits n @ cs) 0 = node_id_loop cs (int n)"
proof (induction n arbitrary: cs rule: nat_digits.induct)
  case (1 n)
  show ?case
  proof (cases "n < 10")
    case True
    then show ?thesis by (simp add: nat_digits.simps [of n] no_ub_def int32_def)
  next
    case False
    have "int (n div 10) * 10 + int (n mod 10) = int n" by (metis of_nat_add of_nat_mult of_nat_numeral div_mult_mod_eq)
    moreover have "n div 10 + 48 < 2 ^ 31" using 1(2) by linarith
    ultimately show ?thesis
      using False 1 by (simp add: nat_digits.simps [of n] no_ub_def int32_def)
  qed
qed

lemma GetNodeID_ps:
  assumes "0 \<le> i" and "i + 48 < 2 ^ 31"
  shows "GetNodeID (str_bytes (''ps'' @ to_string i)) = Inr i"
proof -
  have "nat_digits (nat i) \<noteq> []" by (simp add: nat_digits.simps [of "nat i"])
  moreover have "nat i + 48 < 2 ^ 31" using assms by simp
  ultimately show ?thesis
    using assms node_id_loop_digits [of "nat i" "[]"] by (simp add: GetNodeID_def str_bytes_def to_string_def comp_def)
qed

section \<open>The frames of a message\<close>

text \<open>The library takes the next \<open>k\<close> frames, perhaps after interruptions.\<close>

definition accepts :: "nat \<Rightarrow> send_outcome list \<Rightarrow> bool" where
  "accepts k os \<longleftrightarrow> take k (filter (\<lambda>x. x \<noteq> Interrupted) os) = replicate k Sent"

lemma accepts_Suc: "accepts (Suc k) os \<Longrightarrow> \<exists>os'. send_loop os = Some (True, os') \<and> accepts k os'"
  by (induction os rule: send_loop.induct) (auto simp: accepts_def)

fun data_frames :: "sarr list \<Rightarrow> frame list" where
  "data_frames [] = []"
| "data_frames (d # ds) = (sa_bytes d, ds \<noteq> []) # data_frames ds"

definition meta_bytes :: "mem \<Rightarrow> zmq_van \<Rightarrow> meta \<Rightarrow> byte list" where
  "meta_bytes fresh v mt = get 0 (nat (GetPackMetaLen mt)) (put_all (pack_writes (zv_trace_on v) (zv_qp_num v) mt) fresh)"

definition message_frames :: "mem \<Rightarrow> zmq_van \<Rightarrow> message \<Rightarrow> frame list" where
  "message_frames fresh v msg = (meta_bytes fresh v (msg_meta msg), msg_data msg \<noteq> []) # data_frames (msg_data msg)"

definition data_length :: "message \<Rightarrow> int" where
  "data_length msg = int (sum_list (map (\<lambda>d. length (sa_bytes d)) (msg_data msg)))"

text \<open>\<open>v'\<close> is \<open>v\<close> after the frames \<open>fs\<close> went out through the socket \<open>s\<close>.\<close>

definition sent_by :: "nat \<Rightarrow> frame list \<Rightarrow> zmq_van \<Rightarrow> zmq_van \<Rightarrow> bool" where
  "sent_by s fs v v' \<longleftrightarrow> (\<exists>os. v' = (upd_socket s (sk_out_update (\<lambda>out. out @ fs)) v)\<lparr>zv_answers := os\<rparr>)"

lemma sent_by_nil: "sent_by s [] v v"
proof -
  have "sk_out_update (\<lambda>out. out @ []) (zv_sockets v ! s) = zv_sockets v ! s" by (cases "zv_sockets v ! s") simp
  then have "(upd_socket s (sk_out_update (\<lambda>out. out @ [])) v)\<lparr>zv_answers := zv_answers v\<rparr> = v" by (simp only: upd_socket_def list_update_id) simp
  then show ?thesis unfolding sent_by_def by (intro exI [of _ "zv_answers v"]) (rule sym)
qed

lemma sent_by_trans:
  assumes "s < length (zv_sockets v)" and "sent_by s fs v v1" and "sent_by s gs v1 v2"
  shows "sent_by s (fs @ gs) v v2"
proof -
  obtain os where v1: "v1 = (upd_socket s (sk_out_update (\<lambda>out. out @ fs)) v)\<lparr>zv_answers := os\<rparr>" using assms(2) by (auto simp: sent_by_def)
  obtain os' where "v2 = (upd_socket s (sk_out_update (\<lambda>out. out @ gs)) v1)\<lparr>zv_answers := os'\<rparr>" using assms(3) by (auto simp: sent_by_def)
  then have "v2 = (upd_socket s (sk_out_update (\<lambda>out. out @ fs @ gs)) v)\<lparr>zv_answers := os'\<rparr>"
    using assms(1) by (simp add: v1 upd_socket_def comp_def)
  then show ?thesis unfolding sent_by_def by blast
qed

lemma sent_by_sockets:
  assumes "sent_by s fs v v'"
  shows "length (zv_sockets v') = length (zv_sockets v)" "zv_trace_on v' = zv_trace_on v" "zv_qp_num v' = zv_qp_num v"
    "zv_my_node v' = zv_my_node v" "sk_closed (zv_sockets v' ! s) = sk_closed (zv_sockets v ! s)"
proof -
  obtain os where v': "v' = (upd_socket s (sk_out_update (\<lambda>out. out @ fs)) v)\<lparr>zv_answers := os\<rparr>" using assms by (auto simp: sent_by_def)
  show "length (zv_sockets v') = length (zv_sockets v)" "zv_trace_on v' = zv_trace_on v" "zv_qp_num v' = zv_qp_num v"
    "zv_my_node v' = zv_my_node v" by (simp_all add: v' upd_socket_def)
  show "sk_closed (zv_sockets v' ! s) = sk_closed (zv_sockets v ! s)"
    by (cases "s < length (zv_sockets v)") (simp_all add: v' upd_socket_def list_update_beyond)
qed

lemma zmq_msg_send_ok:
  assumes "accepts (Suc k) (zv_answers v)" and "\<not> sk_closed (zv_sockets v ! s)"
  shows "\<exists>v'. zmq_msg_send s f v = Inr (v', True) \<and> sent_by s [f] v v' \<and> accepts k (zv_answers v')"
  using accepts_Suc [OF assms(1)] assms(2) by (auto simp: zmq_msg_send_def sent_by_def)

lemma send_data_ok:
  assumes "accepts (length ds) (zv_answers v)" and "s < length (zv_sockets v)" and "\<not> sk_closed (zv_sockets v ! s)"
    and "0 \<le> n" and "n + int (sum_list (map (\<lambda>d. length (sa_bytes d)) ds)) < 2 ^ 31"
  shows "\<exists>v'. send_data s ds n v = Inr (v', n + int (sum_list (map (\<lambda>d. length (sa_bytes d)) ds))) \<and> sent_by s (data_frames ds) v v'"
  using assms
proof (induction ds arbitrary: n v)
  case Nil
  then show ?case by (simp add: sent_by_nil)
next
  case (Cons d ds)
  obtain v1 where v1: "zmq_msg_send s (sa_bytes d, ds \<noteq> []) v = Inr (v1, True)" "sent_by s [(sa_bytes d, ds \<noteq> [])] v v1"
    "accepts (length ds) (zv_answers v1)"
    using zmq_msg_send_ok [of "length ds" v s "(sa_bytes d, ds \<noteq> [])"] Cons.prems by auto
  have len: "to_int32 (int (length (sa_bytes d))) = int (length (sa_bytes d))" "int32 (n + int (length (sa_bytes d)))"
    using Cons.prems(4,5) by (simp_all add: int32_def)
  obtain v2 where v2: "send_data s ds (n + int (length (sa_bytes d))) v1 = Inr (v2, n + int (length (sa_bytes d)) + int (sum_list (map (\<lambda>d. length (sa_bytes d)) ds)))"
    "sent_by s (data_frames ds) v1 v2"
    using Cons.IH [OF v1(3), of "n + int (length (sa_bytes d))"] Cons.prems sent_by_sockets [OF v1(2)] by auto
  have "send_data s (d # ds) n v = Inr (v2, n + int (sum_list (map (\<lambda>d. length (sa_bytes d)) (d # ds))))"
    using v1(1) v2(1) len by (simp add: no_ub_def)
  moreover have "sent_by s (data_frames (d # ds)) v v2" using sent_by_trans [OF Cons.prems(2) v1(2) v2(2)] by simp
  ultimately show ?case by blast
qed

lemma ZmqSendMsg_ok:
  assumes "accepts (Suc (length (msg_data msg))) (zv_answers v)" and "s < length (zv_sockets v)" and "\<not> sk_closed (zv_sockets v ! s)"
    and fits: "wire_fits (msg_meta msg)" and "nat (zv_qp_num v) \<le> QP_MAX_NUM" and "GetPackMetaLen (msg_meta msg) + data_length msg < 2 ^ 31"
  shows "\<exists>v'. ZmqSendMsg fresh s msg v = Inr (v', GetPackMetaLen (msg_meta msg) + data_length msg) \<and> sent_by s (message_frames fresh v msg) v v'"
proof -
  let ?f = "(meta_bytes fresh v (msg_meta msg), msg_data msg \<noteq> [])"
  obtain v1 where v1: "zmq_msg_send s ?f v = Inr (v1, True)" "sent_by s [?f] v v1" "accepts (length (msg_data msg)) (zv_answers v1)"
    using zmq_msg_send_ok [OF assms(1,3)] by blast
  have "0 \<le> GetPackMetaLen (msg_meta msg)" using GetPackMetaLen_fits [OF fits] by simp
  then obtain v2 where v2: "send_data s (msg_data msg) (GetPackMetaLen (msg_meta msg)) v1 = Inr (v2, GetPackMetaLen (msg_meta msg) + data_length msg)"
    "sent_by s (data_frames (msg_data msg)) v1 v2"
    using send_data_ok [OF v1(3), of s "GetPackMetaLen (msg_meta msg)"] assms(2,3,6) sent_by_sockets [OF v1(2)] by (auto simp: data_length_def)
  have "ZmqSendMsg fresh s msg v = Inr (v2, GetPackMetaLen (msg_meta msg) + data_length msg)"
    using v1(1) v2(1) by (simp add: ZmqSendMsg_def PackMeta_fits [OF assms(5) fits] meta_bytes_def)
  moreover have "sent_by s (message_frames fresh v msg) v v2"
    using sent_by_trans [OF assms(2) v1(2) v2(2)] by (simp add: message_frames_def)
  ultimately show ?thesis by blast
qed

section \<open>A message on its way\<close>

definition seen :: "frame list \<Rightarrow> recv_outcome list \<Rightarrow> recv_outcome list \<Rightarrow> bool" where
  "seen fs os rest \<longleftrightarrow> (\<exists>os1. os = os1 @ rest \<and> filter (\<lambda>x. x \<noteq> Again) os1 = map (\<lambda>(b, mo). Frame b mo) fs)"

lemma recv_frame_seen:
  assumes "seen ((b, mo) # fs) os rest"
  shows "\<exists>os'. recv_frame os = Inr (Some (b, mo), os') \<and> seen fs os' rest"
proof -
  obtain os1 where "os = os1 @ rest" "filter (\<lambda>x. x \<noteq> Again) os1 = Frame b mo # map (\<lambda>(b, mo). Frame b mo) fs"
    using assms by (auto simp: seen_def)
  then show ?thesis
  proof (induction os1 arbitrary: os)
    case (Cons x os1)
    then show ?case by (cases "x = Again") (auto simp: seen_def)
  qed simp
qed

lemma recv_parts_seen:
  assumes "seen ((b, ds \<noteq> []) # data_frames ds) os rest"
  shows "\<exists>os'. recv_parts os = Inr (Some (b # map sa_bytes ds), os') \<and> seen [] os' rest"
  using assms
proof (induction ds arbitrary: b os)
  case Nil
  obtain os' where "recv_frame os = Inr (Some (b, False), os')" "seen [] os' rest" using recv_frame_seen Nil by fastforce
  then show ?case by (simp add: recv_parts.simps [of os])
next
  case (Cons d ds)
  obtain os' where os': "recv_frame os = Inr (Some (b, True), os')" "seen (data_frames (d # ds)) os' rest"
    using recv_frame_seen [of b True "data_frames (d # ds)" os rest] Cons.prems by auto
  obtain os2 where "recv_parts os' = Inr (Some (sa_bytes d # map sa_bytes ds), os2)" "seen [] os2 rest"
    using Cons.IH [of "sa_bytes d" os'] os'(2) by auto
  then show ?case using os'(1) by (simp add: recv_parts.simps [of os])
qed

lemma recv_message_seen:
  assumes "seen ((str_bytes (''ps'' @ to_string i), True) # (b, ds \<noteq> []) # data_frames ds) os rest"
    and "0 \<le> i" and "i + 48 < 2 ^ 31"
  shows "\<exists>os'. recv_message os = Inr (Some \<lparr>zb_sender = i, zb_meta = b, zb_data = map sa_bytes ds\<rparr>, os') \<and> seen [] os' rest"
proof -
  obtain os1 where os1: "recv_frame os = Inr (Some (str_bytes (''ps'' @ to_string i), True), os1)" "seen ((b, ds \<noteq> []) # data_frames ds) os1 rest"
    using recv_frame_seen [OF assms(1)] by blast
  obtain os2 where "recv_parts os1 = Inr (Some (b # map sa_bytes ds), os2)" "seen [] os2 rest"
    using recv_parts_seen [OF os1(2)] by blast
  then show ?thesis
    using GetNodeID_ps [OF assms(2,3)] by (simp add: recv_message_def os1(1))
qed

text \<open>A buffer that the receiver registered for the sender and the key of the message has the length of the payload.\<close>

definition buffer_fits :: "(int, (key, sarr) umap) umap \<Rightarrow> int \<Rightarrow> byte list list \<Rightarrow> bool" where
  "buffer_fits reg sender bs \<longleftrightarrow>
     (case bs of k # b # _ \<Rightarrow>
        umap_find reg sender = None \<or> b = [] \<or>
        8 \<le> length k \<and> pred_option (\<lambda>val. length (sa_bytes val) = length b) (umap_find (umap_index [] reg sender) (u64_of (take 8 k)))
      | _ \<Rightarrow> True)"

lemma recv_data_rest:
  "2 \<le> i \<Longrightarrow> \<exists>data'. recv_data at mt i bs data reg = Inr (data', reg) \<and> map sa_bytes data' = map sa_bytes data @ bs"
proof (induction bs arbitrary: i data)
  case (Cons b bs)
  define new where "new = \<lparr>sa_bytes = b, sa_addr = at i, sa_src_type = m_src_dev_type mt, sa_src_id = m_src_dev_id mt,
    sa_dst_type = m_dst_dev_type mt, sa_dst_id = m_dst_dev_id mt\<rparr>"
  have "recv_data at mt i (b # bs) data reg = recv_data at mt (Suc i) bs (data @ [new]) reg"
    using Cons.prems by (simp add: Let_def new_def)
  moreover have "sa_bytes new = b" by (simp add: new_def)
  ultimately show ?case using Cons.IH [of "Suc i" "data @ [new]"] Cons.prems by simp
qed simp

lemma recv_data_ok:
  assumes "buffer_fits reg (m_sender mt) bs"
  shows "\<exists>data' reg'. recv_data at mt 0 bs [] reg = Inr (data', reg') \<and> map sa_bytes data' = bs"
proof (cases bs)
  case (Cons k cs)
  show ?thesis
  proof (cases cs)
    case (Cons b ds)
    note bs = \<open>bs = k # cs\<close> Cons
    let ?new = "\<lambda>i b. \<lparr>sa_bytes = b, sa_addr = at i, sa_src_type = m_src_dev_type mt, sa_src_id = m_src_dev_id mt,
      sa_dst_type = m_dst_dev_type mt, sa_dst_id = m_dst_dev_id mt\<rparr>"
    have rest: "\<exists>data'. recv_data at mt 2 ds [?new 0 k, x] reg' = Inr (data', reg') \<and> map sa_bytes data' = k # sa_bytes x # ds" for x reg'
      using recv_data_rest [of 2 at mt ds "[?new 0 k, x]" reg'] by simp
    consider "umap_find reg (m_sender mt) = None \<or> b = [] \<or> 8 \<le> length k \<and> umap_find (umap_index [] reg (m_sender mt)) (u64_of (take 8 k)) = None"
      | val where "umap_find reg (m_sender mt) \<noteq> None" "b \<noteq> []" "8 \<le> length k"
        "umap_find (umap_index [] reg (m_sender mt)) (u64_of (take 8 k)) = Some val" "length (sa_bytes val) = length b"
      using assms by (cases "umap_find (umap_index [] reg (m_sender mt)) (u64_of (take 8 k))"; cases "umap_find reg (m_sender mt)")
        (auto simp: buffer_fits_def bs)
    then show ?thesis
    proof cases
      case 1
      then show ?thesis using rest [of "?new 1 b" reg] by (auto simp: bs Let_def no_ub_def numeral_2_eq_2)
    next
      case 2
      then show ?thesis
        using rest [of "val\<lparr>sa_bytes := b\<rparr>" "umap_set (m_sender mt) (umap_set (u64_of (take 8 k)) (val\<lparr>sa_bytes := b\<rparr>)
          (umap_index [] reg (m_sender mt))) reg"] by (auto simp: bs Let_def no_ub_def numeral_2_eq_2)
    qed
  qed (simp add: Cons Let_def)
qed simp

lemma zmq_RecvMsg_ok:
  assumes nt: "zv_recv_buffers w = \<lparr>zb_sender = i, zb_meta = meta_bytes fresh v mt, zb_data = bs\<rparr> # rest"
    and typed: "meta_typed mt" and fits: "wire_fits mt" and qp: "nat (zv_qp_num v) \<le> QP_MAX_NUM" and tr: "zv_trace_on w = zv_trace_on v"
    and buf: "buffer_fits (zv_registered w) i bs" and len: "GetPackMetaLen mt + int (sum_list (map length bs)) < 2 ^ 31"
  shows "\<exists>w' data. zmq_RecvMsg at Meta0 w = Inr (w', \<lparr>msg_meta = (wire_view (zv_trace_on v) mt)\<lparr>m_recver := n_id (zv_my_node w), m_sender := i\<rparr>, msg_data = data\<rparr>,
      GetPackMetaLen mt + int (sum_list (map length bs))) \<and> map sa_bytes data = bs \<and> zv_recv_buffers w' = rest"
proof -
  let ?mt = "(wire_view (zv_trace_on v) mt)\<lparr>m_recver := n_id (zv_my_node w), m_sender := i\<rparr>"
  have n: "0 \<le> GetPackMetaLen mt" using GetPackMetaLen_fits [OF fits] by simp
  then have l: "int (length (meta_bytes fresh v mt)) = GetPackMetaLen mt" by (simp add: meta_bytes_def)
  have "UnpackMeta (zv_trace_on w) (put 0 (meta_bytes fresh v mt) (\<lambda>_. 0)) (GetPackMetaLen mt) Meta0 = Inr (wire_view (zv_trace_on v) mt)"
    unfolding tr by (rule UnpackMeta_packed [OF _ typed fits refl refl]) (use qp in \<open>simp_all add: QP_MAX_NUM_def meta_bytes_def\<close>)
  then have un: "UnpackMeta (zv_trace_on w) (put 0 (meta_bytes fresh v mt) (\<lambda>_. 0)) (GetPackMetaLen mt)
      (Meta0\<lparr>m_recver := n_id (zv_my_node w), m_sender := i\<rparr>) = Inr ?mt"
    by (simp add: UnpackMeta_ids)
  obtain data reg' where data: "recv_data at ?mt 0 bs [] (zv_registered w) = Inr (data, reg')" "map sa_bytes data = bs"
    using recv_data_ok [of "zv_registered w" ?mt bs at] buf by auto
  have "to_int32 (GetPackMetaLen mt + int (sum_list (map length bs))) = GetPackMetaLen mt + int (sum_list (map length bs))"
    using len n by (simp add: int32_def)
  then show ?thesis using un data l by (simp add: zmq_RecvMsg_def nt)
qed

text \<open>
  What the library documents of its sockets: a \<^verbatim>\<open>ROUTER\<close> socket puts a frame with the identity of the peer before the frames
  a \<^verbatim>\<open>DEALER\<close> socket sent; it takes the first frame it is given to send as the identity of the peer and delivers the others.
\<close>

definition zmq_documented :: "(socket_kind \<Rightarrow> byte list option \<Rightarrow> frame list \<Rightarrow> frame list) \<Rightarrow> bool" where
  "zmq_documented arrive \<longleftrightarrow> (\<forall>i fs. arrive DEALER (Some i) fs = (i, True) # fs) \<and> (\<forall>i f fs. arrive ROUTER i (f # fs) = fs)"

text \<open>A data message from a server or the scheduler to a worker goes through the receiving socket.\<close>

definition via_receiver :: "zmq_van \<Rightarrow> message \<Rightarrow> bool" where
  "via_receiver v msg \<longleftrightarrow> \<not> zv_is_worker v \<and> \<not> m_simple_app (msg_meta msg) \<and> control_empty (m_control (msg_meta msg)) \<and>
     GetRoleFromId (m_recver (msg_meta msg)) = WORKER"

definition can_send :: "zmq_van \<Rightarrow> message \<Rightarrow> nat \<Rightarrow> bool" where
  "can_send v msg s \<longleftrightarrow> m_recver (msg_meta msg) \<noteq> kEmpty \<and> umap_find (zv_senders v) (m_recver (msg_meta msg)) \<noteq> None \<and>
     (if via_receiver v msg then zv_receiver v = Some s \<and> sk_kind (zv_sockets v ! s) = ROUTER
      else umap_find (zv_senders v) (m_recver (msg_meta msg)) = Some s \<and> sk_kind (zv_sockets v ! s) = DEALER \<and>
           sk_identity (zv_sockets v ! s) = Some (str_bytes (''ps'' @ to_string (n_id (zv_my_node v))))) \<and>
     s < length (zv_sockets v) \<and> \<not> sk_closed (zv_sockets v ! s) \<and> accepts (3 + length (msg_data msg)) (zv_answers v) \<and>
     0 \<le> n_id (zv_my_node v) \<and> n_id (zv_my_node v) + 48 < 2 ^ 31 \<and> nat (zv_qp_num v) \<le> QP_MAX_NUM"

definition new_frames :: "nat \<Rightarrow> zmq_van \<Rightarrow> zmq_van \<Rightarrow> frame list" where
  "new_frames s v v' = drop (length (sk_out (zv_sockets v ! s))) (sk_out (zv_sockets v' ! s))"

lemma new_frames_sent_by: "s < length (zv_sockets v) \<Longrightarrow> sent_by s fs v v' \<Longrightarrow> new_frames s v v' = fs"
  by (auto simp: sent_by_def new_frames_def upd_socket_def)

lemma accepts_mono: "accepts n os \<Longrightarrow> k \<le> n \<Longrightarrow> accepts k os"
  unfolding accepts_def by (metis min.absorb1 take_replicate take_take)

lemma send_id_ok:
  assumes "accepts (Suc k) (zv_answers v)" and "\<not> sk_closed (zv_sockets v ! s)"
  shows "\<exists>v'. send_id s i v = Inr v' \<and> sent_by s [(str_bytes (''ps'' @ to_string i), True)] v v' \<and> accepts k (zv_answers v')"
  using zmq_msg_send_ok [OF assms, of "(str_bytes (''ps'' @ to_string i), True)"] by (auto simp: send_id_def)

lemma zmq_SendMsg_ok:
  assumes can: "can_send v msg s" and fits: "wire_fits (msg_meta msg)" and len: "GetPackMetaLen (msg_meta msg) + data_length msg < 2 ^ 31"
  shows "\<exists>v'. zmq_SendMsg fresh msg v = Inr (v', GetPackMetaLen (msg_meta msg) + data_length msg) \<and>
    new_frames s v v' = (if via_receiver v msg
      then [(str_bytes (''ps'' @ to_string (m_recver (msg_meta msg))), True), (str_bytes (''ps'' @ to_string (n_id (zv_my_node v))), True)]
      else []) @ message_frames fresh v msg"
proof -
  have c: "m_recver (msg_meta msg) \<noteq> kEmpty" "s < length (zv_sockets v)" "\<not> sk_closed (zv_sockets v ! s)" "nat (zv_qp_num v) \<le> QP_MAX_NUM"
    "accepts (Suc (Suc (Suc (length (msg_data msg))))) (zv_answers v)"
    using can by (simp_all add: can_send_def numeral_3_eq_3)
  show ?thesis
  proof (cases "via_receiver v msg")
    case False
    then have s: "umap_find (zv_senders v) (m_recver (msg_meta msg)) = Some s" using can by (simp add: can_send_def)
    obtain v' where v': "ZmqSendMsg fresh s msg v = Inr (v', GetPackMetaLen (msg_meta msg) + data_length msg)" "sent_by s (message_frames fresh v msg) v v'"
      using ZmqSendMsg_ok [OF _ c(2,3) fits c(4) len] accepts_mono [OF c(5), of "Suc (length (msg_data msg))"] by auto
    then have "zmq_SendMsg fresh msg v = Inr (v', GetPackMetaLen (msg_meta msg) + data_length msg)"
      using False c(1) s by (auto simp: zmq_SendMsg_def NonWorkerSendMsg_def via_receiver_def Let_def)
    then show ?thesis using False new_frames_sent_by [OF c(2) v'(2)] by simp
  next
    case True
    then obtain s0 where s: "umap_find (zv_senders v) (m_recver (msg_meta msg)) = Some s0" "zv_receiver v = Some s" using can by (auto simp: can_send_def)
    obtain v1 where v1: "send_id s (m_recver (msg_meta msg)) v = Inr v1" "accepts (Suc (Suc (length (msg_data msg)))) (zv_answers v1)"
      "sent_by s [(str_bytes (''ps'' @ to_string (m_recver (msg_meta msg))), True)] v v1"
      using send_id_ok [OF c(5,3)] by blast
    obtain v2 where v2: "send_id s (n_id (zv_my_node v1)) v1 = Inr v2" "accepts (Suc (length (msg_data msg))) (zv_answers v2)"
      "sent_by s [(str_bytes (''ps'' @ to_string (n_id (zv_my_node v1))), True)] v1 v2"
      using send_id_ok [OF v1(2), of s] c(3) sent_by_sockets [OF v1(3)] by auto
    note same = sent_by_sockets [OF v1(3)] sent_by_sockets [OF v2(3)]
    have "s < length (zv_sockets v2)" "\<not> sk_closed (zv_sockets v2 ! s)" "nat (zv_qp_num v2) \<le> QP_MAX_NUM" using c same by simp_all
    then obtain v' where v': "ZmqSendMsg fresh s msg v2 = Inr (v', GetPackMetaLen (msg_meta msg) + data_length msg)"
      "sent_by s (message_frames fresh v2 msg) v2 v'"
      using ZmqSendMsg_ok [OF v2(2)] fits len by blast
    have frames: "message_frames fresh v2 msg = message_frames fresh v msg" using same by (simp add: message_frames_def meta_bytes_def)
    have "zmq_SendMsg fresh msg v = Inr (v', GetPackMetaLen (msg_meta msg) + data_length msg)"
      using True c(1) s v1(1) v2(1) v'(1) by (auto simp: zmq_SendMsg_def NonWorkerSendMsg_def via_receiver_def Let_def)
    moreover have "sent_by s ([(str_bytes (''ps'' @ to_string (m_recver (msg_meta msg))), True), (str_bytes (''ps'' @ to_string (n_id (zv_my_node v))), True)] @
        message_frames fresh v msg) v v'"
      using sent_by_trans [OF c(2) sent_by_trans [OF c(2) v1(3) v2(3)] v'(2)] same(4) frames by simp
    ultimately show ?thesis using True new_frames_sent_by [OF c(2)] by auto
  qed
qed

lemma zmq_frames_received:
  assumes seen: "seen ((str_bytes (''ps'' @ to_string i), True) # message_frames fresh v msg) os rest"
    and i: "0 \<le> i" "i + 48 < 2 ^ 31" and qp: "nat (zv_qp_num v) \<le> QP_MAX_NUM"
    and typed: "meta_typed (msg_meta msg)" and fits: "wire_fits (msg_meta msg)" and len: "GetPackMetaLen (msg_meta msg) + data_length msg < 2 ^ 31"
    and recv: "\<not> zv_should_stop w" "zv_recv_buffers w = []" "zv_trace_on w = zv_trace_on v" "buffer_fits (zv_registered w) i (map sa_bytes (msg_data msg))"
  shows "\<exists>w1 os1 w2 data. CallZmqRecvThread_turn os w = Inr (w1, True, os1) \<and> seen [] os1 rest \<and>
    zmq_RecvMsg at Meta0 w1 = Inr (w2, \<lparr>msg_meta = (wire_view (zv_trace_on v) (msg_meta msg))\<lparr>m_recver := n_id (zv_my_node w), m_sender := i\<rparr>, msg_data = data\<rparr>,
      GetPackMetaLen (msg_meta msg) + data_length msg) \<and>
    map sa_bytes data = map sa_bytes (msg_data msg)"
proof -
  let ?ctx = "\<lparr>zb_sender = i, zb_meta = meta_bytes fresh v (msg_meta msg), zb_data = map sa_bytes (msg_data msg)\<rparr>"
  obtain os1 where os1: "recv_message os = Inr (Some ?ctx, os1)" "seen [] os1 rest"
    using recv_message_seen [OF _ i] seen unfolding message_frames_def by blast
  define w1 where "w1 = w\<lparr>zv_recv_buffers := [?ctx]\<rparr>"
  have turn: "CallZmqRecvThread_turn os w = Inr (w1, True, os1)" using recv(1,2) os1(1) by (simp add: CallZmqRecvThread_turn_def w1_def)
  have total: "int (sum_list (map length (map sa_bytes (msg_data msg)))) = data_length msg" by (simp add: data_length_def comp_def)
  have "zv_recv_buffers w1 = ?ctx # []" "zv_trace_on w1 = zv_trace_on v" "buffer_fits (zv_registered w1) i (map sa_bytes (msg_data msg))"
    using recv by (simp_all add: w1_def)
  from zmq_RecvMsg_ok [OF this(1) typed fits qp this(2,3), of at] len show ?thesis
    using turn os1(2) unfolding total by (auto simp: w1_def)
qed

lemma zmq_delivery:
  assumes lib: "zmq_documented arrive" and can: "can_send v msg s" and typed: "meta_typed (msg_meta msg)" and fits: "wire_fits (msg_meta msg)"
    and len: "GetPackMetaLen (msg_meta msg) + data_length msg < 2 ^ 31"
    and recv: "\<not> zv_should_stop w" "zv_recv_buffers w = []" "zv_trace_on w = zv_trace_on v"
      "buffer_fits (zv_registered w) (n_id (zv_my_node v)) (map sa_bytes (msg_data msg))"
  shows "\<exists>v' n. zmq_SendMsg fresh msg v = Inr (v', n) \<and>
    (\<forall>os rest. seen (arrive (sk_kind (zv_sockets v ! s)) (sk_identity (zv_sockets v ! s)) (new_frames s v v')) os rest \<longrightarrow>
      (\<exists>w1 os1 w2 data. CallZmqRecvThread_turn os w = Inr (w1, True, os1) \<and> seen [] os1 rest \<and>
         zmq_RecvMsg at Meta0 w1 = Inr (w2, \<lparr>msg_meta = (wire_view (zv_trace_on v) (msg_meta msg))
             \<lparr>m_recver := n_id (zv_my_node w), m_sender := n_id (zv_my_node v)\<rparr>, msg_data = data\<rparr>, n) \<and>
         map sa_bytes data = map sa_bytes (msg_data msg)))"
proof -
  let ?n = "GetPackMetaLen (msg_meta msg) + data_length msg" let ?i = "n_id (zv_my_node v)"
  obtain v' where v': "zmq_SendMsg fresh msg v = Inr (v', ?n)" "new_frames s v v' = (if via_receiver v msg
      then [(str_bytes (''ps'' @ to_string (m_recver (msg_meta msg))), True), (str_bytes (''ps'' @ to_string ?i), True)]
      else []) @ message_frames fresh v msg"
    using zmq_SendMsg_ok [OF can fits len] by blast
  have fs: "arrive (sk_kind (zv_sockets v ! s)) (sk_identity (zv_sockets v ! s)) (new_frames s v v') = (str_bytes (''ps'' @ to_string ?i), True) #
      message_frames fresh v msg"
    using lib can v'(2) by (auto simp: zmq_documented_def can_send_def)
  have i: "0 \<le> ?i" "?i + 48 < 2 ^ 31" "nat (zv_qp_num v) \<le> QP_MAX_NUM" using can by (simp_all add: can_send_def)
  show ?thesis
    by (rule exI [of _ v'], rule exI [of _ ?n], rule conjI, rule v'(1), unfold fs, intro allI impI,
        rule zmq_frames_received [OF _ i typed fits len recv])
qed

text \<open>
  C14: A message sent over ZeroMQ arrives.  Whatever interruptions there are, \<^verbatim>\<open>SendMsg\<close> sends all frames; a receive thread
  that sees them, perhaps polling in vain in between, queues one message, and \<^verbatim>\<open>RecvMsg\<close> returns it: the header with
  every field the wire format carries, the id of the sender, the own id, the payload bytes (in the registered buffer, if there is one), and the
  number of bytes that \<^verbatim>\<open>SendMsg\<close> returned.  This holds on both routes, from a \<^verbatim>\<open>DEALER\<close> to a \<^verbatim>\<open>ROUTER\<close> socket and back.
\<close>
theorem zmq_message_arrives:
  assumes lib: "zmq_documented arrive" and can: "can_send v msg s" and typed: "meta_typed (msg_meta msg)" and fits: "wire_fits (msg_meta msg)"
    and len: "GetPackMetaLen (msg_meta msg) + data_length msg < 2 ^ 31"
    and recv: "\<not> zv_should_stop w" "zv_recv_buffers w = []" "zv_trace_on w = zv_trace_on v"
      "buffer_fits (zv_registered w) (n_id (zv_my_node v)) (map sa_bytes (msg_data msg))"
  shows "\<exists>v' n. zmq_SendMsg fresh msg v = Inr (v', n) \<and>
    (\<forall>os rest. seen (arrive (sk_kind (zv_sockets v ! s)) (sk_identity (zv_sockets v ! s)) (new_frames s v v')) os rest \<longrightarrow>
      (\<exists>w1 os1 w2 data. CallZmqRecvThread_turn os w = Inr (w1, True, os1) \<and> seen [] os1 rest \<and>
         zmq_RecvMsg at Meta0 w1 = Inr (w2, \<lparr>msg_meta = (wire_view (zv_trace_on v) (msg_meta msg))
             \<lparr>m_recver := n_id (zv_my_node w), m_sender := n_id (zv_my_node v)\<rparr>, msg_data = data\<rparr>, n) \<and>
         map sa_bytes data = map sa_bytes (msg_data msg)))"
  by (rule zmq_delivery [OF assms])

definition sample_zmq :: "bool \<Rightarrow> node \<Rightarrow> zmq_van" where
  "sample_zmq worker n = \<lparr>zv_my_node = n, zv_trace_on = False, zv_qp_num = 2, zv_context = True, zv_max_sockets = 1024, zv_io_threads = 4,
     zv_senders = [(9, 1)], zv_receiver = Some 0, zv_is_worker = worker, zv_standalone = False, zv_should_stop = False, zv_recv_buffers = [],
     zv_threads = [0], zv_registered = [],
     zv_sockets = [\<lparr>sk_kind = ROUTER, sk_identity = None, sk_addr = None, sk_closed = False, sk_out = []\<rparr>,
       \<lparr>sk_kind = DEALER, sk_identity = None, sk_addr = Some ''tcp://b:1'', sk_closed = False, sk_out = []\<rparr>],
     zv_answers = [Sent, Interrupted, Sent, Sent, Sent]\<rparr>"

definition sample_reply :: message where
  "sample_reply = \<lparr>msg_meta = Meta0\<lparr>m_recver := 9, m_timestamp := 4\<rparr>,
     msg_data = [\<lparr>sa_bytes = [1, 2, 3], sa_addr = 64, sa_src_type = CPU, sa_src_id = 0, sa_dst_type = CPU, sa_dst_id = 0\<rparr>]\<rparr>"

theorem zmq_message_arrives_witness:
  "\<exists>v' n. zmq_SendMsg (\<lambda>_. 255) sample_reply (sample_zmq False (example_node\<lparr>n_id := 8, n_role := SERVER\<rparr>)) = Inr (v', n) \<and>
     (\<exists>w1 os1 w2 mt data. CallZmqRecvThread_turn (Again # map (\<lambda>(b, mo). Frame b mo)
            (tl (new_frames 0 (sample_zmq False (example_node\<lparr>n_id := 8, n_role := SERVER\<rparr>)) v'))) (sample_zmq True example_node) = Inr (w1, True, os1) \<and>
        zmq_RecvMsg (\<lambda>_. 0) Meta0 w1 = Inr (w2, \<lparr>msg_meta = mt, msg_data = data\<rparr>, n) \<and>
        m_sender mt = 8 \<and> m_recver mt = 9 \<and> m_timestamp mt = 4 \<and> map sa_bytes data = [[1, 2, 3]])"
proof -
  define arrive :: "socket_kind \<Rightarrow> byte list option \<Rightarrow> frame list \<Rightarrow> frame list"
    where "arrive = (\<lambda>k i fs. case k of DEALER \<Rightarrow> (case i of Some b \<Rightarrow> (b, True) # fs | None \<Rightarrow> fs) | ROUTER \<Rightarrow> tl fs)"
  let ?v = "sample_zmq False (example_node\<lparr>n_id := 8, n_role := SERVER\<rparr>)" and ?w = "sample_zmq True example_node"
  have lib: "zmq_documented arrive" by (simp add: zmq_documented_def arrive_def)
  have can: "can_send ?v sample_reply 0"
    by (simp add: can_send_def via_receiver_def sample_zmq_def sample_reply_def Meta0_def Control0_def control_empty_def GetRoleFromId_def kEmpty_def
        umap_find_def accepts_def QP_MAX_NUM_def numeral_eq_Suc)
  have typed: "meta_typed (msg_meta sample_reply)" "wire_fits (msg_meta sample_reply)"
    by (simp_all add: sample_reply_def meta_typed_def wire_fits_def Meta0_def Control0_def int32_def int8_def kEmpty_def)
  have len: "GetPackMetaLen (msg_meta sample_reply) + data_length sample_reply < 2 ^ 31"
    using GetPackMetaLen_fits [OF typed(2)] by (simp add: sample_reply_def data_length_def Meta0_def Control0_def)
  have recv: "\<not> zv_should_stop ?w" "zv_recv_buffers ?w = []" "zv_trace_on ?w = zv_trace_on ?v"
    "buffer_fits (zv_registered ?w) (n_id (zv_my_node ?v)) (map sa_bytes (msg_data sample_reply))"
    by (simp_all add: sample_zmq_def sample_reply_def buffer_fits_def)
  have kind: "sk_kind (zv_sockets ?v ! 0) = ROUTER" by (simp add: sample_zmq_def)
  have ids: "n_id (zv_my_node ?v) = 8" "n_id (zv_my_node ?w) = 9" "zv_trace_on ?v = False" by (simp_all add: sample_zmq_def example_node_def)
  obtain v' n where v': "zmq_SendMsg (\<lambda>_. 255) sample_reply ?v = Inr (v', n)" and all: "\<forall>os rest. seen (tl (new_frames 0 ?v v')) os rest \<longrightarrow>
      (\<exists>w1 os1 w2 data. CallZmqRecvThread_turn os ?w = Inr (w1, True, os1) \<and> seen [] os1 rest \<and>
         zmq_RecvMsg (\<lambda>_. 0) Meta0 w1 = Inr (w2, \<lparr>msg_meta = (wire_view False (msg_meta sample_reply))\<lparr>m_recver := 9, m_sender := 8\<rparr>, msg_data = data\<rparr>, n) \<and>
         map sa_bytes data = map sa_bytes (msg_data sample_reply))"
    using zmq_message_arrives [OF lib can typed len recv, of "\<lambda>_. 255" "\<lambda>_. 0"] unfolding kind ids by (auto simp: arrive_def)
  have "seen (tl (new_frames 0 ?v v')) (Again # map (\<lambda>(b, mo). Frame b mo) (tl (new_frames 0 ?v v'))) []"
    by (simp add: seen_def) (simp add: filter_map comp_def split_def)
  from all [rule_format, OF this] v' show ?thesis
    by (fastforce simp: wire_view_def sample_reply_def)
qed

section \<open>Sockets over time\<close>

lemma zmq_close_simps [simp]:
  "zv_my_node (zmq_close s v) = zv_my_node v" "zv_standalone (zmq_close s v) = zv_standalone v" "zv_is_worker (zmq_close s v) = zv_is_worker v"
  "zv_senders (zmq_close s v) = zv_senders v" "zv_threads (zmq_close s v) = zv_threads v" "zv_should_stop (zmq_close s v) = zv_should_stop v"
  "length (zv_sockets (zmq_close s v)) = length (zv_sockets v)"
  by (simp_all add: zmq_close_def upd_socket_def)

text \<open>
  A socket that \<^verbatim>\<open>Connect\<close> opens once the own id is known carries that id as its identity.
\<close>

lemma zmq_Connect_identity:
  assumes "zmq_Connect lib e n v = Inr v'" and "n_id (zv_my_node v) \<noteq> kEmpty"
    and "n_role n \<noteq> n_role (zv_my_node v) \<or> n_id n = n_id (zv_my_node v) \<or> zv_standalone v"
  shows "umap_find (zv_senders v') (n_id n) = Some (length (zv_sockets v)) \<and> length (zv_sockets v') = Suc (length (zv_sockets v)) \<and>
    sk_kind (zv_sockets v' ! length (zv_sockets v)) = DEALER \<and> \<not> sk_closed (zv_sockets v' ! length (zv_sockets v)) \<and>
    sk_identity (zv_sockets v' ! length (zv_sockets v)) = Some (str_bytes (''ps'' @ to_string (n_id (zv_my_node v))))"
  using assms
  by (auto simp: zmq_Connect_def Let_def PS_CHECK_eq_Inr zmq_socket_def upd_socket_def nth_append split: option.splits if_splits)

text \<open>
  When a worker connects again to a node it has a socket to, the old socket is closed and the new one is read by no thread: the
  replies of that node are never seen, and the thread of the old socket reads a closed one.
\<close>

theorem zmq_reconnect_unread:
  assumes "zmq_Connect lib e n v = Inr v'" and "zv_is_worker v" and "n_id (zv_my_node v) \<noteq> kEmpty" and "n_role n \<noteq> n_role (zv_my_node v)"
    and "umap_find (zv_senders v) (n_id n) = Some s" and "s < length (zv_sockets v)" and "\<forall>t\<in>set (zv_threads v). t < length (zv_sockets v)"
  shows "sk_closed (zv_sockets v' ! s) \<and> zv_threads v' = zv_threads v \<and>
    (\<exists>s'. umap_find (zv_senders v') (n_id n) = Some s' \<and> s' \<notin> set (zv_threads v'))"
  using assms
  by (auto simp: zmq_Connect_def Let_def PS_CHECK_eq_Inr zmq_socket_def upd_socket_def zmq_close_def nth_append split: option.splits if_splits)

text \<open>
  \<^verbatim>\<open>Stop\<close> sets \<^verbatim>\<open>should_stop_\<close> and nothing clears it: after a stop and a new start the receive threads end at once.
\<close>

lemma zmq_Stop_should_stop: "zmq_Stop v = Inr v1 \<Longrightarrow> zv_should_stop v1"
  by (auto simp: zmq_Stop_def split: option.splits if_splits)

theorem zmq_restart_deaf:
  assumes "zmq_Stop v = Inr v1" and "zmq_Start lib e standalone v1 = Inr v2" and "zmq_Bind lib e rand n max_retry (v2\<lparr>zv_my_node := my\<rparr>) = Inr (v3, port)"
  shows "CallZmqRecvThread_turn os v3 = Inr (v3, False, os)"
proof -
  have "zv_should_stop v2" using assms(2) zmq_Stop_should_stop [OF assms(1)] by (auto simp: zmq_Start_def PS_CHECK_eq_Inr)
  then have "zv_should_stop v3" using assms(3) by (auto simp: zmq_Bind_def Let_def zmq_socket_def PS_CHECK_eq_Inr bindR_eq_Inr)
  then show ?thesis by (simp add: CallZmqRecvThread_turn_def)
qed

text \<open>
  \<^verbatim>\<open>Bind\<close> returns a port it could bind, the wanted one if possible, and gives up only after all attempts.
\<close>

lemma bind_loop_ok:
  "bind_loop ok addr i rs port = Inr p \<Longrightarrow> \<exists>k \<le> length rs. ok (i + k) (addr @ to_string p) \<and>
     p = (case k of 0 \<Rightarrow> port | Suc j \<Rightarrow> 10000 + int (rs ! j mod 40000))"
proof (induction rs arbitrary: i port)
  case (Cons r rs)
  show ?case
  proof (cases "ok i (addr @ to_string port)")
    case True
    then show ?thesis using Cons.prems by (intro exI [of _ 0]) auto
  next
    case False
    then obtain k where k: "k \<le> length rs" "ok (Suc i + k) (addr @ to_string p)" "p = (case k of 0 \<Rightarrow> 10000 + int (r mod 40000) | Suc j \<Rightarrow> 10000 + int (rs ! j mod 40000))"
      using Cons.IH [of "Suc i" "10000 + int (r mod 40000)"] Cons.prems by auto
    then show ?thesis by (intro exI [of _ "Suc k"]) (auto split: nat.splits)
  qed
qed (auto split: if_splits)

end
