(* ===== verification/MultiVan.thy ===== *)
theory MultiVan
  imports ZmqVan
begin

text \<open>
  \<^verbatim>\<open>src/multi_van.h\<close>: several ZeroMQ vans, one per port, behind one van.  A child van is addressed by a managed id, which
  is made of the id of the node and the index of the child.
\<close>

section \<open>Managed ids\<close>

definition ID_OFFSET :: int where "ID_OFFSET = 1000000"
definition MAX_NUM_IDS :: int where "MAX_NUM_IDS = 1000"

definition EncodeManagedID :: "int \<Rightarrow> int \<Rightarrow> int res" where
  "EncodeManagedID i index =
     (if i = kEmpty then Inr kEmpty
      else PS_CHECK (i < MAX_NUM_IDS) ''id < MAX_NUM_IDS''
        (no_ub (int32 (index * MAX_NUM_IDS) \<and> int32 (ID_OFFSET + i) \<and> int32 (ID_OFFSET + i + index * MAX_NUM_IDS)) ''managed id''
          (Inr (ID_OFFSET + i + index * MAX_NUM_IDS))))"

definition DecodeMangedID :: "int \<Rightarrow> int res" where
  "DecodeMangedID managed_id =
     (if managed_id = kEmpty then Inr managed_id
      else no_ub (int32 (managed_id - ID_OFFSET)) ''managed id'' (Inr ((managed_id - ID_OFFSET) smod MAX_NUM_IDS)))"

section \<open>State\<close>

record multi_context =
  mc_msg_len :: int
  mc_src_idx :: nat
  mc_msg :: message

record multi_van =
  mv_my_node :: node
  mv_should_stop :: bool
  mv_is_scheduler :: bool
  mv_num_ports :: int
  mv_vans :: "zmq_van list"
  mv_my_nodes :: "node list"
  mv_recv_buffers :: "multi_context list"
  mv_threads :: "nat list"

text \<open>A call of the child van \<open>i\<close>.\<close>

definition child :: "nat \<Rightarrow> (zmq_van \<Rightarrow> (zmq_van \<times> 'a) res) \<Rightarrow> multi_van \<Rightarrow> (multi_van \<times> 'a) res" where
  "child i f v = bindR (vec_get (mv_vans v) (int i)) (\<lambda>z. bindR (f z) (\<lambda>(z1, x). Inr (v\<lparr>mv_vans := (mv_vans v)[i := z1]\<rparr>, x)))"

definition resize :: "nat \<Rightarrow> 'a \<Rightarrow> 'a list \<Rightarrow> 'a list" where
  "resize n x xs = take n xs @ replicate (n - length xs) x"

abbreviation arr_set :: "nat \<Rightarrow> 'a \<Rightarrow> 'a list \<Rightarrow> 'a list" where
  "arr_set i x xs \<equiv> xs[i := x]"

section \<open>Start and stop\<close>

text \<open>\<open>z0\<close> is a new ZeroMQ van.  \<^verbatim>\<open>Van::Start\<close> runs after this.\<close>

definition multi_Start :: "zmq_library \<Rightarrow> environment \<Rightarrow> zmq_van \<Rightarrow> multi_van \<Rightarrow> multi_van res" where
  "multi_Start lib e z0 v =
     (case env_find e ''DMLC_ROLE'' of
        None \<Rightarrow> Inl (Undefined ''std::string(nullptr)'')
      | Some role \<Rightarrow>
          let is_scheduler = (role = ''scheduler'');
              num_ports = (case env_find e ''DMLC_NUM_PORTS'' of Some s \<Rightarrow> if is_scheduler then 1 else atoi s | None \<Rightarrow> 1)
          in foldR (\<lambda>i v. bindR (zmq_Start lib e True z0) (\<lambda>z. Inr (v\<lparr>mv_vans := mv_vans v @ [z]\<rparr>)))
               [0..<nat num_ports] (v\<lparr>mv_should_stop := False, mv_is_scheduler := is_scheduler, mv_num_ports := num_ports\<rparr>))"

text \<open>After \<^verbatim>\<open>Van::Stop\<close>: a message to every child, then the children stop.\<close>

definition multi_Stop :: "mem \<Rightarrow> multi_van \<Rightarrow> multi_van res" where
  "multi_Stop fresh v =
     bindR (foldR (\<lambda>i v.
         bindR (vec_get (mv_my_nodes v) (int i)) (\<lambda>n.
         bindR (child i (zmq_SendMsg fresh (Message0\<lparr>msg_meta := Meta0\<lparr>m_control := Control0\<lparr>c_cmd := TERMINATE\<rparr>, m_recver := n_id n\<rparr>\<rparr>)) v)
           (\<lambda>(v1, n). Inr v1)))
       [0..<nat (mv_num_ports v)] (v\<lparr>mv_should_stop := True\<rparr>)) (\<lambda>v1.
     foldR (\<lambda>i v. bindR (child i (\<lambda>z. bindR (zmq_Stop z) (\<lambda>z1. Inr (z1, ()))) v) (\<lambda>(v1, u). Inr v1)) [0..<length (mv_vans v1)] v1)"

section \<open>Bind, connect and names\<close>

definition bind_child :: "zmq_library \<Rightarrow> environment \<Rightarrow> (nat \<Rightarrow> nat \<Rightarrow> nat) \<Rightarrow> int \<Rightarrow> nat \<Rightarrow> node \<times> multi_van \<Rightarrow> (node \<times> multi_van) res" where
  "bind_child lib e rand max_retry i nv =
     (let (n, v) = nv
      in bindR (vec_get (n_ports n) (int i)) (\<lambda>port.
         bindR (EncodeManagedID (n_id n) (int i)) (\<lambda>managed.
         let one_node = n\<lparr>n_id := managed, n_num_ports := 1, n_ports := arr_set 0 port (n_ports n), n_port := n_port n,
                          n_dev_types := arr_set i (enum_code DeviceTypes CPU) (n_dev_types n), n_dev_ids := arr_set i (int i) (n_dev_ids n)\<rparr>
         in bindR (child i (zmq_Bind lib e (rand i) one_node max_retry) v) (\<lambda>(v1, bound_port).
              Inr (n\<lparr>n_dev_types := arr_set i (enum_code DeviceTypes CPU) (n_dev_types n), n_dev_ids := arr_set i (int i) (n_dev_ids n),
                     n_ports := arr_set i bound_port (n_ports n)\<rparr>,
                   v1\<lparr>mv_my_nodes := (mv_my_nodes v1)[i := one_node], mv_threads := mv_threads v1 @ [i]\<rparr>)))))"

definition multi_Bind :: "zmq_library \<Rightarrow> environment \<Rightarrow> (nat \<Rightarrow> nat \<Rightarrow> nat) \<Rightarrow> node \<Rightarrow> node \<Rightarrow> int \<Rightarrow> multi_van \<Rightarrow> (multi_van \<times> node \<times> int) res" where
  "multi_Bind lib e rand node0 n max_retry v =
     PS_CHECK (n_num_ports n = mv_num_ports v) ''node.num_ports''
      (bindR (foldR (bind_child lib e rand max_retry) [0..<nat (mv_num_ports v)]
               (n, v\<lparr>mv_my_nodes := resize (nat (mv_num_ports v)) node0 (mv_my_nodes v)\<rparr>)) (\<lambda>(n1, v1).
        bindR (vec_get (n_ports n1) 0) (\<lambda>port. Inr (v1, n1, port))))"

definition multi_Connect :: "zmq_library \<Rightarrow> environment \<Rightarrow> node \<Rightarrow> multi_van \<Rightarrow> multi_van res" where
  "multi_Connect lib e n v =
     PS_CHECK (n_id n \<noteq> kEmpty) ''node.id'' (PS_CHECK (n_port n \<noteq> kEmpty) ''node.port'' (PS_CHECK (n_hostname n \<noteq> []) ''node.hostname''
      (if n_role n = n_role (mv_my_node v) \<and> n_id n \<noteq> n_id (mv_my_node v) then Inr v
       else foldR (\<lambda>(i, j) v.
              bindR (EncodeManagedID (n_id n) (int j)) (\<lambda>managed.
              bindR (vec_get (n_ports n) (int j)) (\<lambda>port.
              let one_node = n\<lparr>n_id := managed, n_num_ports := 1, n_port := port, n_ports := arr_set 0 port (n_ports n)\<rparr>
              in bindR (child i (\<lambda>z. bindR (zmq_Connect lib e one_node z) (\<lambda>z1. Inr (z1, ()))) v) (\<lambda>(v1, u). Inr v1))))
            (List.product [0..<nat (mv_num_ports v)] [0..<nat (n_num_ports n)]) v)))"

definition child_node :: "node \<Rightarrow> nat \<Rightarrow> node res" where
  "child_node n i =
     bindR (EncodeManagedID (n_id n) (int i)) (\<lambda>managed.
     bindR (vec_get (n_ports n) (int i)) (\<lambda>port.
     bindR (vec_get (n_dev_types n) (int i)) (\<lambda>ty.
     bindR (vec_get (n_dev_ids n) (int i)) (\<lambda>dev.
       Inr (n\<lparr>n_id := managed, n_num_ports := 1, n_ports := arr_set 0 port (n_ports n), n_port := port,
              n_dev_types := arr_set 0 ty (n_dev_types n), n_dev_ids := arr_set 0 dev (n_dev_ids n)\<rparr>)))))"

definition name_child :: "node \<Rightarrow> nat \<Rightarrow> multi_van \<Rightarrow> multi_van res" where
  "name_child n i v =
     bindR (child_node n i) (\<lambda>one_node.
     bindR (child i (\<lambda>z. Inr (z\<lparr>zv_my_node := one_node\<rparr>, ())) v) (\<lambda>(v1, u). Inr (v1\<lparr>mv_my_nodes := (mv_my_nodes v1)[i := one_node]\<rparr>)))"

definition multi_SetNode :: "node \<Rightarrow> node \<Rightarrow> multi_van \<Rightarrow> multi_van res" where
  "multi_SetNode node0 n v =
     foldR (name_child n) [0..<nat (mv_num_ports v)]
       (v\<lparr>mv_my_node := n, mv_my_nodes := resize (nat (mv_num_ports v)) node0 (mv_my_nodes v)\<rparr>)"

section \<open>Messages\<close>

text \<open>The child a message leaves from and the child it goes to: the devices of a payload, 0 for other messages.\<close>

definition src_dst :: "message \<Rightarrow> multi_van \<Rightarrow> (int \<times> int) res" where
  "src_dst msg v =
     (if IsValidPushpull msg \<and> length (msg_data msg) = 3
      then let data = msg_data msg ! 1; src_idx = sa_src_id data
           in PS_CHECK (sa_src_type data = CPU) ''src_device_type_'' (PS_CHECK (sa_dst_type data = CPU) ''dst_device_type_''
              (bindR (vec_get (mv_my_nodes v) src_idx) (\<lambda>n.
               bindR (vec_get (n_dev_types n) 0) (\<lambda>ty. bindR (vec_get (n_dev_ids n) 0) (\<lambda>dev.
               PS_CHECK (ty = enum_code DeviceTypes (sa_src_type data)) ''dev_types[0]''
               (PS_CHECK (dev = sa_src_id data) ''dev_ids[0]'' (Inr (src_idx, sa_dst_id data))))))))
      else Inr (0, 0))"

definition multi_SendMsg :: "mem \<Rightarrow> message \<Rightarrow> multi_van \<Rightarrow> (multi_van \<times> int) res" where
  "multi_SendMsg fresh msg v =
     PS_CHECK (m_recver (msg_meta msg) \<noteq> kEmpty) ''remote_id''
      (bindR (src_dst msg v) (\<lambda>(src_idx, dst_idx).
       bindR (vec_get (mv_vans v) src_idx) (\<lambda>z.
       bindR (EncodeManagedID (m_sender (msg_meta msg)) src_idx) (\<lambda>sender.
       bindR (EncodeManagedID (m_recver (msg_meta msg)) dst_idx) (\<lambda>recver.
       child (nat src_idx) (zmq_SendMsg fresh (upd_meta (\<lambda>mt. mt\<lparr>m_sender := sender, m_recver := recver\<rparr>) msg)) v)))))"

definition multi_RegisterRecvBuffer :: "message \<Rightarrow> multi_van \<Rightarrow> multi_van res" where
  "multi_RegisterRecvBuffer msg v =
     PS_CHECK (length (msg_data msg) = 3) ''msg.data.size()''
      (bindR (EncodeManagedID (m_sender (msg_meta msg)) (sa_src_id (msg_data msg ! 1))) (\<lambda>sender.
       bindR (vec_get (mv_vans v) (sa_dst_id (msg_data msg ! 1))) (\<lambda>z.
       bindR (zmq_RegisterRecvBuffer (upd_meta (\<lambda>mt. mt\<lparr>m_sender := sender\<rparr>) msg) z) (\<lambda>z1.
         Inr (v\<lparr>mv_vans := (mv_vans v)[nat (sa_dst_id (msg_data msg ! 1)) := z1]\<rparr>)))))"

text \<open>One turn of a polling thread; \<open>False\<close>: the thread ends.\<close>

definition PollingThread_turn :: "(nat \<Rightarrow> 64 word) \<Rightarrow> nat \<Rightarrow> multi_van \<Rightarrow> (multi_van \<times> bool) res" where
  "PollingThread_turn at index v =
     (if mv_should_stop v then Inr (v, False)
      else bindR (child index (\<lambda>z. bindR (zmq_RecvMsg at Meta0 z) (\<lambda>(z1, msg, n). Inr (z1, (msg, n)))) v) (\<lambda>(v1, msg, recv_bytes).
             Inr (v1\<lparr>mv_recv_buffers := mv_recv_buffers v1 @ [\<lparr>mc_msg_len = recv_bytes, mc_src_idx = index, mc_msg = msg\<rparr>]\<rparr>, True)))"

definition multi_RecvMsg :: "multi_van \<Rightarrow> (multi_van \<times> message \<times> int) res" where
  "multi_RecvMsg v =
     (case mv_recv_buffers v of
        [] \<Rightarrow> Inl (Blocked ''recv_buffers_'')
      | ctx # rest \<Rightarrow>
          bindR (DecodeMangedID (m_sender (msg_meta (mc_msg ctx)))) (\<lambda>sender.
          bindR (DecodeMangedID (m_recver (msg_meta (mc_msg ctx)))) (\<lambda>recver.
            Inr (v\<lparr>mv_recv_buffers := rest\<rparr>, upd_meta (\<lambda>mt. mt\<lparr>m_sender := sender, m_recver := recver\<rparr>) (mc_msg ctx), mc_msg_len ctx))))"

section \<open>Properties: managed ids\<close>

lemma EncodeManagedID_ok:
  "0 \<le> i \<Longrightarrow> i < 1000 \<Longrightarrow> 0 \<le> k \<Longrightarrow> k \<le> 2146482 \<Longrightarrow> EncodeManagedID i k = Inr (1000000 + i + k * 1000)"
  by (simp add: EncodeManagedID_def kEmpty_def PS_CHECK_def no_ub_def MAX_NUM_IDS_def ID_OFFSET_def int32_def)

lemma DecodeMangedID_ok:
  assumes "0 \<le> i" and "i < 1000" and "0 \<le> k" and "k \<le> 2146482"
  shows "DecodeMangedID (1000000 + i + k * 1000) = Inr i"
proof -
  have "(i + k * 1000) smod 1000 = i" using assms by (simp add: signed_modulo_int_def sgn_if mod_add_right_eq)
  then show ?thesis using assms by (simp add: DecodeMangedID_def kEmpty_def no_ub_def MAX_NUM_IDS_def ID_OFFSET_def int32_def)
qed

lemma Encode_Decode:
  assumes "0 \<le> i" and "i < 1000" and "0 \<le> k" and "k \<le> 2146482" and "EncodeManagedID i k = Inr m"
  shows "DecodeMangedID m = Inr i"
  using assms DecodeMangedID_ok [OF assms(1-4)] by (simp add: EncodeManagedID_ok)

text \<open>
  C36: The managed id of a child van determines the node and the child: it decodes to the id of the node, different children of
  different nodes have different managed ids, and none is the empty id.  A ZeroMQ van takes a managed id for a worker's if
  the id of the node is odd and for a server's otherwise: the role of the node exactly for the ids from 8 on, which
  workers and servers have; the scheduler, whose id is 1, passes for a worker.
\<close>
theorem managed_id_roundtrip:
  assumes "0 \<le> i" "i < 1000" "0 \<le> k" "k \<le> 2146482" "0 \<le> j" "j < 1000" "0 \<le> l" "l \<le> 2146482"
  shows "\<exists>m n. EncodeManagedID i k = Inr m \<and> EncodeManagedID j l = Inr n \<and> DecodeMangedID m = Inr i \<and> m \<noteq> kEmpty \<and>
    (m = n \<longleftrightarrow> i = j \<and> k = l) \<and> GetRoleFromId m = (if odd i then WORKER else SERVER) \<and>
    (GetRoleFromId m = GetRoleFromId i \<longleftrightarrow> 8 \<le> i)"
proof -
  have "i = j" if "1000000 + i + k * 1000 = 1000000 + j + l * 1000"
    using DecodeMangedID_ok [OF assms(1-4)] DecodeMangedID_ok [OF assms(5-8)] that by simp
  then have "(1000000 + i + k * 1000 = 1000000 + j + l * 1000) \<longleftrightarrow> i = j \<and> k = l" by auto
  moreover have "GetRoleFromId (1000000 + i + k * 1000) = (if odd i then WORKER else SERVER)"
  proof -
    have "(1000000 + i + k * 1000) mod 2 = i mod 2" by presburger
    then show ?thesis using assms by (simp add: GetRoleFromId_def odd_iff_mod_2_eq_one)
  qed
  moreover have "(if odd i then WORKER else SERVER) = GetRoleFromId i \<longleftrightarrow> 8 \<le> i"
    by (auto simp: GetRoleFromId_def odd_iff_mod_2_eq_one)
  ultimately show ?thesis using assms by (simp add: EncodeManagedID_ok DecodeMangedID_ok kEmpty_def)
qed

theorem managed_id_roundtrip_witness:
  "\<exists>m n. EncodeManagedID 9 3 = Inr m \<and> EncodeManagedID 1 3 = Inr n \<and> DecodeMangedID m = Inr 9 \<and> m \<noteq> n \<and>
     GetRoleFromId m = GetRoleFromId 9"
  using managed_id_roundtrip [of 9 3 1 3] by auto

section \<open>Properties: messages\<close>

text \<open>Every child van carries its managed id, as \<^verbatim>\<open>SetNode\<close> leaves it.\<close>

definition named :: "multi_van \<Rightarrow> bool" where
  "named v \<longleftrightarrow> nat (mv_num_ports v) \<le> length (mv_vans v) \<and>
     (\<forall>i < nat (mv_num_ports v). EncodeManagedID (n_id (mv_my_node v)) (int i) = Inr (n_id (zv_my_node (mv_vans v ! i))))"

lemma child_node_id: "child_node n i = Inr m \<Longrightarrow> EncodeManagedID (n_id n) (int i) = Inr (n_id m)"
  by (auto simp: child_node_def bindR_eq_Inr)

lemma name_child_ok:
  assumes "name_child n i u = Inr u'"
  shows "mv_num_ports u' = mv_num_ports u" "mv_my_node u' = mv_my_node u" "length (mv_vans u') = length (mv_vans u)" "i < length (mv_vans u)"
    "EncodeManagedID (n_id n) (int i) = Inr (n_id (zv_my_node (mv_vans u' ! i)))" "j \<noteq> i \<Longrightarrow> mv_vans u' ! j = mv_vans u ! j"
  using assms child_node_id by (auto simp: name_child_def bindR_eq_Inr child_def vec_get_eq_Inr)

lemma name_children_ok:
  assumes "foldR (name_child n) [0..<k] u = Inr u'"
  shows "mv_num_ports u' = mv_num_ports u \<and> mv_my_node u' = mv_my_node u \<and> length (mv_vans u') = length (mv_vans u) \<and> k \<le> length (mv_vans u) \<and>
      (\<forall>i<k. EncodeManagedID (n_id n) (int i) = Inr (n_id (zv_my_node (mv_vans u' ! i))))"
  using assms
proof (induction k arbitrary: u')
  case (Suc k)
  then obtain u1 where u1: "foldR (name_child n) [0..<k] u = Inr u1" "name_child n k u1 = Inr u'" by (auto simp: foldR_append bindR_eq_Inr)
  show ?case using Suc.IH [OF u1(1)] name_child_ok [OF u1(2)] by (simp add: less_Suc_eq)
qed simp

lemma multi_SetNode_named: "multi_SetNode node0 n v = Inr v' \<Longrightarrow> named v'"
  unfolding multi_SetNode_def by (drule name_children_ok) (simp add: named_def)

lemma wire_view_ids: "wire_view tr (mt\<lparr>m_sender := a, m_recver := b\<rparr>) = wire_view tr mt"
  by (simp add: wire_view_def)

lemma typed_ids:
  "meta_typed (mt\<lparr>m_sender := a, m_recver := b\<rparr>) = meta_typed mt" "wire_fits (mt\<lparr>m_sender := a, m_recver := b\<rparr>) = wire_fits mt"
  "GetPackMetaLen (mt\<lparr>m_sender := a, m_recver := b\<rparr>) = GetPackMetaLen mt"
  by (simp_all add: meta_typed_def wire_fits_def GetPackMetaLen_def)

lemma multi_SendMsg_child:
  assumes "m_recver (msg_meta msg) \<noteq> kEmpty" and "src_dst msg V = Inr (int i, int j)" and "i < length (mv_vans V)"
    and "EncodeManagedID (m_sender (msg_meta msg)) (int i) = Inr sender" and "EncodeManagedID (m_recver (msg_meta msg)) (int j) = Inr recver"
    and "zmq_SendMsg fresh (upd_meta (\<lambda>mt. mt\<lparr>m_sender := sender, m_recver := recver\<rparr>) msg) (mv_vans V ! i) = Inr (z, n)"
  shows "multi_SendMsg fresh msg V = Inr (V\<lparr>mv_vans := (mv_vans V)[i := z]\<rparr>, n)"
  using assms by (simp add: multi_SendMsg_def child_def)

text \<open>What a polling thread and \<^verbatim>\<open>RecvMsg\<close> make of a message that a child van received.\<close>

lemma multi_received:
  assumes "zmq_RecvMsg at Meta0 w1 = Inr (w2, \<lparr>msg_meta = mt\<lparr>m_recver := r, m_sender := s\<rparr>, msg_data = data\<rparr>, n)"
    and "j < length (mv_vans W)" and "\<not> mv_should_stop W" and "mv_recv_buffers W = []"
    and "DecodeMangedID r = Inr r'" and "DecodeMangedID s = Inr s'"
  shows "\<exists>W1 W2. PollingThread_turn at j (W\<lparr>mv_vans := (mv_vans W)[j := w1]\<rparr>) = Inr (W1, True) \<and>
    multi_RecvMsg W1 = Inr (W2, \<lparr>msg_meta = mt\<lparr>m_recver := r', m_sender := s'\<rparr>, msg_data = data\<rparr>, n)"
  using assms by (simp add: PollingThread_turn_def child_def multi_RecvMsg_def)

text \<open>
  C15: A message sent through a multi van arrives at the multi van it is for.  It leaves by the child of its source device for the child
  of its destination device; the receive thread of that child, its polling thread and \<^verbatim>\<open>RecvMsg\<close> give
  back the message with the ids of the nodes, not the managed ids, as sender and receiver, the payload unchanged, and
  the number of bytes that \<^verbatim>\<open>SendMsg\<close> returned.
\<close>
theorem multi_message_arrives:
  assumes lib: "zmq_documented arrive" and names: "named V" "named W" and ports: "i < nat (mv_num_ports V)" "j < nat (mv_num_ports W)" "j \<le> 2146482" "i \<le> 2146482"
    and ids: "0 \<le> n_id (mv_my_node V)" "n_id (mv_my_node V) < 1000" "0 \<le> n_id (mv_my_node W)" "n_id (mv_my_node W) < 1000"
    and route: "src_dst msg V = Inr (int i, int j)" "m_recver (msg_meta msg) = n_id (mv_my_node W)"
      "EncodeManagedID (m_sender (msg_meta msg)) (int i) = Inr sender"
    and can: "can_send (mv_vans V ! i) (upd_meta (\<lambda>mt. mt\<lparr>m_sender := sender, m_recver := n_id (zv_my_node (mv_vans W ! j))\<rparr>) msg) s"
    and typed: "meta_typed (msg_meta msg)" "wire_fits (msg_meta msg)" "GetPackMetaLen (msg_meta msg) + data_length msg < 2 ^ 31"
    and recv: "\<not> zv_should_stop (mv_vans W ! j)" "zv_recv_buffers (mv_vans W ! j) = []" "zv_trace_on (mv_vans W ! j) = zv_trace_on (mv_vans V ! i)"
      "buffer_fits (zv_registered (mv_vans W ! j)) (n_id (zv_my_node (mv_vans V ! i))) (map sa_bytes (msg_data msg))"
    and multi: "\<not> mv_should_stop W" "mv_recv_buffers W = []"
  shows "\<exists>V' n. multi_SendMsg fresh msg V = Inr (V', n) \<and>
    (\<forall>os rest. seen (arrive (sk_kind (zv_sockets (mv_vans V ! i) ! s)) (sk_identity (zv_sockets (mv_vans V ! i) ! s))
        (new_frames s (mv_vans V ! i) (mv_vans V' ! i))) os rest \<longrightarrow>
      (\<exists>w1 os1 W1 W2 data. CallZmqRecvThread_turn os (mv_vans W ! j) = Inr (w1, True, os1) \<and>
         PollingThread_turn at j (W\<lparr>mv_vans := (mv_vans W)[j := w1]\<rparr>) = Inr (W1, True) \<and>
         multi_RecvMsg W1 = Inr (W2, \<lparr>msg_meta = (wire_view (zv_trace_on (mv_vans V ! i)) (msg_meta msg))
             \<lparr>m_recver := n_id (mv_my_node W), m_sender := n_id (mv_my_node V)\<rparr>, msg_data = data\<rparr>, n) \<and>
         map sa_bytes data = map sa_bytes (msg_data msg)))"
proof -
  let ?z = "mv_vans V ! i" and ?w = "mv_vans W ! j"
  let ?msg = "upd_meta (\<lambda>mt. mt\<lparr>m_sender := sender, m_recver := n_id (zv_my_node ?w)\<rparr>) msg"
  have enc: "EncodeManagedID (n_id (mv_my_node V)) (int i) = Inr (n_id (zv_my_node ?z))" "EncodeManagedID (n_id (mv_my_node W)) (int j) = Inr (n_id (zv_my_node ?w))"
    and len: "i < length (mv_vans V)" "j < length (mv_vans W)"
    using names ports by (auto simp: named_def)
  have dec: "DecodeMangedID (n_id (zv_my_node ?z)) = Inr (n_id (mv_my_node V))" "DecodeMangedID (n_id (zv_my_node ?w)) = Inr (n_id (mv_my_node W))"
    using Encode_Decode [OF ids(1,2) _ _ enc(1)] Encode_Decode [OF ids(3,4) _ _ enc(2)] ports(3,4) by simp_all
  have t: "meta_typed (msg_meta ?msg)" "wire_fits (msg_meta ?msg)" "GetPackMetaLen (msg_meta ?msg) + data_length ?msg < 2 ^ 31"
    "buffer_fits (zv_registered ?w) (n_id (zv_my_node ?z)) (map sa_bytes (msg_data ?msg))"
    using typed recv(4) by (simp_all add: typed_ids data_length_def)
  obtain z' n where z': "zmq_SendMsg fresh ?msg ?z = Inr (z', n)" and arrives: "\<forall>os rest.
      seen (arrive (sk_kind (zv_sockets ?z ! s)) (sk_identity (zv_sockets ?z ! s)) (new_frames s ?z z')) os rest \<longrightarrow>
      (\<exists>w1 os1 w2 data. CallZmqRecvThread_turn os ?w = Inr (w1, True, os1) \<and> seen [] os1 rest \<and>
         zmq_RecvMsg at Meta0 w1 = Inr (w2, \<lparr>msg_meta = (wire_view (zv_trace_on ?z) (msg_meta ?msg))
             \<lparr>m_recver := n_id (zv_my_node ?w), m_sender := n_id (zv_my_node ?z)\<rparr>, msg_data = data\<rparr>, n) \<and>
         map sa_bytes data = map sa_bytes (msg_data ?msg))"
    using zmq_delivery [OF lib can t(1-3) recv(1-3) t(4)] by blast
  let ?V = "V\<lparr>mv_vans := (mv_vans V)[i := z']\<rparr>"
  have "m_recver (msg_meta msg) \<noteq> kEmpty" using route(2) ids(4) by (simp add: kEmpty_def)
  from multi_SendMsg_child [OF this route(1) len(1) route(3) enc(2) [folded route(2)] z'] have sent: "multi_SendMsg fresh msg V = Inr (?V, n)" .
  have "\<exists>w1 os1 W1 W2 data. CallZmqRecvThread_turn os ?w = Inr (w1, True, os1) \<and> PollingThread_turn at j (W\<lparr>mv_vans := (mv_vans W)[j := w1]\<rparr>) = Inr (W1, True) \<and>
         multi_RecvMsg W1 = Inr (W2, \<lparr>msg_meta = (wire_view (zv_trace_on ?z) (msg_meta msg))
             \<lparr>m_recver := n_id (mv_my_node W), m_sender := n_id (mv_my_node V)\<rparr>, msg_data = data\<rparr>, n) \<and> map sa_bytes data = map sa_bytes (msg_data msg)"
    if "seen (arrive (sk_kind (zv_sockets ?z ! s)) (sk_identity (zv_sockets ?z ! s)) (new_frames s ?z (mv_vans ?V ! i))) os rest" for os rest
  proof -
    have "seen (arrive (sk_kind (zv_sockets ?z ! s)) (sk_identity (zv_sockets ?z ! s)) (new_frames s ?z z')) os rest" using that len(1) by simp
    from arrives [rule_format, OF this] obtain w1 os1 w2 data where "CallZmqRecvThread_turn os ?w = Inr (w1, True, os1)" "map sa_bytes data = map sa_bytes (msg_data msg)"
      "zmq_RecvMsg at Meta0 w1 = Inr (w2, \<lparr>msg_meta = (wire_view (zv_trace_on ?z) (msg_meta msg))
             \<lparr>m_recver := n_id (zv_my_node ?w), m_sender := n_id (zv_my_node ?z)\<rparr>, msg_data = data\<rparr>, n)"
      by (auto simp: wire_view_ids)
    with multi_received [OF this(3) len(2) multi dec(2,1)] show ?thesis by blast
  qed
  with sent show ?thesis by blast
qed

definition sample_multi :: "int \<Rightarrow> Role \<Rightarrow> multi_van" where
  "sample_multi i role = \<lparr>mv_my_node = example_node\<lparr>n_id := i, n_role := role\<rparr>, mv_should_stop = False, mv_is_scheduler = False, mv_num_ports = 1,
     mv_vans = [(sample_zmq (role = WORKER) (example_node\<lparr>n_id := 1000000 + i, n_role := role\<rparr>))\<lparr>zv_senders := [(1000009, 1)]\<rparr>],
     mv_my_nodes = [example_node\<lparr>n_id := 1000000 + i, n_role := role\<rparr>], mv_recv_buffers = [], mv_threads = [0]\<rparr>"

theorem multi_message_arrives_witness:
  "\<exists>V' n. multi_SendMsg (\<lambda>_. 255) sample_reply (sample_multi 8 SERVER) = Inr (V', n) \<and>
     (\<exists>w1 os1 W1 W2 mt data. CallZmqRecvThread_turn (map (\<lambda>(b, mo). Frame b mo)
            (tl (new_frames 0 (mv_vans (sample_multi 8 SERVER) ! 0) (mv_vans V' ! 0)))) (mv_vans (sample_multi 9 WORKER) ! 0) = Inr (w1, True, os1) \<and>
        PollingThread_turn (\<lambda>_. 0) 0 ((sample_multi 9 WORKER)\<lparr>mv_vans := [w1]\<rparr>) = Inr (W1, True) \<and>
        multi_RecvMsg W1 = Inr (W2, \<lparr>msg_meta = mt, msg_data = data\<rparr>, n) \<and> m_sender mt = 8 \<and> m_recver mt = 9 \<and> map sa_bytes data = [[1, 2, 3]])"
proof -
  define arrive :: "socket_kind \<Rightarrow> byte list option \<Rightarrow> frame list \<Rightarrow> frame list"
    where "arrive = (\<lambda>k i fs. case k of DEALER \<Rightarrow> (case i of Some b \<Rightarrow> (b, True) # fs | None \<Rightarrow> fs) | ROUTER \<Rightarrow> tl fs)"
  let ?V = "sample_multi 8 SERVER" and ?W = "sample_multi 9 WORKER"
  have lib: "zmq_documented arrive" by (simp add: zmq_documented_def arrive_def)
  have names: "named ?V" "named ?W" by (simp_all add: named_def sample_multi_def sample_zmq_def EncodeManagedID_ok)
  have ids: "n_id (mv_my_node ?V) = 8" "n_id (mv_my_node ?W) = 9" "n_id (zv_my_node (mv_vans ?W ! 0)) = 1000009" "zv_trace_on (mv_vans ?V ! 0) = False"
    "length (mv_vans ?W) = 1"
    by (simp_all add: sample_multi_def sample_zmq_def)
  have route: "src_dst sample_reply ?V = Inr (int 0, int 0)" "m_recver (msg_meta sample_reply) = n_id (mv_my_node ?W)"
    "EncodeManagedID (m_sender (msg_meta sample_reply)) (int 0) = Inr kEmpty"
    by (simp_all add: src_dst_def sample_reply_def sample_multi_def Meta0_def EncodeManagedID_def)
  have can: "can_send (mv_vans ?V ! 0) (upd_meta (\<lambda>mt. mt\<lparr>m_sender := kEmpty, m_recver := n_id (zv_my_node (mv_vans ?W ! 0))\<rparr>) sample_reply) 0"
    unfolding ids
    by (simp add: can_send_def via_receiver_def sample_multi_def sample_zmq_def sample_reply_def Meta0_def Control0_def control_empty_def GetRoleFromId_def kEmpty_def
        umap_find_def accepts_def QP_MAX_NUM_def numeral_3_eq_3)
  have typed: "meta_typed (msg_meta sample_reply)" "wire_fits (msg_meta sample_reply)"
    by (simp_all add: sample_reply_def meta_typed_def wire_fits_def Meta0_def Control0_def int32_def int8_def kEmpty_def)
  have len: "GetPackMetaLen (msg_meta sample_reply) + data_length sample_reply < 2 ^ 31"
    using GetPackMetaLen_fits [OF typed(2)] by (simp add: sample_reply_def data_length_def Meta0_def Control0_def)
  have recv: "\<not> zv_should_stop (mv_vans ?W ! 0)" "zv_recv_buffers (mv_vans ?W ! 0) = []" "zv_trace_on (mv_vans ?W ! 0) = zv_trace_on (mv_vans ?V ! 0)"
    "buffer_fits (zv_registered (mv_vans ?W ! 0)) (n_id (zv_my_node (mv_vans ?V ! 0))) (map sa_bytes (msg_data sample_reply))"
    "\<not> mv_should_stop ?W" "mv_recv_buffers ?W = []" "0 < nat (mv_num_ports ?V)" "0 < nat (mv_num_ports ?W)"
    by (simp_all add: sample_multi_def sample_zmq_def sample_reply_def buffer_fits_def)
  have kind: "sk_kind (zv_sockets (mv_vans ?V ! 0) ! 0) = ROUTER" by (simp add: sample_multi_def sample_zmq_def)
  have "0 \<le> n_id (mv_my_node ?V)" "n_id (mv_my_node ?V) < 1000" "0 \<le> n_id (mv_my_node ?W)" "n_id (mv_my_node ?W) < 1000" by (simp_all add: ids)
  from multi_message_arrives [OF lib names recv(7,8) _ _ this route can typed len recv(1-6), of "\<lambda>_. 255" "\<lambda>_. 0"]
  obtain V' n where V': "multi_SendMsg (\<lambda>_. 255) sample_reply ?V = Inr (V', n)" and all: "\<forall>os rest.
      seen (tl (new_frames 0 (mv_vans ?V ! 0) (mv_vans V' ! 0))) os rest \<longrightarrow>
      (\<exists>w1 os1 W1 W2 data. CallZmqRecvThread_turn os (mv_vans ?W ! 0) = Inr (w1, True, os1) \<and>
         PollingThread_turn (\<lambda>_. 0) 0 (?W\<lparr>mv_vans := (mv_vans ?W)[0 := w1]\<rparr>) = Inr (W1, True) \<and>
         multi_RecvMsg W1 = Inr (W2, \<lparr>msg_meta = (wire_view False (msg_meta sample_reply))\<lparr>m_recver := 9, m_sender := 8\<rparr>, msg_data = data\<rparr>, n) \<and>
         map sa_bytes data = map sa_bytes (msg_data sample_reply))"
    unfolding kind ids by (auto simp: arrive_def)
  have one: "(mv_vans ?W)[0 := w] = [w]" for w by (simp add: sample_multi_def)
  have "seen (tl (new_frames 0 (mv_vans ?V ! 0) (mv_vans V' ! 0))) (map (\<lambda>(b, mo). Frame b mo) (tl (new_frames 0 (mv_vans ?V ! 0) (mv_vans V' ! 0)))) []"
    by (simp add: seen_def filter_map comp_def split_def)
  from all [rule_format, OF this] V' show ?thesis unfolding one by (fastforce simp: sample_reply_def)
qed

end
