(* ===== verification/PsApi.thy ===== *)
theory PsApi
  imports Postoffice
begin

text \<open>
  \<^verbatim>\<open>include/ps/ps.h\<close>: which postoffices of the process \<^verbatim>\<open>StartPS\<close> starts and \<^verbatim>\<open>Finalize\<close> ends.  Of \<^verbatim>\<open>Postoffice::Start\<close>
  the part up to the start of the van is run, and the call is recorded with its arguments; a call of
  \<^verbatim>\<open>Postoffice::Finalize\<close> is recorded.  The threads of a joint process or of a group work on different postoffices; they are
  run in the order in which they are created.
\<close>

section \<open>Roles\<close>

definition GetRole :: "string \<Rightarrow> Role res" where
  "GetRole role_str =
     (if role_str = ''worker'' then Inr WORKER
      else if role_str = ''server'' then Inr SERVER
      else if role_str = ''scheduler'' then Inr SCHEDULER
      else if role_str = ''joint'' then Inr JOINT
      else Inl (CheckFailed ''Unexpected role''))"

definition MyRank :: "po_static \<Rightarrow> (postoffice \<Rightarrow> int) \<Rightarrow> int res" where
  "MyRank st my_rank = bindR (Postoffice_Get st) (\<lambda>po. no_ub (po_group_size po \<noteq> 0) ''group_size'' (Inr (my_rank po sdiv po_group_size po)))"

section \<open>Start\<close>









section \<open>Finalize\<close>





definition GetNodeRank :: "environment \<Rightarrow> int" where
  "GetNodeRank e = fst (env_find_int e ''DMLC_NODE_RANK'' (-1))"


definition GetGpuId :: "environment \<Rightarrow> int" where
  "GetGpuId e = fst (env_find_int e ''STEPMESH_GPU'' 0)"

section \<open>Properties\<close>




















end
