(* ===== verification/Spec2Isabelle.thy ===== *)
theory Spec2Isabelle
  imports Env Barriers Membership KVStore AFEndToEnd Queues HashRefine SimpleApp RdmaEndToEnd
    IpcTransport MultiVan PsApi
begin

text \<open>
  StepMesh, a parameter server for tensors: a verification library.

  \<^bold>\<open>The program.\<close>  Processes are workers, servers or the scheduler.  Each has a postoffice (\<^verbatim>\<open>src/postoffice.cc\<close>),
  which knows the nodes, and vans (\<^verbatim>\<open>src/van.cc\<close> with a transport such as \<^verbatim>\<open>src/rdma_van.h\<close>), which move
  messages.  The scheduler's van gives ids to the nodes that register and runs barriers and heartbeats.  An
  application is a customer (\<^verbatim>\<open>src/customer.cc\<close>) that counts the responses to its requests; the applications are
  \<^verbatim>\<open>SimpleApp\<close>, the key-value application (\<^verbatim>\<open>include/ps/kv_app.h\<close>) and, on top of it, the tensor application
  (\<^verbatim>\<open>include/ps/af_tensor_app.h\<close>).

  \<^bold>\<open>Conventions.\<close>  A call that can fail returns \<open>ps_error + 'a\<close>: a failed \<^verbatim>\<open>PS_CHECK\<close>, a fatal log message,
  a thrown \<^verbatim>\<open>std::out_of_range\<close>, undefined behaviour, or a wait that does not end without another thread
  (\<open>Blocked\<close>) is an \<open>Inl\<close>.  Objects are records; methods are functions that return the updated record.  A C
  \<^verbatim>\<open>int\<close> is an \<open>int\<close>, with \<open>to_int32\<close> where a conversion can wrap; \<^verbatim>\<open>uint64_t\<close> is \<open>64 word\<close>.  An
  \<^verbatim>\<open>unordered_map\<close> is an association list (\<open>umap\<close>).  Messages sent, nodes connected to and work requests posted
  are logged in the state in order.  Environment variables, clocks, tensors, the handles of an
  application, the verbs library, ZeroMQ and shared memory are parameters.

  \<^bold>\<open>Theories.\<close>
  \<^item> \<open>Prelude\<close>, \<open>Bytes\<close>, \<open>Ring\<close>: result type, loops, maps, sorting, strings; object representations with the
    interface \<open>fixed_codec\<close> (constant width, round trip); index arithmetic.
  \<^item> \<open>Message\<close>, \<open>Wire\<close>: \<^verbatim>\<open>message.h\<close>, and the packed form of the metadata (\<^verbatim>\<open>meta.h\<close>, \<^verbatim>\<open>PackMeta\<close>, \<^verbatim>\<open>UnpackMeta\<close>)
    as writes to and reads from bytes at the offsets of the C structs.  Unpacking gives back what the
    format carries.
  \<^item> \<open>Env\<close>, \<open>Postoffice\<close>, \<open>Customer\<close>, \<open>Resender\<close>: \<^verbatim>\<open>env.h\<close>, the id tables, ranks, key ranges, barrier flags;
    response counting and waiting; duplicate filter and retries.
  \<^item> \<open>Van\<close>, \<open>Barriers\<close>, \<open>Membership\<close>: \<^verbatim>\<open>van.cc\<close>.  Barriers release their group exactly at the expected number of
    requests; registration gives every node its own id; the first recovery takes over the id of a dead node,
    the second one ends the scheduler.
  \<^item> \<open>SimpleApp\<close>, \<open>KV\<close>, \<open>Slicing\<close>, \<open>KVProps\<close>, \<open>KVStore\<close>: \<^verbatim>\<open>simple_app.h\<close>, \<^verbatim>\<open>kv_app.h\<close> and the arrays of \<^verbatim>\<open>sarray.h\<close>.
    Slicing loses and reorders nothing, a push reaches the owners of its keys with their values, the default handle is
    a store, the replies of a pull are put together in key order.
  \<^item> \<open>AFTensor\<close>, \<open>AFBatches\<close>, \<open>AFWorker\<close>, \<open>AFEndToEnd\<close>: \<^verbatim>\<open>af_tensor_app.h\<close>.  The server refines a
    specification with one open batch per sender and expected timestamp and acknowledges the pushes; a worker's
    batch reaches the request handle of each server once, if it has enough pulls to be complete.
  \<^item> \<open>Queues\<close>: \<^verbatim>\<open>threadsafe_queue.h\<close> and \<^verbatim>\<open>spsc_queue.h\<close>, through the interface \<open>fifo_queue\<close>, and the
    lock-free ring under every interleaving of its loads and stores.
  \<^item> \<open>HashTable\<close>, \<open>HashChains\<close>, \<open>HashIndex\<close>, \<open>HashInsert\<close>, \<open>HashErase\<close>, \<open>HashMapOps\<close>, \<open>HashRefine\<close>:
    \<^verbatim>\<open>hash_table8.hpp\<close>.  The index is a set of disjoint chains; every operation keeps it so and acts as on a
    finite map, which the interface \<open>data_refinement\<close> lifts to sequences of operations.  The size of the array of
    pairs follows the float arithmetic of \<^verbatim>\<open>rebuild\<close>; the bounds \<open>2 ^ 24\<close> on buckets and \<open>2 ^ 22\<close> on operations keep
    its rounding below the four spare pairs.
  \<^item> \<open>VanCommon\<close>, \<open>RdmaTransport\<close>, \<open>RdmaVan\<close>, \<open>RdmaProps\<close>, \<open>RdmaPush\<close>, \<open>RdmaEndToEnd\<close>: \<^verbatim>\<open>van_common.h\<close>,
    \<^verbatim>\<open>rdma_utils.h\<close>, \<^verbatim>\<open>rdma_transport.h\<close>, \<^verbatim>\<open>rdma_van.h\<close>.  The address pool, the connection of queue pairs, what
    the posted writes do to the memory of the receiver, and a push from \<^verbatim>\<open>SendMsg\<close> through the rendezvous to the
    receiver's \<^verbatim>\<open>RecvMsg\<close>.
  \<^item> \<open>IpcTransport\<close>: the transport over shared memory of \<^verbatim>\<open>rdma_transport.h\<close>.  Keys have disjoint places within
    their objects, and the copy threads do what the synchronous path does.
  \<^item> \<open>ZmqVan\<close>, \<open>MultiVan\<close>: \<^verbatim>\<open>zmq_van.h\<close> and \<^verbatim>\<open>multi_van.h\<close>.  A message arrives as it was sent, over one socket pair
    or over the child vans of a multi van, for whatever interruptions and empty polls.
  \<^item> \<open>PsApi\<close>: \<^verbatim>\<open>ps.h\<close>.  Which instances of a process are started, up to the start of their vans, and ended.

  \<^bold>\<open>Loops and fuel.\<close>  Loops over data are structural.  \<^verbatim>\<open>WaitRequest\<close> polls a given sequence of clock readings.
  The probing and chain walks of the hash map have fuel, the number of buckets; on a well-formed index it is
  shown never to run out.

  \<^bold>\<open>Not modelled.\<close>  The UCX, libfabric and Tensorpipe vans and the network queries are thin layers over
  libraries that are not part of the repository; backends, logging, Python bindings, tests and scripts have no
  behaviour of their own to state.  Memory ordering weaker than sequential consistency and memory
  ownership are outside the model.
\<close>

end
